(* ===== verification/Prelude.thy ===== *)
theory Prelude
  imports Complex_Main "HOL-Library.Char_ord" "HOL-Library.List_Lexorder"
begin

text \<open>
  Shared vocabulary of the development: identifiers and time, Python values and the
  parts of the built-in types the code uses (truthiness, \<open>dict.get\<close>, canonical JSON),
  results that may be an exception, and the generic list and map lemmas the components
  share. Identifiers (\<open>uuid\<close>) are numbers, a moment (\<open>datetime\<close>) is the number of
  seconds since a fixed epoch as a rational number, so that a float delay and a clock
  reading add without rounding.
\<close>

section \<open>Identifiers, time and results\<close>

type_synonym uuid = nat
type_synonym datetime = rat
type_synonym seconds = rat

text \<open>A computation that may raise: \<open>raise e\<close> or \<open>ret v\<close>.\<close>

abbreviation raise :: "'e \<Rightarrow> 'e + 'a" where "raise \<equiv> Inl"
abbreviation ret :: "'a \<Rightarrow> 'e + 'a" where "ret \<equiv> Inr"

fun is_ret :: "'e + 'a \<Rightarrow> bool" where
  "is_ret (Inl _) = False"
| "is_ret (Inr _) = True"

named_theorems op_defs \<open>definitions of the operations of a component\<close>
named_theorems inv_defs \<open>definitions of the invariants of a component\<close>
named_theorems frame \<open>what an operation leaves unchanged\<close>

lemma sum_case_ret [simp]: "(case x of Inl e \<Rightarrow> Inl e | Inr v \<Rightarrow> Inr v) = x"
  by (cases x) simp_all

section \<open>Python values\<close>

datatype pyval =
    PNone
  | PBool bool
  | PInt int
  | PStr string
  | PList "pyval list"
  | PDict "(string \<times> pyval) list"

text \<open>\<open>bool(value)\<close>.\<close>

fun truthy :: "pyval \<Rightarrow> bool" where
  "truthy PNone = False"
| "truthy (PBool b) = b"
| "truthy (PInt n) = (n \<noteq> 0)"
| "truthy (PStr s) = (s \<noteq> [])"
| "truthy (PList xs) = (xs \<noteq> [])"
| "truthy (PDict kvs) = (kvs \<noteq> [])"

type_synonym pydict = "(string \<times> pyval) list"

text \<open>\<open>d.get(k)\<close>, with \<open>None\<close> for a missing key.\<close>

definition dict_get :: "pydict \<Rightarrow> string \<Rightarrow> pyval" where
  "dict_get d k = (case map_of d k of None \<Rightarrow> PNone | Some v \<Rightarrow> v)"

definition dict_keys :: "pydict \<Rightarrow> string list" where
  "dict_keys d = map fst d"

text \<open>
  \<open>json.dumps(value, sort_keys=True)\<close> up to the rendering of characters: the value with
  the keys of every dictionary in it in ascending order.
\<close>

fun canonical :: "pyval \<Rightarrow> pyval" where
  "canonical (PList xs) = PList (map canonical xs)"
| "canonical (PDict kvs) = PDict (sort_key fst (map (\<lambda>(k, v). (k, canonical v)) kvs))"
| "canonical v = v"

text \<open>Two dictionaries with the same entries in another order have one canonical form.\<close>

lemma sort_key_unique:
  fixes xs ys :: "('k::linorder \<times> 'v) list"
  assumes "distinct (map fst xs)" and "set xs = set ys" and "length xs = length ys"
  shows "sort_key fst xs = sort_key fst ys"
proof -
  from assms(1) have dx: "distinct xs" by (simp add: distinct_map)
  with assms(2,3) have dy: "distinct ys" by (metis card_distinct distinct_card)
  have inj: "inj_on fst (set xs)" using assms(1) by (simp add: distinct_map)
  show ?thesis
  proof (rule map_sorted_distinct_set_unique [where f = fst])
    show "inj_on fst (set (sort_key fst xs) \<union> set (sort_key fst ys))"
      using inj assms(2) by simp
    show "distinct (map fst (sort_key fst xs))"
      using assms(1) by (simp add: distinct_map)
    show "distinct (map fst (sort_key fst ys))"
      using inj assms(2) dy by (simp add: distinct_map)
    show "set (sort_key fst xs) = set (sort_key fst ys)" using assms(2) by simp
  qed simp_all
qed

lemma canonical_dict_perm:
  assumes "distinct (map fst d)" and "set d = set d'" and "length d = length d'"
  shows "canonical (PDict d) = canonical (PDict d')"
proof -
  let ?f = "\<lambda>(k, v). (k, canonical v)"
  have keys: "map fst (map ?f d) = map fst d" by (simp add: split_beta comp_def)
  have "sort_key fst (map ?f d) = sort_key fst (map ?f d')"
    by (rule sort_key_unique) (use assms keys in \<open>simp_all del: map_map\<close>)
  then show ?thesis by simp
qed

section \<open>Lists and maps\<close>

lemma filter_length_le_Suc: "length (filter P (xs @ [x])) \<le> Suc (length (filter P xs))"
  by simp

text \<open>The first element of a list with a property: \<open>next((x for x in xs if p(x)), None)\<close>.\<close>

definition find_first :: "('a \<Rightarrow> bool) \<Rightarrow> 'a list \<Rightarrow> 'a option" where
  "find_first p xs = List.find p xs"

lemma find_first_Some:
  "find_first p xs = Some x \<Longrightarrow> x \<in> set xs \<and> p x"
  by (auto simp: find_first_def find_Some_iff)

lemma find_first_None: "find_first p xs = None \<longleftrightarrow> (\<forall>x \<in> set xs. \<not> p x)"
  by (auto simp: find_first_def find_None_iff)

text \<open>Removing the leading and trailing characters \<open>str.strip()\<close> removes (ASCII white space).\<close>

definition is_space :: "char \<Rightarrow> bool" where
  "is_space c \<longleftrightarrow> c \<in> {CHR 0x09, CHR 0x0A, CHR 0x0B, CHR 0x0C, CHR 0x0D, CHR '' '',
                       CHR 0x1C, CHR 0x1D, CHR 0x1E, CHR 0x1F}"

definition strip :: "string \<Rightarrow> string" where
  "strip s = rev (dropWhile is_space (rev (dropWhile is_space s)))"

lemma strip_length: "length (strip s) \<le> length s"
  unfolding strip_def
  by (metis length_dropWhile_le length_rev order_trans)

lemma dropWhile_idem' [simp]: "dropWhile p (dropWhile p xs) = dropWhile p xs"
  by (induction xs) auto

lemma dropWhile_rev_dropWhile:
  "dropWhile p (rev (dropWhile p (rev (dropWhile p xs)))) = rev (dropWhile p (rev (dropWhile p xs)))"
proof (cases "rev (dropWhile p (rev (dropWhile p xs)))")
  case (Cons y ys)
  let ?zs = "dropWhile p xs"
  have ne: "?zs \<noteq> []"
  proof
    assume "?zs = []"
    with Cons show False by simp
  qed
  have "\<exists>us. ?zs = rev (dropWhile p (rev ?zs)) @ us"
    by (metis rev_append rev_rev_ident takeWhile_dropWhile_id)
  with Cons obtain us where "?zs = (y # ys) @ us" by metis
  then have y: "hd ?zs = y" by simp
  have "\<not> p (hd ?zs)" by (rule hd_dropWhile [OF ne])
  with y have "\<not> p y" by simp
  then show ?thesis unfolding Cons by simp
next
  case Nil
  then show ?thesis by (simp only: dropWhile.simps)
qed

lemma strip_strip [simp]: "strip (strip s) = strip s"
  unfolding strip_def by (simp add: dropWhile_rev_dropWhile)

text \<open>\<open>str.lower()\<close> on ASCII letters; other characters stay.\<close>

definition lower_char :: "char \<Rightarrow> char" where
  "lower_char c =
     (if CHR ''A'' \<le> c \<and> c \<le> CHR ''Z'' then char_of (of_char c + 32 :: nat) else c)"

definition lower :: "string \<Rightarrow> string" where
  "lower s = map lower_char s"

end
