(* ===== verification/Taxonomy.thy ===== *)
theory Taxonomy
  imports Prelude
begin

text \<open>
  The error taxonomy (\<open>personalos/domain/errors.py\<close> and the classes other layers derive
  from it): error codes, failure classes, the class hierarchy, and the class attributes
  \<open>code\<close>, \<open>http_status\<close>, \<open>retryable\<close> and \<open>failure_class\<close>. An attribute is looked up
  the way Python does: a class that does not set it inherits its parent's value, so each
  attribute is a table of what the classes set themselves and a walk up the hierarchy.
  Classes that also derive from \<open>ValueError\<close> list it second, and it sets none of these
  attributes; the hierarchy below is the one that decides them.
\<close>

section \<open>Codes and classes\<close>

datatype error_code =
  VALIDATION | NOT_FOUND | POLICY_DENIED | APPROVAL_REQUIRED | IDEMPOTENCY_CONFLICT
| CONFLICT | TOOL_FAILURE | RETRYABLE | INTERNAL

datatype failure_class =
  MODEL_TRANSIENT | MODEL_SEMANTIC | PROVIDER_TRANSIENT | PROVIDER_PERMANENT | CONCURRENCY
| PARTIAL_SIDE_EFFECT | POLICY_DENIAL | HUMAN_TIMEOUT | UNCLASSIFIED

text \<open>
  The exception classes: first those of \<open>domain/errors.py\<close>, then the policy layer's, then
  those the persistence, tool and file layers derive from them.
\<close>

datatype err_class =
  PersonalOSError
| ValidationFailed | NotFound | PolicyDeniedError | ApprovalRequiredError
| IdempotencyConflict | Conflict | ToolFailure | RetryableFailure
| ModelTransientFailure | ModelSemanticFailure | ProviderPermanentFailure
| PartialSideEffect | PortNotConfigured | HumanTimeout | InternalError
| PolicyError | PolicyDenied | ApprovalRequired | PolicyViolation | InvalidApproval
| ToolExecutionError
| IdempotencyError | IdempotencyKeyReused | OperationInProgress | InvalidIdempotencyKey
| WorkflowLeaseUnavailable | WorkflowLeaseLost
| InvalidApplicationTransition | ApplicationTransitionConflict
| PathNotAllowed | StaleWrite
| UnregisteredWorkflowThread | ApprovalHashMismatch | ApprovalExpired | ApprovalAlreadyDecided
| DuplicateWorkflowCommand | DocumentReadRefused | UnsupportedRouteDomain | TransitionEffectMismatch
| InvalidEventCursor | InvalidWorkflowIdentity | InvalidCredentialRef | CredentialNotFound
| CredentialExchangeFailed | CredentialRevoked | InvalidEvidenceLinkage | InvalidEventEnvelope
| JobSearchContractError | CheckpointContractError | InvalidTaskDAG | ProviderUnavailable
| NothingToResume | AmbiguousWorkflowResume

fun parent :: "err_class \<Rightarrow> err_class option" where
  "parent PersonalOSError = None"
| "parent ModelTransientFailure = Some RetryableFailure"
| "parent ModelSemanticFailure = Some ValidationFailed"
| "parent PolicyDenied = Some PolicyError"
| "parent ApprovalRequired = Some PolicyError"
| "parent PolicyViolation = Some PolicyError"
| "parent InvalidApproval = Some PolicyError"
| "parent ToolExecutionError = Some ToolFailure"
| "parent IdempotencyKeyReused = Some IdempotencyError"
| "parent OperationInProgress = Some IdempotencyError"
| "parent InvalidIdempotencyKey = Some ValidationFailed"
| "parent InvalidApplicationTransition = Some ValidationFailed"
| "parent ApplicationTransitionConflict = Some RetryableFailure"
| "parent PathNotAllowed = Some PolicyDeniedError"
| "parent StaleWrite = Some ValidationFailed"
| "parent UnregisteredWorkflowThread = Some ValidationFailed"
| "parent ApprovalHashMismatch = Some Conflict"
| "parent ApprovalExpired = Some Conflict"
| "parent ApprovalAlreadyDecided = Some Conflict"
| "parent DuplicateWorkflowCommand = Some Conflict"
| "parent DocumentReadRefused = Some PolicyDeniedError"
| "parent UnsupportedRouteDomain = Some ValidationFailed"
| "parent TransitionEffectMismatch = Some ValidationFailed"
| "parent InvalidEventCursor = Some ValidationFailed"
| "parent InvalidWorkflowIdentity = Some ValidationFailed"
| "parent InvalidCredentialRef = Some ValidationFailed"
| "parent CredentialNotFound = Some NotFound"
| "parent CredentialExchangeFailed = Some RetryableFailure"
| "parent CredentialRevoked = Some ValidationFailed"
| "parent InvalidEvidenceLinkage = Some ValidationFailed"
| "parent InvalidEventEnvelope = Some ValidationFailed"
| "parent JobSearchContractError = Some ValidationFailed"
| "parent CheckpointContractError = Some ValidationFailed"
| "parent InvalidTaskDAG = Some ValidationFailed"
| "parent ProviderUnavailable = Some ToolFailure"
| "parent _ = Some PersonalOSError"

fun class_depth :: "err_class \<Rightarrow> nat" where
  "class_depth PersonalOSError = 0"
| "class_depth c = (if parent c = Some PersonalOSError then 1 else 2)"

lemma parent_depth: "parent c = Some p \<Longrightarrow> class_depth p < class_depth c"
  by (cases c) auto

text \<open>The classes an instance belongs to, nearest first: the method resolution order.\<close>

function mro :: "err_class \<Rightarrow> err_class list" where
  "mro c = c # (case parent c of None \<Rightarrow> [] | Some p \<Rightarrow> mro p)"
  by pat_completeness auto
termination
  by (relation "measure class_depth") (auto dest: parent_depth)

declare mro.simps [simp del]

definition isinstance_of :: "err_class \<Rightarrow> err_class \<Rightarrow> bool" where
  "isinstance_of c d \<longleftrightarrow> d \<in> set (mro c)"

lemma mro_root [simp]: "mro PersonalOSError = [PersonalOSError]"
  by (subst mro.simps) simp

lemma mro_step: "parent c = Some p \<Longrightarrow> mro c = c # mro p"
  by (subst mro.simps) simp

lemma mro_self [simp]: "c \<in> set (mro c)"
  by (subst mro.simps) simp

lemma mro_has_root: "PersonalOSError \<in> set (mro c)"
proof (induction c rule: mro.induct)
  case (1 c)
  show ?case
  proof (cases "parent c")
    case None
    then have "c = PersonalOSError" by (cases c) auto
    then show ?thesis by simp
  next
    case (Some p)
    with 1 show ?thesis by (simp add: mro_step)
  qed
qed

section \<open>Class attributes\<close>

text \<open>What each class sets in its own body; \<open>None\<close> where it sets nothing.\<close>

fun own_code :: "err_class \<Rightarrow> error_code option" where
  "own_code PersonalOSError = Some INTERNAL"
| "own_code ValidationFailed = Some VALIDATION"
| "own_code NotFound = Some NOT_FOUND"
| "own_code PolicyDeniedError = Some POLICY_DENIED"
| "own_code ApprovalRequiredError = Some APPROVAL_REQUIRED"
| "own_code IdempotencyConflict = Some IDEMPOTENCY_CONFLICT"
| "own_code Conflict = Some CONFLICT"
| "own_code ToolFailure = Some TOOL_FAILURE"
| "own_code RetryableFailure = Some RETRYABLE"
| "own_code ProviderPermanentFailure = Some TOOL_FAILURE"
| "own_code PartialSideEffect = Some TOOL_FAILURE"
| "own_code PortNotConfigured = Some TOOL_FAILURE"
| "own_code HumanTimeout = Some CONFLICT"
| "own_code InternalError = Some INTERNAL"
| "own_code PolicyDenied = Some POLICY_DENIED"
| "own_code ApprovalRequired = Some APPROVAL_REQUIRED"
| "own_code InvalidApproval = Some VALIDATION"
| "own_code IdempotencyError = Some IDEMPOTENCY_CONFLICT"
| "own_code OperationInProgress = Some RETRYABLE"
| "own_code WorkflowLeaseUnavailable = Some RETRYABLE"
| "own_code WorkflowLeaseLost = Some IDEMPOTENCY_CONFLICT"
| "own_code NothingToResume = Some VALIDATION"
| "own_code AmbiguousWorkflowResume = Some VALIDATION"
| "own_code _ = None"

fun own_http_status :: "err_class \<Rightarrow> int option" where
  "own_http_status PersonalOSError = Some 500"
| "own_http_status ValidationFailed = Some 422"
| "own_http_status NotFound = Some 404"
| "own_http_status PolicyDeniedError = Some 403"
| "own_http_status ApprovalRequiredError = Some 428"
| "own_http_status IdempotencyConflict = Some 409"
| "own_http_status Conflict = Some 409"
| "own_http_status ToolFailure = Some 502"
| "own_http_status RetryableFailure = Some 409"
| "own_http_status ProviderPermanentFailure = Some 502"
| "own_http_status PartialSideEffect = Some 502"
| "own_http_status PortNotConfigured = Some 503"
| "own_http_status HumanTimeout = Some 409"
| "own_http_status InternalError = Some 500"
| "own_http_status PolicyDenied = Some 403"
| "own_http_status ApprovalRequired = Some 428"
| "own_http_status InvalidApproval = Some 400"
| "own_http_status IdempotencyError = Some 409"
| "own_http_status WorkflowLeaseUnavailable = Some 409"
| "own_http_status WorkflowLeaseLost = Some 409"
| "own_http_status StaleWrite = Some 409"
| "own_http_status NothingToResume = Some 409"
| "own_http_status AmbiguousWorkflowResume = Some 409"
| "own_http_status _ = None"

fun own_retryable :: "err_class \<Rightarrow> bool option" where
  "own_retryable PersonalOSError = Some False"
| "own_retryable ToolFailure = Some True"
| "own_retryable RetryableFailure = Some True"
| "own_retryable PolicyError = Some False"
| "own_retryable OperationInProgress = Some True"
| "own_retryable WorkflowLeaseUnavailable = Some True"
| "own_retryable _ = None"

text \<open>
  \<open>failure_class\<close> is itself optional in the source, and the root sets it to \<open>None\<close>: the
  outer option says whether the class sets it, the inner one what it sets.
\<close>

fun own_failure_class :: "err_class \<Rightarrow> failure_class option option" where
  "own_failure_class PersonalOSError = Some None"
| "own_failure_class PolicyDeniedError = Some (Some POLICY_DENIAL)"
| "own_failure_class ApprovalRequiredError = Some (Some POLICY_DENIAL)"
| "own_failure_class IdempotencyConflict = Some (Some CONCURRENCY)"
| "own_failure_class Conflict = Some (Some CONCURRENCY)"
| "own_failure_class ToolFailure = Some (Some PROVIDER_TRANSIENT)"
| "own_failure_class ModelTransientFailure = Some (Some MODEL_TRANSIENT)"
| "own_failure_class ModelSemanticFailure = Some (Some MODEL_SEMANTIC)"
| "own_failure_class ProviderPermanentFailure = Some (Some PROVIDER_PERMANENT)"
| "own_failure_class PartialSideEffect = Some (Some PARTIAL_SIDE_EFFECT)"
| "own_failure_class PortNotConfigured = Some (Some PROVIDER_TRANSIENT)"
| "own_failure_class HumanTimeout = Some (Some HUMAN_TIMEOUT)"
| "own_failure_class PolicyError = Some (Some POLICY_DENIAL)"
| "own_failure_class WorkflowLeaseUnavailable = Some (Some CONCURRENCY)"
| "own_failure_class WorkflowLeaseLost = Some (Some CONCURRENCY)"
| "own_failure_class ApplicationTransitionConflict = Some (Some CONCURRENCY)"
| "own_failure_class CredentialExchangeFailed = Some (Some PROVIDER_TRANSIENT)"
| "own_failure_class CredentialRevoked = Some (Some PROVIDER_PERMANENT)"
| "own_failure_class _ = None"

text \<open>Attribute lookup: the first class of the resolution order that sets it.\<close>

definition resolve :: "(err_class \<Rightarrow> 'a option) \<Rightarrow> err_class list \<Rightarrow> 'a option" where
  "resolve own cs = (case find_first (\<lambda>c. own c \<noteq> None) cs of None \<Rightarrow> None | Some c \<Rightarrow> own c)"

lemma resolve_Nil [simp]: "resolve own [] = None"
  by (simp add: resolve_def find_first_def)

lemma resolve_Cons [simp]:
  "resolve own (c # cs) = (case own c of None \<Rightarrow> resolve own cs | Some v \<Rightarrow> Some v)"
  by (simp add: resolve_def find_first_def split: option.splits)

definition code_of :: "err_class \<Rightarrow> error_code" where
  "code_of c = (case resolve own_code (mro c) of Some e \<Rightarrow> e | None \<Rightarrow> INTERNAL)"

definition http_status_of :: "err_class \<Rightarrow> int" where
  "http_status_of c = (case resolve own_http_status (mro c) of Some n \<Rightarrow> n | None \<Rightarrow> 500)"

definition retryable_of :: "err_class \<Rightarrow> bool" where
  "retryable_of c = (case resolve own_retryable (mro c) of Some b \<Rightarrow> b | None \<Rightarrow> False)"

definition failure_class_of :: "err_class \<Rightarrow> failure_class option" where
  "failure_class_of c = (case resolve own_failure_class (mro c) of Some f \<Rightarrow> f | None \<Rightarrow> None)"

text \<open>Every attribute is set at the root, so lookup always finds a value.\<close>

lemma resolve_defined_iff: "resolve own cs \<noteq> None \<longleftrightarrow> (\<exists>c\<in>set cs. own c \<noteq> None)"
  by (induction cs) (auto split: option.splits)

lemma resolve_mro_defined: "own PersonalOSError \<noteq> None \<Longrightarrow> resolve own (mro c) \<noteq> None"
  using mro_has_root [of c] unfolding resolve_defined_iff by blast

text \<open>The resolution order of every class, for evaluation.\<close>

lemma mro_all [simp]:
  "mro ValidationFailed = [ValidationFailed, PersonalOSError]"
  "mro NotFound = [NotFound, PersonalOSError]"
  "mro PolicyDeniedError = [PolicyDeniedError, PersonalOSError]"
  "mro ApprovalRequiredError = [ApprovalRequiredError, PersonalOSError]"
  "mro IdempotencyConflict = [IdempotencyConflict, PersonalOSError]"
  "mro Conflict = [Conflict, PersonalOSError]"
  "mro ToolFailure = [ToolFailure, PersonalOSError]"
  "mro RetryableFailure = [RetryableFailure, PersonalOSError]"
  "mro ModelTransientFailure = [ModelTransientFailure, RetryableFailure, PersonalOSError]"
  "mro ModelSemanticFailure = [ModelSemanticFailure, ValidationFailed, PersonalOSError]"
  "mro ProviderPermanentFailure = [ProviderPermanentFailure, PersonalOSError]"
  "mro PartialSideEffect = [PartialSideEffect, PersonalOSError]"
  "mro PortNotConfigured = [PortNotConfigured, PersonalOSError]"
  "mro HumanTimeout = [HumanTimeout, PersonalOSError]"
  "mro InternalError = [InternalError, PersonalOSError]"
  "mro PolicyError = [PolicyError, PersonalOSError]"
  "mro PolicyDenied = [PolicyDenied, PolicyError, PersonalOSError]"
  "mro ApprovalRequired = [ApprovalRequired, PolicyError, PersonalOSError]"
  "mro PolicyViolation = [PolicyViolation, PolicyError, PersonalOSError]"
  "mro InvalidApproval = [InvalidApproval, PolicyError, PersonalOSError]"
  "mro ToolExecutionError = [ToolExecutionError, ToolFailure, PersonalOSError]"
  "mro IdempotencyError = [IdempotencyError, PersonalOSError]"
  "mro IdempotencyKeyReused = [IdempotencyKeyReused, IdempotencyError, PersonalOSError]"
  "mro OperationInProgress = [OperationInProgress, IdempotencyError, PersonalOSError]"
  "mro InvalidIdempotencyKey = [InvalidIdempotencyKey, ValidationFailed, PersonalOSError]"
  "mro WorkflowLeaseUnavailable = [WorkflowLeaseUnavailable, PersonalOSError]"
  "mro WorkflowLeaseLost = [WorkflowLeaseLost, PersonalOSError]"
  "mro InvalidApplicationTransition =
     [InvalidApplicationTransition, ValidationFailed, PersonalOSError]"
  "mro ApplicationTransitionConflict =
     [ApplicationTransitionConflict, RetryableFailure, PersonalOSError]"
  "mro PathNotAllowed = [PathNotAllowed, PolicyDeniedError, PersonalOSError]"
  "mro StaleWrite = [StaleWrite, ValidationFailed, PersonalOSError]"
  "mro UnregisteredWorkflowThread = [UnregisteredWorkflowThread, ValidationFailed, PersonalOSError]"
  "mro ApprovalHashMismatch = [ApprovalHashMismatch, Conflict, PersonalOSError]"
  "mro ApprovalExpired = [ApprovalExpired, Conflict, PersonalOSError]"
  "mro ApprovalAlreadyDecided = [ApprovalAlreadyDecided, Conflict, PersonalOSError]"
  "mro DuplicateWorkflowCommand = [DuplicateWorkflowCommand, Conflict, PersonalOSError]"
  "mro DocumentReadRefused = [DocumentReadRefused, PolicyDeniedError, PersonalOSError]"
  "mro UnsupportedRouteDomain = [UnsupportedRouteDomain, ValidationFailed, PersonalOSError]"
  "mro TransitionEffectMismatch = [TransitionEffectMismatch, ValidationFailed, PersonalOSError]"
  "mro InvalidEventCursor = [InvalidEventCursor, ValidationFailed, PersonalOSError]"
  "mro InvalidWorkflowIdentity = [InvalidWorkflowIdentity, ValidationFailed, PersonalOSError]"
  "mro InvalidCredentialRef = [InvalidCredentialRef, ValidationFailed, PersonalOSError]"
  "mro CredentialNotFound = [CredentialNotFound, NotFound, PersonalOSError]"
  "mro CredentialExchangeFailed = [CredentialExchangeFailed, RetryableFailure, PersonalOSError]"
  "mro CredentialRevoked = [CredentialRevoked, ValidationFailed, PersonalOSError]"
  "mro InvalidEvidenceLinkage = [InvalidEvidenceLinkage, ValidationFailed, PersonalOSError]"
  "mro InvalidEventEnvelope = [InvalidEventEnvelope, ValidationFailed, PersonalOSError]"
  "mro JobSearchContractError = [JobSearchContractError, ValidationFailed, PersonalOSError]"
  "mro CheckpointContractError = [CheckpointContractError, ValidationFailed, PersonalOSError]"
  "mro InvalidTaskDAG = [InvalidTaskDAG, ValidationFailed, PersonalOSError]"
  "mro ProviderUnavailable = [ProviderUnavailable, ToolFailure, PersonalOSError]"
  "mro NothingToResume = [NothingToResume, PersonalOSError]"
  "mro AmbiguousWorkflowResume = [AmbiguousWorkflowResume, PersonalOSError]"
  by (simp_all add: mro_step)

section \<open>Raised exceptions\<close>

text \<open>
  A live exception: an instance of a taxonomy class, or of a class outside it (\<open>PY\<close>, by
  the name of its class). Both carry \<open>str(error)\<close> and the \<open>retry_after\<close> attribute, in
  seconds, when the raiser set one.
\<close>

datatype exn =
  POS (exn_class: err_class) (exn_text: string) (exn_retry_after: "seconds option")
| PY (exn_type: string) (exn_text: string) (exn_retry_after: "seconds option")

text \<open>What pydantic raises when a validator of a model raised a \<open>ValueError\<close>.\<close>

definition validation_error :: "string \<Rightarrow> exn" where
  "validation_error msg = PY ''ValidationError'' msg None"

fun isinstance :: "exn \<Rightarrow> err_class \<Rightarrow> bool" where
  "isinstance (POS c _ _) d = isinstance_of c d"
| "isinstance (PY _ _ _) _ = False"

text \<open>
  Which classes are worth an automatic retry: the tool and transient failures, a busy
  operation, a held lease, and nothing that is a policy outcome or a validation failure.
\<close>

lemma retryable_classes:
  "retryable_of c \<longleftrightarrow>
     c \<in> {ToolFailure, RetryableFailure, ModelTransientFailure, ToolExecutionError,
          OperationInProgress, WorkflowLeaseUnavailable, ApplicationTransitionConflict,
          CredentialExchangeFailed, ProviderUnavailable}"
  by (cases c) (simp_all add: retryable_of_def)

lemma policy_error_classes:
  "isinstance_of c PolicyError \<longleftrightarrow>
     c \<in> {PolicyError, PolicyDenied, ApprovalRequired, PolicyViolation, InvalidApproval}"
  by (cases c) (simp_all add: isinstance_of_def)

lemma validation_classes:
  "isinstance_of c ValidationFailed \<longleftrightarrow>
     c \<in> {ValidationFailed, ModelSemanticFailure, InvalidIdempotencyKey,
          InvalidApplicationTransition, StaleWrite, UnregisteredWorkflowThread,
          UnsupportedRouteDomain, TransitionEffectMismatch, InvalidEventCursor,
          InvalidWorkflowIdentity, InvalidCredentialRef, CredentialRevoked,
          InvalidEvidenceLinkage, InvalidEventEnvelope, JobSearchContractError,
          CheckpointContractError, InvalidTaskDAG}"
  by (cases c) (simp_all add: isinstance_of_def)

text \<open>
  The taxonomy is coherent. No policy outcome and no validation failure is marked
  retryable, and every policy outcome is in the failure class that offers no retry.
\<close>

theorem taxonomy_coherent:
  "(isinstance_of c PolicyError \<longrightarrow> \<not> retryable_of c \<and> failure_class_of c = Some POLICY_DENIAL)
   \<and> (isinstance_of c ValidationFailed \<longrightarrow> \<not> retryable_of c)
   \<and> (retryable_of c \<longrightarrow> code_of c \<in> {TOOL_FAILURE, RETRYABLE})"
  by (cases c)
    (simp_all add: isinstance_of_def retryable_of_def failure_class_of_def code_of_def)

theorem taxonomy_coherent_witness:
  "isinstance_of PolicyDenied PolicyError \<and> \<not> retryable_of PolicyDenied
   \<and> failure_class_of PolicyDenied = Some POLICY_DENIAL"
proof -
  have "isinstance_of PolicyDenied PolicyError" by (simp add: isinstance_of_def)
  with taxonomy_coherent [of PolicyDenied] show ?thesis by blast
qed

end
