(* ===== verification/Intents.thy ===== *)
theory Intents
  imports Taxonomy
begin

text \<open>
  Intents and permission classes (\<open>personalos/policy/intents.py\<close>,
  \<open>personalos/policy/permissions.py\<close>, \<open>personalos/domain/context.py\<close>): a proposed tool
  call, the verdict on it, the human grant bound to its fingerprint, the policy-cleared
  intent that can only be minted, and the table that gives each tool its permission class.
  SHA-256 of the rendered JSON is the parameter \<open>sha\<close>, a function of the canonical value.
  Human-readable reasons are kept as the template they are printed from, with the values
  the template interpolates; time stamps no decision reads are left out.
\<close>

section \<open>Intents and verdicts\<close>

datatype origin = SYSTEM | USER | LLM

datatype decision = ALLOW | DENY | REQUIRE_APPROVAL

record execution_context =
  ctx_workflow_id :: uuid
  ctx_run_id :: uuid
  ctx_correlation_id :: uuid
  ctx_actor_id :: string

record tool_intent =
  intent_id :: uuid
  server :: string
  tool :: string
  arguments :: pydict
  origin :: origin
  mutating :: bool
  requested_by :: string
  ctx :: execution_context

definition tool_ref :: "tool_intent \<Rightarrow> string" where
  "tool_ref i = server i @ ''.'' @ tool i"

definition fingerprint_intent ::
  "(pyval \<Rightarrow> string) \<Rightarrow> string \<Rightarrow> string \<Rightarrow> pydict \<Rightarrow> string" where
  "fingerprint_intent sha srv t args =
     sha (canonical (PDict [(''server'', PStr srv), (''tool'', PStr t), (''arguments'', PDict args)]))"

text \<open>What the hash is taken of: the call an intent describes, in canonical form.\<close>

definition intent_payload :: "tool_intent \<Rightarrow> pyval" where
  "intent_payload i =
     canonical (PDict [(''server'', PStr (server i)), (''tool'', PStr (tool i)),
                       (''arguments'', PDict (arguments i))])"

definition fingerprint :: "(pyval \<Rightarrow> string) \<Rightarrow> tool_intent \<Rightarrow> string" where
  "fingerprint sha i = fingerprint_intent sha (server i) (tool i) (arguments i)"

datatype permission_class =
  READ_LOCAL | READ_EXTERNAL | WRITE_REVERSIBLE | WRITE_EXTERNAL | DESTRUCTIVE | SENSITIVE

text \<open>The reason templates of the rules and of the engine, in the order they occur.\<close>

datatype reason =
  IntentWithoutProvenance
| NotOnAllowlist string
| Allowlisted string
| UnexpectedArguments string "string list"
| MutatingNeedsKey string
| AutoApproved string
| MutatingNeedsApproval string
| MutatingFromUntrusted origin
| RequiresPrecondition string string
| ReplacesDocument string
| GuardedReplaces string string
| NoRuleAllowed string decision
| ActionWithoutProvenance
| NoPermissionClass string
| ScopesNotGrantable string "string list"
| NeverDelegated string permission_class
| ClassOutcome string permission_class "origin option"

record policy_decision =
  pd_intent_id :: uuid
  pd_tool_ref :: string
  pd_decision :: decision
  pd_rule :: string
  pd_reason :: reason
  pd_record_id :: "uuid option"

record approval_grant =
  ag_intent_id :: uuid
  ag_intent_fingerprint :: string
  ag_approved_by :: string

definition grant_matches :: "(pyval \<Rightarrow> string) \<Rightarrow> approval_grant \<Rightarrow> tool_intent \<Rightarrow> bool" where
  "grant_matches sha g i \<longleftrightarrow>
     ag_intent_id g = intent_id i \<and> ag_intent_fingerprint g = fingerprint sha i"

section \<open>Cleared intents\<close>

datatype policy_error =
  EPolicyDenied policy_decision
| EApprovalRequired policy_decision
| EInvalidApproval
| EPolicyViolation
| EPort exn

fun policy_error_class :: "policy_error \<Rightarrow> err_class option" where
  "policy_error_class (EPolicyDenied _) = Some PolicyDenied"
| "policy_error_class (EApprovalRequired _) = Some ApprovalRequired"
| "policy_error_class EInvalidApproval = Some InvalidApproval"
| "policy_error_class EPolicyViolation = Some PolicyViolation"
| "policy_error_class (EPort e) = (case e of POS c _ _ \<Rightarrow> Some c | PY _ _ _ \<Rightarrow> None)"

record approved_intent =
  ai_intent :: tool_intent
  ai_decision :: policy_decision
  ai_approval :: "approval_grant option"

text \<open>
  \<open>ApprovedIntent.__init__\<close>: \<open>minted\<close> says whether the caller passed the module's mint
  token, which only \<open>mint_approved_intent\<close> holds.
\<close>

definition ApprovedIntent_init ::
  "bool \<Rightarrow> tool_intent \<Rightarrow> policy_decision \<Rightarrow> approval_grant option \<Rightarrow>
   policy_error + approved_intent" where
  "ApprovedIntent_init minted i d a =
     (if \<not> minted then raise EPolicyViolation
      else ret \<lparr>ai_intent = i, ai_decision = d, ai_approval = a\<rparr>)"

definition mint_approved_intent ::
  "(pyval \<Rightarrow> string) \<Rightarrow> tool_intent \<Rightarrow> policy_decision \<Rightarrow> approval_grant option \<Rightarrow>
   policy_error + approved_intent" where
  "mint_approved_intent sha i d a =
     (if pd_intent_id d \<noteq> intent_id i then raise EInvalidApproval
      else if pd_decision d = DENY then raise EPolicyViolation
      else if pd_decision d = REQUIRE_APPROVAL
      then (case a of
              None \<Rightarrow> raise EInvalidApproval
            | Some g \<Rightarrow> if \<not> grant_matches sha g i then raise EInvalidApproval
                        else ApprovedIntent_init True i d a)
      else ApprovedIntent_init True i d a)"

section \<open>Permission classes\<close>

definition WRITE_CLASSES :: "permission_class set" where
  "WRITE_CLASSES = {WRITE_REVERSIBLE, WRITE_EXTERNAL, DESTRUCTIVE, SENSITIVE}"

fun DEFAULT_CLASS_OUTCOMES :: "permission_class \<Rightarrow> decision" where
  "DEFAULT_CLASS_OUTCOMES READ_LOCAL = ALLOW"
| "DEFAULT_CLASS_OUTCOMES READ_EXTERNAL = ALLOW"
| "DEFAULT_CLASS_OUTCOMES WRITE_REVERSIBLE = ALLOW"
| "DEFAULT_CLASS_OUTCOMES WRITE_EXTERNAL = REQUIRE_APPROVAL"
| "DEFAULT_CLASS_OUTCOMES DESTRUCTIVE = REQUIRE_APPROVAL"
| "DEFAULT_CLASS_OUTCOMES SENSITIVE = DENY"

fun strictness :: "decision \<Rightarrow> nat" where
  "strictness ALLOW = 0"
| "strictness REQUIRE_APPROVAL = 1"
| "strictness DENY = 2"

definition strictest :: "decision \<Rightarrow> decision \<Rightarrow> decision" where
  "strictest first second = (if strictness first \<ge> strictness second then first else second)"

text \<open>The strictness order makes decisions a linear order, and \<open>strictest\<close> its maximum.\<close>

instantiation decision :: linorder
begin

definition less_eq_decision :: "decision \<Rightarrow> decision \<Rightarrow> bool" where
  "less_eq_decision a b \<longleftrightarrow> strictness a \<le> strictness b"

definition less_decision :: "decision \<Rightarrow> decision \<Rightarrow> bool" where
  "less_decision a b \<longleftrightarrow> strictness a < strictness b"

instance
proof
  fix a b :: decision
  show "a \<le> b \<Longrightarrow> b \<le> a \<Longrightarrow> a = b"
    unfolding less_eq_decision_def by (cases a; cases b) auto
qed (auto simp: less_eq_decision_def less_decision_def)

end

lemma strictest_max: "strictest a b = max a b"
  unfolding strictest_def max_def less_eq_decision_def
  by (cases a; cases b) auto

lemma decision_order [simp]:
  "ALLOW \<le> d" "d \<le> DENY" "ALLOW < REQUIRE_APPROVAL" "REQUIRE_APPROVAL < DENY" "ALLOW < DENY"
  by (cases d; simp add: less_eq_decision_def less_decision_def)+

lemma decision_le_iff [simp]:
  "d \<le> ALLOW \<longleftrightarrow> d = ALLOW" "DENY \<le> d \<longleftrightarrow> d = DENY"
  by (cases d; simp add: less_eq_decision_def)+

lemma decision_approval_le [simp]:
  "REQUIRE_APPROVAL \<le> d \<longleftrightarrow> d \<noteq> ALLOW" "d \<le> REQUIRE_APPROVAL \<longleftrightarrow> d \<noteq> DENY"
  by (cases d; simp add: less_eq_decision_def)+

lemma max_eq_ALLOW [simp]: "max a b = ALLOW \<longleftrightarrow> a = ALLOW \<and> b = ALLOW" for a b :: decision
  by (cases a; cases b; simp add: max_def less_eq_decision_def)

lemma max_eq_DENY [simp]: "max a b = DENY \<longleftrightarrow> a = DENY \<or> b = DENY" for a b :: decision
  by (cases a; cases b; simp add: max_def less_eq_decision_def)

record provenance =
  pv_origin :: origin
  pv_requested_by :: string

definition attributed :: "string \<Rightarrow> bool" where
  "attributed who \<longleftrightarrow> who \<noteq> [] \<and> who \<noteq> ''unknown''"

record tool_permission =
  tp_class :: permission_class
  tp_scopes :: "string list"

abbreviation permission :: "permission_class \<Rightarrow> string list \<Rightarrow> tool_permission" where
  "permission c ss \<equiv> \<lparr>tp_class = c, tp_scopes = ss\<rparr>"

definition DEFAULT_TOOL_PERMISSIONS :: "(string \<times> tool_permission) list" where
  "DEFAULT_TOOL_PERMISSIONS =
   [(''jobs.filter_jobs'', permission READ_LOCAL [''jobs:read'']),
    (''files.read_file'', permission READ_LOCAL [''artifacts:read'']),
    (''jobs.search_jobs'', permission READ_EXTERNAL [''jobs:read'']),
    (''jobs.scrape_job_details'', permission READ_EXTERNAL [''jobs:read'']),
    (''job_providers.search'', permission READ_EXTERNAL [''jobs:read'']),
    (''job_providers.get_job'', permission READ_EXTERNAL [''jobs:read'']),
    (''google.gmail_read_message'', permission READ_EXTERNAL [''communications:read'']),
    (''google.calendar_list_events'', permission READ_EXTERNAL [''calendar:read'']),
    (''jobs.save_favorite_job'', permission WRITE_REVERSIBLE [''jobs:write'']),
    (''google.gmail_create_draft'', permission WRITE_REVERSIBLE [''communications:draft'']),
    (''google.calendar_create_tentative_block'', permission WRITE_REVERSIBLE [''calendar:draft'']),
    (''files.write_file'', permission WRITE_REVERSIBLE [''artifacts:write'']),
    (''artifacts.create_draft'', permission WRITE_REVERSIBLE [''artifacts:draft'']),
    (''google.gmail_send_message'', permission WRITE_EXTERNAL [''communications:send'']),
    (''google.calendar_create_event'', permission WRITE_EXTERNAL [''calendar:write'']),
    (''google.calendar_update_event'', permission WRITE_EXTERNAL [''calendar:write'']),
    (''jobs.submit_application'',
       permission WRITE_EXTERNAL [''applications:submit'', ''artifacts:read'']),
    (''files.delete_file'', permission DESTRUCTIVE [''artifacts:delete'']),
    (''files.overwrite_document'', permission DESTRUCTIVE [''artifacts:write'']),
    (''google.update_credentials'', permission SENSITIVE [''credentials:write'']),
    (''google.change_permissions'', permission SENSITIVE [''permissions:write''])]"

section \<open>What minting and grants guarantee\<close>

lemma fingerprint_key_order:
  assumes "distinct (dict_keys d)" and "set d = set d'" and "length d = length d'"
  shows "fingerprint_intent sha s t d = fingerprint_intent sha s t d'"
  using canonical_dict_perm [of d d'] assms
  by (simp add: fingerprint_intent_def dict_keys_def)

lemma fingerprint_payload: "fingerprint sha i = sha (intent_payload i)"
  by (simp add: fingerprint_def fingerprint_intent_def intent_payload_def)

text \<open>
  Equal fingerprints under a hash that does not collide on the two payloads mean the same
  call: the same server, tool and (up to key order) arguments.
\<close>

lemma fingerprint_inj:
  assumes eq: "fingerprint sha i = fingerprint sha j"
    and inj: "sha (intent_payload i) = sha (intent_payload j) \<Longrightarrow>
              intent_payload i = intent_payload j"
  shows "server i = server j \<and> tool i = tool j
         \<and> canonical (PDict (arguments i)) = canonical (PDict (arguments j))"
proof -
  let ?p = "\<lambda>s t a. [(''server'', PStr s), (''tool'', PStr t), (''arguments'', a)]"
  have srt: "sort_key fst (?p s t a)
             = [(''arguments'', a), (''server'', PStr s), (''tool'', PStr t)]" for s t a
    by (simp add: less_char_def)
  have "intent_payload i = intent_payload j"
    using eq inj by (simp add: fingerprint_payload)
  then have "sort_key fst (?p (server i) (tool i) (canonical (PDict (arguments i))))
           = sort_key fst (?p (server j) (tool j) (canonical (PDict (arguments j))))"
    by (simp add: intent_payload_def)
  then show ?thesis unfolding srt by simp
qed

lemma mint_cases:
  assumes "mint_approved_intent sha i d a = ret ap"
  shows "ai_intent ap = i \<and> ai_decision ap = d \<and> ai_approval ap = a
         \<and> pd_intent_id d = intent_id i \<and> pd_decision d \<noteq> DENY
         \<and> (pd_decision d = REQUIRE_APPROVAL \<longrightarrow> (\<exists>g. a = Some g \<and> grant_matches sha g i))"
  using assms
  by (auto simp: mint_approved_intent_def ApprovedIntent_init_def split: if_splits option.splits)

text \<open>
  Nothing outside the mint can fabricate a cleared intent, and the mint refuses a denied
  intent, a decision about another intent, and a required approval that is missing or was
  granted for a different call.
\<close>

theorem mint_sound:
  "ApprovedIntent_init False i d a = raise EPolicyViolation
   \<and> (mint_approved_intent sha i d a = ret ap \<longleftrightarrow>
        ap = \<lparr>ai_intent = i, ai_decision = d, ai_approval = a\<rparr>
        \<and> pd_intent_id d = intent_id i
        \<and> (pd_decision d = ALLOW
           \<or> (pd_decision d = REQUIRE_APPROVAL \<and> (\<exists>g. a = Some g \<and> grant_matches sha g i))))"
  by (cases "pd_decision d")
    (auto simp: mint_approved_intent_def ApprovedIntent_init_def split: option.splits)

section \<open>Sample values for the witnesses\<close>

definition ex_context :: execution_context where
  "ex_context = \<lparr>ctx_workflow_id = 1, ctx_run_id = 2, ctx_correlation_id = 3,
                 ctx_actor_id = ''ada''\<rparr>"

definition ex_read :: tool_intent where
  "ex_read = \<lparr>intent_id = 10, server = ''files'', tool = ''read_file'',
     arguments = [(''path'', PStr ''cv'')], origin = SYSTEM, mutating = False,
     requested_by = ''graph'', ctx = ex_context\<rparr>"

definition ex_write :: tool_intent where
  "ex_write = ex_read\<lparr>tool := ''overwrite_document'', origin := LLM, mutating := True,
     arguments := [(''path'', PStr ''cv''), (''expected_sha256'', PStr ''ab''),
                   (''idempotency_key'', PStr ''k-1'')]\<rparr>"

definition ex_grant :: approval_grant where
  "ex_grant = \<lparr>ag_intent_id = 10, ag_intent_fingerprint = ''h'', ag_approved_by = ''ada''\<rparr>"

lemmas ex_defs = ex_context_def ex_read_def ex_write_def ex_grant_def

lemma ex_refs [simp]:
  "tool_ref ex_read = ''files.read_file''" "tool_ref ex_write = ''files.overwrite_document''"
  by (simp_all add: tool_ref_def ex_defs)

lemma ex_fingerprint [simp]: "fingerprint (\<lambda>_. h) i = h"
  by (simp add: fingerprint_def fingerprint_intent_def)

end
