(* ===== verification/Rules.thy ===== *)
theory Rules
  imports Intents
begin

text \<open>
  The policy rules (\<open>personalos/policy/rules.py\<close>). A rule is a function of the intent that
  answers with a decision or abstains; the constructors of the rule classes become the
  arguments of the definitions. \<open>rule_chain\<close> is the contract the engine relies on: a
  decision a rule returns is about the intent it was given and has not been recorded.
\<close>

section \<open>The rules\<close>

type_synonym rule = "tool_intent \<Rightarrow> policy_decision option"

definition IDEMPOTENCY_KEY_ARG :: string where
  "IDEMPOTENCY_KEY_ARG = ''idempotency_key''"

definition decide :: "string \<Rightarrow> tool_intent \<Rightarrow> decision \<Rightarrow> reason \<Rightarrow> policy_decision" where
  "decide name i d why =
     \<lparr>pd_intent_id = intent_id i, pd_tool_ref = tool_ref i, pd_decision = d,
      pd_rule = name, pd_reason = why, pd_record_id = None\<rparr>"

definition RequireProvenanceRule :: rule where
  "RequireProvenanceRule i =
     (if requested_by i = [] \<or> requested_by i = ''unknown''
      then Some (decide ''require_provenance'' i DENY IntentWithoutProvenance) else None)"

definition ToolAllowlistRule :: "string set \<Rightarrow> rule" where
  "ToolAllowlistRule allowed i =
     (if tool_ref i \<notin> allowed
      then Some (decide ''tool_allowlist'' i DENY (NotOnAllowlist (tool_ref i)))
      else Some (decide ''tool_allowlist'' i ALLOW (Allowlisted (tool_ref i))))"

definition ArgumentAllowlistRule :: "(string \<rightharpoonup> string set) \<Rightarrow> rule" where
  "ArgumentAllowlistRule declared i =
     (case map_option (insert IDEMPOTENCY_KEY_ARG) (declared (tool_ref i)) of
        None \<Rightarrow> None
      | Some allowed \<Rightarrow>
          let unexpected = sort (remdups (filter (\<lambda>k. k \<notin> allowed) (dict_keys (arguments i))))
          in if unexpected \<noteq> []
             then Some (decide ''argument_allowlist'' i DENY
                          (UnexpectedArguments (tool_ref i) unexpected))
             else None)"

definition MutatingToolRule :: "string set \<Rightarrow> rule" where
  "MutatingToolRule auto_approved i =
     (if \<not> mutating i then None
      else if \<not> truthy (dict_get (arguments i) IDEMPOTENCY_KEY_ARG)
      then Some (decide ''mutating_tool'' i DENY (MutatingNeedsKey (tool_ref i)))
      else if tool_ref i \<in> auto_approved
      then Some (decide ''mutating_tool'' i ALLOW (AutoApproved (tool_ref i)))
      else Some (decide ''mutating_tool'' i REQUIRE_APPROVAL (MutatingNeedsApproval (tool_ref i))))"

definition UntrustedOriginRule :: "origin set \<Rightarrow> rule" where
  "UntrustedOriginRule untrusted i =
     (if origin i \<notin> untrusted then None
      else if mutating i
      then Some (decide ''untrusted_origin'' i REQUIRE_APPROVAL (MutatingFromUntrusted (origin i)))
      else None)"

definition DocumentOverwriteRule :: "string set \<Rightarrow> string set \<Rightarrow> string \<Rightarrow> rule" where
  "DocumentOverwriteRule overwrite_tools guarded_write_tools precondition_arg i =
     (let precondition = dict_get (arguments i) precondition_arg in
      if tool_ref i \<in> overwrite_tools
      then if \<not> truthy precondition
           then Some (decide ''document_overwrite'' i DENY
                        (RequiresPrecondition (tool_ref i) precondition_arg))
           else Some (decide ''document_overwrite'' i REQUIRE_APPROVAL
                        (ReplacesDocument (tool_ref i)))
      else if tool_ref i \<in> guarded_write_tools \<and> truthy precondition
      then Some (decide ''document_overwrite'' i REQUIRE_APPROVAL
                   (GuardedReplaces (tool_ref i) precondition_arg))
      else None)"

definition JOB_SEARCH_TOOL_ARGUMENTS :: "(string \<times> string set) list" where
  "JOB_SEARCH_TOOL_ARGUMENTS =
   [(''jobs.search_jobs'', {''keywords'', ''locations'', ''job_type'', ''limit''}),
    (''jobs.scrape_job_details'', {''job_id'', ''job_url''}),
    (''jobs.filter_jobs'',
       {''jobs'', ''salary_min'', ''salary_max'', ''experience_level'', ''remote_only''}),
    (''jobs.save_favorite_job'', {''job_id'', ''notes''})]"

definition JOB_PROVIDER_TOOL_ARGUMENTS :: "(string \<times> string set) list" where
  "JOB_PROVIDER_TOOL_ARGUMENTS =
   [(''job_providers.search'', {''provider'', ''profile''}),
    (''job_providers.get_job'', {''provider'', ''source_job_id''})]"

definition FILE_TOOL_ARGUMENTS :: "(string \<times> string set) list" where
  "FILE_TOOL_ARGUMENTS =
   [(''files.read_file'', {''path''}),
    (''files.write_file'', {''path'', ''content'', ''encoding'', ''expected_sha256''}),
    (''files.overwrite_document'', {''path'', ''content'', ''encoding'', ''expected_sha256''})]"

definition default_tool_arguments :: "(string \<times> string set) list" where
  "default_tool_arguments =
     JOB_SEARCH_TOOL_ARGUMENTS @ JOB_PROVIDER_TOOL_ARGUMENTS @ FILE_TOOL_ARGUMENTS"

definition default_rules :: "rule list" where
  "default_rules =
   [RequireProvenanceRule,
    ToolAllowlistRule (set (map fst default_tool_arguments)),
    ArgumentAllowlistRule (map_of default_tool_arguments),
    MutatingToolRule {},
    DocumentOverwriteRule {''files.overwrite_document''} {''files.write_file''} ''expected_sha256'',
    UntrustedOriginRule {LLM}]"

lemmas rule_defs =
  RequireProvenanceRule_def ToolAllowlistRule_def ArgumentAllowlistRule_def
  MutatingToolRule_def UntrustedOriginRule_def DocumentOverwriteRule_def

lemma decide_simps [simp]:
  "pd_intent_id (decide n i d w) = intent_id i"
  "pd_tool_ref (decide n i d w) = tool_ref i"
  "pd_decision (decide n i d w) = d"
  "pd_rule (decide n i d w) = n"
  "pd_record_id (decide n i d w) = None"
  by (simp_all add: decide_def)

section \<open>The contract of a rule chain\<close>

definition about_intent :: "tool_intent \<Rightarrow> policy_decision \<Rightarrow> bool" where
  "about_intent i d \<longleftrightarrow>
     pd_intent_id d = intent_id i \<and> pd_tool_ref d = tool_ref i \<and> pd_record_id d = None"

lemma about_decide [simp]: "about_intent i (decide n i d w)"
  by (simp add: about_intent_def)

definition opinions :: "rule list \<Rightarrow> tool_intent \<Rightarrow> policy_decision list" where
  "opinions rs i = List.map_filter (\<lambda>r. r i) rs"

lemma opinions_Nil [simp]: "opinions [] i = []"
  by (simp add: opinions_def List.map_filter_def)

lemma opinions_Cons [simp]:
  "opinions (r # rs) i = (case r i of None \<Rightarrow> opinions rs i | Some d \<Rightarrow> d # opinions rs i)"
  by (simp add: opinions_def List.map_filter_def split: option.splits)

lemma opinions_append [simp]: "opinions (rs @ rs') i = opinions rs i @ opinions rs' i"
  by (simp add: opinions_def List.map_filter_def)

lemma set_opinions: "d \<in> set (opinions rs i) \<longleftrightarrow> (\<exists>r \<in> set rs. r i = Some d)"
  by (induction rs) (auto split: option.splits)

text \<open>
  The loop of \<open>PolicyEngine._evaluate_rules\<close> over the chain, with the two slots it keeps:
  the first demand for approval and the first allow. It stops at the first denial.
\<close>

fun evaluate_loop ::
  "rule list \<Rightarrow> tool_intent \<Rightarrow> policy_decision option \<Rightarrow> policy_decision option \<Rightarrow>
   policy_decision option" where
  "evaluate_loop [] i escalation approval =
     (if escalation \<noteq> None then escalation else approval)"
| "evaluate_loop (r # rs) i escalation approval =
     (case r i of
        None \<Rightarrow> evaluate_loop rs i escalation approval
      | Some d \<Rightarrow>
          if pd_decision d = DENY then Some d
          else if pd_decision d = REQUIRE_APPROVAL \<and> escalation = None
          then evaluate_loop rs i (Some d) approval
          else if pd_decision d = ALLOW \<and> approval = None
          then evaluate_loop rs i escalation (Some d)
          else evaluate_loop rs i escalation approval)"

definition evaluate_rules :: "rule list \<Rightarrow> decision \<Rightarrow> tool_intent \<Rightarrow> policy_decision" where
  "evaluate_rules rs dflt i =
     (case evaluate_loop rs i None None of
        Some d \<Rightarrow> d
      | None \<Rightarrow> decide ''default'' i dflt (NoRuleAllowed (tool_ref i) dflt))"

text \<open>The strictest of a list of verdicts, \<open>ALLOW\<close> for none.\<close>

fun strictest_of :: "decision list \<Rightarrow> decision" where
  "strictest_of [] = ALLOW"
| "strictest_of (d # ds) = max d (strictest_of ds)"

lemma max_ALLOW [simp]: "max ALLOW d = d" "max d ALLOW = d" for d :: decision
  by (simp_all add: max_absorb1 max_absorb2)

lemma strictest_of_append: "strictest_of (ds @ es) = max (strictest_of ds) (strictest_of es)"
  by (induction ds) (simp_all add: max.assoc)

lemma strictest_of_ge: "d \<in> set ds \<Longrightarrow> d \<le> strictest_of ds"
  by (induction ds) (auto simp: le_max_iff_disj)

lemma strictest_of_in: "ds \<noteq> [] \<Longrightarrow> strictest_of ds \<in> set ds"
proof (induction ds)
  case (Cons d ds)
  then show ?case by (cases "ds = []") (auto simp: max_def)
qed simp

text \<open>The slots hold what their names say.\<close>

definition slot_ok :: "decision \<Rightarrow> policy_decision option \<Rightarrow> bool" where
  "slot_ok d s \<longleftrightarrow> (\<forall>p. s = Some p \<longrightarrow> pd_decision p = d)"

definition slots_verdict ::
  "policy_decision option \<Rightarrow> policy_decision option \<Rightarrow> decision list" where
  "slots_verdict escalation approval =
     (if escalation \<noteq> None then [REQUIRE_APPROVAL] else []) @ (if approval \<noteq> None then [ALLOW] else [])"

lemma evaluate_loop_some:
  "(evaluate_loop rs i e a = None) \<longleftrightarrow> (opinions rs i = [] \<and> e = None \<and> a = None)"
proof (induction rs arbitrary: e a)
  case (Cons r rs)
  show ?case
  proof (cases "r i")
    case (Some d)
    then show ?thesis
      by (cases "pd_decision d") (simp_all add: Cons.IH del: not_None_eq)
  qed (simp add: Cons.IH)
qed auto

lemma evaluate_loop_decision:
  assumes "slot_ok REQUIRE_APPROVAL e" and "slot_ok ALLOW a"
    and "evaluate_loop rs i e a = Some p"
  shows "pd_decision p = strictest_of (slots_verdict e a @ map pd_decision (opinions rs i))"
  using assms
proof (induction rs arbitrary: e a)
  case Nil
  then show ?case
    by (auto simp: slot_ok_def slots_verdict_def max_def split: if_splits)
next
  case (Cons r rs)
  show ?case
  proof (cases "r i")
    case None
    with Cons show ?thesis by simp
  next
    case (Some d)
    then show ?thesis
    proof (cases "pd_decision d")
      case DENY
      with Some Cons.prems show ?thesis
        by (simp add: strictest_of_append max_def)
    next
      case ALLOW
      show ?thesis
      proof (cases a)
        case None
        with Some ALLOW Cons.prems
        have "evaluate_loop rs i e (Some d) = Some p" and "slot_ok ALLOW (Some d)"
          by (auto simp: slot_ok_def)
        from Cons.IH [OF Cons.prems(1) this(2,1)] show ?thesis
          using Some ALLOW None by (simp add: slots_verdict_def max_def)
      next
        case (Some a')
        with \<open>r i = Some d\<close> ALLOW Cons.prems have "evaluate_loop rs i e a = Some p" by simp
        from Cons.IH [OF Cons.prems(1,2) this] show ?thesis
          using Some \<open>r i = Some d\<close> ALLOW by (simp add: slots_verdict_def max_def)
      qed
    next
      case REQUIRE_APPROVAL
      show ?thesis
      proof (cases e)
        case None
        with Some REQUIRE_APPROVAL Cons.prems
        have "evaluate_loop rs i (Some d) a = Some p" and "slot_ok REQUIRE_APPROVAL (Some d)"
          by (auto simp: slot_ok_def)
        from Cons.IH [OF this(2) Cons.prems(2) this(1)] show ?thesis
          using Some REQUIRE_APPROVAL None by (simp add: slots_verdict_def max_def)
      next
        case (Some e')
        with \<open>r i = Some d\<close> REQUIRE_APPROVAL Cons.prems
        have "evaluate_loop rs i e a = Some p" by simp
        from Cons.IH [OF Cons.prems(1,2) this] show ?thesis
          using Some \<open>r i = Some d\<close> REQUIRE_APPROVAL
          by (auto simp: slots_verdict_def max_def)
      qed
    qed
  qed
qed

lemma evaluate_loop_origin:
  assumes "evaluate_loop rs i e a = Some p"
  shows "e = Some p \<or> a = Some p \<or> p \<in> set (opinions rs i)"
  using assms
proof (induction rs arbitrary: e a)
  case (Cons r rs)
  show ?case
  proof (cases "r i")
    case (Some d)
    with Cons.prems show ?thesis
      by (auto split: if_splits dest!: Cons.IH)
  qed (use Cons in auto)
qed (auto split: if_splits)

text \<open>
  The chain's verdict is the strictest opinion any rule holds, wherever that rule
  stands, and the default where every rule abstains.
\<close>

theorem chain_verdict_is_strictest:
  "pd_decision (evaluate_rules rs dflt i)
   = (if opinions rs i = [] then dflt else strictest_of (map pd_decision (opinions rs i)))"
proof (cases "evaluate_loop rs i None None")
  case None
  then have "opinions rs i = []" by (simp add: evaluate_loop_some)
  with None show ?thesis by (simp add: evaluate_rules_def)
next
  case (Some p)
  then have "opinions rs i \<noteq> []"
    using evaluate_loop_some [of rs i None None] by auto
  moreover have "pd_decision p = strictest_of (map pd_decision (opinions rs i))"
    using evaluate_loop_decision [OF _ _ Some]
    by (simp add: slot_ok_def slots_verdict_def)
  ultimately show ?thesis using Some by (simp add: evaluate_rules_def)
qed

lemma chain_verdict:
  "opinions rs i \<noteq> [] \<Longrightarrow>
   pd_decision (evaluate_rules rs dflt i) = strictest_of (map pd_decision (opinions rs i))"
proof -
  assume ne: "opinions rs i \<noteq> []"
  then obtain p where p: "evaluate_loop rs i None None = Some p"
    using evaluate_loop_some [of rs i None None] by auto
  then show ?thesis
    using evaluate_loop_decision [OF _ _ p]
    by (simp add: slot_ok_def slots_verdict_def evaluate_rules_def)
qed

text \<open>
  Adding a rule anywhere in a chain that already has an opinion can only tighten the
  verdict.
\<close>

theorem adding_a_rule_tightens:
  assumes "opinions (rs @ rs') i \<noteq> []"
  shows "pd_decision (evaluate_rules (rs @ rs') dflt i)
         \<le> pd_decision (evaluate_rules (rs @ r # rs') dflt i)"
proof (cases "r i")
  case None
  then have eq: "opinions (rs @ r # rs') i = opinions (rs @ rs') i" by simp
  with assms have ne: "opinions (rs @ r # rs') i \<noteq> []" by simp
  show ?thesis by (simp only: chain_verdict [OF ne] chain_verdict [OF assms] eq order_refl)
next
  case (Some d)
  then have ne: "opinions (rs @ r # rs') i \<noteq> []" by simp
  show ?thesis
    unfolding chain_verdict [OF ne] chain_verdict [OF assms]
    using Some linear [of "strictest_of (map pd_decision (opinions rs' i))"]
    by (auto simp: strictest_of_append le_max_iff_disj)
qed

theorem adding_a_rule_tightens_witness:
  "opinions default_rules ex_read \<noteq> []
   \<and> pd_decision (evaluate_rules default_rules DENY ex_read)
     \<le> pd_decision (evaluate_rules (RequireProvenanceRule # default_rules) DENY ex_read)"
proof -
  have ne: "opinions ([] @ default_rules) ex_read \<noteq> []"
    by (auto simp: default_rules_def ToolAllowlistRule_def split: option.splits)
  from adding_a_rule_tightens [OF ne, of DENY RequireProvenanceRule] ne show ?thesis by simp
qed

text \<open>
  Where every rule abstains the verdict is the default, a denial, and a further rule that
  allows loosens it: the hypothesis of the theorem above cannot be dropped.
\<close>

lemma adding_an_allow_rule_loosens:
  "pd_decision (evaluate_rules [] DENY i) = DENY
   \<and> pd_decision (evaluate_rules [ToolAllowlistRule {tool_ref i}] DENY i) = ALLOW"
  by (simp add: evaluate_rules_def ToolAllowlistRule_def)

locale rule_chain =
  fixes rs :: "rule list"
  assumes about: "r \<in> set rs \<Longrightarrow> r i = Some d \<Longrightarrow> about_intent i d"
begin

lemma evaluate_rules_about: "about_intent i (evaluate_rules rs dflt i)"
proof (cases "evaluate_loop rs i None None")
  case None
  then show ?thesis by (simp add: evaluate_rules_def)
next
  case (Some p)
  then have "p \<in> set (opinions rs i)" using evaluate_loop_origin by blast
  then obtain r where "r \<in> set rs" and "r i = Some p" by (auto simp: set_opinions)
  with Some show ?thesis by (simp add: evaluate_rules_def about)
qed

end

lemma default_rule_about:
  assumes "r \<in> set default_rules" and "r i = Some d"
  shows "about_intent i d"
  using assms
  by (auto simp: default_rules_def rule_defs Let_def split: if_splits option.splits)

interpretation default_chain: rule_chain default_rules
  by unfold_locales (rule default_rule_about)

section \<open>The default chain\<close>

lemma sort_eq_Nil: "sort (remdups (filter P xs)) = [] \<longleftrightarrow> (\<forall>x \<in> set xs. \<not> P x)"
proof -
  have "sort ys = [] \<longleftrightarrow> ys = []" for ys :: "'a list"
    by (metis length_0_conv length_sort)
  then show ?thesis by (simp add: filter_empty_conv)
qed

lemma ArgumentAllowlistRule_denies:
  assumes "declared (tool_ref i) = Some ks" and "k \<in> set (dict_keys (arguments i))"
    and "k \<notin> insert IDEMPOTENCY_KEY_ARG ks"
  obtains d where "ArgumentAllowlistRule declared i = Some d" and "pd_decision d = DENY"
proof -
  let ?un = "sort (remdups (filter (\<lambda>k. k \<notin> insert IDEMPOTENCY_KEY_ARG ks)
                                   (dict_keys (arguments i))))"
  have "?un \<noteq> []" using assms(2,3) unfolding sort_eq_Nil by blast
  then have "ArgumentAllowlistRule declared i
        = Some (decide ''argument_allowlist'' i DENY (UnexpectedArguments (tool_ref i) ?un))"
    using assms(1) by (simp add: ArgumentAllowlistRule_def Let_def)
  then show ?thesis by (rule that) simp
qed

text \<open>What it takes for no rule of the default chain to deny.\<close>

lemma default_chain_not_denied:
  assumes "pd_decision (evaluate_rules default_rules dflt i) \<noteq> DENY"
  shows "attributed (requested_by i)"
    and "tool_ref i \<in> set (map fst default_tool_arguments)"
    and "\<And>ks k. map_of default_tool_arguments (tool_ref i) = Some ks \<Longrightarrow>
           k \<in> set (dict_keys (arguments i)) \<Longrightarrow> k \<in> insert IDEMPOTENCY_KEY_ARG ks"
    and "mutating i \<Longrightarrow> truthy (dict_get (arguments i) IDEMPOTENCY_KEY_ARG)"
    and "tool_ref i = ''files.overwrite_document'' \<Longrightarrow>
           truthy (dict_get (arguments i) ''expected_sha256'')"
proof -
  have no_deny: "pd_decision d \<noteq> DENY" if "r \<in> set default_rules" and "r i = Some d" for r d
  proof
    assume deny: "pd_decision d = DENY"
    from that have d: "d \<in> set (opinions default_rules i)" by (auto simp: set_opinions)
    then have "DENY \<le> strictest_of (map pd_decision (opinions default_rules i))"
      using deny strictest_of_ge [of DENY "map pd_decision (opinions default_rules i)"]
      by (metis image_eqI list.set_map)
    moreover from d have "opinions default_rules i \<noteq> []" by auto
    ultimately show False using assms by (simp add: chain_verdict)
  qed
  show "attributed (requested_by i)"
    using no_deny [of RequireProvenanceRule]
    by (auto simp: default_rules_def RequireProvenanceRule_def attributed_def)
  show "tool_ref i \<in> set (map fst default_tool_arguments)"
  proof (rule ccontr)
    let ?r = "ToolAllowlistRule (set (map fst default_tool_arguments))"
    let ?d = "decide ''tool_allowlist'' i DENY (NotOnAllowlist (tool_ref i))"
    assume "\<not> ?thesis"
    then have "?r i = Some ?d" unfolding ToolAllowlistRule_def by (rule if_P)
    moreover have "?r \<in> set default_rules" by (simp add: default_rules_def)
    ultimately show False using no_deny [of ?r ?d] by simp
  qed
  show "k \<in> insert IDEMPOTENCY_KEY_ARG ks"
    if "map_of default_tool_arguments (tool_ref i) = Some ks"
      and "k \<in> set (dict_keys (arguments i))" for ks k
  proof (rule ccontr)
    let ?r = "ArgumentAllowlistRule (map_of default_tool_arguments)"
    assume "k \<notin> insert IDEMPOTENCY_KEY_ARG ks"
    with that obtain d where "?r i = Some d" and "pd_decision d = DENY"
      by (rule ArgumentAllowlistRule_denies)
    moreover have "?r \<in> set default_rules" by (simp add: default_rules_def)
    ultimately show False using no_deny by blast
  qed
  show "mutating i \<Longrightarrow> truthy (dict_get (arguments i) IDEMPOTENCY_KEY_ARG)"
    using no_deny [of "MutatingToolRule {}"
        "decide ''mutating_tool'' i DENY (MutatingNeedsKey (tool_ref i))"]
    by (cases "truthy (dict_get (arguments i) IDEMPOTENCY_KEY_ARG)")
      (simp_all add: default_rules_def MutatingToolRule_def)
  show "tool_ref i = ''files.overwrite_document'' \<Longrightarrow>
          truthy (dict_get (arguments i) ''expected_sha256'')"
    using no_deny [of "DocumentOverwriteRule {''files.overwrite_document''}
                         {''files.write_file''} ''expected_sha256''"
        "decide ''document_overwrite'' i DENY (RequiresPrecondition (tool_ref i) ''expected_sha256'')"]
    by (cases "truthy (dict_get (arguments i) ''expected_sha256'')")
      (simp_all add: default_rules_def DocumentOverwriteRule_def Let_def)
qed

text \<open>An effect of a mutating intent never clears the default chain unattended.\<close>

lemma default_chain_mutating:
  assumes "mutating i"
  shows "pd_decision (evaluate_rules default_rules dflt i) \<noteq> ALLOW"
proof -
  obtain d where d: "MutatingToolRule {} i = Some d" "pd_decision d \<noteq> ALLOW"
    using assms by (cases "truthy (dict_get (arguments i) IDEMPOTENCY_KEY_ARG)")
      (auto simp: MutatingToolRule_def)
  have mem: "d \<in> set (opinions default_rules i)"
    unfolding set_opinions using d(1)
    by (intro bexI [of _ "MutatingToolRule {}"]) (simp_all add: default_rules_def)
  then have "pd_decision d \<le> strictest_of (map pd_decision (opinions default_rules i))"
    by (intro strictest_of_ge) simp
  moreover from mem have "opinions default_rules i \<noteq> []" by auto
  ultimately show ?thesis using d(2) by (auto simp: chain_verdict)
qed

end
