(* ===== verification/Engine.thy ===== *)
theory Engine
  imports Rules
begin

text \<open>
  The policy engine (\<open>personalos/policy/engine.py\<close>) and the durable decision log behind its
  port (\<open>personalos/persistence/policy_log.py\<close>). The decision log and the audit sink are
  functions on a state \<open>'w\<close> that may raise; an engine without one holds \<open>None\<close>. The
  locale \<open>decision_log\<close> is the contract of the port; the SQL log implements it.
\<close>

section \<open>The engine\<close>

record log_entry =
  le_principal :: string
  le_workflow_id :: "uuid option"
  le_tool :: string
  le_args_hash :: string
  le_decision :: decision
  le_requested_scopes :: "string list"

type_synonym 'w log_port = "log_entry \<Rightarrow> 'w \<Rightarrow> exn + (uuid option \<times> 'w)"
type_synonym 'w sink_port = "tool_intent \<Rightarrow> policy_decision \<Rightarrow> 'w \<Rightarrow> exn + 'w"

record 'w policy_engine =
  rules :: "rule list"
  default_decision :: decision
  decision_sink :: "'w sink_port option"
  decision_log :: "'w log_port option"
  tool_permissions :: "string \<rightharpoonup> tool_permission"
  class_outcomes :: "permission_class \<Rightarrow> decision"

text \<open>
  \<open>PolicyEngine.__init__\<close>: missing tables default to the module's, and the configured class
  outcomes override the default ones key by key.
\<close>

definition PolicyEngine_init ::
  "rule list option \<Rightarrow> decision \<Rightarrow> 'w sink_port option \<Rightarrow> 'w log_port option \<Rightarrow>
   (string \<rightharpoonup> tool_permission) option \<Rightarrow> (permission_class \<rightharpoonup> decision) option \<Rightarrow>
   'w policy_engine" where
  "PolicyEngine_init rs dflt snk lg perms outcomes =
     \<lparr>rules = (case rs of None \<Rightarrow> [] | Some xs \<Rightarrow> xs),
      default_decision = dflt,
      decision_sink = snk,
      decision_log = lg,
      tool_permissions = (case perms of None \<Rightarrow> map_of DEFAULT_TOOL_PERMISSIONS | Some m \<Rightarrow> m),
      class_outcomes = (\<lambda>c. case (case outcomes of None \<Rightarrow> None | Some m \<Rightarrow> m c) of
                              None \<Rightarrow> DEFAULT_CLASS_OUTCOMES c | Some d \<Rightarrow> d)\<rparr>"

definition classify ::
  "'w policy_engine \<Rightarrow> string \<Rightarrow> string list \<Rightarrow> provenance \<Rightarrow> decision \<times> string \<times> reason" where
  "classify e t scopes pv =
     (if \<not> attributed (pv_requested_by pv)
      then (DENY, ''require_provenance'', ActionWithoutProvenance)
      else case tool_permissions e t of
        None \<Rightarrow> (DENY, ''permission_class'', NoPermissionClass t)
      | Some p \<Rightarrow>
          let excess = sort (remdups (filter (\<lambda>s. s \<notin> set (tp_scopes p)) scopes)) in
          if excess \<noteq> [] then (DENY, ''requested_scopes'', ScopesNotGrantable t excess)
          else
            let c = tp_class p; untrusted = (pv_origin pv = LLM) in
            if c = SENSITIVE \<and> untrusted then (DENY, ''permission_class'', NeverDelegated t c)
            else if untrusted \<and> c \<in> WRITE_CLASSES
            then (strictest (class_outcomes e c) REQUIRE_APPROVAL, ''permission_class'',
                  ClassOutcome t c (Some (pv_origin pv)))
            else (class_outcomes e c, ''permission_class'', ClassOutcome t c None))"

definition declared_scopes :: "'w policy_engine \<Rightarrow> string \<Rightarrow> string list" where
  "declared_scopes e t =
     (case tool_permissions e t of None \<Rightarrow> [] | Some p \<Rightarrow> sort (remdups (tp_scopes p)))"

definition persist ::
  "'w policy_engine \<Rightarrow> log_entry \<Rightarrow> 'w \<Rightarrow> exn + (uuid option \<times> 'w)" where
  "persist e row w = (case decision_log e of None \<Rightarrow> ret (None, w) | Some lg \<Rightarrow> lg row w)"

text \<open>\<open>PolicyEngine.evaluate_action\<close>; \<open>fresh\<close> is the id \<open>uuid4()\<close> would draw.\<close>

definition evaluate_action ::
  "'w policy_engine \<Rightarrow> string \<Rightarrow> uuid option \<Rightarrow> string \<Rightarrow> string \<Rightarrow> string list \<Rightarrow>
   provenance \<Rightarrow> uuid option \<Rightarrow> uuid \<Rightarrow> 'w \<Rightarrow> exn + (policy_decision \<times> 'w)" where
  "evaluate_action e who wid t args_hash scopes pv action_id fresh w =
     (case classify e t scopes pv of (d, rule, why) \<Rightarrow>
        case persist e \<lparr>le_principal = who, le_workflow_id = wid, le_tool = t,
               le_args_hash = args_hash, le_decision = d, le_requested_scopes = scopes\<rparr> w of
          Inl err \<Rightarrow> raise err
        | Inr (rid, w') \<Rightarrow>
            ret (\<lparr>pd_intent_id = (case action_id of None \<Rightarrow> fresh | Some a \<Rightarrow> a),
                  pd_tool_ref = t, pd_decision = d, pd_rule = rule, pd_reason = why,
                  pd_record_id = rid\<rparr>, w'))"

text \<open>\<open>PolicyEngine.evaluate\<close>: the outcome of the same recorded verdict.\<close>

definition evaluate ::
  "'w policy_engine \<Rightarrow> string \<Rightarrow> uuid option \<Rightarrow> string \<Rightarrow> string \<Rightarrow> string list \<Rightarrow>
   provenance \<Rightarrow> uuid \<Rightarrow> 'w \<Rightarrow> exn + (decision \<times> 'w)" where
  "evaluate e who wid t args_hash scopes pv fresh w =
     (case evaluate_action e who wid t args_hash scopes pv None fresh w of
        Inl err \<Rightarrow> raise err | Inr (d, w') \<Rightarrow> ret (pd_decision d, w'))"

definition record_verdict ::
  "(pyval \<Rightarrow> string) \<Rightarrow> 'w policy_engine \<Rightarrow> tool_intent \<Rightarrow> policy_decision \<Rightarrow> 'w \<Rightarrow>
   exn + (policy_decision \<times> 'w)" where
  "record_verdict sha e i d w =
     (case persist e \<lparr>le_principal = ctx_actor_id (ctx i),
             le_workflow_id = Some (ctx_workflow_id (ctx i)), le_tool = tool_ref i,
             le_args_hash = fingerprint sha i, le_decision = pd_decision d,
             le_requested_scopes = declared_scopes e (tool_ref i)\<rparr> w of
        Inl err \<Rightarrow> raise err
      | Inr (rid, w') \<Rightarrow>
          let d' = d\<lparr>pd_record_id := rid\<rparr> in
          (case decision_sink e of
             None \<Rightarrow> ret (d', w')
           | Some snk \<Rightarrow> (case snk i d' w' of Inl err \<Rightarrow> raise err | Inr w'' \<Rightarrow> ret (d', w''))))"

text \<open>The verdict \<open>evaluate_intent\<close> reaches before it is recorded.\<close>

definition intent_verdict :: "'w policy_engine \<Rightarrow> tool_intent \<Rightarrow> policy_decision" where
  "intent_verdict e i =
     (let d = evaluate_rules (rules e) (default_decision e) i in
      case classify e (tool_ref i) (declared_scopes e (tool_ref i))
             \<lparr>pv_origin = origin i, pv_requested_by = requested_by i\<rparr> of
        (cd, crule, creason) \<Rightarrow>
          if strictest (pd_decision d) cd \<noteq> pd_decision d
          then \<lparr>pd_intent_id = intent_id i, pd_tool_ref = tool_ref i, pd_decision = cd,
                pd_rule = crule, pd_reason = creason, pd_record_id = None\<rparr>
          else d)"

definition evaluate_intent ::
  "(pyval \<Rightarrow> string) \<Rightarrow> 'w policy_engine \<Rightarrow> tool_intent \<Rightarrow> 'w \<Rightarrow>
   exn + (policy_decision \<times> 'w)" where
  "evaluate_intent sha e i w = record_verdict sha e i (intent_verdict e i) w"

text \<open>
  \<open>PolicyEngine.authorize\<close>. The state comes back on the error branches too: a denial has
  been written to the log by the time it is raised.
\<close>

definition authorize ::
  "(pyval \<Rightarrow> string) \<Rightarrow> 'w policy_engine \<Rightarrow> tool_intent \<Rightarrow> approval_grant option \<Rightarrow> 'w \<Rightarrow>
   (policy_error + approved_intent) \<times> 'w" where
  "authorize sha e i grant w =
     (case evaluate_intent sha e i w of
        Inl err \<Rightarrow> (raise (EPort err), w)
      | Inr (d, w') \<Rightarrow>
          if pd_decision d = DENY then (raise (EPolicyDenied d), w')
          else if pd_decision d = REQUIRE_APPROVAL
                  \<and> (case grant of None \<Rightarrow> True | Some g \<Rightarrow> \<not> grant_matches sha g i)
          then (raise (EApprovalRequired d), w')
          else (mint_approved_intent sha i d grant, w'))"

definition default_policy_engine ::
  "'w sink_port option \<Rightarrow> 'w log_port option \<Rightarrow> 'w policy_engine" where
  "default_policy_engine snk lg = PolicyEngine_init (Some default_rules) DENY snk lg None None"

section \<open>The SQL decision log\<close>

text \<open>
  \<open>policy_decisions\<close> as the rows with their ids, and the ids of the registered workflows the
  foreign key refers to. A row whose workflow is not registered is stored unlinked.
\<close>

record policy_db =
  pdb_rows :: "(uuid \<times> log_entry) list"
  pdb_workflows :: "uuid list"
  pdb_next_id :: uuid

definition SqlPolicyDecisionLog_record :: "policy_db log_port" where
  "SqlPolicyDecisionLog_record row db =
     (let linked = (case le_workflow_id row of
                      None \<Rightarrow> None
                    | Some wid \<Rightarrow> if wid \<in> set (pdb_workflows db) then Some wid else None);
          rid = pdb_next_id db
      in ret (Some rid,
              db\<lparr>pdb_rows := pdb_rows db @ [(rid, row\<lparr>le_workflow_id := linked\<rparr>)],
                 pdb_next_id := Suc rid\<rparr>))"

section \<open>Verdicts\<close>

lemma about_record_verdict:
  assumes "record_verdict sha e i d w = ret (d', w')"
  shows "\<exists>rid. d' = d\<lparr>pd_record_id := rid\<rparr>"
  using assms by (auto simp: record_verdict_def Let_def split: sum.splits option.splits)

lemma evaluate_intent_decision:
  "evaluate_intent sha e i w = ret (d, w') \<Longrightarrow> pd_decision d = pd_decision (intent_verdict e i)"
  by (auto simp: evaluate_intent_def dest!: about_record_verdict)

definition class_decision :: "'w policy_engine \<Rightarrow> tool_intent \<Rightarrow> decision" where
  "class_decision e i =
     fst (classify e (tool_ref i) (declared_scopes e (tool_ref i))
            \<lparr>pv_origin = origin i, pv_requested_by = requested_by i\<rparr>)"

lemma intent_verdict_decision:
  "pd_decision (intent_verdict e i)
   = max (pd_decision (evaluate_rules (rules e) (default_decision e) i)) (class_decision e i)"
  by (auto simp: intent_verdict_def Let_def class_decision_def strictest_max max_def
      split: prod.splits if_splits)

text \<open>
  C29: the verdict on an intent is the stricter of what the rule chain says and what the
  tool's permission class says, so neither can loosen the other.
\<close>

theorem intent_verdict_is_stricter_of_both:
  assumes "evaluate_intent sha e i w = ret (d, w')"
  shows "pd_decision d
         = strictest (pd_decision (evaluate_rules (rules e) (default_decision e) i))
                     (fst (classify e (tool_ref i) (declared_scopes e (tool_ref i))
                             \<lparr>pv_origin = origin i, pv_requested_by = requested_by i\<rparr>))"
  using evaluate_intent_decision [OF assms]
  by (simp add: intent_verdict_decision class_decision_def strictest_max)

section \<open>The contract of the decision log\<close>

locale decision_log_port =
  fixes lg :: "'w log_port" and rows :: "'w \<Rightarrow> (uuid \<times> log_entry) list"
  assumes durable: "lg row w = ret (rid, w') \<Longrightarrow>
    \<exists>n row'. rid = Some n \<and> (n, row') \<in> set (rows w')
            \<and> le_decision row' = le_decision row \<and> le_tool row' = le_tool row
            \<and> le_args_hash row' = le_args_hash row \<and> le_principal row' = le_principal row"
begin

lemma action_recorded:
  assumes "decision_log e = Some lg"
    and "evaluate_action e who wid t h scopes pv aid fresh w = ret (d, w')"
  shows "\<exists>n row. pd_record_id d = Some n \<and> (n, row) \<in> set (rows w')
           \<and> le_decision row = pd_decision d \<and> le_tool row = t \<and> le_args_hash row = h
           \<and> le_principal row = who"
  using assms
  by (fastforce simp: evaluate_action_def persist_def split: prod.splits sum.splits dest: durable)

lemma intent_recorded:
  assumes "decision_log e = Some lg" and "decision_sink e = None"
    and "evaluate_intent sha e i w = ret (d, w')"
  shows "\<exists>n row. pd_record_id d = Some n \<and> (n, row) \<in> set (rows w')
           \<and> le_decision row = pd_decision d \<and> le_tool row = tool_ref i
           \<and> le_args_hash row = fingerprint sha i \<and> le_principal row = ctx_actor_id (ctx i)"
  using assms
  by (fastforce simp: evaluate_intent_def record_verdict_def persist_def Let_def
      split: prod.splits sum.splits dest: durable)

end

interpretation sql_log: decision_log_port SqlPolicyDecisionLog_record pdb_rows
  by unfold_locales (auto simp: SqlPolicyDecisionLog_record_def Let_def)

section \<open>Authorization\<close>

text \<open>
  With the SQL log wired, whatever \<open>authorize\<close> answers for an intent, a policy outcome
  (a denial, a demand for approval, a cleared intent) cites a row already in
  \<open>policy_decisions\<close> with the same verdict, tool, fingerprint and principal.
\<close>

theorem outcome_is_recorded_first:
  assumes eng: "decision_log e = Some SqlPolicyDecisionLog_record" "decision_sink e = None"
    and run: "authorize sha e i grant db = (r, db')"
    and out: "r = raise (EPolicyDenied d) \<or> r = raise (EApprovalRequired d)
              \<or> (\<exists>ap. r = ret ap \<and> ai_decision ap = d)"
  shows "\<exists>n row. pd_record_id d = Some n \<and> (n, row) \<in> set (pdb_rows db')
           \<and> le_decision row = pd_decision d \<and> le_tool row = tool_ref i
           \<and> le_args_hash row = fingerprint sha i \<and> le_principal row = ctx_actor_id (ctx i)"
proof -
  have "evaluate_intent sha e i db = ret (d, db')"
    using run out
    by (auto simp: authorize_def mint_approved_intent_def ApprovedIntent_init_def
        split: sum.splits prod.splits if_splits option.splits)
  then show ?thesis by (rule sql_log.intent_recorded [OF eng])
qed

text \<open>An engine whose rules speak of the intent they were given.\<close>

lemma intent_verdict_about:
  assumes "rule_chain (rules e)"
  shows "about_intent i (intent_verdict e i)"
proof -
  have "about_intent i (evaluate_rules (rules e) (default_decision e) i)"
    using assms by (rule rule_chain.evaluate_rules_about)
  then show ?thesis
    by (auto simp: intent_verdict_def Let_def about_intent_def split: prod.splits)
qed

lemma evaluate_intent_about:
  assumes "rule_chain (rules e)" and "evaluate_intent sha e i w = ret (d, w')"
  shows "pd_intent_id d = intent_id i"
  using intent_verdict_about [OF assms(1), of i] assms(2)
  by (auto simp: evaluate_intent_def about_intent_def dest!: about_record_verdict)

text \<open>
  The exact outcome of \<open>authorize\<close>: a denial is raised as such, a demanded approval is
  met only by a grant that matches, and everything else is minted. The mint's own checks
  never fire, since they were already made.
\<close>

theorem authorize_outcome:
  assumes chain: "rule_chain (rules e)" and ev: "evaluate_intent sha e i w = ret (d, w')"
  shows "authorize sha e i grant w =
    (if pd_decision d = DENY then (raise (EPolicyDenied d), w')
     else if pd_decision d = ALLOW \<or> (\<exists>g. grant = Some g \<and> grant_matches sha g i)
     then (ret \<lparr>ai_intent = i, ai_decision = d, ai_approval = grant\<rparr>, w')
     else (raise (EApprovalRequired d), w'))"
  using evaluate_intent_about [OF chain ev] ev
  by (cases "pd_decision d"; cases grant)
    (auto simp: authorize_def mint_approved_intent_def ApprovedIntent_init_def)

lemma authorize_ret:
  assumes "fst (authorize sha e i grant w) = ret ap"
  shows "\<exists>d w'. evaluate_intent sha e i w = ret (d, w') \<and> ai_intent ap = i
           \<and> pd_decision d \<noteq> DENY
           \<and> (pd_decision d = REQUIRE_APPROVAL \<longrightarrow> (\<exists>g. grant = Some g \<and> grant_matches sha g i))"
  using assms
  by (auto simp: authorize_def split: sum.splits prod.splits if_splits option.splits dest: mint_cases)

lemma cleared_verdict:
  assumes "fst (authorize sha e i grant w) = ret ap"
  shows "pd_decision (evaluate_rules (rules e) (default_decision e) i) \<noteq> DENY"
    and "class_decision e i \<noteq> DENY"
    and "pd_decision (evaluate_rules (rules e) (default_decision e) i) = REQUIRE_APPROVAL
         \<or> class_decision e i = REQUIRE_APPROVAL \<Longrightarrow> \<exists>g. grant = Some g \<and> grant_matches sha g i"
proof -
  obtain d w' where ev: "evaluate_intent sha e i w = ret (d, w')" and nd: "pd_decision d \<noteq> DENY"
    and ga: "pd_decision d = REQUIRE_APPROVAL \<longrightarrow> (\<exists>g. grant = Some g \<and> grant_matches sha g i)"
    using authorize_ret [OF assms] by blast
  have d: "pd_decision d
     = max (pd_decision (evaluate_rules (rules e) (default_decision e) i)) (class_decision e i)"
    using evaluate_intent_decision [OF ev] by (simp add: intent_verdict_decision)
  show "pd_decision (evaluate_rules (rules e) (default_decision e) i) \<noteq> DENY"
    and "class_decision e i \<noteq> DENY"
    using d nd by (auto simp: max_def split: if_splits)
  assume "pd_decision (evaluate_rules (rules e) (default_decision e) i) = REQUIRE_APPROVAL
         \<or> class_decision e i = REQUIRE_APPROVAL"
  then have "REQUIRE_APPROVAL \<le> pd_decision d" unfolding d by (auto simp: le_max_iff_disj)
  with nd have "pd_decision d = REQUIRE_APPROVAL" by (cases "pd_decision d") auto
  with ga show "\<exists>g. grant = Some g \<and> grant_matches sha g i" by blast
qed

lemma default_engine_simps [simp]:
  "rules (default_policy_engine snk lg) = default_rules"
  "default_decision (default_policy_engine snk lg) = DENY"
  "tool_permissions (default_policy_engine snk lg) = map_of DEFAULT_TOOL_PERMISSIONS"
  "class_outcomes (default_policy_engine snk lg) = DEFAULT_CLASS_OUTCOMES"
  "decision_log (default_policy_engine snk lg) = lg"
  "decision_sink (default_policy_engine snk lg) = snk"
  by (simp_all add: default_policy_engine_def PolicyEngine_init_def)


section \<open>What the shipped engine lets through\<close>

text \<open>
  The engine the application boots with is default-deny. Whatever it clears says who
  asked for it, names an allowlisted and classified tool and passes only declared
  arguments; and a mutating call carries an idempotency key and a human grant bound to it.
\<close>

theorem default_engine_admits:
  assumes cleared: "fst (authorize sha (default_policy_engine snk lg) i grant w) = ret ap"
  shows "ai_intent ap = i
    \<and> attributed (requested_by i)
    \<and> tool_ref i \<in> dom (map_of DEFAULT_TOOL_PERMISSIONS)
    \<and> (\<exists>ks. map_of default_tool_arguments (tool_ref i) = Some ks
            \<and> set (dict_keys (arguments i)) \<subseteq> insert IDEMPOTENCY_KEY_ARG ks)
    \<and> (mutating i \<longrightarrow> truthy (dict_get (arguments i) IDEMPOTENCY_KEY_ARG)
                     \<and> (\<exists>g. grant = Some g \<and> grant_matches sha g i))"
proof -
  let ?e = "default_policy_engine snk lg"
  note nd = cleared_verdict(1) [OF cleared, simplified]
    and cd = cleared_verdict(2) [OF cleared]
    and ga = cleared_verdict(3) [OF cleared, simplified]
  have "tool_ref i \<in> dom (map_of DEFAULT_TOOL_PERMISSIONS)"
    using cd by (auto simp: class_decision_def classify_def split: if_splits option.splits)
  moreover obtain ks where ks: "map_of default_tool_arguments (tool_ref i) = Some ks"
    using default_chain_not_denied(2) [OF nd] by (metis map_of_eq_None_iff option.exhaust set_map)
  moreover have "set (dict_keys (arguments i)) \<subseteq> insert IDEMPOTENCY_KEY_ARG ks"
    using default_chain_not_denied(3) [OF nd ks] by blast
  moreover have "\<exists>g. grant = Some g \<and> grant_matches sha g i" if "mutating i"
    using default_chain_mutating [OF that, of DENY] nd ga
    by (cases "pd_decision (evaluate_rules default_rules DENY i)") auto
  moreover have "ai_intent ap = i" using authorize_ret [OF cleared] by blast
  ultimately show ?thesis
    using default_chain_not_denied(1,4) [OF nd] by blast
qed

text \<open>
  C33: a model is never trusted with a write. Under any rules, any permission table and any
  class outcomes, an intent of LLM origin on a tool that changes something is cleared only
  with a matching human grant, and on a sensitive tool it is never cleared.
\<close>

theorem llm_writes_need_a_human:
  assumes cleared: "fst (authorize sha e i grant w) = ret ap"
    and llm: "origin i = LLM"
    and perm: "tool_permissions e (tool_ref i) = Some p" "tp_class p \<in> WRITE_CLASSES"
  shows "tp_class p \<noteq> SENSITIVE \<and> (\<exists>g. grant = Some g \<and> grant_matches sha g i)"
proof -
  note cd = cleared_verdict(2) [OF cleared]
  have "tp_class p \<noteq> SENSITIVE \<and> REQUIRE_APPROVAL \<le> class_decision e i"
    using cd perm llm
    by (auto simp: class_decision_def classify_def strictest_max le_max_iff_disj Let_def
        split: if_splits)
  with cd have "tp_class p \<noteq> SENSITIVE" and "class_decision e i = REQUIRE_APPROVAL"
    by (cases "class_decision e i"; simp)+
  with cleared_verdict(3) [OF cleared] show ?thesis by blast
qed

lemma DocumentOverwriteRule_opinion:
  assumes "tool_ref i \<in> ows \<or> (tool_ref i \<in> gws \<and> truthy (dict_get (arguments i) arg))"
  shows "\<exists>d. DocumentOverwriteRule ows gws arg i = Some d
           \<and> pd_decision d = (if truthy (dict_get (arguments i) arg) then REQUIRE_APPROVAL else DENY)"
  using assms
  by (cases "tool_ref i \<in> ows"; cases "truthy (dict_get (arguments i) arg)")
    (simp_all add: DocumentOverwriteRule_def Let_def)

text \<open>
  Replacing a document always takes a human. In any chain that contains the overwrite
  rule, whatever else it holds and whether or not the intent is marked mutating, an
  overwrite is cleared only with the hash of the version it replaces and a matching grant.
\<close>

theorem overwrite_needs_hash_and_human:
  assumes rule: "DocumentOverwriteRule ows gws arg \<in> set (rules e)"
    and cleared: "fst (authorize sha e i grant w) = ret ap"
    and overwrites: "tool_ref i \<in> ows
                     \<or> (tool_ref i \<in> gws \<and> truthy (dict_get (arguments i) arg))"
  shows "truthy (dict_get (arguments i) arg) \<and> (\<exists>g. grant = Some g \<and> grant_matches sha g i)"
proof -
  let ?chain = "evaluate_rules (rules e) (default_decision e) i"
  obtain d where d: "DocumentOverwriteRule ows gws arg i = Some d"
    and dd: "pd_decision d = (if truthy (dict_get (arguments i) arg) then REQUIRE_APPROVAL else DENY)"
    using DocumentOverwriteRule_opinion [OF overwrites] by blast
  from rule d have mem: "d \<in> set (opinions (rules e) i)" by (auto simp: set_opinions)
  then have ne: "opinions (rules e) i \<noteq> []" by auto
  have le: "pd_decision d \<le> pd_decision ?chain"
    unfolding chain_verdict [OF ne] using mem by (intro strictest_of_ge) simp
  with dd cleared_verdict(1) [OF cleared] have "truthy (dict_get (arguments i) arg)"
    by (auto split: if_splits)
  moreover from this le dd cleared_verdict(1) [OF cleared]
  have "pd_decision ?chain = REQUIRE_APPROVAL" by (cases "pd_decision ?chain") auto
  ultimately show ?thesis using cleared_verdict(3) [OF cleared] by blast
qed

text \<open>
  A grant cannot be replayed. If one grant met a demanded approval for two intents,
  they are one intent id with one fingerprint; if the hash tells their two payloads apart, they call
  the same tool of the same server with the same arguments.
\<close>

theorem grant_not_replayable:
  assumes "grant_matches sha g i" and "grant_matches sha g j"
    and "sha (intent_payload i) = sha (intent_payload j) \<Longrightarrow> intent_payload i = intent_payload j"
  shows "intent_id i = intent_id j \<and> server i = server j \<and> tool i = tool j
         \<and> canonical (PDict (arguments i)) = canonical (PDict (arguments j))"
  using assms(1,2) fingerprint_inj [of sha i j] assms(3) by (simp add: grant_matches_def)

section \<open>Witnesses\<close>

definition ex_db :: policy_db where
  "ex_db = \<lparr>pdb_rows = [], pdb_workflows = [1], pdb_next_id = 100\<rparr>"

abbreviation ex_engine :: "policy_db policy_engine" where
  "ex_engine \<equiv> default_policy_engine None (Some SqlPolicyDecisionLog_record)"

lemma authorize_allowed:
  assumes "rule_chain (rules e)" and "evaluate_intent sha e i w = ret (d, w')"
    and "pd_decision d = ALLOW \<or> (pd_decision d = REQUIRE_APPROVAL
           \<and> grant = Some g \<and> grant_matches sha g i)"
  shows "authorize sha e i grant w
         = (ret \<lparr>ai_intent = i, ai_decision = d, ai_approval = grant\<rparr>, w')"
  using evaluate_intent_about [OF assms(1,2)] assms(2,3)
  by (auto simp: authorize_def mint_approved_intent_def ApprovedIntent_init_def)

lemmas ex_tables =
  DEFAULT_TOOL_PERMISSIONS_def default_tool_arguments_def FILE_TOOL_ARGUMENTS_def
  JOB_SEARCH_TOOL_ARGUMENTS_def JOB_PROVIDER_TOOL_ARGUMENTS_def

lemma ex_read_verdict: "pd_decision (intent_verdict ex_engine ex_read) = ALLOW"
  by (simp add: intent_verdict_decision class_decision_def classify_def declared_scopes_def
      evaluate_rules_def default_rules_def rule_defs Let_def ex_tables attributed_def
      sort_eq_Nil dict_keys_def)
    (simp add: ex_defs dict_get_def)

lemma ex_write_class: "class_decision ex_engine ex_write = REQUIRE_APPROVAL"
proof -
  have "tool_permissions ex_engine ''files.overwrite_document''
        = Some (permission DESTRUCTIVE [''artifacts:write''])"
    by (simp add: DEFAULT_TOOL_PERMISSIONS_def)
  then show ?thesis
    by (simp add: class_decision_def classify_def declared_scopes_def Let_def sort_eq_Nil)
      (simp add: ex_defs attributed_def WRITE_CLASSES_def strictest_def)
qed

lemma ex_write_arguments:
  "dict_keys (arguments ex_write) = [''path'', ''expected_sha256'', ''idempotency_key'']"
  "truthy (dict_get (arguments ex_write) IDEMPOTENCY_KEY_ARG)"
  "truthy (dict_get (arguments ex_write) ''expected_sha256'')"
  "mutating ex_write" "origin ex_write = LLM" "requested_by ex_write = ''graph''"
  by (simp_all add: ex_defs dict_keys_def dict_get_def IDEMPOTENCY_KEY_ARG_def)

lemma ex_write_not_denied:
  assumes "r \<in> set default_rules" and "r ex_write = Some d"
  shows "pd_decision d \<noteq> DENY"
proof -
  have allow: "ToolAllowlistRule (set (map fst default_tool_arguments)) ex_write = Some d \<Longrightarrow>
               pd_decision d \<noteq> DENY"
    by (auto simp: ToolAllowlistRule_def ex_tables split: if_splits)
  have args: "ArgumentAllowlistRule (map_of default_tool_arguments) ex_write = None"
    by (simp add: ArgumentAllowlistRule_def ex_tables ex_write_arguments IDEMPOTENCY_KEY_ARG_def
        sort_eq_Nil Let_def)
  show ?thesis
    using assms allow args
    by (auto simp: default_rules_def RequireProvenanceRule_def MutatingToolRule_def
        UntrustedOriginRule_def DocumentOverwriteRule_def Let_def ex_write_arguments)
qed

lemma ex_write_verdict: "pd_decision (intent_verdict ex_engine ex_write) = REQUIRE_APPROVAL"
proof -
  let ?v = "pd_decision (evaluate_rules default_rules DENY ex_write)"
  let ?ds = "map pd_decision (opinions default_rules ex_write)"
  have "MutatingToolRule {} ex_write \<noteq> None"
    by (simp add: MutatingToolRule_def ex_write_arguments)
  then have ne: "opinions default_rules ex_write \<noteq> []"
    by (auto simp: default_rules_def split: option.splits)
  have "?v \<noteq> DENY"
  proof
    assume "?v = DENY"
    then have "DENY \<in> set ?ds"
      using strictest_of_in [of ?ds] ne by (simp add: chain_verdict)
    then obtain r d where "r \<in> set default_rules" "r ex_write = Some d" "pd_decision d = DENY"
      by (auto simp: set_opinions)
    then show False using ex_write_not_denied by simp
  qed
  then have "max ?v REQUIRE_APPROVAL = REQUIRE_APPROVAL" by (simp add: max_def)
  then show ?thesis by (simp add: intent_verdict_decision ex_write_class)
qed

lemma ex_evaluate:
  obtains d db where "evaluate_intent (\<lambda>_. ''h'') ex_engine i ex_db = ret (d, db)"
    and "pd_decision d = pd_decision (intent_verdict ex_engine i)"
proof -
  have "persist ex_engine row ex_db = SqlPolicyDecisionLog_record row ex_db" for row
    by (simp add: persist_def)
  then obtain rid db where p: "persist ex_engine row ex_db = ret (rid, db row)" for row
    by (simp add: SqlPolicyDecisionLog_record_def Let_def)
  have "\<exists>d db. evaluate_intent (\<lambda>_. ''h'') ex_engine i ex_db = ret (d, db)"
    by (simp add: evaluate_intent_def record_verdict_def p Let_def)
  then obtain d db where ev: "evaluate_intent (\<lambda>_. ''h'') ex_engine i ex_db = ret (d, db)"
    by (elim exE)
  from that [OF ev evaluate_intent_decision [OF ev]] show ?thesis .
qed

lemma ex_chain: "rule_chain (rules ex_engine)"
  using default_chain.rule_chain_axioms by simp

lemma ex_read_cleared:
  obtains ap db where "authorize (\<lambda>_. ''h'') ex_engine ex_read None ex_db = (ret ap, db)"
proof -
  obtain d db where "evaluate_intent (\<lambda>_. ''h'') ex_engine ex_read ex_db = ret (d, db)"
    and "pd_decision d = ALLOW" by (rule ex_evaluate [of ex_read]) (simp add: ex_read_verdict)
  with ex_chain show ?thesis by (blast intro: that authorize_allowed)
qed

lemma ex_write_cleared:
  obtains ap db where
    "authorize (\<lambda>_. ''h'') ex_engine ex_write (Some ex_grant) ex_db = (ret ap, db)"
proof -
  obtain d db where "evaluate_intent (\<lambda>_. ''h'') ex_engine ex_write ex_db = ret (d, db)"
    and "pd_decision d = REQUIRE_APPROVAL"
    by (rule ex_evaluate [of ex_write]) (simp add: ex_write_verdict)
  moreover have "grant_matches (\<lambda>_. ''h'') ex_grant ex_write"
    by (simp add: grant_matches_def) (simp add: ex_defs)
  ultimately show ?thesis using ex_chain by (blast intro: that authorize_allowed)
qed

theorem intent_verdict_is_stricter_of_both_witness:
  "\<exists>d db. evaluate_intent (\<lambda>_. ''h'') ex_engine ex_write ex_db = ret (d, db)
     \<and> pd_decision d
       = strictest (pd_decision (evaluate_rules (rules ex_engine) DENY ex_write))
                   (class_decision ex_engine ex_write)"
proof -
  obtain d db where ev: "evaluate_intent (\<lambda>_. ''h'') ex_engine ex_write ex_db = ret (d, db)"
    by (rule ex_evaluate)
  from intent_verdict_is_stricter_of_both [OF ev] ev show ?thesis
    by (auto simp: class_decision_def)
qed

theorem outcome_is_recorded_first_witness:
  "\<exists>ap db n row. authorize (\<lambda>_. ''h'') ex_engine ex_read None ex_db = (ret ap, db)
     \<and> pd_record_id (ai_decision ap) = Some n \<and> (n, row) \<in> set (pdb_rows db)"
proof -
  obtain ap db where run: "authorize (\<lambda>_. ''h'') ex_engine ex_read None ex_db = (ret ap, db)"
    by (rule ex_read_cleared)
  from outcome_is_recorded_first [OF _ _ run, of "ai_decision ap"] run show ?thesis by auto
qed

theorem authorize_outcome_witness:
  "\<exists>d db. authorize (\<lambda>_. ''h'') ex_engine ex_write None ex_db = (raise (EApprovalRequired d), db)"
proof -
  obtain d db where ev: "evaluate_intent (\<lambda>_. ''h'') ex_engine ex_write ex_db = ret (d, db)"
    and "pd_decision d = REQUIRE_APPROVAL"
    by (rule ex_evaluate [of ex_write]) (simp add: ex_write_verdict)
  with authorize_outcome [OF ex_chain ev, of None] show ?thesis by simp
qed

theorem default_engine_admits_witness:
  "\<exists>ap db. authorize (\<lambda>_. ''h'') ex_engine ex_write (Some ex_grant) ex_db = (ret ap, db)
     \<and> mutating ex_write \<and> grant_matches (\<lambda>_. ''h'') ex_grant ex_write"
proof -
  obtain ap db where
    run: "authorize (\<lambda>_. ''h'') ex_engine ex_write (Some ex_grant) ex_db = (ret ap, db)"
    by (rule ex_write_cleared)
  have m: "mutating ex_write" by (simp add: ex_defs)
  have cleared: "fst (authorize (\<lambda>_. ''h'') ex_engine ex_write (Some ex_grant) ex_db) = ret ap"
    using run by simp
  from default_engine_admits [OF cleared] run m show ?thesis by blast
qed

theorem llm_writes_need_a_human_witness:
  "\<exists>ap db. authorize (\<lambda>_. ''h'') ex_engine ex_write (Some ex_grant) ex_db = (ret ap, db)
     \<and> origin ex_write = LLM \<and> (\<exists>g. Some ex_grant = Some g \<and> grant_matches (\<lambda>_. ''h'') g ex_write)"
proof -
  obtain ap db where
    run: "authorize (\<lambda>_. ''h'') ex_engine ex_write (Some ex_grant) ex_db = (ret ap, db)"
    by (rule ex_write_cleared)
  have llm: "origin ex_write = LLM" by (simp add: ex_defs)
  have perm: "tool_permissions ex_engine (tool_ref ex_write)
              = Some (permission DESTRUCTIVE [''artifacts:write''])"
    by (simp add: DEFAULT_TOOL_PERMISSIONS_def)
  have wr: "tp_class (permission DESTRUCTIVE [''artifacts:write'']) \<in> WRITE_CLASSES"
    by (simp add: WRITE_CLASSES_def)
  have "fst (authorize (\<lambda>_. ''h'') ex_engine ex_write (Some ex_grant) ex_db) = ret ap"
    using run by simp
  from llm_writes_need_a_human [OF this llm perm wr] run llm show ?thesis by blast
qed

theorem overwrite_needs_hash_and_human_witness:
  "\<exists>ap db. authorize (\<lambda>_. ''h'') ex_engine ex_write (Some ex_grant) ex_db = (ret ap, db)
     \<and> truthy (dict_get (arguments ex_write) ''expected_sha256'')"
proof -
  obtain ap db where
    run: "authorize (\<lambda>_. ''h'') ex_engine ex_write (Some ex_grant) ex_db = (ret ap, db)"
    by (rule ex_write_cleared)
  let ?rule = "DocumentOverwriteRule {''files.overwrite_document''} {''files.write_file''}
                 ''expected_sha256''"
  have rule: "?rule \<in> set (rules ex_engine)" by (simp add: default_rules_def)
  have "fst (authorize (\<lambda>_. ''h'') ex_engine ex_write (Some ex_grant) ex_db) = ret ap"
    using run by simp
  from overwrite_needs_hash_and_human [OF rule this] run show ?thesis by simp
qed

theorem grant_not_replayable_witness:
  "grant_matches (\<lambda>_. ''h'') ex_grant ex_write
   \<and> grant_matches (\<lambda>_. ''h'') ex_grant (ex_write\<lparr>requested_by := ''other''\<rparr>)
   \<and> server ex_write = server (ex_write\<lparr>requested_by := ''other''\<rparr>)"
proof -
  have m: "grant_matches (\<lambda>_. ''h'') ex_grant ex_write"
    "grant_matches (\<lambda>_. ''h'') ex_grant (ex_write\<lparr>requested_by := ''other''\<rparr>)"
    by (simp add: grant_matches_def, simp add: ex_defs)+
  have "intent_payload ex_write = intent_payload (ex_write\<lparr>requested_by := ''other''\<rparr>)"
    by (simp add: intent_payload_def)
  with grant_not_replayable [OF m] m show ?thesis by blast
qed

end
