(* ===== verification/Retry.thy ===== *)
theory Retry
  imports Intents
begin

text \<open>
  Automatic retries (\<open>personalos/domain/retry_policy.py\<close>, \<open>personalos/executor/retry.py\<close>):
  the budget and backoff of an operation class, the budget a tool's permission class gives
  it, and the dispatch loop. The gateway, the clock's \<open>sleep\<close> and \<open>random\<close> are functions on
  a state \<open>'w\<close>. Delays are rational numbers; log lines and spans are left out.
\<close>

section \<open>Budgets and backoff\<close>

datatype operation_class = OC_READ | OC_DRAFT | OC_SEND | OC_CALENDAR_WRITE | OC_EVENT_DELIVERY

record retry_policy =
  rp_operation_class :: operation_class
  rp_max_retries :: int
  rp_base_delay :: seconds
  rp_max_delay :: seconds
  rp_requires_reconciliation :: bool

definition value_error :: "string \<Rightarrow> exn" where
  "value_error msg = PY ''ValueError'' msg None"

text \<open>The constructor with its \<open>__post_init__\<close> checks.\<close>

definition RetryPolicy_init ::
  "operation_class \<Rightarrow> int \<Rightarrow> seconds \<Rightarrow> seconds \<Rightarrow> bool \<Rightarrow> exn + retry_policy" where
  "RetryPolicy_init oc retries base cap rec =
     (if retries < 0 then raise (value_error ''max_retries must not be negative'')
      else if base < 0 \<or> cap < base
      then raise (value_error ''delays must satisfy 0 <= base_delay <= max_delay'')
      else ret \<lparr>rp_operation_class = oc, rp_max_retries = retries, rp_base_delay = base,
                rp_max_delay = cap, rp_requires_reconciliation = rec\<rparr>)"

definition max_attempts :: "retry_policy \<Rightarrow> int" where
  "max_attempts p = 1 + rp_max_retries p"

definition allows_retry :: "retry_policy \<Rightarrow> int \<Rightarrow> bool" where
  "allows_retry p attempt \<longleftrightarrow> attempt \<le> rp_max_retries p"

text \<open>\<open>with_max_attempts\<close>; \<open>replace\<close> runs the constructor's checks again.\<close>

definition with_max_attempts :: "retry_policy \<Rightarrow> int \<Rightarrow> exn + retry_policy" where
  "with_max_attempts p n =
     (if n < 1 then raise (value_error ''max_attempts must be at least 1'')
      else RetryPolicy_init (rp_operation_class p) (n - 1) (rp_base_delay p) (rp_max_delay p)
             (rp_requires_reconciliation p))"

definition window :: "retry_policy \<Rightarrow> int \<Rightarrow> seconds" where
  "window p retry = min (rp_max_delay p) (rp_base_delay p * 2 ^ nat (retry - 1))"

text \<open>\<open>delay\<close>; \<open>u\<close> is what \<open>rand()\<close> returns.\<close>

definition delay :: "retry_policy \<Rightarrow> int \<Rightarrow> seconds option \<Rightarrow> rat \<Rightarrow> exn + seconds" where
  "delay p retry retry_after u =
     (if retry < 1 then raise (value_error ''retry counts from 1'')
      else let d = window p retry / 2 + u * window p retry / 2 in
        (case retry_after of
           Some ra \<Rightarrow> if ra > d then ret ra else ret d
         | None \<Rightarrow> ret d))"

definition READ :: retry_policy where
  "READ = \<lparr>rp_operation_class = OC_READ, rp_max_retries = 3, rp_base_delay = 1/5,
           rp_max_delay = 30, rp_requires_reconciliation = False\<rparr>"

definition DRAFT :: retry_policy where
  "DRAFT = \<lparr>rp_operation_class = OC_DRAFT, rp_max_retries = 2, rp_base_delay = 1/5,
            rp_max_delay = 30, rp_requires_reconciliation = False\<rparr>"

definition SEND :: retry_policy where
  "SEND = \<lparr>rp_operation_class = OC_SEND, rp_max_retries = 0, rp_base_delay = 1/5,
           rp_max_delay = 30, rp_requires_reconciliation = False\<rparr>"

definition CALENDAR_WRITE :: retry_policy where
  "CALENDAR_WRITE = \<lparr>rp_operation_class = OC_CALENDAR_WRITE, rp_max_retries = 1,
     rp_base_delay = 1, rp_max_delay = 30, rp_requires_reconciliation = True\<rparr>"

definition EVENT_DELIVERY :: retry_policy where
  "EVENT_DELIVERY = \<lparr>rp_operation_class = OC_EVENT_DELIVERY, rp_max_retries = 4,
     rp_base_delay = 5, rp_max_delay = 600, rp_requires_reconciliation = False\<rparr>"

definition retry_after_seconds :: "exn \<Rightarrow> seconds option" where
  "retry_after_seconds e =
     (case exn_retry_after e of None \<Rightarrow> None | Some s \<Rightarrow> if s \<ge> 0 then Some s else None)"

section \<open>A tool's budget, and the dispatch loop\<close>

definition CALENDAR_WRITE_TOOLS :: "string set" where
  "CALENDAR_WRITE_TOOLS = {''google.calendar_create_event'', ''google.calendar_update_event''}"

fun policy_by_class :: "permission_class \<Rightarrow> retry_policy" where
  "policy_by_class READ_LOCAL = READ"
| "policy_by_class READ_EXTERNAL = READ"
| "policy_by_class WRITE_REVERSIBLE = DRAFT"
| "policy_by_class WRITE_EXTERNAL = SEND"
| "policy_by_class DESTRUCTIVE = SEND"
| "policy_by_class SENSITIVE = SEND"

definition retry_policy_for :: "string \<Rightarrow> retry_policy" where
  "retry_policy_for t =
     (if t \<in> CALENDAR_WRITE_TOOLS then CALENDAR_WRITE
      else case map_of DEFAULT_TOOL_PERMISSIONS t of
        None \<Rightarrow> SEND
      | Some p \<Rightarrow> policy_by_class (tp_class p))"

fun is_retryable :: "exn \<Rightarrow> bool" where
  "is_retryable (POS c m ra) =
     (if isinstance (POS c m ra) PolicyError then False else retryable_of c)"
| "is_retryable (PY _ _ _) = False"

text \<open>The budget and backoff a call ends up with, after the caller's overrides.\<close>

definition effective_policy ::
  "string \<Rightarrow> retry_policy option \<Rightarrow> int option \<Rightarrow> seconds option \<Rightarrow> exn + retry_policy" where
  "effective_policy t policy attempts base =
     (let p0 = (case policy of None \<Rightarrow> retry_policy_for t | Some p \<Rightarrow> p) in
      case (if rp_requires_reconciliation p0 then with_max_attempts p0 1 else ret p0) of
        Inl e \<Rightarrow> raise e
      | Inr p1 \<Rightarrow>
          (case (case attempts of None \<Rightarrow> ret p1 | Some n \<Rightarrow> with_max_attempts p1 n) of
             Inl e \<Rightarrow> raise e
           | Inr p2 \<Rightarrow>
               (case base of
                  None \<Rightarrow> ret p2
                | Some b \<Rightarrow> RetryPolicy_init (rp_operation_class p2) (rp_max_retries p2) b
                              (max (rp_max_delay p2) b) False)))"

type_synonym ('w, 'r) gateway = "tool_intent \<Rightarrow> approval_grant option \<Rightarrow> 'w \<Rightarrow> (exn + 'r) \<times> 'w"

function dispatch_loop ::
  "('w, 'r) gateway \<Rightarrow> (seconds \<Rightarrow> 'w \<Rightarrow> 'w) \<Rightarrow> ('w \<Rightarrow> rat \<times> 'w) \<Rightarrow> retry_policy \<Rightarrow>
   tool_intent \<Rightarrow> approval_grant option \<Rightarrow> int \<Rightarrow> 'w \<Rightarrow> (exn + 'r) \<times> 'w" where
  "dispatch_loop gw slp rnd p i a attempt w =
     (case gw i a w of
        (Inr r, w1) \<Rightarrow> (ret r, w1)
      | (Inl e, w1) \<Rightarrow>
          if \<not> allows_retry p attempt \<or> \<not> is_retryable e then (raise e, w1)
          else
            let ra = retry_after_seconds e in
            if (case ra of None \<Rightarrow> False | Some s \<Rightarrow> s > rp_max_delay p) then (raise e, w1)
            else (case rnd w1 of (u, w2) \<Rightarrow>
              (case delay p attempt ra u of
                 Inl err \<Rightarrow> (raise err, w2)
               | Inr d \<Rightarrow> dispatch_loop gw slp rnd p i a (attempt + 1) (slp d w2))))"
  by pat_completeness auto
termination
  by (relation "measure (\<lambda>(gw, slp, rnd, p, i, a, attempt, w). nat (rp_max_retries p + 1 - attempt))")
    (auto simp: allows_retry_def)

declare dispatch_loop.simps [simp del]

definition dispatch_with_retry ::
  "('w, 'r) gateway \<Rightarrow> (seconds \<Rightarrow> 'w \<Rightarrow> 'w) \<Rightarrow> ('w \<Rightarrow> rat \<times> 'w) \<Rightarrow> tool_intent \<Rightarrow>
   approval_grant option \<Rightarrow> retry_policy option \<Rightarrow> int option \<Rightarrow> seconds option \<Rightarrow> 'w \<Rightarrow>
   (exn + 'r) \<times> 'w" where
  "dispatch_with_retry gw slp rnd i a policy attempts base w =
     (case effective_policy (tool_ref i) policy attempts base of
        Inl e \<Rightarrow> (raise e, w)
      | Inr p \<Rightarrow> dispatch_loop gw slp rnd p i a 1 w)"

section \<open>Well-formed policies\<close>

definition policy_ok :: "retry_policy \<Rightarrow> bool" where
  "policy_ok p \<longleftrightarrow> rp_max_retries p \<ge> 0 \<and> 0 \<le> rp_base_delay p \<and> rp_base_delay p \<le> rp_max_delay p"

lemma RetryPolicy_init_ok:
  "RetryPolicy_init oc n b c r = ret p \<longleftrightarrow>
     n \<ge> 0 \<and> 0 \<le> b \<and> b \<le> c
     \<and> p = \<lparr>rp_operation_class = oc, rp_max_retries = n, rp_base_delay = b, rp_max_delay = c,
            rp_requires_reconciliation = r\<rparr>"
  by (auto simp: RetryPolicy_init_def)

lemma with_max_attempts_ok:
  "with_max_attempts p n = ret q \<Longrightarrow> policy_ok p \<Longrightarrow> policy_ok q \<and> max_attempts q = n \<and> n \<ge> 1"
  by (auto simp: with_max_attempts_def RetryPolicy_init_ok policy_ok_def max_attempts_def
      split: if_splits)

lemmas shipped_policies = READ_def DRAFT_def SEND_def CALENDAR_WRITE_def EVENT_DELIVERY_def

lemma shipped_ok [simp]:
  "policy_ok READ" "policy_ok DRAFT" "policy_ok SEND" "policy_ok CALENDAR_WRITE"
  "policy_ok EVENT_DELIVERY"
  by (simp_all add: policy_ok_def shipped_policies)

lemma retry_policy_for_ok [simp]: "policy_ok (retry_policy_for t)"
proof -
  have "policy_ok (policy_by_class c)" for c by (cases c) simp_all
  then show ?thesis by (simp add: retry_policy_for_def split: option.split)
qed

lemma effective_policy_ok:
  assumes "effective_policy t policy attempts base = ret q"
    and "\<And>p. policy = Some p \<Longrightarrow> policy_ok p"
  shows "policy_ok q"
proof -
  let ?p0 = "case policy of None \<Rightarrow> retry_policy_for t | Some p \<Rightarrow> p"
  have p0: "policy_ok ?p0" using assms(2) by (simp split: option.split)
  then have p1: "policy_ok p1"
    if "(if rp_requires_reconciliation ?p0 then with_max_attempts ?p0 1 else ret ?p0) = ret p1" for p1
    using that with_max_attempts_ok [OF _ p0] by (auto split: if_splits)
  have p2: "policy_ok p2"
    if "(case attempts of None \<Rightarrow> ret p1 | Some n \<Rightarrow> with_max_attempts p1 n) = ret p2"
      and "policy_ok p1" for p1 p2
    using that with_max_attempts_ok [OF _ that(2)] by (auto split: option.splits)
  show ?thesis
    using assms(1) p1 p2
    by (auto simp: effective_policy_def Let_def RetryPolicy_init_ok policy_ok_def
        split: sum.splits option.splits)
qed

section \<open>Backoff\<close>

lemma window_nonneg: "policy_ok p \<Longrightarrow> 0 \<le> window p n"
  by (simp add: policy_ok_def window_def)

lemma delay_bounds:
  assumes "policy_ok p" and "n \<ge> 1" and "0 \<le> u" and "u < 1" and "delay p n ra u = ret d"
  shows "window p n / 2 \<le> d"
    and "\<And>s. ra = Some s \<Longrightarrow> s \<le> d"
    and "ra = None \<or> (\<exists>s. ra = Some s \<and> s \<le> rp_max_delay p) \<Longrightarrow> d \<le> rp_max_delay p"
proof -
  let ?w = "window p n"
  have w: "0 \<le> ?w" "?w \<le> rp_max_delay p"
    using window_nonneg [OF assms(1)] by (simp_all add: window_def)
  have j: "0 \<le> u * ?w" "u * ?w \<le> ?w"
    using w assms(3,4) by (simp_all add: mult_left_le_one_le)
  show "?w / 2 \<le> d" and "\<And>s. ra = Some s \<Longrightarrow> s \<le> d"
    and "ra = None \<or> (\<exists>s. ra = Some s \<and> s \<le> rp_max_delay p) \<Longrightarrow> d \<le> rp_max_delay p"
    using assms(2,5) w j by (auto simp: delay_def Let_def split: option.splits if_splits)
qed

lemma delay_returns: "n \<ge> 1 \<Longrightarrow> \<exists>d. delay p n ra u = ret d"
  by (auto simp: delay_def Let_def split: option.split)

text \<open>
  A computed backoff lies between half the window and the provider's floor or the
  whole window, and while the window is still doubling each retry waits at least as long as
  the one before, whatever the two random draws.
\<close>

theorem backoff_bounds:
  assumes ok: "policy_ok p" and n: "n \<ge> 1" and u: "0 \<le> u" "u < 1" and v: "0 \<le> v" "v < 1"
    and d: "delay p n ra u = ret d"
  shows "window p n / 2 \<le> d
    \<and> (ra = None \<longrightarrow> d \<le> window p n)
    \<and> (\<forall>s. ra = Some s \<longrightarrow> s \<le> d \<and> d \<le> max s (window p n))
    \<and> (ra = None \<and> rp_base_delay p * 2 ^ nat n \<le> rp_max_delay p \<longrightarrow>
        (\<exists>d'. delay p (n + 1) None v = ret d' \<and> d \<le> d'))"
proof -
  let ?w = "window p n"
  have w: "0 \<le> ?w" using window_nonneg [OF ok] by simp
  have j: "0 \<le> u * ?w" "u * ?w \<le> ?w" using w u by (simp_all add: mult_left_le_one_le)
  have next_window: "window p (n + 1) = 2 * ?w" if "rp_base_delay p * 2 ^ nat n \<le> rp_max_delay p"
  proof -
    have e: "nat n = Suc (nat (n - 1))" using n by simp
    have "(2::rat) ^ nat (n - 1) \<le> 2 ^ nat n" by (simp add: e)
    then have "rp_base_delay p * 2 ^ nat (n - 1) \<le> rp_base_delay p * 2 ^ nat n"
      using ok by (intro mult_left_mono) (auto simp: policy_ok_def)
    with that show ?thesis by (simp add: window_def e min_absorb2)
  qed
  have "\<exists>d'. delay p (n + 1) None v = ret d' \<and> d \<le> d'"
    if "ra = None" and "rp_base_delay p * 2 ^ nat n \<le> rp_max_delay p"
  proof -
    have "0 \<le> v * (2 * ?w)" using w v by simp
    with next_window [OF that(2)] that(1) d n j show ?thesis
      by (auto simp: delay_def Let_def)
  qed
  moreover have "window p n / 2 \<le> d" using delay_bounds(1) [OF ok n u d] .
  ultimately show ?thesis
    using d n j by (auto simp: delay_def Let_def split: option.splits if_splits)
qed

theorem backoff_bounds_witness:
  "\<exists>d'. delay READ 2 None (1/4) = ret d' \<and> 1/8 \<le> d'
     \<and> delay READ 1 None (1/4) = ret (1/8)"
proof -
  have d: "delay READ 1 None (1/4) = ret (1/8)"
    by (simp add: delay_def window_def READ_def Let_def)
  from backoff_bounds [OF _ _ _ _ _ _ d, of "1/4"]
  have "\<exists>d'. delay READ (1 + 1) None (1/4) = ret d' \<and> 1/8 \<le> d'"
    by (simp add: policy_ok_def) (simp add: READ_def)
  with d show ?thesis by simp
qed

text \<open>
  Once the window is capped the next retry may come sooner: two draws at the cap of the read
  budget, a short one after a long one.
\<close>

lemma capped_backoff_not_monotone:
  "\<exists>d d'. delay READ 9 None (1/2) = ret d \<and> delay READ 10 None 0 = ret d' \<and> d' < d"
  by (rule exI [of _ "45/2"], rule exI [of _ 15])
    (simp add: delay_def window_def READ_def Let_def)

section \<open>What the dispatch loop does\<close>

text \<open>
  The loop observed: the gateway and the sleep also append what they did to a history. The
  functions it is instrumented with change nothing else.
\<close>

datatype 'r attempt_event = Attempted "exn + 'r" | Slept seconds

definition watch_gateway ::
  "('w, 'r) gateway \<Rightarrow> ('w \<times> 'r attempt_event list, 'r) gateway" where
  "watch_gateway gw i a s =
     (case gw i a (fst s) of (r, w') \<Rightarrow> (r, (w', snd s @ [Attempted r])))"

definition watch_sleep ::
  "(seconds \<Rightarrow> 'w \<Rightarrow> 'w) \<Rightarrow> seconds \<Rightarrow> 'w \<times> 'r attempt_event list \<Rightarrow> 'w \<times> 'r attempt_event list" where
  "watch_sleep slp d s = (slp d (fst s), snd s @ [Slept d])"

definition watch_rand :: "('w \<Rightarrow> rat \<times> 'w) \<Rightarrow> 'w \<times> 'h \<Rightarrow> rat \<times> 'w \<times> 'h" where
  "watch_rand rnd s = (case rnd (fst s) of (u, w') \<Rightarrow> (u, (w', snd s)))"

definition attempts_in :: "'r attempt_event list \<Rightarrow> nat" where
  "attempts_in h = length (filter (\<lambda>ev. case ev of Attempted _ \<Rightarrow> True | Slept _ \<Rightarrow> False) h)"

lemma attempts_in_simps [simp]:
  "attempts_in [] = 0"
  "attempts_in (Attempted r # h) = Suc (attempts_in h)"
  "attempts_in (Slept d # h) = attempts_in h"
  "attempts_in (h @ h') = attempts_in h + attempts_in h'"
  by (simp_all add: attempts_in_def)

text \<open>
  The histories the loop may leave from attempt \<open>n\<close> on, ending with the outcome \<open>r\<close>: every
  failure that is followed by another attempt was transient and within the budget, and the
  pause after it respects the provider's floor and the policy's ceiling.
\<close>

inductive retry_history ::
  "retry_policy \<Rightarrow> int \<Rightarrow> 'r attempt_event list \<Rightarrow> exn + 'r \<Rightarrow> bool" for p where
  last_attempt: "retry_history p n [Attempted r] r"
| next_attempt:
    "\<lbrakk> allows_retry p n; is_retryable e;
       \<forall>s. retry_after_seconds e = Some s \<longrightarrow> s \<le> d;
       window p n / 2 \<le> d; d \<le> rp_max_delay p;
       retry_history p (n + 1) h r \<rbrakk> \<Longrightarrow>
     retry_history p n (Attempted (Inl e) # Slept d # h) r"

inductive_cases retry_history_Nil [elim!]: "retry_history p n [] r"
inductive_cases retry_history_Cons: "retry_history p n (ev # h) r"

lemma retry_history_attempts:
  "retry_history p n h r \<Longrightarrow> n \<le> rp_max_retries p + 1 \<Longrightarrow>
   1 \<le> attempts_in h \<and> int (attempts_in h) \<le> max_attempts p - n + 1"
  by (induction rule: retry_history.induct) (auto simp: allows_retry_def max_attempts_def)

text \<open>The three ways a round of the loop goes.\<close>

lemma dispatch_loop_ret:
  "gw i a w = (Inr r, w1) \<Longrightarrow> dispatch_loop gw slp rnd p i a n w = (ret r, w1)"
  by (subst dispatch_loop.simps) simp

definition gives_up :: "retry_policy \<Rightarrow> int \<Rightarrow> exn \<Rightarrow> bool" where
  "gives_up p n e \<longleftrightarrow> \<not> allows_retry p n \<or> \<not> is_retryable e
     \<or> (\<exists>s. retry_after_seconds e = Some s \<and> s > rp_max_delay p)"

lemma dispatch_loop_final:
  "gw i a w = (Inl e, w1) \<Longrightarrow> gives_up p n e \<Longrightarrow>
   dispatch_loop gw slp rnd p i a n w = (raise e, w1)"
  by (subst dispatch_loop.simps) (auto simp: gives_up_def Let_def)

lemma dispatch_loop_again:
  "gw i a w = (Inl e, w1) \<Longrightarrow> \<not> gives_up p n e \<Longrightarrow> rnd w1 = (u, w2) \<Longrightarrow>
   delay p n (retry_after_seconds e) u = ret d \<Longrightarrow>
   dispatch_loop gw slp rnd p i a n w = dispatch_loop gw slp rnd p i a (n + 1) (slp d w2)"
  by (subst dispatch_loop.simps) (auto simp: gives_up_def Let_def split: option.splits)

lemma dispatch_loop_history:
  assumes ok: "policy_ok p" and rnd: "\<And>w. 0 \<le> fst (rnd w) \<and> fst (rnd w) < 1" and "1 \<le> n"
    and "dispatch_loop (watch_gateway gw) (watch_sleep slp) (watch_rand rnd) p i a n s = (r, s')"
  shows "\<exists>h. snd s' = snd s @ h \<and> retry_history p n h r"
  using assms(3,4)
proof (induction "nat (rp_max_retries p + 1 - n)" arbitrary: n s rule: less_induct)
  case less
  obtain r1 w1 where g: "gw i a (fst s) = (r1, w1)" by (cases "gw i a (fst s)")
  let ?s1 = "(w1, snd s @ [Attempted r1])"
  have wg: "watch_gateway gw i a s = (r1, ?s1)" by (simp add: watch_gateway_def g)
  consider (answer) v where "r1 = Inr v" | (final) e where "r1 = Inl e" "gives_up p n e"
    | (again) e where "r1 = Inl e" "\<not> gives_up p n e" by (cases r1) auto
  then show ?case
  proof cases
    case answer
    with wg less.prems(2) have "r = r1 \<and> s' = ?s1" by (auto simp: dispatch_loop_ret)
    then show ?thesis by (auto intro: last_attempt)
  next
    case final
    with wg less.prems(2) have "r = r1 \<and> s' = ?s1" by (auto simp: dispatch_loop_final)
    then show ?thesis by (auto intro: last_attempt)
  next
    case again
    obtain u w2 where uw: "rnd w1 = (u, w2)" by (cases "rnd w1")
    then have u: "0 \<le> u" "u < 1" using rnd [of w1] by auto
    obtain d where d: "delay p n (retry_after_seconds e) u = ret d"
      using delay_returns [OF less.prems(1)] by blast
    let ?s2 = "watch_sleep slp d (w2, snd s @ [Attempted r1])"
    have wr: "watch_rand rnd ?s1 = (u, (w2, snd s @ [Attempted r1]))"
      by (simp add: watch_rand_def uw)
    have wg': "watch_gateway gw i a s = (Inl e, ?s1)" using wg again(1) by simp
    note step = dispatch_loop_again [where gw = "watch_gateway gw" and i = i and a = a
        and w = s and slp = "watch_sleep slp" and rnd = "watch_rand rnd",
        OF wg' again(2) wr d]
    have "dispatch_loop (watch_gateway gw) (watch_sleep slp) (watch_rand rnd) p i a (n + 1) ?s2
          = (r, s')" using step less.prems(2) by simp
    moreover have "nat (rp_max_retries p + 1 - (n + 1)) < nat (rp_max_retries p + 1 - n)"
      using again(2) by (simp add: gives_up_def allows_retry_def)
    ultimately obtain h where h: "snd s' = snd ?s2 @ h" "retry_history p (n + 1) h r"
      using less.hyps [of "n + 1" ?s2] less.prems(1) by auto
    have "retry_after_seconds e = None
          \<or> (\<exists>t. retry_after_seconds e = Some t \<and> t \<le> rp_max_delay p)"
      using again(2) by (cases "retry_after_seconds e") (auto simp: gives_up_def not_less)
    note b = delay_bounds(1,2) [OF ok less.prems(1) u d]
      delay_bounds(3) [OF ok less.prems(1) u d this]
    have "retry_history p n (Attempted (Inl e) # Slept d # h) r"
      using again(2) h(2) b by (intro next_attempt) (auto simp: gives_up_def)
    with h(1) again(1) show ?thesis by (auto simp: watch_sleep_def)
  qed
qed

text \<open>
  The dispatch loop always ends, and what it leaves behind is a retry history of at
  most \<open>max_attempts\<close> attempts at the same intent under the same grant: only transient
  failures within the budget are followed by another attempt, after a pause that is at least
  the provider's \<open>Retry-After\<close> and at most the policy's ceiling, and the caller gets the
  outcome of the last attempt.
\<close>

theorem dispatch_history:
  assumes pol: "policy_ok p" and rnd: "\<And>w. 0 \<le> fst (rnd w) \<and> fst (rnd w) < 1"
    and run: "dispatch_loop (watch_gateway gw) (watch_sleep slp) (watch_rand rnd) p i a 1 (w, [])
              = (r, (w', h))"
  shows "retry_history p 1 h r \<and> 1 \<le> attempts_in h \<and> int (attempts_in h) \<le> max_attempts p"
proof -
  have "retry_history p 1 h r"
    using dispatch_loop_history [where rnd = rnd and n = 1, OF pol rnd _ run] by simp
  moreover have "1 \<le> rp_max_retries p + 1" using pol by (simp add: policy_ok_def)
  ultimately show ?thesis using retry_history_attempts [of p 1 h r] by simp
qed

lemma is_retryable_policy_outcome: "isinstance e PolicyError \<Longrightarrow> \<not> is_retryable e"
  by (cases e) simp_all

text \<open>
  A policy outcome is terminal: when the gateway answers with one, whatever the budget
  and the attempt number, the loop raises exactly that and touches neither the clock nor the
  random source.
\<close>

theorem policy_outcome_is_terminal:
  assumes "gw i a w = (raise e, w1)" and "isinstance e PolicyError"
  shows "dispatch_loop gw slp rnd p i a n w = (raise e, w1)"
  using assms by (intro dispatch_loop_final) (simp_all add: gives_up_def is_retryable_policy_outcome)

theorem policy_outcome_is_terminal_witness:
  "dispatch_loop (\<lambda>i a w. (raise (POS PolicyDenied ''denied'' None) :: exn + unit, w + 1))
     (\<lambda>d w. w + 10) (\<lambda>w. (0, w + 100)) READ ex_read None 1 (0::nat)
   = (raise (POS PolicyDenied ''denied'' None), 1)"
  by (rule policy_outcome_is_terminal) (simp_all add: isinstance_of_def)

lemma retry_policy_for_no_retries:
  assumes "t \<notin> CALENDAR_WRITE_TOOLS"
    and "\<And>p. map_of DEFAULT_TOOL_PERMISSIONS t = Some p \<Longrightarrow>
           tp_class p \<in> {WRITE_EXTERNAL, DESTRUCTIVE, SENSITIVE}"
  shows "retry_policy_for t = SEND"
  using assms by (auto simp: retry_policy_for_def split: option.split)

lemma calendar_write_effective:
  "effective_policy t (Some CALENDAR_WRITE) None None
   = ret (CALENDAR_WRITE\<lparr>rp_max_retries := 0\<rparr>)"
  by (simp add: effective_policy_def with_max_attempts_def RetryPolicy_init_def CALENDAR_WRITE_def
      Let_def)

text \<open>
  Without an override, a call that a third party can see (a send, a submission, a
  calendar write), one that destroys or is sensitive, and one on an unclassified tool is
  made exactly once: its outcome, whatever it is, goes to the caller.
\<close>

theorem writes_are_dispatched_once:
  assumes "tool_ref i \<in> CALENDAR_WRITE_TOOLS
           \<or> (\<forall>p. map_of DEFAULT_TOOL_PERMISSIONS (tool_ref i) = Some p \<longrightarrow>
                tp_class p \<in> {WRITE_EXTERNAL, DESTRUCTIVE, SENSITIVE})"
  shows "dispatch_with_retry gw slp rnd i a None None None w = gw i a w"
proof -
  have once: "dispatch_loop gw slp rnd p i a 1 w = gw i a w" if "rp_max_retries p = 0" for p
  proof (cases "gw i a w")
    case (Pair r w1)
    show ?thesis
    proof (cases r)
      case (Inl e)
      with Pair that show ?thesis
        by (simp add: dispatch_loop_final gives_up_def allows_retry_def)
    qed (use Pair in \<open>simp add: dispatch_loop_ret\<close>)
  qed
  show ?thesis
  proof (cases "tool_ref i \<in> CALENDAR_WRITE_TOOLS")
    case True
    then have "effective_policy (tool_ref i) None None None
               = effective_policy (tool_ref i) (Some CALENDAR_WRITE) None None"
      by (simp add: effective_policy_def retry_policy_for_def)
    then show ?thesis
      by (simp add: dispatch_with_retry_def calendar_write_effective once)
  next
    case False
    with assms have "retry_policy_for (tool_ref i) = SEND" by (intro retry_policy_for_no_retries) auto
    then show ?thesis
      by (simp add: dispatch_with_retry_def effective_policy_def SEND_def once)
  qed
qed

theorem dispatch_history_witness:
  "\<exists>r w' h. dispatch_loop (watch_gateway (\<lambda>i a n. (if n < 2 then raise (POS ToolFailure ''t'' None)
                                             else ret n, n + 1)))
     (watch_sleep (\<lambda>d n. n)) (watch_rand (\<lambda>n. (0, n))) READ ex_read None 1 (0::nat, [])
     = (r, (w', h)) \<and> int (attempts_in h) \<le> 4"
proof -
  obtain r w' h where
    run: "dispatch_loop (watch_gateway (\<lambda>i a n. (if n < 2 then raise (POS ToolFailure ''t'' None)
                                             else ret n, n + 1)))
     (watch_sleep (\<lambda>d n. n)) (watch_rand (\<lambda>n. (0, n))) READ ex_read None 1 (0::nat, [])
     = (r, (w', h))" using prod_cases3 by blast
  have "max_attempts READ = 4" by (simp add: max_attempts_def READ_def)
  with dispatch_history [OF shipped_ok(1) _ run] run show ?thesis by auto
qed

theorem writes_are_dispatched_once_witness:
  "dispatch_with_retry (\<lambda>i a n. (raise (POS ToolFailure ''timed out'' None) :: exn + unit, n + 1))
     (\<lambda>d n. n) (\<lambda>n. (0, n)) ex_write None None None None (0::nat)
   = (raise (POS ToolFailure ''timed out'' None), 1)"
  by (subst writes_are_dispatched_once) (simp_all add: DEFAULT_TOOL_PERMISSIONS_def)

end
