(* ===== verification/Idempotency.thy ===== *)
theory Idempotency
  imports Taxonomy
begin

text \<open>
  Idempotency of mutating operations (\<open>personalos/persistence/idempotency.py\<close>, the
  \<open>OperationRepository\<close> of \<open>personalos/persistence/repositories.py\<close> and
  \<open>validate_idempotency_key\<close> of \<open>personalos/domain/models.py\<close>): the two operation stores,
  the contract they share as the locale \<open>operation_store\<close>, the guard that runs a handler
  under a key, and the interleaving of workers that claim one key of the SQL store. A result
  is a dictionary or \<open>None\<close>, as \<open>OperationRecord\<close> declares; \<open>redact\<close> and \<open>redact_text\<close>, which
  the SQL store applies to what it keeps, and SHA-256 are parameters.
\<close>

section \<open>Keys and records\<close>

definition IDEMPOTENCY_KEY_MIN_LENGTH :: nat where "IDEMPOTENCY_KEY_MIN_LENGTH = 8"
definition IDEMPOTENCY_KEY_MAX_LENGTH :: nat where "IDEMPOTENCY_KEY_MAX_LENGTH = 255"

definition invalid_key :: "string \<Rightarrow> exn" where
  "invalid_key msg = POS InvalidIdempotencyKey msg None"

definition validate_idempotency_key :: "pyval \<Rightarrow> exn + string" where
  "validate_idempotency_key key =
     (case key of
        PNone \<Rightarrow> raise (invalid_key ''idempotency_key is required for mutating operations'')
      | PStr s \<Rightarrow>
          let normalized = strip s in
          if length normalized < IDEMPOTENCY_KEY_MIN_LENGTH
          then raise (invalid_key ''idempotency_key must be at least 8 characters'')
          else if length normalized > IDEMPOTENCY_KEY_MAX_LENGTH
          then raise (invalid_key ''idempotency_key must be at most 255 characters'')
          else ret normalized
      | _ \<Rightarrow> raise (invalid_key ''idempotency_key must be a string''))"

datatype operation_status = IN_PROGRESS | COMPLETED | FAILED

record operation_record =
  or_id :: uuid
  or_key :: string
  or_operation :: string
  or_fingerprint :: string
  or_status :: operation_status
  or_result :: "pydict option"
  or_error :: "string option"
  or_attempts :: nat

definition is_replayable :: "operation_record \<Rightarrow> bool" where
  "is_replayable r \<longleftrightarrow> or_status r = COMPLETED"

definition fingerprint_request :: "(pyval \<Rightarrow> string) \<Rightarrow> string \<Rightarrow> pydict \<Rightarrow> string" where
  "fingerprint_request sha operation params =
     sha (canonical (PDict [(''operation'', PStr operation), (''params'', PDict params)]))"

text \<open>
  The records by key (the \<open>_records\<close> dictionary; the \<open>operations\<close> table, whose key column is
  unique) and the next id \<open>uuid4()\<close> or the database draws.
\<close>

record op_rows =
  op_row :: "string \<rightharpoonup> operation_record"
  op_next_id :: uuid

definition new_record :: "uuid \<Rightarrow> string \<Rightarrow> string \<Rightarrow> string \<Rightarrow> operation_record" where
  "new_record n k operation fp =
     \<lparr>or_id = n, or_key = k, or_operation = operation, or_fingerprint = fp,
      or_status = IN_PROGRESS, or_result = None, or_error = None, or_attempts = 1\<rparr>"

definition put_row :: "string \<Rightarrow> operation_record \<Rightarrow> op_rows \<Rightarrow> op_rows" where
  "put_row k r db = db\<lparr>op_row := (op_row db)(k \<mapsto> r)\<rparr>"

definition insert_row :: "string \<Rightarrow> operation_record \<Rightarrow> op_rows \<Rightarrow> op_rows" where
  "insert_row k r db = db\<lparr>op_row := (op_row db)(k \<mapsto> r), op_next_id := Suc (op_next_id db)\<rparr>"

definition reclaimed :: "operation_record \<Rightarrow> operation_record" where
  "reclaimed r = r\<lparr>or_status := IN_PROGRESS, or_attempts := or_attempts r + 1, or_error := None\<rparr>"

definition completed :: "pydict option \<Rightarrow> operation_record \<Rightarrow> operation_record" where
  "completed v r = r\<lparr>or_status := COMPLETED, or_result := v, or_error := None\<rparr>"

definition failed :: "string option \<Rightarrow> operation_record \<Rightarrow> operation_record" where
  "failed err r = r\<lparr>or_status := FAILED, or_error := err\<rparr>"

definition retry_claimable :: "string \<Rightarrow> operation_record \<Rightarrow> bool" where
  "retry_claimable fp r \<longleftrightarrow> or_status r = FAILED \<and> or_fingerprint r = fp"

definition operation_not_found :: "string \<Rightarrow> exn" where
  "operation_not_found k = PY ''ValueError'' (''Operation '' @ k @ '' not found'') None"

lemmas record_ops = new_record_def put_row_def insert_row_def reclaimed_def completed_def
  failed_def retry_claimable_def

section \<open>The stores\<close>

text \<open>\<open>OperationStore\<close>: the abstract base class as a record of its operations.\<close>

record 's operation_store_ops =
  st_get :: "string \<Rightarrow> 's \<Rightarrow> operation_record option"
  st_claim :: "string \<Rightarrow> string \<Rightarrow> string \<Rightarrow> 's \<Rightarrow> (exn + (operation_record \<times> bool)) \<times> 's"
  st_complete :: "string \<Rightarrow> pydict option \<Rightarrow> 's \<Rightarrow> (exn + operation_record) \<times> 's"
  st_fail :: "string \<Rightarrow> string \<Rightarrow> 's \<Rightarrow> (exn + operation_record) \<times> 's"

text \<open>\<open>InMemoryOperationStore\<close>; each operation runs under the store's lock.\<close>

definition InMemory_get :: "string \<Rightarrow> op_rows \<Rightarrow> operation_record option" where
  "InMemory_get k db = op_row db k"

definition InMemory_claim ::
  "string \<Rightarrow> string \<Rightarrow> string \<Rightarrow> op_rows \<Rightarrow> (exn + (operation_record \<times> bool)) \<times> op_rows" where
  "InMemory_claim k operation fp db =
     (case op_row db k of
        None \<Rightarrow> let r = new_record (op_next_id db) k operation fp
                in (ret (r, True), insert_row k r db)
      | Some existing \<Rightarrow>
          if retry_claimable fp existing
          then (ret (reclaimed existing, True), put_row k (reclaimed existing) db)
          else (ret (existing, False), db))"

definition InMemory_complete ::
  "string \<Rightarrow> pydict option \<Rightarrow> op_rows \<Rightarrow> (exn + operation_record) \<times> op_rows" where
  "InMemory_complete k v db =
     (case op_row db k of
        None \<Rightarrow> (raise (operation_not_found k), db)
      | Some r \<Rightarrow> (ret (completed v r), put_row k (completed v r) db))"

definition InMemory_fail ::
  "string \<Rightarrow> string \<Rightarrow> op_rows \<Rightarrow> (exn + operation_record) \<times> op_rows" where
  "InMemory_fail k err db =
     (case op_row db k of
        None \<Rightarrow> (raise (operation_not_found k), db)
      | Some r \<Rightarrow> (ret (failed (Some err) r), put_row k (failed (Some err) r) db))"

definition InMemoryOperationStore :: "op_rows operation_store_ops" where
  "InMemoryOperationStore =
     \<lparr>st_get = InMemory_get, st_claim = InMemory_claim,
      st_complete = InMemory_complete, st_fail = InMemory_fail\<rparr>"

text \<open>
  \<open>OperationRepository.claim\<close> is a read and then a write in a transaction of its own; another
  worker may commit in between. \<open>claim_write\<close> is what follows the read, on the database as it
  is by then: the insert fails where a row has appeared, and the conditional update counts
  the rows that still match.
\<close>

definition row_for_key :: "string \<Rightarrow> op_rows \<Rightarrow> operation_record option" where
  "row_for_key k db = op_row db k"

definition claim_write ::
  "string \<Rightarrow> string \<Rightarrow> string \<Rightarrow> operation_record option \<Rightarrow> op_rows \<Rightarrow>
   (exn + (operation_record \<times> bool)) \<times> op_rows" where
  "claim_write k operation fp existing db =
     (case existing of
        None \<Rightarrow>
          (case row_for_key k db of
             Some winner \<Rightarrow> (ret (winner, False), db)
           | None \<Rightarrow> let r = new_record (op_next_id db) k operation fp
                     in (ret (r, True), insert_row k r db))
      | Some ex \<Rightarrow>
          if retry_claimable fp ex
          then (case row_for_key k db of
                  None \<Rightarrow> (raise (PY ''InvalidRequestError'' ''Could not refresh instance'' None), db)
                | Some cur \<Rightarrow>
                    if retry_claimable fp cur
                    then (ret (reclaimed cur, True), put_row k (reclaimed cur) db)
                    else (ret (cur, False), db))
          else (ret (ex, False), db))"

definition OperationRepository_claim ::
  "string \<Rightarrow> string \<Rightarrow> string \<Rightarrow> op_rows \<Rightarrow> (exn + (operation_record \<times> bool)) \<times> op_rows" where
  "OperationRepository_claim k operation fp db =
     claim_write k operation fp (row_for_key k db) db"

definition OperationRepository_complete ::
  "(pydict \<Rightarrow> pydict) \<Rightarrow> string \<Rightarrow> pydict option \<Rightarrow> op_rows \<Rightarrow>
   (exn + operation_record) \<times> op_rows" where
  "OperationRepository_complete redact k v db =
     (case row_for_key k db of
        None \<Rightarrow> (raise (operation_not_found k), db)
      | Some r \<Rightarrow> let r' = completed (map_option redact v) r in (ret r', put_row k r' db))"

definition OperationRepository_fail ::
  "(string \<Rightarrow> string) \<Rightarrow> string \<Rightarrow> string \<Rightarrow> op_rows \<Rightarrow> (exn + operation_record) \<times> op_rows" where
  "OperationRepository_fail redact_text k err db =
     (case row_for_key k db of
        None \<Rightarrow> (raise (operation_not_found k), db)
      | Some r \<Rightarrow> let r' = failed (Some (if err \<noteq> [] then redact_text err else err)) r
                  in (ret r', put_row k r' db))"

definition SqlOperationStore ::
  "(pydict \<Rightarrow> pydict) \<Rightarrow> (string \<Rightarrow> string) \<Rightarrow> op_rows operation_store_ops" where
  "SqlOperationStore redact redact_text =
     \<lparr>st_get = row_for_key, st_claim = OperationRepository_claim,
      st_complete = OperationRepository_complete redact,
      st_fail = OperationRepository_fail redact_text\<rparr>"

section \<open>The guard\<close>

definition key_reused :: "string \<Rightarrow> exn" where
  "key_reused k = POS IdempotencyKeyReused k None"

definition in_progress :: "string \<Rightarrow> exn" where
  "in_progress k = POS OperationInProgress k None"

type_synonym 'w handler = "pydict \<Rightarrow> 'w \<Rightarrow> (exn + pydict option) \<times> 'w"

definition IdempotencyGuard_run ::
  "(pyval \<Rightarrow> string) \<Rightarrow> 's operation_store_ops \<Rightarrow> string \<Rightarrow> pyval \<Rightarrow> pydict \<Rightarrow> 'w handler \<Rightarrow>
   's \<times> 'w \<Rightarrow> (exn + (pydict option \<times> bool)) \<times> 's \<times> 'w" where
  "IdempotencyGuard_run sha st operation key params handler sw =
     (case sw of (s, w) \<Rightarrow>
      case validate_idempotency_key key of
        Inl e \<Rightarrow> (raise e, s, w)
      | Inr k \<Rightarrow>
          let fp = fingerprint_request sha operation params in
          (case st_claim st k operation fp s of
             (Inl e, s1) \<Rightarrow> (raise e, s1, w)
           | (Inr (rec, claimed), s1) \<Rightarrow>
               if or_fingerprint rec \<noteq> fp then (raise (key_reused k), s1, w)
               else if \<not> claimed then
                 if is_replayable rec then (ret (or_result rec, True), s1, w)
                 else (raise (in_progress k), s1, w)
               else (case handler params w of
                 (Inl e, w1) \<Rightarrow>
                   (case st_fail st k (exn_text e) s1 of
                      (Inl e', s2) \<Rightarrow> (raise e', s2, w1)
                    | (Inr _, s2) \<Rightarrow> (raise e, s2, w1))
               | (Inr v, w1) \<Rightarrow>
                   (case st_complete st k v s1 of
                      (Inl e', s2) \<Rightarrow> (raise e', s2, w1)
                    | (Inr _, s2) \<Rightarrow> (ret (v, False), s2, w1)))))"

section \<open>The contract of a store, and what the guard makes of it\<close>

text \<open>
  A client runs many requests, one after another. Each is observed: a handler that returns
  also notes the key it ran under.
\<close>

record 'w request =
  rq_operation :: string
  rq_key :: pyval
  rq_params :: pydict
  rq_handler :: "'w handler"

definition watched :: "'w request \<Rightarrow> string \<Rightarrow> ('w \<times> string list) handler" where
  "watched rq k params wl =
     (case rq_handler rq params (fst wl) of
        (Inl e, w1) \<Rightarrow> (Inl e, (w1, snd wl))
      | (Inr v, w1) \<Rightarrow> (Inr v, (w1, snd wl @ [k])))"

definition serve ::
  "(pyval \<Rightarrow> string) \<Rightarrow> 's operation_store_ops \<Rightarrow> 'w request \<Rightarrow> 's \<times> 'w \<times> string list \<Rightarrow>
   (exn + (pydict option \<times> bool)) \<times> 's \<times> 'w \<times> string list" where
  "serve sha st rq swl =
     IdempotencyGuard_run sha st (rq_operation rq) (rq_key rq) (rq_params rq)
       (watched rq (case validate_idempotency_key (rq_key rq) of Inl _ \<Rightarrow> [] | Inr k \<Rightarrow> k)) swl"

primrec serve_all ::
  "(pyval \<Rightarrow> string) \<Rightarrow> 's operation_store_ops \<Rightarrow> 'w request list \<Rightarrow>
   's \<times> 'w \<times> string list \<Rightarrow> 's \<times> 'w \<times> string list" where
  "serve_all sha st [] swl = swl"
| "serve_all sha st (rq # rqs) swl = serve_all sha st rqs (snd (serve sha st rq swl))"

text \<open>What the guard may do under a valid key, by what the store holds for it.\<close>

definition claimable :: "string \<Rightarrow> operation_record option \<Rightarrow> bool" where
  "claimable fp row \<longleftrightarrow> (case row of None \<Rightarrow> True | Some r \<Rightarrow> retry_claimable fp r)"

locale operation_store =
  fixes st :: "'s operation_store_ops"
    and rows :: "'s \<Rightarrow> string \<rightharpoonup> operation_record"
    and stored :: "pydict option \<Rightarrow> pydict option"
  assumes claim_won: "claimable fp (rows s k) \<Longrightarrow>
      \<exists>r s'. st_claim st k operation fp s = (ret (r, True), s')
             \<and> or_fingerprint r = fp \<and> or_status r = IN_PROGRESS
             \<and> rows s' = (rows s)(k \<mapsto> r)"
    and claim_lost: "rows s k = Some r \<Longrightarrow> \<not> retry_claimable fp r \<Longrightarrow>
      st_claim st k operation fp s = (ret (r, False), s)"
    and complete_law: "rows s k = Some r \<Longrightarrow>
      \<exists>s'. st_complete st k v s = (ret (completed (stored v) r), s')
           \<and> rows s' = (rows s)(k \<mapsto> completed (stored v) r)"
    and fail_law: "rows s k = Some r \<Longrightarrow>
      \<exists>s' msg. st_fail st k err s = (ret (failed msg r), s') \<and> rows s' = (rows s)(k \<mapsto> failed msg r)"
begin

lemma run_owned_ok:
  assumes "validate_idempotency_key key = ret k"
    and "claimable (fingerprint_request sha operation params) (rows s k)"
    and "handler params w = (ret v, w1)"
  shows "\<exists>s' r. IdempotencyGuard_run sha st operation key params handler (s, w)
               = (ret (v, False), s', w1)
           \<and> rows s' = (rows s)(k \<mapsto> r) \<and> or_status r = COMPLETED
           \<and> or_fingerprint r = fingerprint_request sha operation params \<and> or_result r = stored v"
proof -
  let ?fp = "fingerprint_request sha operation params"
  obtain r s1 where c: "st_claim st k operation ?fp s = (ret (r, True), s1)"
    "or_fingerprint r = ?fp" "rows s1 = (rows s)(k \<mapsto> r)"
    using claim_won [OF assms(2)] by blast
  obtain s2 where "st_complete st k v s1 = (ret (completed (stored v) r), s2)"
    "rows s2 = (rows s1)(k \<mapsto> completed (stored v) r)"
    using complete_law [of s1 k r v] c(3) by auto
  with c assms(1,3) show ?thesis
    by (intro exI [of _ s2] exI [of _ "completed (stored v) r"])
      (simp add: IdempotencyGuard_run_def Let_def completed_def)
qed

lemma run_owned_error:
  assumes "validate_idempotency_key key = ret k"
    and "claimable (fingerprint_request sha operation params) (rows s k)"
    and "handler params w = (raise e, w1)"
  shows "\<exists>s' r. IdempotencyGuard_run sha st operation key params handler (s, w)
               = (raise e, s', w1)
           \<and> rows s' = (rows s)(k \<mapsto> r) \<and> or_status r = FAILED
           \<and> or_fingerprint r = fingerprint_request sha operation params"
proof -
  let ?fp = "fingerprint_request sha operation params"
  obtain r s1 where c: "st_claim st k operation ?fp s = (ret (r, True), s1)"
    "or_fingerprint r = ?fp" "rows s1 = (rows s)(k \<mapsto> r)"
    using claim_won [OF assms(2)] by blast
  obtain s2 msg where "st_fail st k (exn_text e) s1 = (ret (failed msg r), s2)"
    "rows s2 = (rows s1)(k \<mapsto> failed msg r)"
    using fail_law [of s1 k r "exn_text e"] c(3) by auto
  with c assms(1,3) show ?thesis
    by (intro exI [of _ s2] exI [of _ "failed msg r"])
      (simp add: IdempotencyGuard_run_def Let_def failed_def)
qed

lemma run_refused:
  assumes "validate_idempotency_key key = ret k" and "rows s k = Some r"
    and "\<not> retry_claimable (fingerprint_request sha operation params) r"
  shows "IdempotencyGuard_run sha st operation key params handler (s, w)
         = ((if or_fingerprint r \<noteq> fingerprint_request sha operation params
             then raise (key_reused k)
             else if or_status r = COMPLETED then ret (or_result r, True)
             else raise (in_progress k)), s, w)"
  using claim_lost [OF assms(2,3)] assms(1)
  by (simp add: IdempotencyGuard_run_def Let_def is_replayable_def)

lemma run_invalid_key:
  "validate_idempotency_key key = raise e \<Longrightarrow>
   IdempotencyGuard_run sha st operation key params handler (s, w) = (raise e, s, w)"
  by (simp add: IdempotencyGuard_run_def)

text \<open>A served request leaves every settled row as it is, and notes at most its own key.\<close>

lemma serve_cases:
  assumes "serve sha st rq (s, w, l) = (res, s', w', l')"
  obtains (untouched) "rows s' = rows s" "l' = l"
  | (ran) k r where "validate_idempotency_key (rq_key rq) = ret k"
      "claimable (fingerprint_request sha (rq_operation rq) (rq_params rq)) (rows s k)"
      "rows s' = (rows s)(k \<mapsto> r)" "or_status r = FAILED" "l' = l"
  | (done_once) k r where "validate_idempotency_key (rq_key rq) = ret k"
      "claimable (fingerprint_request sha (rq_operation rq) (rq_params rq)) (rows s k)"
      "rows s' = (rows s)(k \<mapsto> r)" "or_status r = COMPLETED" "l' = l @ [k]"
proof (cases "validate_idempotency_key (rq_key rq)")
  case (Inl e)
  with assms show ?thesis by (intro untouched) (simp_all add: serve_def run_invalid_key)
next
  case (Inr k)
  let ?fp = "fingerprint_request sha (rq_operation rq) (rq_params rq)"
  show ?thesis
  proof (cases "claimable ?fp (rows s k)")
    case True
    obtain hr w1 where h: "rq_handler rq (rq_params rq) w = (hr, w1)"
      by (cases "rq_handler rq (rq_params rq) w")
    show ?thesis
    proof (cases hr)
      case (Inl e)
      then have "watched rq k (rq_params rq) (w, l) = (raise e, (w1, l))"
        using h by (simp add: watched_def)
      from run_owned_error [where handler = "watched rq k" and s = s,
          OF \<open>validate_idempotency_key (rq_key rq) = ret k\<close> True this]
      obtain s2 r where "serve sha st rq (s, w, l) = (raise e, s2, w1, l)"
        "rows s2 = (rows s)(k \<mapsto> r)" "or_status r = FAILED"
        using \<open>validate_idempotency_key (rq_key rq) = ret k\<close> by (auto simp: serve_def)
      with assms show ?thesis
        using ran [OF \<open>validate_idempotency_key (rq_key rq) = ret k\<close> True] by simp
    next
      case (Inr v)
      then have "watched rq k (rq_params rq) (w, l) = (ret v, (w1, l @ [k]))"
        using h by (simp add: watched_def)
      from run_owned_ok [where handler = "watched rq k" and s = s,
          OF \<open>validate_idempotency_key (rq_key rq) = ret k\<close> True this]
      obtain s2 r where "serve sha st rq (s, w, l) = (ret (v, False), s2, w1, l @ [k])"
        "rows s2 = (rows s)(k \<mapsto> r)" "or_status r = COMPLETED"
        using \<open>validate_idempotency_key (rq_key rq) = ret k\<close> by (auto simp: serve_def)
      with assms show ?thesis
        using done_once [OF \<open>validate_idempotency_key (rq_key rq) = ret k\<close> True] by simp
    qed
  next
    case False
    then obtain r where "rows s k = Some r" "\<not> retry_claimable ?fp r"
      by (auto simp: claimable_def split: option.splits)
    note refused = run_refused [OF Inr this, where handler = "watched rq k" and w = "(w, l)"]
    from assms refused Inr have "s' = s \<and> l' = l" by (auto simp: serve_def)
    then show ?thesis using untouched by simp
  qed
qed

lemma claimable_not_completed: "claimable fp (Some r) \<Longrightarrow> or_status r = FAILED"
  by (simp add: claimable_def retry_claimable_def)

lemma serve_keeps_completed:
  assumes "rows s k = Some r" "or_status r = COMPLETED"
    and "serve sha st rq (s, w, l) = (res, s', w', l')"
  shows "rows s' k = Some r"
  using assms(3)
proof (cases rule: serve_cases)
  case untouched
  with assms(1) show ?thesis by simp
next
  case (ran k' r')
  with assms(1,2) show ?thesis by (cases "k' = k") (auto dest: claimable_not_completed)
next
  case (done_once k' r')
  with assms(1,2) show ?thesis by (cases "k' = k") (auto dest: claimable_not_completed)
qed

lemma serve_all_keeps_completed:
  assumes "rows s k = Some r" "or_status r = COMPLETED"
    and "serve_all sha st rqs (s, w, l) = (s', w', l')"
  shows "rows s' k = Some r"
  using assms
proof (induction rqs arbitrary: s w l)
  case (Cons rq rqs)
  obtain res s1 w1 l1 where sv: "serve sha st rq (s, w, l) = (res, s1, w1, l1)"
    using prod_cases4 by blast
  with Cons show ?case using serve_keeps_completed [OF Cons.prems(1,2) sv] by simp
qed simp

lemma serve_all_at_most_once:
  assumes "\<And>k. count_list l k \<le> 1
             \<and> (count_list l k = 1 \<longrightarrow> (\<exists>r. rows s k = Some r \<and> or_status r = COMPLETED))"
    and "serve_all sha st rqs (s, w, l) = (s', w', l')"
  shows "count_list l' k \<le> 1
         \<and> (count_list l' k = 1 \<longrightarrow> (\<exists>r. rows s' k = Some r \<and> or_status r = COMPLETED))"
  using assms
proof (induction rqs arbitrary: s w l)
  case (Cons rq rqs)
  obtain res s1 w1 l1 where sv: "serve sha st rq (s, w, l) = (res, s1, w1, l1)"
    using prod_cases4 by blast
  have "count_list l1 k \<le> 1
        \<and> (count_list l1 k = 1 \<longrightarrow> (\<exists>r. rows s1 k = Some r \<and> or_status r = COMPLETED))" for k
    using sv
  proof (cases rule: serve_cases)
    case untouched
    then show ?thesis using Cons.prems(1) by simp
  next
    case (ran k' r')
    then show ?thesis
      using Cons.prems(1) [of k] by (cases "k' = k") (auto dest!: claimable_not_completed)
  next
    case (done_once k' r')
    have "count_list l k' = 0"
      using Cons.prems(1) [of k'] done_once(2)
      by (metis One_nat_def claimable_not_completed le_Suc_eq le_zero_eq
          operation_status.distinct(6))
    then show ?thesis
      using Cons.prems(1) [of k] done_once by (cases "k' = k") (auto simp: count_list_append)
  qed
  then show ?case using Cons.IH [of l1 s1 w1] Cons.prems(2) sv by simp
qed simp

end

section \<open>Both stores keep the contract\<close>

lemma InMemory_simps [simp]:
  "st_get InMemoryOperationStore = InMemory_get"
  "st_claim InMemoryOperationStore = InMemory_claim"
  "st_complete InMemoryOperationStore = InMemory_complete"
  "st_fail InMemoryOperationStore = InMemory_fail"
  by (simp_all add: InMemoryOperationStore_def)

lemma Sql_simps [simp]:
  "st_get (SqlOperationStore r t) = row_for_key"
  "st_claim (SqlOperationStore r t) = OperationRepository_claim"
  "st_complete (SqlOperationStore r t) = OperationRepository_complete r"
  "st_fail (SqlOperationStore r t) = OperationRepository_fail t"
  by (simp_all add: SqlOperationStore_def)

interpretation memory_store: operation_store InMemoryOperationStore op_row "\<lambda>v. v"
proof unfold_locales
  show "\<exists>r s'. st_claim InMemoryOperationStore k operation fp s = (ret (r, True), s')
          \<and> or_fingerprint r = fp \<and> or_status r = IN_PROGRESS \<and> op_row s' = (op_row s)(k \<mapsto> r)"
    if "claimable fp (op_row s k)" for fp s k operation
    using that by (cases "op_row s k")
      (simp_all add: InMemory_claim_def claimable_def Let_def record_ops)
qed (auto simp: InMemory_claim_def InMemory_complete_def InMemory_fail_def put_row_def)

interpretation sql_store:
  operation_store "SqlOperationStore redact redact_text" op_row "map_option redact"
  for redact redact_text
proof unfold_locales
  show "\<exists>r s'. st_claim (SqlOperationStore redact redact_text) k operation fp s
               = (ret (r, True), s')
          \<and> or_fingerprint r = fp \<and> or_status r = IN_PROGRESS \<and> op_row s' = (op_row s)(k \<mapsto> r)"
    if "claimable fp (op_row s k)" for fp s k operation
    using that by (cases "op_row s k")
      (simp_all add: OperationRepository_claim_def claim_write_def row_for_key_def claimable_def
        Let_def record_ops)
qed (auto simp: OperationRepository_claim_def claim_write_def row_for_key_def Let_def put_row_def
      OperationRepository_complete_def OperationRepository_fail_def)

text \<open>
  C8: a key decides. Under a valid key the SQL-backed guard runs the handler exactly when
  no row holds the key or the same request failed under it; otherwise neither the store nor
  the world moves, and the answer is the stored result of the same request, a rejection of a
  key used for another request, or \<open>OperationInProgress\<close>.
\<close>

theorem guard_outcome:
  assumes key: "validate_idempotency_key key = ret k"
    and fp: "fp = fingerprint_request sha operation params"
  shows "case op_row db k of
      None \<Rightarrow> \<exists>db'. IdempotencyGuard_run sha (SqlOperationStore redact rt) operation key params h (db, w)
                   = (map_sum id (\<lambda>v. (v, False)) (fst (h params w)), db', snd (h params w))
    | Some r \<Rightarrow>
        (if or_fingerprint r \<noteq> fp
         then IdempotencyGuard_run sha (SqlOperationStore redact rt) operation key params h (db, w)
              = (raise (key_reused k), db, w)
         else case or_status r of
           COMPLETED \<Rightarrow>
             IdempotencyGuard_run sha (SqlOperationStore redact rt) operation key params h (db, w)
             = (ret (or_result r, True), db, w)
         | IN_PROGRESS \<Rightarrow>
             IdempotencyGuard_run sha (SqlOperationStore redact rt) operation key params h (db, w)
             = (raise (in_progress k), db, w)
         | FAILED \<Rightarrow> \<exists>db'.
             IdempotencyGuard_run sha (SqlOperationStore redact rt) operation key params h (db, w)
             = (map_sum id (\<lambda>v. (v, False)) (fst (h params w)), db', snd (h params w)))"
proof -
  have owned: "\<exists>db'. IdempotencyGuard_run sha (SqlOperationStore redact rt) operation key params h (db, w)
                   = (map_sum id (\<lambda>v. (v, False)) (fst (h params w)), db', snd (h params w))"
    if c: "claimable fp (op_row db k)"
  proof (cases "h params w")
    case (Pair r w1)
    show ?thesis
    proof (cases r)
      case (Inl e)
      with sql_store.run_owned_error [OF key c [unfolded fp], where handler = h] Pair
      show ?thesis by fastforce
    next
      case (Inr v)
      with sql_store.run_owned_ok [OF key c [unfolded fp], where handler = h] Pair
      show ?thesis by fastforce
    qed
  qed
  show ?thesis
  proof (cases "op_row db k")
    case None
    with owned show ?thesis by (simp add: claimable_def)
  next
    case (Some r)
    note refused = sql_store.run_refused [OF key, of db r sha operation params redact rt h w,
        folded fp]
    from Some owned refused show ?thesis
      by (cases "or_status r") (auto simp: claimable_def retry_claimable_def)
  qed
qed

text \<open>
  C7: at most one effect per key. Over any sequence of requests, with any keys, parameters
  and handlers, on either store, the handlers that returned under one key number at most
  one: the retries, the replays and the misuses of that key add no second effect.
\<close>

theorem at_most_one_effect:
  "count_list (snd (snd (serve_all sha InMemoryOperationStore rqs (\<lparr>op_row = Map.empty, op_next_id = n\<rparr>, w, [])))) k \<le> 1
   \<and> count_list (snd (snd (serve_all sha (SqlOperationStore redact rt) rqs
                            (\<lparr>op_row = Map.empty, op_next_id = n\<rparr>, w, [])))) k \<le> 1"
proof (rule conjI)
  let ?s = "\<lparr>op_row = Map.empty, op_next_id = n\<rparr>"
  obtain s1 w1 l1 where m: "serve_all sha InMemoryOperationStore rqs (?s, w, []) = (s1, w1, l1)"
    using prod_cases3 by blast
  from memory_store.serve_all_at_most_once [OF _ m] m
  show "count_list (snd (snd (serve_all sha InMemoryOperationStore rqs (?s, w, [])))) k \<le> 1"
    by simp
  obtain s2 w2 l2 where q: "serve_all sha (SqlOperationStore redact rt) rqs (?s, w, []) = (s2, w2, l2)"
    using prod_cases3 by blast
  from sql_store.serve_all_at_most_once [OF _ q] q
  show "count_list (snd (snd (serve_all sha (SqlOperationStore redact rt) rqs (?s, w, [])))) k \<le> 1"
    by simp
qed

text \<open>
  Replay is permanent. Once a request has succeeded, whatever other requests the store
  serves in between, the same request is answered with the result as stored (redacted)
  and no handler runs.
\<close>

theorem replay_is_permanent:
  assumes key: "validate_idempotency_key key = ret k"
    and first: "IdempotencyGuard_run sha (SqlOperationStore redact rt) operation key params h (db, w)
                = (ret (v, False), db1, w1)"
    and others: "serve_all sha (SqlOperationStore redact rt) rqs (db1, u, l) = (db2, u', l')"
  shows "IdempotencyGuard_run sha (SqlOperationStore redact rt) operation key params h' (db2, w2)
         = (ret (map_option redact v, True), db2, w2)"
proof -
  let ?fp = "fingerprint_request sha operation params"
  have claimed: "claimable ?fp (op_row db k)"
  proof (rule ccontr)
    assume "\<not> claimable ?fp (op_row db k)"
    then obtain r where "op_row db k = Some r" "\<not> retry_claimable ?fp r"
      by (auto simp: claimable_def split: option.splits)
    from sql_store.run_refused [OF key this, of redact rt h w] first show False
      by (auto split: if_splits)
  qed
  obtain hr hw where h: "h params w = (hr, hw)" by (cases "h params w")
  have "hr = ret v"
  proof (cases hr)
    case (Inl e)
    with sql_store.run_owned_error [OF key claimed, of h w e hw redact rt] h first show ?thesis
      by auto
  next
    case (Inr v')
    with sql_store.run_owned_ok [OF key claimed, of h w v' hw redact rt] h first show ?thesis
      by auto
  qed
  with h have "h params w = (ret v, hw)" by simp
  from sql_store.run_owned_ok [OF key claimed, of h w v hw redact rt, OF this] first
  obtain r where r: "op_row db1 = (op_row db)(k \<mapsto> r)" "or_status r = COMPLETED"
    "or_fingerprint r = ?fp" "or_result r = map_option redact v" by auto
  then have "op_row db2 k = Some r"
    using sql_store.serve_all_keeps_completed [OF _ _ others, of k r] by simp
  moreover have "\<not> retry_claimable ?fp r" using r by (simp add: retry_claimable_def)
  ultimately show ?thesis
    using sql_store.run_refused [OF key, of db2 r sha operation params redact rt h' w2] r by simp
qed

section \<open>Workers that race for one key\<close>

text \<open>
  Workers of any number of processes run the guard for one key on the \<open>operations\<close> table.
  Each reads the row, then writes its claim, and, if it won, settles the row after its
  handler; the commits of different workers interleave freely, and rows of other keys change
  at any time. A worker that has lost, or has settled, may begin again with any request.
\<close>

datatype worker = Idle | HasRead string string "operation_record option" | Owner

record race =
  rc_db :: op_rows
  rc_worker :: "nat \<Rightarrow> worker"
  rc_completed :: nat

inductive race_step ::
  "(pydict \<Rightarrow> pydict) \<Rightarrow> (string \<Rightarrow> string) \<Rightarrow> string \<Rightarrow> race \<Rightarrow> race \<Rightarrow> bool"
  for redact redact_text k where
  read:
    "rc_worker s i = Idle \<Longrightarrow>
     race_step redact redact_text k s
       (s\<lparr>rc_worker := (rc_worker s)(i := HasRead operation fp (row_for_key k (rc_db s)))\<rparr>)"
| commit_claim:
    "\<lbrakk> rc_worker s i = HasRead operation fp existing;
       claim_write k operation fp existing (rc_db s) = (res, db') \<rbrakk> \<Longrightarrow>
     race_step redact redact_text k s
       (s\<lparr>rc_db := db',
          rc_worker := (rc_worker s)(i := case res of Inr (r, True) \<Rightarrow> Owner | _ \<Rightarrow> Idle)\<rparr>)"
| complete:
    "\<lbrakk> rc_worker s i = Owner;
       OperationRepository_complete redact k v (rc_db s) = (ret r, db') \<rbrakk> \<Longrightarrow>
     race_step redact redact_text k s
       (s\<lparr>rc_db := db', rc_worker := (rc_worker s)(i := Idle),
          rc_completed := rc_completed s + 1\<rparr>)"
| fail:
    "\<lbrakk> rc_worker s i = Owner;
       OperationRepository_fail redact_text k err (rc_db s) = (ret r, db') \<rbrakk> \<Longrightarrow>
     race_step redact redact_text k s
       (s\<lparr>rc_db := db', rc_worker := (rc_worker s)(i := Idle)\<rparr>)"
| other_keys:
    "op_row db' k = op_row (rc_db s) k \<Longrightarrow> race_step redact redact_text k s (s\<lparr>rc_db := db'\<rparr>)"

inductive race_reachable ::
  "(pydict \<Rightarrow> pydict) \<Rightarrow> (string \<Rightarrow> string) \<Rightarrow> string \<Rightarrow> race \<Rightarrow> bool"
  for redact redact_text k where
  start: "op_row db k = None \<Longrightarrow>
    race_reachable redact redact_text k \<lparr>rc_db = db, rc_worker = (\<lambda>_. Idle), rc_completed = 0\<rparr>"
| step: "race_reachable redact redact_text k s \<Longrightarrow> race_step redact redact_text k s s' \<Longrightarrow>
         race_reachable redact redact_text k s'"

definition race_inv :: "string \<Rightarrow> race \<Rightarrow> bool" where
  [inv_defs]: "race_inv k s \<longleftrightarrow>
     (\<forall>i j. rc_worker s i = Owner \<longrightarrow> rc_worker s j = Owner \<longrightarrow> i = j)
     \<and> (\<forall>i. rc_worker s i = Owner \<longrightarrow>
          (\<exists>r. op_row (rc_db s) k = Some r \<and> or_status r = IN_PROGRESS))
     \<and> rc_completed s \<le> 1
     \<and> (rc_completed s = 1 \<longrightarrow> (\<exists>r. op_row (rc_db s) k = Some r \<and> or_status r = COMPLETED))"

text \<open>A claim that wins found no settled or running row; one that loses changes nothing.\<close>

lemma claim_write_cases:
  assumes "claim_write k operation fp existing db = (res, db')"
  shows "(db' = db \<and> (\<forall>r. res \<noteq> ret (r, True)))
    \<or> (\<exists>r. res = ret (r, True) \<and> op_row db' k = Some r \<and> or_status r = IN_PROGRESS
          \<and> (op_row db k = None \<or> (\<exists>r0. op_row db k = Some r0 \<and> or_status r0 = FAILED)))"
proof (cases existing)
  case None
  with assms show ?thesis
    by (cases "op_row db k")
      (auto simp: claim_write_def row_for_key_def Let_def new_record_def insert_row_def)
next
  case (Some ex)
  with assms show ?thesis
    by (cases "op_row db k")
      (auto simp: claim_write_def row_for_key_def retry_claimable_def reclaimed_def put_row_def
        split: if_splits)
qed

lemma race_inv_step:
  assumes "race_inv k s" and "race_step redact redact_text k s s'"
  shows "race_inv k s'"
  using assms(2)
proof cases
  case (commit_claim i operation fp existing res db')
  from claim_write_cases [OF commit_claim(3)] show ?thesis
  proof
    assume lost: "db' = rc_db s \<and> (\<forall>r. res \<noteq> ret (r, True))"
    then have "(case res of Inr (r, True) \<Rightarrow> Owner | _ \<Rightarrow> Idle) = Idle"
      by (auto split: sum.split bool.split)
    with lost commit_claim(1) assms(1) show ?thesis by (auto simp: inv_defs)
  next
    assume "\<exists>r. res = ret (r, True) \<and> op_row db' k = Some r \<and> or_status r = IN_PROGRESS
          \<and> (op_row (rc_db s) k = None \<or> (\<exists>r0. op_row (rc_db s) k = Some r0 \<and> or_status r0 = FAILED))"
    then obtain r where r: "res = ret (r, True)" "op_row db' k = Some r" "or_status r = IN_PROGRESS"
      and old: "op_row (rc_db s) k = None \<or> (\<exists>r0. op_row (rc_db s) k = Some r0 \<and> or_status r0 = FAILED)"
      by blast
    from old assms(1) have "rc_worker s j \<noteq> Owner" for j by (auto simp: inv_defs)
    moreover from old assms(1) have "rc_completed s = 0" by (auto simp: inv_defs le_Suc_eq)
    ultimately show ?thesis using r commit_claim(1) by (simp add: inv_defs)
  qed
next
  case (complete i v r db')
  then obtain r0 where "op_row db' k = Some (completed (map_option redact v) r0)"
    by (auto simp: OperationRepository_complete_def row_for_key_def put_row_def Let_def
        split: option.splits)
  moreover have "rc_completed s = 0"
    using assms(1) complete(2) by (auto simp: inv_defs le_Suc_eq)
  moreover have "rc_worker s j \<noteq> Owner" if "j \<noteq> i" for j
    using assms(1) complete(2) that by (auto simp: inv_defs)
  ultimately show ?thesis using complete(1) by (auto simp: inv_defs completed_def)
next
  case (fail i err r db')
  then obtain m r0 where "op_row db' k = Some (failed m r0)"
    by (auto simp: OperationRepository_fail_def row_for_key_def put_row_def Let_def
        split: option.splits)
  moreover have "rc_completed s = 0"
    using assms(1) fail(2) by (auto simp: inv_defs le_Suc_eq)
  moreover have "rc_worker s j \<noteq> Owner" if "j \<noteq> i" for j
    using assms(1) fail(2) that by (auto simp: inv_defs)
  ultimately show ?thesis using fail(1) by (auto simp: inv_defs)
qed (use assms(1) in \<open>auto simp: inv_defs\<close>)

text \<open>
  One winner. However the reads and commits of any number of workers interleave, at
  most one of them owns the key at a time, the handler has completed at most once in all,
  and once it has nobody can own the key again.
\<close>

theorem one_worker_owns_a_key:
  assumes "race_reachable redact redact_text k s"
  shows "(\<forall>i j. rc_worker s i = Owner \<and> rc_worker s j = Owner \<longrightarrow> i = j)
         \<and> rc_completed s \<le> 1 \<and> (rc_completed s = 1 \<longrightarrow> (\<forall>i. rc_worker s i \<noteq> Owner))"
proof -
  have "race_inv k s"
    using assms
  proof induction
    case (start db)
    then show ?case by (simp add: inv_defs)
  next
    case (step s s')
    then show ?case by (blast intro: race_inv_step)
  qed
  then show ?thesis by (auto simp: inv_defs)
qed

section \<open>Witnesses\<close>

abbreviation ex_store :: op_rows where
  "ex_store \<equiv> \<lparr>op_row = Map.empty, op_next_id = 0\<rparr>"

abbreviation ex_sql :: "op_rows operation_store_ops" where
  "ex_sql \<equiv> SqlOperationStore (\<lambda>d. d) (\<lambda>t. t)"

lemma ex_key: "validate_idempotency_key (PStr '' key-0001'') = ret ''key-0001''"
  by (simp add: validate_idempotency_key_def strip_def is_space_def Let_def
      IDEMPOTENCY_KEY_MIN_LENGTH_def IDEMPOTENCY_KEY_MAX_LENGTH_def)

theorem guard_outcome_witness:
  "\<exists>db. IdempotencyGuard_run (\<lambda>_. ''f'') ex_sql ''op'' (PStr '' key-0001'') []
       (\<lambda>_ n. (ret None, Suc n)) (ex_store, 0::nat) = (ret (None, False), db, 1)"
  using guard_outcome [OF ex_key refl, where db = ex_store and sha = "\<lambda>_. ''f''"
      and redact = "\<lambda>d. d" and rt = "\<lambda>t. t" and operation = "''op''" and params = "[]"
      and h = "\<lambda>_ n. (ret None, Suc n)" and w = "0::nat"]
  by auto

theorem replay_is_permanent_witness:
  "\<exists>db. IdempotencyGuard_run (\<lambda>_. ''f'') ex_sql ''op'' (PStr '' key-0001'') []
          (\<lambda>_ n. (ret None, Suc n)) (db, 5::nat) = (ret (Some [], True), db, 5)"
proof -
  let ?h = "\<lambda>(_::pydict) (n::nat). (ret (Some []) :: exn + pydict option, Suc n)"
  have "validate_idempotency_key (PStr '' key-0001'') = ret ''key-0001''" by (rule ex_key)
  then obtain db where first:
    "IdempotencyGuard_run (\<lambda>_. ''f'') ex_sql ''op'' (PStr '' key-0001'') [] ?h (ex_store, 0)
       = (ret (Some [], False), db, 1)"
    using sql_store.run_owned_ok [OF ex_key, where handler = ?h and s = ex_store and w = 0
        and sha = "\<lambda>_. ''f''" and operation = "''op''" and params = "[]"
        and redact = "\<lambda>d. d" and redact_text = "\<lambda>t. t"]
    by (auto simp: claimable_def)
  have others: "serve_all (\<lambda>_. ''f'') ex_sql [] (db, 0::nat, []) = (db, 0, [])" by simp
  from replay_is_permanent [OF ex_key first others, of "\<lambda>_ n. (ret None, Suc n)" 5]
  show ?thesis by auto
qed

theorem one_worker_owns_a_key_witness:
  "\<exists>s. race_reachable (\<lambda>d. d) (\<lambda>t. t) ''k'' s \<and> rc_worker s 0 = Owner
     \<and> (\<forall>j. rc_worker s j = Owner \<longrightarrow> j = 0)"
proof -
  define s0 where "s0 = \<lparr>rc_db = ex_store, rc_worker = (\<lambda>_. Idle), rc_completed = 0\<rparr>"
  define s1 where "s1 = s0\<lparr>rc_worker := (rc_worker s0)(0 := HasRead ''op'' ''f''
                                (row_for_key ''k'' (rc_db s0)))\<rparr>"
  define r where "r = new_record 0 ''k'' ''op'' ''f''"
  define db' where "db' = insert_row ''k'' r ex_store"
  define s2 where "s2 = s1\<lparr>rc_db := db', rc_worker := (rc_worker s1)(0 := Owner)\<rparr>"
  have "race_reachable (\<lambda>d. d) (\<lambda>t. t) ''k'' s0" unfolding s0_def by (rule race_reachable.start) simp
  moreover have "race_step (\<lambda>d. d) (\<lambda>t. t) ''k'' s0 s1"
    unfolding s1_def by (rule race_step.read) (simp add: s0_def)
  ultimately have r1: "race_reachable (\<lambda>d. d) (\<lambda>t. t) ''k'' s1" by (rule race_reachable.step)
  have w: "claim_write ''k'' ''op'' ''f'' None (rc_db s1) = (ret (r, True), db')"
    by (simp add: s1_def s0_def db'_def r_def claim_write_def row_for_key_def Let_def)
  have pc: "rc_worker s1 0 = HasRead ''op'' ''f'' None"
    by (simp add: s1_def s0_def row_for_key_def)
  have "race_step (\<lambda>d. d) (\<lambda>t. t) ''k'' s1 s2"
    using race_step.commit_claim [OF pc w] by (simp add: s2_def)
  with r1 have r2: "race_reachable (\<lambda>d. d) (\<lambda>t. t) ''k'' s2" by (rule race_reachable.step)
  have own: "rc_worker s2 0 = Owner" by (simp add: s2_def)
  from one_worker_owns_a_key [OF r2] r2 own show ?thesis by blast
qed

end
