(* ===== verification/Approvals.thy ===== *)
theory Approvals
  imports Idempotency
begin

text \<open>
  Human approval of outward-facing actions (\<open>personalos/domain/job_search.py\<close>, the section
  on actions and approvals, and the nodes \<open>request_approval\<close>, \<open>approval_checkpoint\<close> and
  \<open>execute_approved_actions\<close> of \<open>personalos/graphs/job_search.py\<close>). A node proposes an
  action; a request pins its hash; a reviewer's decision is bound to that hash; and the
  executor recomputes the hash before it spends the decision. Free-text details, log lines
  and the rendered preview a reviewer reads, none of which the gate consults, are left out.
\<close>

section \<open>Actions and what reviewing them costs\<close>

datatype action_kind =
  SUBMIT_APPLICATION | SEND_RECRUITER_MESSAGE | OVERWRITE_DOCUMENT
| CREATE_CALENDAR_EVENT | UPDATE_CALENDAR_EVENT

fun kind_value :: "action_kind \<Rightarrow> string" where
  "kind_value SUBMIT_APPLICATION = ''submit_application''"
| "kind_value SEND_RECRUITER_MESSAGE = ''send_recruiter_message''"
| "kind_value OVERWRITE_DOCUMENT = ''overwrite_document''"
| "kind_value CREATE_CALENDAR_EVENT = ''create_calendar_event''"
| "kind_value UPDATE_CALENDAR_EVENT = ''update_calendar_event''"

datatype risk_level = LOW | MEDIUM | HIGH

record action_risk_profile =
  rk_kind :: action_kind
  rk_risk :: risk_level
  rk_scopes :: "string list"
  rk_approval_ttl :: seconds

definition days :: "rat \<Rightarrow> seconds" where
  "days n = n * 86400"

fun ACTION_RISK_PROFILES :: "action_kind \<Rightarrow> action_risk_profile" where
  "ACTION_RISK_PROFILES SUBMIT_APPLICATION =
     \<lparr>rk_kind = SUBMIT_APPLICATION, rk_risk = HIGH,
      rk_scopes = [''applications:submit'', ''artifacts:read''], rk_approval_ttl = days 7\<rparr>"
| "ACTION_RISK_PROFILES SEND_RECRUITER_MESSAGE =
     \<lparr>rk_kind = SEND_RECRUITER_MESSAGE, rk_risk = MEDIUM,
      rk_scopes = [''communications:send''], rk_approval_ttl = days 3\<rparr>"
| "ACTION_RISK_PROFILES OVERWRITE_DOCUMENT =
     \<lparr>rk_kind = OVERWRITE_DOCUMENT, rk_risk = MEDIUM,
      rk_scopes = [''artifacts:write''], rk_approval_ttl = days 1\<rparr>"
| "ACTION_RISK_PROFILES CREATE_CALENDAR_EVENT =
     \<lparr>rk_kind = CREATE_CALENDAR_EVENT, rk_risk = LOW,
      rk_scopes = [''calendar:write''], rk_approval_ttl = days 2\<rparr>"
| "ACTION_RISK_PROFILES UPDATE_CALENDAR_EVENT =
     \<lparr>rk_kind = UPDATE_CALENDAR_EVENT, rk_risk = MEDIUM,
      rk_scopes = [''calendar:write''], rk_approval_ttl = days 2\<rparr>"

text \<open>Every kind has a profile, so \<open>risk_profile_for\<close> never raises.\<close>

definition risk_profile_for :: "action_kind \<Rightarrow> action_risk_profile" where
  "risk_profile_for k = ACTION_RISK_PROFILES k"

record action_intent =
  ac_id :: uuid
  ac_kind :: action_kind
  ac_target :: string
  ac_summary :: string
  ac_payload :: pydict
  ac_key :: string
  ac_requested_by :: string

definition contract_error :: "string \<Rightarrow> exn" where
  "contract_error msg = POS JobSearchContractError msg None"

text \<open>\<open>ActionIntent\<close> with its field validators.\<close>

definition ActionIntent_init ::
  "uuid \<Rightarrow> action_kind \<Rightarrow> string \<Rightarrow> string \<Rightarrow> pydict \<Rightarrow> string \<Rightarrow> string \<Rightarrow> exn + action_intent" where
  "ActionIntent_init n kind target summary payload key by =
     (if strip target = [] \<or> strip summary = []
      then raise (validation_error ''an action intent must carry a human-readable summary and target'')
      else case validate_idempotency_key (PStr key) of
        Inl e \<Rightarrow> raise (validation_error (exn_text e))
      | Inr k \<Rightarrow> ret \<lparr>ac_id = n, ac_kind = kind, ac_target = target, ac_summary = summary,
                     ac_payload = payload, ac_key = k, ac_requested_by = by\<rparr>)"

definition action_payload :: "action_intent \<Rightarrow> pyval" where
  "action_payload i =
     canonical (PDict [(''kind'', PStr (kind_value (ac_kind i))), (''target'', PStr (ac_target i)),
                       (''payload'', PDict (ac_payload i))])"

definition action_fingerprint :: "(pyval \<Rightarrow> string) \<Rightarrow> action_intent \<Rightarrow> string" where
  "action_fingerprint sha i = sha (action_payload i)"

section \<open>Requests and decisions\<close>

record approval_request =
  rq_id :: uuid
  rq_action_id :: uuid
  rq_action_hash :: string
  rq_kind :: action_kind
  rq_target :: string
  rq_summary :: string
  rq_risk :: risk_level
  rq_scopes :: "string list"
  rq_idempotency_key :: string
  rq_by :: string
  rq_requested_at :: datetime
  rq_expires_at :: datetime

text \<open>
  \<open>ApprovalRequest.for_intent\<close> with the expiry validator; \<open>n\<close> is the id \<open>uuid4()\<close> draws. A
  \<open>ttl\<close> of zero is falsy, so it means the kind's own.
\<close>

definition approval_request_for ::
  "(pyval \<Rightarrow> string) \<Rightarrow> uuid \<Rightarrow> datetime \<Rightarrow> seconds option \<Rightarrow> action_intent \<Rightarrow>
   exn + approval_request" where
  "approval_request_for sha n now ttl i =
     (let profile = risk_profile_for (ac_kind i);
          life = (case ttl of Some t \<Rightarrow> if t \<noteq> 0 then t else rk_approval_ttl profile
                            | None \<Rightarrow> rk_approval_ttl profile)
      in if now + life \<le> now
         then raise (validation_error ''an approval request must expire after it was raised'')
         else ret \<lparr>rq_id = n, rq_action_id = ac_id i, rq_action_hash = action_fingerprint sha i,
                   rq_kind = ac_kind i, rq_target = ac_target i, rq_summary = ac_summary i,
                   rq_risk = rk_risk profile, rq_scopes = rk_scopes profile,
                   rq_idempotency_key = ac_key i, rq_by = ac_requested_by i,
                   rq_requested_at = now, rq_expires_at = now + life\<rparr>)"

definition is_expired :: "approval_request \<Rightarrow> datetime \<Rightarrow> bool" where
  "is_expired r now \<longleftrightarrow> now \<ge> rq_expires_at r"

definition describes :: "approval_request \<Rightarrow> action_intent \<Rightarrow> bool" where
  "describes r i \<longleftrightarrow> rq_action_id r = ac_id i"

datatype approval_verdict = APPROVED | REJECTED | PENDING

record approval_decision =
  ad_action_id :: uuid
  ad_fingerprint :: string
  ad_verdict :: approval_verdict
  ad_decided_by :: string
  ad_request_id :: "uuid option"

definition authorizes :: "(pyval \<Rightarrow> string) \<Rightarrow> approval_decision \<Rightarrow> action_intent \<Rightarrow> bool" where
  "authorizes sha d i \<longleftrightarrow>
     ad_verdict d = APPROVED \<and> ad_action_id d = ac_id i \<and> ad_fingerprint d = action_fingerprint sha i"

definition answers :: "approval_decision \<Rightarrow> approval_request \<Rightarrow> bool" where
  "answers d r \<longleftrightarrow>
     ad_action_id d = rq_action_id r \<and> (ad_request_id d = None \<or> ad_request_id d = Some (rq_id r))"

record action_receipt =
  rc_action_id :: uuid
  rc_ok :: bool
  rc_external_reference :: "string option"
  rc_detail :: "string option"

definition APPROVAL_EXPIRY_ACTOR :: string where
  "APPROVAL_EXPIRY_ACTOR = ''system:approval_expiry''"

datatype refusal_reason =
  NO_REQUEST | NOT_APPROVED | DENIED_BY_USER | MISDIRECTED_DECISION | HASH_MISMATCH | EXPIRED

record approval_refusal =
  rf_action_id :: uuid
  rf_request_id :: "uuid option"
  rf_reason :: refusal_reason
  rf_approved_hash :: "string option"
  rf_recomputed_hash :: "string option"

definition suspicious :: "approval_refusal \<Rightarrow> bool" where
  "suspicious r \<longleftrightarrow> rf_reason r \<in> {HASH_MISMATCH, MISDIRECTED_DECISION}"

definition to_receipt :: "string \<Rightarrow> approval_refusal \<Rightarrow> action_receipt" where
  "to_receipt detail r =
     \<lparr>rc_action_id = rf_action_id r, rc_ok = False, rc_external_reference = None,
      rc_detail = Some detail\<rparr>"

definition non_approval_reason :: "approval_decision \<Rightarrow> refusal_reason" where
  "non_approval_reason d =
     (if ad_decided_by d = APPROVAL_EXPIRY_ACTOR then EXPIRED
      else if ad_verdict d = REJECTED then DENIED_BY_USER
      else NOT_APPROVED)"

definition authorize_execution ::
  "(pyval \<Rightarrow> string) \<Rightarrow> action_intent \<Rightarrow> approval_request option \<Rightarrow> approval_decision option \<Rightarrow>
   datetime \<Rightarrow> approval_refusal option" where
  "authorize_execution sha i request decision now =
     (let refuse = (\<lambda>rid why approved.
            Some \<lparr>rf_action_id = ac_id i, rf_request_id = rid, rf_reason = why,
                  rf_approved_hash = approved,
                  rf_recomputed_hash = Some (action_fingerprint sha i)\<rparr>)
      in case request of
        None \<Rightarrow> refuse None NO_REQUEST None
      | Some r \<Rightarrow>
          let no = (\<lambda>why. refuse (Some (rq_id r)) why (Some (rq_action_hash r))) in
          if \<not> describes r i then no MISDIRECTED_DECISION
          else (case decision of
            None \<Rightarrow> no NOT_APPROVED
          | Some d \<Rightarrow>
              if \<not> answers d r then no MISDIRECTED_DECISION
              else if ad_verdict d \<noteq> APPROVED then no (non_approval_reason d)
              else if ad_fingerprint d \<noteq> rq_action_hash r then no HASH_MISMATCH
              else if action_fingerprint sha i \<noteq> rq_action_hash r then no HASH_MISMATCH
              else if is_expired r now then no EXPIRED
              else None))"

text \<open>
  C4: the last gate opens exactly when the request on file is for this action, the decision
  answers that request and approves, all three hashes (of the request, of the decision, of
  the action as it now stands) agree, and the window is still open.
\<close>

theorem gate_opens_iff:
  "authorize_execution sha i request decision now = None \<longleftrightarrow>
     (\<exists>r d. request = Some r \<and> decision = Some d
        \<and> rq_action_id r = ac_id i \<and> answers d r \<and> authorizes sha d i
        \<and> rq_action_hash r = action_fingerprint sha i \<and> now < rq_expires_at r)"
  by (auto simp: authorize_execution_def describes_def answers_def authorizes_def is_expired_def
      Let_def not_le split: option.splits)

text \<open>
  Why the gate stays shut. A refusal that reports tampering means an identity or a hash
  really does not fit, and a refusal that reports a reviewer's no comes from a recorded
  rejection that the expiry sweep did not write.
\<close>

theorem refusal_reasons:
  assumes "authorize_execution sha i (Some r) (Some d) now = Some f"
  shows "(suspicious f \<longleftrightarrow>
            rq_action_id r \<noteq> ac_id i \<or> \<not> answers d r
            \<or> (ad_verdict d = APPROVED \<and>
                (ad_fingerprint d \<noteq> rq_action_hash r \<or> action_fingerprint sha i \<noteq> rq_action_hash r)))
    \<and> (rf_reason f = DENIED_BY_USER \<longrightarrow>
         ad_verdict d = REJECTED \<and> ad_decided_by d \<noteq> APPROVAL_EXPIRY_ACTOR)
    \<and> rf_action_id f = ac_id i \<and> rf_recomputed_hash f = Some (action_fingerprint sha i)"
  using assms
  by (auto simp: authorize_execution_def describes_def suspicious_def non_approval_reason_def
      Let_def split: if_splits)

section \<open>The approval nodes of the job-search graph\<close>

text \<open>The keys of the graph state the three nodes read and write, as typed values.\<close>

record job_state =
  js_pending_actions :: "action_intent list"
  js_approval_stage :: string
  js_requests :: "approval_request list"
  js_approvals :: "approval_decision list"
  js_receipts :: "action_receipt list"
  js_refusals :: "approval_refusal list"

text \<open>\<open>{key(x): x for x in xs}\<close>: of two entries under one key the later stays.\<close>

definition index_by :: "('a \<Rightarrow> 'k) \<Rightarrow> 'a list \<Rightarrow> 'k \<rightharpoonup> 'a" where
  "index_by key xs = map_of (rev (map (\<lambda>x. (key x, x)) xs))"

fun raise_requests ::
  "(pyval \<Rightarrow> string) \<Rightarrow> uuid \<Rightarrow> datetime \<Rightarrow> seconds option \<Rightarrow> action_intent list \<Rightarrow>
   exn + approval_request list" where
  "raise_requests sha n now ttl [] = ret []"
| "raise_requests sha n now ttl (i # is) =
     (case approval_request_for sha n now ttl i of
        Inl e \<Rightarrow> raise e
      | Inr r \<Rightarrow> (case raise_requests sha (Suc n) now ttl is of
                    Inl e \<Rightarrow> raise e | Inr rs \<Rightarrow> ret (r # rs)))"

definition request_approval ::
  "(pyval \<Rightarrow> string) \<Rightarrow> uuid \<Rightarrow> datetime \<Rightarrow> seconds option \<Rightarrow> job_state \<Rightarrow> exn + job_state" where
  "request_approval sha n now ttl s =
     (case raise_requests sha n now ttl (js_pending_actions s) of
        Inl e \<Rightarrow> raise e
      | Inr rs \<Rightarrow> ret (s\<lparr>js_requests := js_requests s @ rs\<rparr>))"

text \<open>
  What a caller may resume the interrupt with. \<open>RDecided\<close> is a dictionary with an
  \<open>action_id\<close>, with the outcome of validating it; \<open>RMap\<close> is any other dictionary.
\<close>

datatype resume =
  RNone | RDecision approval_decision | RDecided "exn + approval_decision"
| RMap "(string \<times> resume) list" | RSeq "resume list" | ROther

fun decisions_from_resume :: "resume \<Rightarrow> exn + approval_decision list"
  and decisions_of_all :: "resume list \<Rightarrow> exn + approval_decision list"
  and decisions_of_values :: "(string \<times> resume) list \<Rightarrow> exn + approval_decision list" where
  "decisions_from_resume RNone = ret []"
| "decisions_from_resume (RDecision d) = ret [d]"
| "decisions_from_resume (RDecided r) = map_sum id (\<lambda>d. [d]) r"
| "decisions_from_resume (RMap kvs) = decisions_of_values kvs"
| "decisions_from_resume (RSeq xs) = decisions_of_all xs"
| "decisions_from_resume ROther =
     raise (contract_error ''cannot read an approval decision out of a resume value'')"
| "decisions_of_all [] = ret []"
| "decisions_of_all (x # xs) =
     (case decisions_from_resume x of
        Inl e \<Rightarrow> raise e
      | Inr ds \<Rightarrow> map_sum id (\<lambda>es. ds @ es) (decisions_of_all xs))"
| "decisions_of_values [] = ret []"
| "decisions_of_values (kv # kvs) =
     (case decisions_from_resume (snd kv) of
        Inl e \<Rightarrow> raise e
      | Inr ds \<Rightarrow> map_sum id (\<lambda>es. ds @ es) (decisions_of_values kvs))"

type_synonym approval_gate = "action_intent \<Rightarrow> exn + approval_decision"

fun review_loop ::
  "approval_gate \<Rightarrow> (uuid \<rightharpoonup> approval_request) \<Rightarrow> action_intent list \<Rightarrow>
   (uuid \<rightharpoonup> approval_decision) \<Rightarrow> action_intent list \<Rightarrow>
   exn + ((uuid \<rightharpoonup> approval_decision) \<times> action_intent list)" where
  "review_loop gate reqs [] answered outstanding = ret (answered, outstanding)"
| "review_loop gate reqs (i # is) answered outstanding =
     (if reqs (ac_id i) = None
      then raise (contract_error ''reached the approval checkpoint with no request on file'')
      else case gate i of
        Inl e \<Rightarrow> raise e
      | Inr d \<Rightarrow>
          if ad_verdict d = PENDING then review_loop gate reqs is answered (outstanding @ [i])
          else review_loop gate reqs is (answered(ac_id i \<mapsto> d)) outstanding)"

datatype checkpoint_outcome = Interrupted "approval_request list" | Continued job_state

text \<open>
  \<open>approval_checkpoint\<close>. The first time through there is no resume value and \<open>interrupt\<close>
  ends the invocation; the node then runs again from its start with the value.
\<close>

definition approval_checkpoint ::
  "approval_gate \<Rightarrow> resume option \<Rightarrow> job_state \<Rightarrow> exn + checkpoint_outcome" where
  "approval_checkpoint gate resumed s =
     (if js_pending_actions s = [] then ret (Continued s)
      else
        let reqs = index_by rq_action_id (js_requests s);
            finish = (\<lambda>answered. Continued (s\<lparr>js_approvals := js_approvals s @
                        List.map_filter (\<lambda>i. answered (ac_id i)) (js_pending_actions s)\<rparr>))
        in case review_loop gate reqs (js_pending_actions s) Map.empty [] of
          Inl e \<Rightarrow> raise e
        | Inr (answered, outstanding) \<Rightarrow>
            if outstanding = [] then ret (finish answered)
            else (case resumed of
              None \<Rightarrow> ret (Interrupted (List.map_filter (\<lambda>i. reqs (ac_id i)) outstanding))
            | Some v \<Rightarrow>
                (case decisions_from_resume v of
                   Inl e \<Rightarrow> raise e
                 | Inr ds \<Rightarrow> ret (finish (answered ++ index_by ad_action_id ds)))))"

text \<open>\<open>execute_approved_actions\<close>; the executor acts on a state \<open>'w\<close> and may raise.\<close>

type_synonym 'w action_executor =
  "action_intent \<Rightarrow> approval_decision \<Rightarrow> 'w \<Rightarrow> (exn + action_receipt) \<times> 'w"

fun execute_loop ::
  "(pyval \<Rightarrow> string) \<Rightarrow> (action_receipt \<Rightarrow> action_receipt) \<Rightarrow> 'w action_executor \<Rightarrow>
   (uuid \<rightharpoonup> approval_request) \<Rightarrow> (uuid \<rightharpoonup> approval_decision) \<Rightarrow> datetime \<Rightarrow> action_intent list \<Rightarrow>
   action_receipt list \<Rightarrow> approval_refusal list \<Rightarrow> 'w \<Rightarrow>
   (exn + (action_receipt list \<times> approval_refusal list)) \<times> 'w" where
  "execute_loop sha redact ex reqs decs now [] receipts refusals w = (ret (receipts, refusals), w)"
| "execute_loop sha redact ex reqs decs now (i # is) receipts refusals w =
     (case authorize_execution sha i (reqs (ac_id i)) (decs (ac_id i)) now of
        Some f \<Rightarrow> execute_loop sha redact ex reqs decs now is receipts (refusals @ [f]) w
      | None \<Rightarrow>
          (case decs (ac_id i) of
             None \<Rightarrow> (raise (PY ''KeyError'' [] None), w)
           | Some d \<Rightarrow>
               (case ex i d w of
                  (Inl e, w1) \<Rightarrow> (raise e, w1)
                | (Inr r, w1) \<Rightarrow>
                    execute_loop sha redact ex reqs decs now is (receipts @ [redact r]) refusals w1)))"

definition execute_approved_actions ::
  "(pyval \<Rightarrow> string) \<Rightarrow> (action_receipt \<Rightarrow> action_receipt) \<Rightarrow> 'w action_executor \<Rightarrow> datetime \<Rightarrow>
   job_state \<Rightarrow> 'w \<Rightarrow> (exn + job_state) \<times> 'w" where
  "execute_approved_actions sha redact ex now s w =
     (if js_pending_actions s = [] then (ret s, w)
      else case execute_loop sha redact ex (index_by rq_action_id (js_requests s))
                  (index_by ad_action_id (js_approvals s)) now (js_pending_actions s) [] [] w of
        (Inl e, w1) \<Rightarrow> (raise e, w1)
      | (Inr (receipts, refusals), w1) \<Rightarrow>
          (ret (s\<lparr>js_receipts := js_receipts s @ receipts,
                  js_refusals := js_refusals s @ refusals\<rparr>), w1))"

definition has_pending_verdict :: "job_state \<Rightarrow> bool" where
  "has_pending_verdict s \<longleftrightarrow>
     list_ex (\<lambda>d. ad_verdict d = PENDING \<and> ad_action_id d \<in> ac_id ` set (js_pending_actions s))
       (js_approvals s)"

section \<open>What the nodes guarantee\<close>

lemma index_by_Some: "index_by key xs k = Some x \<Longrightarrow> x \<in> set xs \<and> key x = k"
  unfolding index_by_def by (auto dest: map_of_SomeD)

lemma index_by_None: "index_by key xs k = None \<longleftrightarrow> k \<notin> key ` set xs"
  unfolding index_by_def by (auto simp: map_of_eq_None_iff image_image)

text \<open>The executor observed: it also notes what it was called with.\<close>

definition watch_executor ::
  "'w action_executor \<Rightarrow> ('w \<times> (action_intent \<times> approval_decision) list) action_executor" where
  "watch_executor ex i d wl = (case ex i d (fst wl) of (r, w1) \<Rightarrow> (r, (w1, snd wl @ [(i, d)])))"

definition spendable ::
  "(pyval \<Rightarrow> string) \<Rightarrow> datetime \<Rightarrow> job_state \<Rightarrow> action_intent \<Rightarrow> approval_decision \<Rightarrow> bool" where
  "spendable sha now s i d \<longleftrightarrow>
     i \<in> set (js_pending_actions s) \<and> d \<in> set (js_approvals s) \<and> authorizes sha d i
     \<and> (\<exists>r \<in> set (js_requests s). rq_action_id r = ac_id i \<and> answers d r
          \<and> rq_action_hash r = action_fingerprint sha i \<and> now < rq_expires_at r)"

lemma authorized_facts:
  assumes "authorize_execution sha i req dec now = None"
  shows "\<exists>r d. req = Some r \<and> dec = Some d \<and> rq_action_id r = ac_id i \<and> answers d r
           \<and> authorizes sha d i \<and> rq_action_hash r = action_fingerprint sha i
           \<and> now < rq_expires_at r"
  using assms
  by (auto simp: authorize_execution_def describes_def answers_def authorizes_def is_expired_def
      Let_def not_le split: option.splits if_splits)

lemma execute_loop_calls:
  assumes "execute_loop sha redact (watch_executor ex) (index_by rq_action_id (js_requests s))
             (index_by ad_action_id (js_approvals s)) now is rs fs (w, l) = (res, (w', l'))"
    and "set is \<subseteq> set (js_pending_actions s)"
  shows "\<exists>calls. l' = l @ calls \<and> (\<forall>c \<in> set calls. spendable sha now s (fst c) (snd c))"
  using assms
proof (induction "is" arbitrary: rs fs w l)
  case (Cons i "is")
  let ?reqs = "index_by rq_action_id (js_requests s)"
  let ?decs = "index_by ad_action_id (js_approvals s)"
  show ?case
  proof (cases "authorize_execution sha i (?reqs (ac_id i)) (?decs (ac_id i)) now")
    case (Some f)
    with Cons show ?thesis by simp
  next
    case None
    from authorized_facts [OF None] obtain r d where
      r: "?reqs (ac_id i) = Some r" and d: "?decs (ac_id i) = Some d" and ok: "answers d r"
      "authorizes sha d i" "rq_action_hash r = action_fingerprint sha i" "now < rq_expires_at r"
      by blast
    have sp: "spendable sha now s i d"
      using index_by_Some [OF r] index_by_Some [OF d] ok Cons.prems(2)
      by (auto simp: spendable_def)
    obtain er w1 where e: "ex i d w = (er, w1)" by (cases "ex i d w")
    have we: "watch_executor ex i d (w, l) = (er, (w1, l @ [(i, d)]))"
      by (simp add: watch_executor_def e)
    show ?thesis
    proof (cases er)
      case (Inl err)
      with Cons.prems(1) None d we have "l' = l @ [(i, d)]" by simp
      with sp show ?thesis by (intro exI [of _ "[(i, d)]"]) simp
    next
      case (Inr rec)
      with Cons.prems(1) None d we
      have "execute_loop sha redact (watch_executor ex) ?reqs ?decs now is (rs @ [redact rec]) fs
              (w1, l @ [(i, d)]) = (res, (w', l'))" by simp
      from Cons.IH [OF this] Cons.prems(2) obtain calls where
        "l' = (l @ [(i, d)]) @ calls" "\<forall>c \<in> set calls. spendable sha now s (fst c) (snd c)"
        by auto
      with sp show ?thesis by (intro exI [of _ "(i, d) # calls"]) simp
    qed
  qed
qed simp

lemma execute_loop_settles:
  assumes "execute_loop sha redact (watch_executor ex) reqs decs now is rs fs (w, l)
           = (ret (rs', fs'), (w', l'))"
  shows "\<exists>calls receipts. l' = l @ calls \<and> rs' = rs @ receipts \<and> length receipts = length calls
     \<and> map fst calls = filter (\<lambda>i. authorize_execution sha i (reqs (ac_id i)) (decs (ac_id i)) now = None) is
     \<and> fs' = fs @ List.map_filter (\<lambda>i. authorize_execution sha i (reqs (ac_id i)) (decs (ac_id i)) now) is"
  using assms
proof (induction "is" arbitrary: rs fs w l)
  case Nil
  then show ?case by (simp add: List.map_filter_def)
next
  case (Cons i "is")
  show ?case
  proof (cases "authorize_execution sha i (reqs (ac_id i)) (decs (ac_id i)) now")
    case (Some f)
    with Cons.prems have "execute_loop sha redact (watch_executor ex) reqs decs now is rs (fs @ [f]) (w, l)
      = (ret (rs', fs'), (w', l'))" by simp
    from Cons.IH [OF this] Some show ?thesis by (auto simp: List.map_filter_def)
  next
    case None
    from authorized_facts [OF None] obtain d where d: "decs (ac_id i) = Some d" by blast
    obtain er w1 where e: "ex i d w = (er, w1)" by (cases "ex i d w")
    have we: "watch_executor ex i d (w, l) = (er, (w1, l @ [(i, d)]))"
      by (simp add: watch_executor_def e)
    with Cons.prems None d obtain rec where rec: "er = ret rec" by (cases er) auto
    with Cons.prems None d we
    have "execute_loop sha redact (watch_executor ex) reqs decs now is (rs @ [redact rec]) fs
            (w1, l @ [(i, d)]) = (ret (rs', fs'), (w', l'))" by simp
    from Cons.IH [OF this] obtain calls receipts where
      "l' = (l @ [(i, d)]) @ calls" "rs' = (rs @ [redact rec]) @ receipts"
      "length receipts = length calls"
      "map fst calls = filter (\<lambda>i. authorize_execution sha i (reqs (ac_id i)) (decs (ac_id i)) now = None) is"
      "fs' = fs @ List.map_filter (\<lambda>i. authorize_execution sha i (reqs (ac_id i)) (decs (ac_id i)) now) is"
      by blast
    with None show ?thesis
      by (intro exI [of _ "(i, d) # calls"] exI [of _ "redact rec # receipts"])
        (simp add: List.map_filter_def)
  qed
qed

lemma execute_calls_spendable:
  assumes "execute_approved_actions sha redact (watch_executor ex) now s (w, []) = (res, (w', calls))"
    and "c \<in> set calls"
  shows "spendable sha now s (fst c) (snd c)"
proof (cases "js_pending_actions s = []")
  case True
  with assms show ?thesis by (simp add: execute_approved_actions_def)
next
  case False
  obtain r wl where run: "execute_loop sha redact (watch_executor ex) (index_by rq_action_id (js_requests s))
             (index_by ad_action_id (js_approvals s)) now (js_pending_actions s) [] [] (w, []) = (r, wl)"
    by (cases "execute_loop sha redact (watch_executor ex) (index_by rq_action_id (js_requests s))
             (index_by ad_action_id (js_approvals s)) now (js_pending_actions s) [] [] (w, [])")
  with False assms(1) have "wl = (w', calls)"
    by (auto simp: execute_approved_actions_def split: sum.splits)
  with run execute_loop_calls [of sha redact ex s now "js_pending_actions s" "[]" "[]" w "[]" r w' calls]
    assms(2) show ?thesis by auto
qed

text \<open>
  C6: nothing leaves the system unapproved. Whatever the state the node finds and however
  the executor answers, every call it makes is of a pending action under an approval in the
  state that is bound to the action as it now stands, answering a request in the state that
  was raised for it with the same hash and has not expired.
\<close>

theorem only_approved_actions_execute:
  assumes "execute_approved_actions sha redact (watch_executor ex) now s (w, []) = (res, (w', calls))"
  shows "\<forall>c \<in> set calls. spendable sha now s (fst c) (snd c)"
  using execute_calls_spendable [OF assms] by blast

text \<open>
  Every pending action is settled, once. When the node returns, it has called the
  executor on exactly the actions the gate opens for, in their order, with one redacted
  receipt each, and recorded a refusal for each of the others.
\<close>

theorem every_action_is_settled:
  assumes "execute_approved_actions sha redact (watch_executor ex) now s (w, []) = (ret s', (w', calls))"
  shows "\<exists>receipts. js_receipts s' = js_receipts s @ receipts \<and> length receipts = length calls
    \<and> map fst calls = filter (\<lambda>i. authorize_execution sha i
          (index_by rq_action_id (js_requests s) (ac_id i))
          (index_by ad_action_id (js_approvals s) (ac_id i)) now = None) (js_pending_actions s)
    \<and> js_refusals s' = js_refusals s @ List.map_filter (\<lambda>i. authorize_execution sha i
          (index_by rq_action_id (js_requests s) (ac_id i))
          (index_by ad_action_id (js_approvals s) (ac_id i)) now) (js_pending_actions s)"
proof (cases "js_pending_actions s = []")
  case True
  with assms show ?thesis by (auto simp: execute_approved_actions_def List.map_filter_def)
next
  case False
  with assms obtain rs fs where run: "execute_loop sha redact (watch_executor ex)
      (index_by rq_action_id (js_requests s)) (index_by ad_action_id (js_approvals s)) now
      (js_pending_actions s) [] [] (w, []) = (ret (rs, fs), (w', calls))"
    and s': "s' = s\<lparr>js_receipts := js_receipts s @ rs, js_refusals := js_refusals s @ fs\<rparr>"
    by (auto simp: execute_approved_actions_def split: sum.splits prod.splits)
  from execute_loop_settles [OF run] s' show ?thesis by auto
qed

lemma raise_requests_origin:
  "raise_requests sha n now ttl is = ret rs \<Longrightarrow> r \<in> set rs \<Longrightarrow>
   \<exists>i \<in> set is. \<exists>m. approval_request_for sha m now ttl i = ret r"
proof (induction "is" arbitrary: n rs)
  case (Cons i "is")
  then obtain r0 rs0 where "approval_request_for sha n now ttl i = ret r0"
    "raise_requests sha (Suc n) now ttl is = ret rs0" "rs = r0 # rs0"
    by (auto split: sum.splits)
  with Cons.IH [of "Suc n" rs0] Cons.prems(2) show ?case by auto
qed simp

definition approval_life :: "seconds option \<Rightarrow> action_kind \<Rightarrow> seconds" where
  "approval_life ttl k =
     (case ttl of Some t \<Rightarrow> if t \<noteq> 0 then t else rk_approval_ttl (risk_profile_for k)
                | None \<Rightarrow> rk_approval_ttl (risk_profile_for k))"

lemma approval_request_for_facts:
  assumes "approval_request_for sha m now ttl i = ret r"
  shows "rq_action_id r = ac_id i" "rq_action_hash r = action_fingerprint sha i"
    "rq_expires_at r = now + approval_life ttl (ac_kind i)"
  using assms by (auto simp: approval_request_for_def approval_life_def Let_def split: if_splits option.splits)

lemma action_payload_inj:
  assumes "action_payload i = action_payload j"
  shows "ac_kind i = ac_kind j \<and> ac_target i = ac_target j
         \<and> canonical (PDict (ac_payload i)) = canonical (PDict (ac_payload j))"
proof -
  let ?p = "\<lambda>k t a. [(''kind'', PStr k), (''target'', PStr t), (''payload'', a)]"
  have srt: "sort_key fst (?p k t a) = [(''kind'', PStr k), (''payload'', a), (''target'', PStr t)]"
    for k t a by (simp add: less_char_def)
  have "sort_key fst (?p (kind_value (ac_kind i)) (ac_target i) (canonical (PDict (ac_payload i))))
      = sort_key fst (?p (kind_value (ac_kind j)) (ac_target j) (canonical (PDict (ac_payload j))))"
    using assms by (simp add: action_payload_def)
  then have "kind_value (ac_kind i) = kind_value (ac_kind j)" "ac_target i = ac_target j"
    "canonical (PDict (ac_payload i)) = canonical (PDict (ac_payload j))"
    unfolding srt by simp_all
  moreover from this(1) have "ac_kind i = ac_kind j" by (cases "ac_kind i"; cases "ac_kind j") auto
  ultimately show ?thesis by simp
qed

text \<open>
  What is executed is what was put to the reviewer. Between raising the requests and
  the executor anything may rewrite the pending actions, the approvals and the rest of the
  state, as long as the requests stand: an executed action still has the id and the hash of
  an action that was pending when the requests went out, within that kind's window, and
  unless the hash collides it has that action's kind, target and payload.
\<close>

theorem executed_as_shown:
  assumes raised: "request_approval sha n t ttl s0 = ret s1" and first: "js_requests s0 = []"
    and kept: "js_requests s2 = js_requests s1"
    and run: "execute_approved_actions sha redact (watch_executor ex) now s2 (w, []) = (res, (w', calls))"
    and c: "(i, d) \<in> set calls"
  shows "\<exists>i0 \<in> set (js_pending_actions s0). ac_id i = ac_id i0
    \<and> action_fingerprint sha i = action_fingerprint sha i0
    \<and> now < t + approval_life ttl (ac_kind i0)
    \<and> ((sha (action_payload i) = sha (action_payload i0) \<longrightarrow> action_payload i = action_payload i0) \<longrightarrow>
         ac_kind i = ac_kind i0 \<and> ac_target i = ac_target i0
         \<and> canonical (PDict (ac_payload i)) = canonical (PDict (ac_payload i0)))"
proof -
  have "spendable sha now s2 i d" using execute_calls_spendable [OF run c] by simp
  then obtain r where r: "r \<in> set (js_requests s2)" "rq_action_id r = ac_id i"
    "rq_action_hash r = action_fingerprint sha i" "now < rq_expires_at r"
    by (auto simp: spendable_def)
  from raised first kept have "raise_requests sha n t ttl (js_pending_actions s0) = ret (js_requests s2)"
    by (auto simp: request_approval_def split: sum.splits)
  from raise_requests_origin [OF this r(1)] obtain i0 m where
    i0: "i0 \<in> set (js_pending_actions s0)" and m: "approval_request_for sha m t ttl i0 = ret r"
    by blast
  from approval_request_for_facts [OF m] r have "ac_id i = ac_id i0"
    "action_fingerprint sha i = action_fingerprint sha i0"
    "now < t + approval_life ttl (ac_kind i0)" by simp_all
  then show ?thesis
    using i0 action_payload_inj [of i i0] by (auto simp: action_fingerprint_def)
qed

section \<open>The checkpoint\<close>

lemma review_loop_facts:
  assumes "review_loop gate reqs is answered outstanding = ret (answered', outstanding')"
  shows "outstanding' = outstanding @ filter (\<lambda>i. \<exists>d. gate i = ret d \<and> ad_verdict d = PENDING) is
    \<and> (\<forall>a d. answered' a = Some d \<longrightarrow> answered a = Some d
          \<or> (\<exists>i \<in> set is. ac_id i = a \<and> gate i = ret d \<and> ad_verdict d \<noteq> PENDING))
    \<and> (\<forall>i \<in> set is. reqs (ac_id i) \<noteq> None)"
  using assms
proof (induction "is" arbitrary: answered outstanding)
  case (Cons i "is")
  then obtain d where g: "gate i = ret d" and q: "reqs (ac_id i) \<noteq> None"
    by (auto split: if_splits sum.splits)
  show ?case
  proof (cases "ad_verdict d = PENDING")
    case True
    with Cons.prems g q have "review_loop gate reqs is answered (outstanding @ [i]) = ret (answered', outstanding')"
      by (simp split: if_splits)
    from Cons.IH [OF this] g q True show ?thesis by auto
  next
    case False
    with Cons.prems g q have "review_loop gate reqs is (answered(ac_id i \<mapsto> d)) outstanding = ret (answered', outstanding')"
      by (simp split: if_splits)
    note ih = Cons.IH [OF this]
    have "answered a = Some e \<or> (\<exists>j \<in> set (i # is). ac_id j = a \<and> gate j = ret e \<and> ad_verdict e \<noteq> PENDING)"
      if "answered' a = Some e" for a e
      using ih that g False by (cases "a = ac_id i") fastforce+
    moreover have "outstanding' = outstanding @
        filter (\<lambda>i. \<exists>d. gate i = ret d \<and> ad_verdict d = PENDING) (i # is)"
      using ih g False by simp
    moreover have "\<forall>j \<in> set (i # is). reqs (ac_id j) \<noteq> None" using ih q by simp
    ultimately show ?thesis by blast
  qed
qed simp

text \<open>
  The checkpoint waits for everybody and invents nothing. It lets the run continue
  without a resume value only when the gate answers for every pending action; otherwise it
  interrupts with the request of each unanswered one. The decisions it adds are standing
  answers of the gate, or decisions read out of the resume value, and nothing else in the
  state changes.
\<close>

theorem checkpoint_invents_nothing:
  assumes "approval_checkpoint gate resumed s = ret out"
  shows "case out of
      Interrupted rs \<Rightarrow> resumed = None
        \<and> (\<exists>i \<in> set (js_pending_actions s). \<exists>d. gate i = ret d \<and> ad_verdict d = PENDING)
        \<and> rs = List.map_filter (\<lambda>i. index_by rq_action_id (js_requests s) (ac_id i))
                 (filter (\<lambda>i. \<exists>d. gate i = ret d \<and> ad_verdict d = PENDING) (js_pending_actions s))
    | Continued s' \<Rightarrow> \<exists>ds. s' = s\<lparr>js_approvals := js_approvals s @ ds\<rparr>
        \<and> (\<forall>d \<in> set ds. (\<exists>i \<in> set (js_pending_actions s). gate i = ret d \<and> ad_verdict d \<noteq> PENDING)
             \<or> (\<exists>v es. resumed = Some v \<and> decisions_from_resume v = ret es \<and> d \<in> set es))
        \<and> (resumed = None \<longrightarrow>
             (\<forall>i \<in> set (js_pending_actions s). \<forall>d. gate i = ret d \<longrightarrow> ad_verdict d \<noteq> PENDING))"
proof (cases "js_pending_actions s = []")
  case True
  with assms have "out = Continued (s\<lparr>js_approvals := js_approvals s @ []\<rparr>)"
    by (simp add: approval_checkpoint_def)
  with True show ?thesis by (simp only: checkpoint_outcome.case) (intro exI [of _ "[]"], simp)
next
  case False
  let ?reqs = "index_by rq_action_id (js_requests s)"
  let ?pending = "filter (\<lambda>i. \<exists>d. gate i = ret d \<and> ad_verdict d = PENDING) (js_pending_actions s)"
  let ?pick = "\<lambda>answered. List.map_filter (\<lambda>i. answered (ac_id i)) (js_pending_actions s)"
  from assms False obtain answered outstanding where
    loop: "review_loop gate ?reqs (js_pending_actions s) Map.empty [] = ret (answered, outstanding)"
    by (auto simp: approval_checkpoint_def Let_def split: sum.splits prod.splits)
  note facts = review_loop_facts [OF loop]
  from facts have out: "outstanding = ?pending" by simp
  have ans: "\<exists>i \<in> set (js_pending_actions s). gate i = ret d \<and> ad_verdict d \<noteq> PENDING"
    if "answered a = Some d" for a d
    using facts that by (metis option.distinct(1))
  have picked: "\<exists>a. m a = Some d" if "d \<in> set (?pick m)" for d m
    using that by (auto simp: List.map_filter_def)
  show ?thesis
  proof (cases "?pending = []")
    case True
    with assms False loop out
    have o: "out = Continued (s\<lparr>js_approvals := js_approvals s @ ?pick answered\<rparr>)"
      by (simp add: approval_checkpoint_def Let_def)
    have "\<forall>i \<in> set (js_pending_actions s). \<forall>d. gate i = ret d \<longrightarrow> ad_verdict d \<noteq> PENDING"
      using True by (simp add: filter_empty_conv)
    moreover have "\<forall>d \<in> set (?pick answered).
        \<exists>i \<in> set (js_pending_actions s). gate i = ret d \<and> ad_verdict d \<noteq> PENDING"
      using ans picked [of _ answered] by meson
    ultimately show ?thesis
      unfolding o checkpoint_outcome.case by (intro exI [of _ "?pick answered"]) blast
  next
    case pending: False
    then have some: "\<exists>i \<in> set (js_pending_actions s). \<exists>d. gate i = ret d \<and> ad_verdict d = PENDING"
      by (simp add: filter_empty_conv)
    show ?thesis
    proof (cases resumed)
      case None
      with assms False loop out pending
      have "out = Interrupted (List.map_filter (\<lambda>i. ?reqs (ac_id i)) ?pending)"
        by (simp add: approval_checkpoint_def Let_def)
      with None some show ?thesis by simp
    next
      case (Some v)
      with assms False loop out pending obtain es where es: "decisions_from_resume v = ret es"
        and o: "out = Continued (s\<lparr>js_approvals := js_approvals s
                 @ ?pick (answered ++ index_by ad_action_id es)\<rparr>)"
        by (auto simp: approval_checkpoint_def Let_def split: sum.splits)
      have "(\<exists>i \<in> set (js_pending_actions s). gate i = ret d \<and> ad_verdict d \<noteq> PENDING) \<or> d \<in> set es"
        if "d \<in> set (?pick (answered ++ index_by ad_action_id es))" for d
        using picked [OF that] ans index_by_Some [of ad_action_id es]
        by (metis map_add_SomeD)
      then show ?thesis
        using Some es unfolding o checkpoint_outcome.case
        by (intro exI [of _ "?pick (answered ++ index_by ad_action_id es)"]) blast
    qed
  qed
qed

section \<open>Witnesses\<close>

definition ex_action :: action_intent where
  "ex_action = \<lparr>ac_id = 7, ac_kind = OVERWRITE_DOCUMENT, ac_target = ''cv'', ac_summary = ''tailor'',
     ac_payload = [(''body'', PStr ''x'')], ac_key = ''overwrite-1'', ac_requested_by = ''graph''\<rparr>"

definition ex_proposed :: job_state where
  "ex_proposed = \<lparr>js_pending_actions = [ex_action], js_approval_stage = ''submission'',
     js_requests = [], js_approvals = [], js_receipts = [], js_refusals = []\<rparr>"

definition ex_request :: approval_request where
  "ex_request = \<lparr>rq_id = 1, rq_action_id = 7, rq_action_hash = ''h'', rq_kind = OVERWRITE_DOCUMENT,
     rq_target = ''cv'', rq_summary = ''tailor'', rq_risk = MEDIUM, rq_scopes = [''artifacts:write''],
     rq_idempotency_key = ''overwrite-1'', rq_by = ''graph'', rq_requested_at = 0,
     rq_expires_at = 86400\<rparr>"

definition ex_approval :: approval_decision where
  "ex_approval = \<lparr>ad_action_id = 7, ad_fingerprint = ''h'', ad_verdict = APPROVED,
     ad_decided_by = ''ada'', ad_request_id = Some 1\<rparr>"

abbreviation ex_receipt :: action_receipt where
  "ex_receipt \<equiv> \<lparr>rc_action_id = 7, rc_ok = True, rc_external_reference = None, rc_detail = None\<rparr>"

lemmas ex_action_defs = ex_action_def ex_proposed_def ex_request_def ex_approval_def

definition ex_parked :: job_state where
  "ex_parked = ex_proposed\<lparr>js_requests := [ex_request], js_approvals := [ex_approval]\<rparr>"

lemma ex_raised:
  "request_approval (\<lambda>_. ''h'') 1 0 None ex_proposed = ret (ex_proposed\<lparr>js_requests := [ex_request]\<rparr>)"
  by (simp add: request_approval_def ex_action_defs approval_request_for_def risk_profile_for_def
      action_fingerprint_def days_def Let_def)

lemma ex_executed:
  "execute_approved_actions (\<lambda>_. ''h'') (\<lambda>r. r) (watch_executor (\<lambda>i d n. (ret ex_receipt, Suc n)))
     10 ex_parked (0, [])
   = (ret (ex_parked\<lparr>js_receipts := [ex_receipt]\<rparr>), (1, [(ex_action, ex_approval)]))"
  by (simp add: execute_approved_actions_def ex_parked_def index_by_def ex_action_defs
      watch_executor_def authorize_execution_def describes_def answers_def action_fingerprint_def
      is_expired_def Let_def)

theorem refusal_reasons_witness:
  "\<exists>f. authorize_execution (\<lambda>_. ''other'') ex_action (Some ex_request) (Some ex_approval) 10 = Some f
     \<and> suspicious f"
proof -
  obtain f where f: "authorize_execution (\<lambda>_. ''other'') ex_action (Some ex_request) (Some ex_approval) 10
                     = Some f"
    by (simp add: authorize_execution_def ex_action_defs describes_def answers_def
        action_fingerprint_def Let_def)
  from refusal_reasons [OF f] have "suspicious f"
    by (simp add: ex_action_defs action_fingerprint_def)
  with f show ?thesis by blast
qed

theorem only_approved_actions_execute_witness:
  "spendable (\<lambda>_. ''h'') 10 ex_parked ex_action ex_approval"
  using only_approved_actions_execute [OF ex_executed] by simp

theorem every_action_is_settled_witness:
  "\<exists>receipts. js_receipts (ex_parked\<lparr>js_receipts := [ex_receipt]\<rparr>) = js_receipts ex_parked @ receipts
     \<and> length receipts = 1"
  using every_action_is_settled [OF ex_executed] by auto

theorem executed_as_shown_witness:
  "\<exists>i0 \<in> set (js_pending_actions ex_proposed). ac_id ex_action = ac_id i0 \<and> ac_kind ex_action = ac_kind i0"
proof -
  have "js_requests ex_parked = js_requests (ex_proposed\<lparr>js_requests := [ex_request]\<rparr>)"
    "js_requests ex_proposed = []" "(ex_action, ex_approval) \<in> set [(ex_action, ex_approval)]"
    by (simp_all add: ex_parked_def ex_proposed_def)
  from executed_as_shown [OF ex_raised this(2,1) ex_executed this(3)]
  show ?thesis by (auto simp: ex_proposed_def)
qed

theorem checkpoint_invents_nothing_witness:
  "approval_checkpoint (\<lambda>_. ret (ex_approval\<lparr>ad_verdict := PENDING\<rparr>)) None
     (ex_proposed\<lparr>js_requests := [ex_request]\<rparr>) = ret (Interrupted [ex_request])
   \<and> (\<exists>i \<in> set (js_pending_actions ex_proposed). \<exists>d.
        (ret (ex_approval\<lparr>ad_verdict := PENDING\<rparr>) :: exn + approval_decision) = ret d
        \<and> ad_verdict d = PENDING)"
proof -
  let ?gate = "\<lambda>_. ret (ex_approval\<lparr>ad_verdict := PENDING\<rparr>) :: exn + approval_decision"
  have run: "approval_checkpoint ?gate None (ex_proposed\<lparr>js_requests := [ex_request]\<rparr>)
             = ret (Interrupted [ex_request])"
    by (simp add: approval_checkpoint_def index_by_def List.map_filter_def ex_action_defs Let_def)
  from checkpoint_invents_nothing [OF run] run show ?thesis by simp
qed

end
