(* ===== verification/Transport.thy ===== *)
theory Transport
  imports Retry
begin

text \<open>
  Event transports (\<open>personalos/domain/events.py\<close>, \<open>personalos/domain/event_transport.py\<close>
  and \<open>personalos/events/memory.py\<close>): the envelope with its validators, the classification of
  a failed delivery, the in-memory transport, and the contract every transport keeps as the
  locale \<open>event_transport\<close>. What a transport is told by its environment (the clock's reading,
  the random draw) is an argument of the operation that reads it; the description of an
  exception, the redaction of texts and payloads and the encoded size of a payload are
  parameters in the configuration. Receipt times, raw references and trace contexts, which
  nothing here decides on, are left out of the envelope.
\<close>

section \<open>Envelopes\<close>

record event_envelope =
  ev_id :: uuid
  ev_type :: string
  ev_source :: string
  ev_occurred_at :: datetime
  ev_subject_ref :: "string option"
  ev_correlation_id :: "uuid option"
  ev_dedupe_key :: string
  ev_payload :: pydict

definition MAX_EVENT_TYPE_LENGTH :: nat where "MAX_EVENT_TYPE_LENGTH = 255"
definition MAX_DEDUPE_KEY_LENGTH :: nat where "MAX_DEDUPE_KEY_LENGTH = 255"
definition MAX_PAYLOAD_BYTES :: nat where "MAX_PAYLOAD_BYTES = 16 * 1024"

text \<open>
  \<open>EventEnvelope\<close> with its validators; \<open>byte_count\<close> is the length in bytes of a payload encoded as
  JSON and \<open>redact\<close> the process-wide redactor, and the stored payload is in canonical form.
\<close>

definition EventEnvelope_init ::
  "(pydict \<Rightarrow> pydict) \<Rightarrow> (pydict \<Rightarrow> nat) \<Rightarrow> event_envelope \<Rightarrow> exn + event_envelope" where
  "EventEnvelope_init redact byte_count e =
     (let ty = strip (ev_type e); src = strip (ev_source e); key = strip (ev_dedupe_key e);
          payload = redact (ev_payload e)
      in if ty = [] \<or> src = [] \<or> key = [] then raise (validation_error ''must not be blank'')
      else if length ty > MAX_EVENT_TYPE_LENGTH then raise (validation_error ''type too long'')
      else if length key > MAX_DEDUPE_KEY_LENGTH then raise (validation_error ''dedupe_key too long'')
      else if byte_count payload > MAX_PAYLOAD_BYTES then raise (validation_error ''payload too large'')
      else ret (e\<lparr>ev_type := ty, ev_source := src, ev_dedupe_key := key,
                  ev_payload := (case canonical (PDict payload) of PDict d \<Rightarrow> d | _ \<Rightarrow> payload)\<rparr>))"

text \<open>\<open>subject(kind)\<close>: the part of \<open>subject_ref\<close> after the first colon, if the part before it is \<open>kind\<close>.\<close>

definition subject :: "event_envelope \<Rightarrow> string \<Rightarrow> string option" where
  "subject e kind =
     (case ev_subject_ref e of
        None \<Rightarrow> None
      | Some r \<Rightarrow>
          let prefix = takeWhile (\<lambda>c. c \<noteq> CHR '':'') r; rest = dropWhile (\<lambda>c. c \<noteq> CHR '':'') r
          in if rest \<noteq> [] \<and> prefix = kind \<and> tl rest \<noteq> [] then Some (tl rest) else None)"

section \<open>What a failed delivery becomes\<close>

datatype failure_outcome = RETRY_SCHEDULED | DEAD_LETTERED | QUARANTINED | CLAIM_LOST

record delivery_failure =
  df_outcome :: failure_outcome
  df_error :: string
  df_delay :: "seconds option"

definition is_poison :: "exn \<Rightarrow> bool" where
  "is_poison e \<longleftrightarrow> isinstance e ValidationFailed"

definition is_terminal :: "exn \<Rightarrow> bool" where
  "is_terminal e \<longleftrightarrow> (case e of POS c _ _ \<Rightarrow> \<not> retryable_of c | PY _ _ _ \<Rightarrow> False) \<and> \<not> is_poison e"

definition classify_failure ::
  "(exn \<Rightarrow> string) \<Rightarrow> exn \<Rightarrow> int \<Rightarrow> retry_policy \<Rightarrow> rat \<Rightarrow> exn + delivery_failure" where
  "classify_failure describe e attempt p u =
     (let txt = describe e in
      if is_poison e then ret \<lparr>df_outcome = QUARANTINED, df_error = txt, df_delay = None\<rparr>
      else if is_terminal e \<or> \<not> allows_retry p attempt
      then ret \<lparr>df_outcome = DEAD_LETTERED, df_error = txt, df_delay = None\<rparr>
      else case delay p attempt (retry_after_seconds e) u of
        Inl err \<Rightarrow> raise err
      | Inr d \<Rightarrow> ret \<lparr>df_outcome = RETRY_SCHEDULED, df_error = txt, df_delay = Some d\<rparr>)"

definition lapsed_lease_error :: "(seconds \<Rightarrow> string) \<Rightarrow> (int \<Rightarrow> string) \<Rightarrow> int \<Rightarrow> seconds \<Rightarrow> string" where
  "lapsed_lease_error show_span show_int attempts timeout =
     ''the event's lease lapsed '' @ show_int (attempts - 1) @
     '' times without the delivery being settled (the worker crashed or the handler outran the '' @
     show_span timeout @ '' visibility timeout)''"

record published =
  pb_event_id :: uuid
  pb_duplicate :: bool

record transport_config =
  tc_exclude_types :: "string list"
  tc_visibility_timeout :: seconds
  tc_retry_policy :: retry_policy
  tc_describe :: "exn \<Rightarrow> string"
  tc_redact_text :: "string \<Rightarrow> string"
  tc_lapsed :: "int \<Rightarrow> string"

text \<open>\<open>tc_lapsed n\<close> is \<open>lapsed_lease_error\<close> for \<open>n\<close> attempts under the configured timeout.\<close>

abbreviation tc_max_attempts :: "'z transport_config_scheme \<Rightarrow> int" where
  "tc_max_attempts c \<equiv> max_attempts (tc_retry_policy c)"

section \<open>The in-memory transport\<close>

datatype event_status = PENDING | IN_PROGRESS | DISPATCHED | DEAD_LETTER | QUARANTINE | GIVEN_UP

text \<open>\<open>GIVEN_UP\<close> is the outbox's legacy status \<open>failed\<close>; the in-memory transport has no such row.\<close>

record held_event =
  he_envelope :: event_envelope
  he_sequence :: nat
  he_status :: event_status
  he_attempts :: int
  he_lease :: "nat option"
  he_claimed_at :: "datetime option"
  he_available_at :: "datetime option"
  he_last_error :: "string option"

record memory_transport =
  mt_held :: "held_event list"
  mt_sequence :: nat
  mt_leases :: nat

record memory_delivery =
  md_envelope :: event_envelope
  md_attempt :: int
  md_lease :: nat

abbreviation he_key :: "held_event \<Rightarrow> string" where
  "he_key h \<equiv> ev_dedupe_key (he_envelope h)"

definition find_by :: "('a \<Rightarrow> 'k) \<Rightarrow> 'k \<Rightarrow> 'a list \<Rightarrow> 'a option" where
  "find_by key k xs = List.find (\<lambda>x. key x = k) xs"

definition update_by :: "('a \<Rightarrow> 'k) \<Rightarrow> 'k \<Rightarrow> ('a \<Rightarrow> 'a) \<Rightarrow> 'a list \<Rightarrow> 'a list" where
  "update_by key k f xs = map (\<lambda>x. if key x = k then f x else x) xs"

definition first_by :: "('a \<Rightarrow> 'b::linorder) \<Rightarrow> 'a list \<Rightarrow> 'a option" where
  "first_by key xs = (if xs = [] then None else Some (arg_min_list key xs))"

definition memory_publish ::
  "event_envelope \<Rightarrow> memory_transport \<Rightarrow> (exn + published) \<times> memory_transport" where
  "memory_publish e s =
     (case find_by he_key (ev_dedupe_key e) (mt_held s) of
        Some h \<Rightarrow> (ret \<lparr>pb_event_id = ev_id (he_envelope h), pb_duplicate = True\<rparr>, s)
      | None \<Rightarrow>
          let n = mt_sequence s + 1 in
          (ret \<lparr>pb_event_id = ev_id e, pb_duplicate = False\<rparr>,
           s\<lparr>mt_sequence := n,
             mt_held := mt_held s @ [\<lparr>he_envelope = e, he_sequence = n, he_status = PENDING,
               he_attempts = 0, he_lease = None, he_claimed_at = None, he_available_at = None,
               he_last_error = None\<rparr>]\<rparr>))"

definition memory_ready :: "transport_config \<Rightarrow> datetime \<Rightarrow> held_event \<Rightarrow> bool" where
  "memory_ready c now h \<longleftrightarrow>
     ev_type (he_envelope h) \<notin> set (tc_exclude_types c)
     \<and> (he_status h = PENDING
          \<and> (case he_available_at h of None \<Rightarrow> True | Some t \<Rightarrow> t \<le> now)
        \<or> he_status h = IN_PROGRESS
          \<and> (case he_claimed_at h of None \<Rightarrow> False | Some t \<Rightarrow> t \<le> now - tc_visibility_timeout c))"

definition memory_next_ready ::
  "transport_config \<Rightarrow> datetime \<Rightarrow> held_event list \<Rightarrow> held_event option" where
  "memory_next_ready c now hs = first_by he_sequence (filter (memory_ready c now) hs)"

definition memory_lease :: "nat \<Rightarrow> datetime \<Rightarrow> held_event \<Rightarrow> held_event" where
  "memory_lease n now h =
     h\<lparr>he_attempts := he_attempts h + 1, he_status := IN_PROGRESS, he_lease := Some n,
       he_claimed_at := Some now, he_available_at := None\<rparr>"

definition memory_park ::
  "transport_config \<Rightarrow> event_status \<Rightarrow> string \<Rightarrow> held_event \<Rightarrow> held_event" where
  "memory_park c st err h =
     h\<lparr>he_status := st, he_lease := None, he_available_at := None,
       he_last_error := Some (tc_redact_text c err)\<rparr>"

lemma first_by_in: "first_by key xs = Some x \<Longrightarrow> x \<in> set xs"
  by (auto simp: first_by_def arg_min_list_in split: if_splits)

lemma update_by_filter_length:
  assumes "x \<in> set xs" and "P x" and "\<And>y. y \<in> set xs \<Longrightarrow> \<not> P (f y)"
  shows "length (filter P (update_by key (key x) f xs)) < length (filter P xs)"
  using assms
proof (induction xs)
  case (Cons y ys)
  have le: "length (filter P (update_by key (key x) f zs)) \<le> length (filter P zs)"
    if "\<forall>y \<in> set zs. \<not> P (f y)" for zs
    using that by (induction zs) (simp_all add: update_by_def)
  show ?case
  proof (cases "x = y")
    case True
    with Cons.prems le [of ys] show ?thesis by (simp add: update_by_def le_imp_less_Suc)
  next
    case False
    with Cons.prems have "x \<in> set ys" by simp
    with Cons.IH Cons.prems have "length (filter P (update_by key (key x) f ys)) < length (filter P ys)"
      by simp
    with Cons.prems(3) [of y] show ?thesis by (auto simp: update_by_def)
  qed
qed simp

text \<open>
  \<open>claim\<close>: a round leases the oldest ready event, and parks it and looks again when its
  leases have lapsed too often. Each such round leaves one ready event fewer.
\<close>

function memory_claim ::
  "transport_config \<Rightarrow> datetime \<Rightarrow> memory_transport \<Rightarrow> memory_delivery option \<times> memory_transport" where
  "memory_claim c now s =
     (case memory_next_ready c now (mt_held s) of
        None \<Rightarrow> (None, s)
      | Some h \<Rightarrow>
          let n = mt_leases s + 1; h' = memory_lease n now h in
          if he_attempts h' > tc_max_attempts c
          then memory_claim c now (s\<lparr>mt_leases := n,
                 mt_held := update_by he_key (he_key h)
                   (\<lambda>g. memory_park c DEAD_LETTER (tc_lapsed c (he_attempts h')) (memory_lease n now g))
                   (mt_held s)\<rparr>)
          else (Some \<lparr>md_envelope = he_envelope h', md_attempt = he_attempts h', md_lease = n\<rparr>,
                s\<lparr>mt_leases := n,
                  mt_held := update_by he_key (he_key h) (memory_lease n now) (mt_held s)\<rparr>))"
  by pat_completeness auto
termination
proof (relation "measure (\<lambda>(c, now, s). length (filter (memory_ready c now) (mt_held s)))", goal_cases)
  case (2 c now s h n h')
  then have "h \<in> set (mt_held s)" "memory_ready c now h"
    by (auto simp: memory_next_ready_def dest: first_by_in)
  moreover have "\<not> memory_ready c now (memory_park c DEAD_LETTER m (memory_lease n now g))" for m g
    by (simp add: memory_ready_def memory_park_def)
  ultimately show ?case
    using update_by_filter_length [where x = h and xs = "mt_held s" and P = "memory_ready c now"
        and key = he_key and f = "\<lambda>g. memory_park c DEAD_LETTER (tc_lapsed c (he_attempts h'))
                                       (memory_lease n now g)"]
    by simp
qed simp

declare memory_claim.simps [simp del]

definition memory_current :: "memory_delivery \<Rightarrow> memory_transport \<Rightarrow> held_event option" where
  "memory_current d s =
     (case find_by he_key (ev_dedupe_key (md_envelope d)) (mt_held s) of
        None \<Rightarrow> None
      | Some h \<Rightarrow> if he_status h \<noteq> IN_PROGRESS \<or> he_lease h \<noteq> Some (md_lease d) then None else Some h)"

definition memory_put :: "held_event \<Rightarrow> (held_event \<Rightarrow> held_event) \<Rightarrow> memory_transport \<Rightarrow> memory_transport" where
  "memory_put h f s = s\<lparr>mt_held := update_by he_key (he_key h) f (mt_held s)\<rparr>"

definition memory_ack :: "memory_delivery \<Rightarrow> memory_transport \<Rightarrow> bool \<times> memory_transport" where
  "memory_ack d s =
     (case memory_current d s of
        None \<Rightarrow> (False, s)
      | Some h \<Rightarrow> (True, memory_put h (\<lambda>g. g\<lparr>he_status := DISPATCHED, he_lease := None\<rparr>) s))"

definition memory_nack ::
  "transport_config \<Rightarrow> datetime \<Rightarrow> rat \<Rightarrow> memory_delivery \<Rightarrow> exn \<Rightarrow> memory_transport \<Rightarrow>
   (exn + delivery_failure) \<times> memory_transport" where
  "memory_nack c now u d e s =
     (case classify_failure (tc_describe c) e (md_attempt d) (tc_retry_policy c) u of
        Inl err \<Rightarrow> (raise err, s)
      | Inr plan \<Rightarrow>
          (case memory_current d s of
             None \<Rightarrow> (ret \<lparr>df_outcome = CLAIM_LOST, df_error = df_error plan, df_delay = None\<rparr>, s)
           | Some h \<Rightarrow>
               (ret plan,
                memory_put h
                  (if df_outcome plan = QUARANTINED then memory_park c QUARANTINE (df_error plan)
                   else if df_outcome plan = DEAD_LETTERED then memory_park c DEAD_LETTER (df_error plan)
                   else (\<lambda>g. g\<lparr>he_status := PENDING, he_lease := None, he_claimed_at := None,
                     he_available_at := Some (now + (case df_delay plan of None \<Rightarrow> 0 | Some t \<Rightarrow> t)),
                     he_last_error := Some (df_error plan)\<rparr>)) s)))"

definition memory_dead_letter ::
  "transport_config \<Rightarrow> memory_delivery \<Rightarrow> string \<Rightarrow> memory_transport \<Rightarrow> bool \<times> memory_transport" where
  "memory_dead_letter c d why s =
     (case memory_current d s of
        None \<Rightarrow> (False, s)
      | Some h \<Rightarrow> (True, memory_put h (memory_park c DEAD_LETTER why) s))"

definition memory_requeue :: "uuid \<Rightarrow> memory_transport \<Rightarrow> bool \<times> memory_transport" where
  "memory_requeue n s =
     (case find_first (\<lambda>h. ev_id (he_envelope h) = n \<and> he_status h \<in> {DEAD_LETTER, QUARANTINE})
             (mt_held s) of
        None \<Rightarrow> (False, s)
      | Some h \<Rightarrow>
          (True, memory_put h (\<lambda>g. g\<lparr>he_status := PENDING, he_attempts := 0, he_lease := None,
                                    he_claimed_at := None, he_available_at := None\<rparr>) s))"

section \<open>The contract of a transport\<close>

record ('s, 'd) transport_ops =
  tr_publish :: "datetime \<Rightarrow> event_envelope \<Rightarrow> 's \<Rightarrow> (exn + published) \<times> 's"
  tr_claim :: "datetime \<Rightarrow> 's \<Rightarrow> 'd option \<times> 's"
  tr_ack :: "datetime \<Rightarrow> 'd \<Rightarrow> 's \<Rightarrow> bool \<times> 's"
  tr_nack :: "datetime \<Rightarrow> rat \<Rightarrow> 'd \<Rightarrow> exn \<Rightarrow> 's \<Rightarrow> (exn + delivery_failure) \<times> 's"
  tr_dead_letter :: "datetime \<Rightarrow> 'd \<Rightarrow> string \<Rightarrow> 's \<Rightarrow> bool \<times> 's"
  tr_requeue :: "uuid \<Rightarrow> 's \<Rightarrow> bool \<times> 's"

text \<open>
  What publishers, consumers and operators ask of a transport, in any order, with any
  delivery (also one that is stale), and what of it is observed: the deliveries handed out.
\<close>

datatype 'd command =
  Publish datetime event_envelope | Claim datetime | Ack datetime 'd | Nack datetime rat 'd exn
| DeadLetter datetime 'd string | Requeue uuid

fun perform :: "('s, 'd) transport_ops \<Rightarrow> 'd command \<Rightarrow> 's \<Rightarrow> 'd list \<times> 's" where
  "perform t (Publish now e) s = ([], snd (tr_publish t now e s))"
| "perform t (Claim now) s =
     (case tr_claim t now s of (None, s') \<Rightarrow> ([], s') | (Some d, s') \<Rightarrow> ([d], s'))"
| "perform t (Ack now d) s = ([], snd (tr_ack t now d s))"
| "perform t (Nack now u d e) s = ([], snd (tr_nack t now u d e s))"
| "perform t (DeadLetter now d why) s = ([], snd (tr_dead_letter t now d why s))"
| "perform t (Requeue n) s = ([], snd (tr_requeue t n s))"

primrec perform_all :: "('s, 'd) transport_ops \<Rightarrow> 'd command list \<Rightarrow> 's \<Rightarrow> 'd list \<times> 's" where
  "perform_all t [] s = ([], s)"
| "perform_all t (c # cs) s =
     (case perform t c s of (ds, s1) \<Rightarrow> case perform_all t cs s1 of (ds', s2) \<Rightarrow> (ds @ ds', s2))"

text \<open>The life of one event: its status and how many times it has been claimed.\<close>

type_synonym life = "(event_status \<times> int) option"

abbreviation live :: "event_status \<Rightarrow> bool" where
  "live st \<equiv> st = PENDING \<or> st = IN_PROGRESS"

definition passed_over :: "life \<Rightarrow> life \<Rightarrow> bool" where
  "passed_over l l' \<longleftrightarrow>
     l' = l \<or> (\<exists>st n st'. l = Some (st, n) \<and> live st \<and> st' \<in> {DEAD_LETTER, QUARANTINE}
                  \<and> l' = Some (st', n + 1))"

locale event_transport =
  fixes ops :: "('s, 'd) transport_ops"
    and life :: "'s \<Rightarrow> 'k \<Rightarrow> life"
    and key :: "'d \<Rightarrow> 'k"
    and attempt_no :: "'d \<Rightarrow> int"
    and max_no :: int
    and ok :: "'s \<Rightarrow> bool"
  assumes publish_law: "ok s \<Longrightarrow> tr_publish ops now ev s = (rp, s') \<Longrightarrow>
      ok s' \<and> (life s' = life s \<or> (\<exists>k. life s k = None \<and> life s' = (life s)(k \<mapsto> (PENDING, 0))))"
    and claim_law: "ok s \<Longrightarrow> tr_claim ops now s = (r, s') \<Longrightarrow>
      ok s' \<and> (case r of
        None \<Rightarrow> \<forall>k. passed_over (life s k) (life s' k)
      | Some d \<Rightarrow> (\<forall>k. k \<noteq> key d \<longrightarrow> passed_over (life s k) (life s' k))
          \<and> attempt_no d \<le> max_no \<and> life s' (key d) = Some (IN_PROGRESS, attempt_no d)
          \<and> (\<exists>st. live st \<and> life s (key d) = Some (st, attempt_no d - 1)))"
    and ack_law: "ok s \<Longrightarrow> tr_ack ops now d s = (b, s') \<Longrightarrow>
      ok s' \<and> (if b then \<exists>n. life s (key d) = Some (IN_PROGRESS, n)
                        \<and> life s' = (life s)(key d \<mapsto> (DISPATCHED, n))
               else s' = s)"
    and nack_law: "ok s \<Longrightarrow> tr_nack ops now u d err s = (rn, s') \<Longrightarrow>
      ok s' \<and> (s' = s \<or> (\<exists>n st. life s (key d) = Some (IN_PROGRESS, n)
                        \<and> st \<in> {PENDING, DEAD_LETTER, QUARANTINE}
                        \<and> life s' = (life s)(key d \<mapsto> (st, n))))"
    and dead_letter_law: "ok s \<Longrightarrow> tr_dead_letter ops now d why s = (b, s') \<Longrightarrow>
      ok s' \<and> (if b then \<exists>n. life s (key d) = Some (IN_PROGRESS, n)
                        \<and> life s' = (life s)(key d \<mapsto> (DEAD_LETTER, n))
               else s' = s)"
    and requeue_law: "ok s \<Longrightarrow> tr_requeue ops i s = (b, s') \<Longrightarrow>
      ok s' \<and> (life s' = life s \<or> (\<exists>k st n. life s k = Some (st, n)
                        \<and> st \<in> {DEAD_LETTER, QUARANTINE, GIVEN_UP}
                        \<and> life s' = (life s)(k \<mapsto> (PENDING, 0))))"
begin

lemma perform_ok:
  assumes "ok s" and "perform ops c s = (ds, s')"
  shows "ok s'"
proof (cases c)
  case (Publish now e)
  obtain r s1 where run: "tr_publish ops now e s = (r, s1)" by (cases "tr_publish ops now e s")
  with Publish assms(2) have "s1 = s'" by simp
  with publish_law [OF assms(1) run] show ?thesis by blast
next
  case (Claim now)
  obtain r s1 where run: "tr_claim ops now s = (r, s1)" by (cases "tr_claim ops now s")
  with Claim assms(2) have "s1 = s'" by (cases r) simp_all
  with claim_law [OF assms(1) run] show ?thesis by blast
next
  case (Ack now d)
  obtain r s1 where run: "tr_ack ops now d s = (r, s1)" by (cases "tr_ack ops now d s")
  with Ack assms(2) have "s1 = s'" by simp
  with ack_law [OF assms(1) run] show ?thesis by blast
next
  case (Nack now u d e)
  obtain r s1 where run: "tr_nack ops now u d e s = (r, s1)" by (cases "tr_nack ops now u d e s")
  with Nack assms(2) have "s1 = s'" by simp
  with nack_law [OF assms(1) run] show ?thesis by blast
next
  case (DeadLetter now d why)
  obtain r s1 where run: "tr_dead_letter ops now d why s = (r, s1)" by (cases "tr_dead_letter ops now d why s")
  with DeadLetter assms(2) have "s1 = s'" by simp
  with dead_letter_law [OF assms(1) run] show ?thesis by blast
next
  case (Requeue i)
  obtain r s1 where run: "tr_requeue ops i s = (r, s1)" by (cases "tr_requeue ops i s")
  with Requeue assms(2) have "s1 = s'" by simp
  with requeue_law [OF assms(1) run] show ?thesis by blast
qed

lemma perform_all_ok: "ok s \<Longrightarrow> perform_all ops cs s = (ds, s') \<Longrightarrow> ok s'"
  by (induction cs arbitrary: s ds) (auto split: prod.splits dest: perform_ok)

text \<open>A delivered event is delivered for good.\<close>

lemma dispatched_step:
  assumes "ok s" and "life s k = Some (DISPATCHED, n)" and "perform ops c s = (ds, s')"
  shows "life s' k = Some (DISPATCHED, n) \<and> (\<forall>d \<in> set ds. key d \<noteq> k)"
proof (cases c)
  case (Publish now e)
  obtain r s1 where run: "tr_publish ops now e s = (r, s1)" by (cases "tr_publish ops now e s")
  with Publish assms(3) have "ds = []" "s1 = s'" by simp_all
  with publish_law [OF assms(1) run] show ?thesis using assms(2)
    by (auto split: if_splits)
next
  case (Claim now)
  obtain r s1 where run: "tr_claim ops now s = (r, s1)" by (cases "tr_claim ops now s")
  note law = claim_law [OF assms(1) run]
  show ?thesis
  proof (cases r)
    case None
    with run Claim assms(3) have "ds = []" "s1 = s'" by simp_all
    moreover have "passed_over (life s k) (life s1 k)" using law None by simp
    ultimately show ?thesis using assms(2) by (simp add: passed_over_def)
  next
    case (Some d)
    with run Claim assms(3) have "ds = [d]" "s1 = s'" by simp_all
    moreover have "key d \<noteq> k" using law Some assms(2) by auto
    moreover from this have "passed_over (life s k) (life s1 k)" using law Some by simp
    ultimately show ?thesis using assms(2) by (simp add: passed_over_def)
  qed
next
  case (Ack now d)
  obtain r s1 where run: "tr_ack ops now d s = (r, s1)" by (cases "tr_ack ops now d s")
  with Ack assms(3) have "ds = []" "s1 = s'" by simp_all
  with ack_law [OF assms(1) run] show ?thesis using assms(2)
    by (auto split: if_splits)
next
  case (Nack now u d e)
  obtain r s1 where run: "tr_nack ops now u d e s = (r, s1)" by (cases "tr_nack ops now u d e s")
  with Nack assms(3) have "ds = []" "s1 = s'" by simp_all
  with nack_law [OF assms(1) run] show ?thesis using assms(2)
    by (auto split: if_splits)
next
  case (DeadLetter now d why)
  obtain r s1 where run: "tr_dead_letter ops now d why s = (r, s1)" by (cases "tr_dead_letter ops now d why s")
  with DeadLetter assms(3) have "ds = []" "s1 = s'" by simp_all
  with dead_letter_law [OF assms(1) run] show ?thesis using assms(2)
    by (auto split: if_splits)
next
  case (Requeue i)
  obtain r s1 where run: "tr_requeue ops i s = (r, s1)" by (cases "tr_requeue ops i s")
  with Requeue assms(3) have "ds = []" "s1 = s'" by simp_all
  with requeue_law [OF assms(1) run] show ?thesis using assms(2)
    by (auto split: if_splits)
qed

lemma dispatched_forever:
  assumes "ok s" and "life s k = Some (DISPATCHED, n)" and "perform_all ops cs s = (ds, s')"
  shows "life s' k = Some (DISPATCHED, n) \<and> (\<forall>d \<in> set ds. key d \<noteq> k)"
  using assms
proof (induction cs arbitrary: s ds)
  case (Cons c cs)
  obtain ds1 s1 where p: "perform ops c s = (ds1, s1)" by (cases "perform ops c s")
  obtain ds2 s2 where q: "perform_all ops cs s1 = (ds2, s2)" by (cases "perform_all ops cs s1")
  from p q Cons.prems(3) have "ds = ds1 @ ds2" "s2 = s'" by simp_all
  with Cons.IH [OF perform_ok [OF Cons.prems(1) p], of ds2] q
    dispatched_step [OF Cons.prems(1,2) p] show ?case by auto
qed simp

lemma acked_forever:
  assumes "ok s" and "tr_ack ops now d s = (True, s1)" and "perform_all ops cs s1 = (ds, s')"
  shows "\<forall>d' \<in> set ds. key d' \<noteq> key d"
proof -
  from ack_law [OF assms(1,2)] obtain n where "ok s1" "life s1 (key d) = Some (DISPATCHED, n)"
    by auto
  from dispatched_forever [OF this assms(3)] show ?thesis by blast
qed

text \<open>How often an event has been claimed so far; zero while it is not there.\<close>

definition claims :: "'s \<Rightarrow> 'k \<Rightarrow> int" where
  "claims s k = (case life s k of None \<Rightarrow> 0 | Some (_, n) \<Rightarrow> n)"

lemma claims_step:
  assumes "ok s" and "perform ops c s = (ds, s')" and "\<And>i. c \<noteq> Requeue i"
  shows "claims s k \<le> claims s' k
    \<and> (\<forall>d \<in> set ds. key d = k \<longrightarrow>
          attempt_no d \<le> max_no \<and> claims s k < attempt_no d \<and> attempt_no d \<le> claims s' k)
    \<and> length (filter (\<lambda>d. key d = k) ds) \<le> 1"
proof (cases c)
  case (Publish now e)
  obtain r s1 where run: "tr_publish ops now e s = (r, s1)" by (cases "tr_publish ops now e s")
  with Publish assms(2) have "ds = []" "s1 = s'" by simp_all
  with publish_law [OF assms(1) run] show ?thesis
    by (auto simp: claims_def split: if_splits)
next
  case (Claim now)
  obtain r s1 where run: "tr_claim ops now s = (r, s1)" by (cases "tr_claim ops now s")
  note law = claim_law [OF assms(1) run]
  have le: "claims s k \<le> claims s1 k" if "passed_over (life s k) (life s1 k)"
    using that by (auto simp: claims_def passed_over_def)
  show ?thesis
  proof (cases r)
    case None
    with run Claim assms(2) have "ds = []" "s1 = s'" by simp_all
    with le law None show ?thesis by simp
  next
    case (Some d)
    with run Claim assms(2) have "ds = [d]" "s1 = s'" by simp_all
    with le law Some show ?thesis by (cases "key d = k") (auto simp: claims_def)
  qed
next
  case (Ack now d)
  obtain r s1 where run: "tr_ack ops now d s = (r, s1)" by (cases "tr_ack ops now d s")
  with Ack assms(2) have "ds = []" "s1 = s'" by simp_all
  with ack_law [OF assms(1) run] show ?thesis
    by (auto simp: claims_def split: if_splits)
next
  case (Nack now u d e)
  obtain r s1 where run: "tr_nack ops now u d e s = (r, s1)" by (cases "tr_nack ops now u d e s")
  with Nack assms(2) have "ds = []" "s1 = s'" by simp_all
  with nack_law [OF assms(1) run] show ?thesis
    by (auto simp: claims_def split: if_splits)
next
  case (DeadLetter now d why)
  obtain r s1 where run: "tr_dead_letter ops now d why s = (r, s1)" by (cases "tr_dead_letter ops now d why s")
  with DeadLetter assms(2) have "ds = []" "s1 = s'" by simp_all
  with dead_letter_law [OF assms(1) run] show ?thesis
    by (auto simp: claims_def split: if_splits)
qed (use assms(3) in simp)

lemma deliveries_ascend:
  assumes "ok s" and "perform_all ops cs s = (ds, s')" and "\<And>i. Requeue i \<notin> set cs"
  shows "claims s k \<le> claims s' k
    \<and> (\<forall>d \<in> set ds. key d = k \<longrightarrow> attempt_no d \<le> max_no \<and> claims s k < attempt_no d)
    \<and> sorted_wrt (<) (map attempt_no (filter (\<lambda>d. key d = k) ds))"
  using assms
proof (induction cs arbitrary: s ds)
  case (Cons c cs)
  obtain ds1 s1 where p: "perform ops c s = (ds1, s1)" by (cases "perform ops c s")
  obtain ds2 s2 where q: "perform_all ops cs s1 = (ds2, s2)" by (cases "perform_all ops cs s1")
  from p q Cons.prems(2) have eq: "ds = ds1 @ ds2" "s2 = s'" by simp_all
  have c: "\<And>i. c \<noteq> Requeue i" using Cons.prems(3) by auto
  note step = claims_step [OF Cons.prems(1) p c, of k]
  have ih: "claims s1 k \<le> claims s' k
    \<and> (\<forall>d \<in> set ds2. key d = k \<longrightarrow> attempt_no d \<le> max_no \<and> claims s1 k < attempt_no d)
    \<and> sorted_wrt (<) (map attempt_no (filter (\<lambda>d. key d = k) ds2))"
    using Cons.IH [OF perform_ok [OF Cons.prems(1) p], of ds2] q eq(2) Cons.prems(3) by auto
  have one: "sorted_wrt (<) (map attempt_no (filter (\<lambda>d. key d = k) ds1))"
    using step by (cases "filter (\<lambda>d. key d = k) ds1") auto
  have "\<forall>d \<in> set (filter (\<lambda>d. key d = k) ds1). \<forall>d' \<in> set (filter (\<lambda>d. key d = k) ds2).
          attempt_no d < attempt_no d'"
    using step ih by fastforce
  with one step ih show ?case unfolding eq(1) by (auto simp: sorted_wrt_append)
qed simp

lemma bounded_deliveries:
  assumes "ok s" and "perform_all ops cs s = (ds, s')" and "\<And>i. Requeue i \<notin> set cs"
    and "0 \<le> claims s k"
  shows "int (length (filter (\<lambda>d. key d = k) ds)) \<le> max 0 (max_no - claims s k)"
proof -
  let ?as = "map attempt_no (filter (\<lambda>d. key d = k) ds)"
  note asc = deliveries_ascend [OF assms(1-3), of k]
  then have "sorted_wrt (<) ?as" by blast
  then have "distinct ?as" by (simp only: strict_sorted_iff)
  moreover have "set ?as \<subseteq> {claims s k + 1 .. max_no}" using asc by auto
  ultimately have "length ?as \<le> card {claims s k + 1 .. max_no}"
    by (metis card_mono distinct_card finite_atLeastAtMost_int)
  then show ?thesis by simp
qed

end

section \<open>The in-memory transport keeps the contract\<close>

lemma find_by_update_by:
  assumes "\<And>x. key (f x) = key x"
  shows "find_by key k (update_by key k' f xs)
         = (if k = k' then map_option f (find_by key k xs) else find_by key k xs)"
  by (induction xs) (auto simp: find_by_def update_by_def assms)

lemma keys_update_by: "(\<And>x. key (f x) = key x) \<Longrightarrow> map key (update_by key k f xs) = map key xs"
  by (simp add: update_by_def)

lemma find_by_in: "find_by key k xs = Some x \<Longrightarrow> x \<in> set xs \<and> key x = k"
  by (auto simp: find_by_def find_Some_iff)

lemma find_by_distinct: "distinct (map key xs) \<Longrightarrow> x \<in> set xs \<Longrightarrow> find_by key (key x) xs = Some x"
  by (induction xs) (auto simp: find_by_def)

lemma find_by_append:
  "find_by key k (xs @ [x]) = (case find_by key k xs of None \<Rightarrow> if key x = k then Some x else None | Some y \<Rightarrow> Some y)"
  by (induction xs) (auto simp: find_by_def)

lemma find_by_None: "find_by key k xs = None \<longleftrightarrow> k \<notin> key ` set xs"
  by (auto simp: find_by_def find_None_iff)

definition memory_life :: "memory_transport \<Rightarrow> string \<Rightarrow> life" where
  "memory_life s k = map_option (\<lambda>h. (he_status h, he_attempts h)) (find_by he_key k (mt_held s))"

definition memory_ok :: "memory_transport \<Rightarrow> bool" where
  "memory_ok s \<longleftrightarrow> distinct (map he_key (mt_held s))"

definition memory_ops :: "transport_config \<Rightarrow> (memory_transport, memory_delivery) transport_ops" where
  "memory_ops c =
     \<lparr>tr_publish = (\<lambda>now. memory_publish), tr_claim = memory_claim c,
      tr_ack = (\<lambda>now. memory_ack), tr_nack = memory_nack c,
      tr_dead_letter = (\<lambda>now. memory_dead_letter c), tr_requeue = memory_requeue\<rparr>"

lemma memory_put_life:
  assumes "\<And>g. he_key (f g) = he_key g" and "find_by he_key k (mt_held s) = Some h" and "he_key h = k"
  shows "memory_life (memory_put h f s) = (memory_life s)(k \<mapsto> (he_status (f h), he_attempts (f h)))"
  using assms by (auto simp: memory_life_def memory_put_def find_by_update_by)

lemma memory_put_ok: "(\<And>g. he_key (f g) = he_key g) \<Longrightarrow> memory_ok s \<Longrightarrow> memory_ok (memory_put h f s)"
  by (simp add: memory_ok_def memory_put_def keys_update_by)

lemma memory_current_facts:
  assumes "memory_current d s = Some h"
  shows "find_by he_key (ev_dedupe_key (md_envelope d)) (mt_held s) = Some h"
    and "he_key h = ev_dedupe_key (md_envelope d)"
    and "memory_life s (ev_dedupe_key (md_envelope d)) = Some (IN_PROGRESS, he_attempts h)"
  using assms find_by_in [of he_key]
  by (auto simp: memory_current_def memory_life_def split: option.splits if_splits)

lemma memory_claim_round:
  assumes "memory_ok s" and "memory_next_ready c now (mt_held s) = Some h"
    and "\<And>g. he_key (f g) = he_key g"
  shows "memory_ok (s\<lparr>mt_leases := n, mt_held := update_by he_key (he_key h) f (mt_held s)\<rparr>)"
    and "memory_life (s\<lparr>mt_leases := n, mt_held := update_by he_key (he_key h) f (mt_held s)\<rparr>)
         = (memory_life s)(he_key h \<mapsto> (he_status (f h), he_attempts (f h)))"
    and "memory_life s (he_key h) = Some (he_status h, he_attempts h)" and "live (he_status h)"
proof -
  from assms(2) have h: "h \<in> set (mt_held s)" "memory_ready c now h"
    by (auto simp: memory_next_ready_def dest: first_by_in)
  then have f: "find_by he_key (he_key h) (mt_held s) = Some h"
    using assms(1) find_by_distinct [of he_key] by (simp add: memory_ok_def)
  show "memory_ok (s\<lparr>mt_leases := n, mt_held := update_by he_key (he_key h) f (mt_held s)\<rparr>)"
    using assms(1,3) by (simp add: memory_ok_def keys_update_by)
  show "memory_life (s\<lparr>mt_leases := n, mt_held := update_by he_key (he_key h) f (mt_held s)\<rparr>)
         = (memory_life s)(he_key h \<mapsto> (he_status (f h), he_attempts (f h)))"
    using f assms(3) by (auto simp: memory_life_def find_by_update_by)
  show "memory_life s (he_key h) = Some (he_status h, he_attempts h)"
    using f by (simp add: memory_life_def)
  show "live (he_status h)" using h(2) by (auto simp: memory_ready_def)
qed

lemma memory_claim_law:
  assumes "memory_ok s" and "memory_claim c now s = (r, s')"
  shows "memory_ok s' \<and> (case r of
        None \<Rightarrow> \<forall>k. passed_over (memory_life s k) (memory_life s' k)
      | Some d \<Rightarrow> (\<forall>k. k \<noteq> ev_dedupe_key (md_envelope d) \<longrightarrow>
                      passed_over (memory_life s k) (memory_life s' k))
          \<and> md_attempt d \<le> tc_max_attempts c
          \<and> memory_life s' (ev_dedupe_key (md_envelope d)) = Some (IN_PROGRESS, md_attempt d)
          \<and> (\<exists>st. live st \<and> memory_life s (ev_dedupe_key (md_envelope d)) = Some (st, md_attempt d - 1)))"
  using assms
proof (induction c now s arbitrary: r s' rule: memory_claim.induct)
  case (1 c now s)
  show ?case
  proof (cases "memory_next_ready c now (mt_held s)")
    case None
    with 1(2,3) show ?thesis by (simp add: memory_claim.simps [of c now s] passed_over_def)
  next
    case (Some h)
    let ?n = "mt_leases s + 1"
    let ?lease = "memory_lease ?n now"
    let ?park = "\<lambda>g. memory_park c DEAD_LETTER (tc_lapsed c (he_attempts (?lease h))) (?lease g)"
    have fl: "he_key (?lease g) = he_key g" and fp: "he_key (?park g) = he_key g" for g
      by (simp_all add: memory_lease_def memory_park_def)
    note lease = memory_claim_round(1,2) [where n = ?n, OF 1(2) Some fl]
      and park = memory_claim_round(1,2) [where n = ?n, OF 1(2) Some fp]
      and claimed = memory_claim_round(3,4) [OF 1(2) Some fl]
    show ?thesis
    proof (cases "he_attempts (?lease h) > tc_max_attempts c")
      case True
      let ?s1 = "s\<lparr>mt_leases := ?n, mt_held := update_by he_key (he_key h) ?park (mt_held s)\<rparr>"
      have run: "memory_claim c now ?s1 = (r, s')"
        using 1(3) Some True by (simp add: memory_claim.simps [of c now s] Let_def)
      have parked: "memory_life ?s1 = (memory_life s)(he_key h \<mapsto> (DEAD_LETTER, he_attempts h + 1))"
        unfolding park(2) by (simp add: memory_park_def memory_lease_def)
      have po: "passed_over (memory_life s k) (memory_life ?s1 k)" for k
        using claimed unfolding parked by (simp add: passed_over_def)
      have dead: "memory_life s' (he_key h) = memory_life ?s1 (he_key h)" if "passed_over (memory_life ?s1 (he_key h)) (memory_life s' (he_key h))"
        using that unfolding parked by (simp add: passed_over_def)
      note ih = 1(1) [OF Some refl refl True park(1) run]
      have trans: "passed_over (memory_life s k) (memory_life s' k)"
        if "passed_over (memory_life ?s1 k) (memory_life s' k)" for k
        using po [of k] dead that parked by (cases "k = he_key h") (auto simp: passed_over_def)
      show ?thesis
      proof (cases r)
        case None
        with ih trans show ?thesis by simp
      next
        case (Some d)
        from ih Some have d: "\<exists>st. live st \<and> memory_life ?s1 (ev_dedupe_key (md_envelope d)) = Some (st, md_attempt d - 1)"
          by simp
        then have ne: "ev_dedupe_key (md_envelope d) \<noteq> he_key h" unfolding parked by auto
        with d have "\<exists>st. live st \<and> memory_life s (ev_dedupe_key (md_envelope d)) = Some (st, md_attempt d - 1)"
          unfolding parked by simp
        with ih trans Some show ?thesis by simp
      qed
    next
      case False
      with 1(3) Some have r: "r = Some \<lparr>md_envelope = he_envelope h, md_attempt = he_attempts h + 1, md_lease = ?n\<rparr>"
        and s': "s' = s\<lparr>mt_leases := ?n, mt_held := update_by he_key (he_key h) ?lease (mt_held s)\<rparr>"
        by (simp_all add: memory_claim.simps [of c now s] Let_def memory_lease_def)
      have life: "memory_life s' = (memory_life s)(he_key h \<mapsto> (IN_PROGRESS, he_attempts h + 1))"
        unfolding s' lease(2) by (simp add: memory_lease_def)
      have ok: "memory_ok s'" unfolding s' by (rule lease(1))
      have "he_attempts h + 1 \<le> tc_max_attempts c" using False by (simp add: memory_lease_def)
      with life ok claimed show ?thesis unfolding r by (simp add: passed_over_def)
    qed
  qed
qed

interpretation memory_transport:
  event_transport "memory_ops c" memory_life "\<lambda>d. ev_dedupe_key (md_envelope d)" md_attempt
    "tc_max_attempts c" memory_ok
  for c
proof (unfold_locales, goal_cases)
  case (1 s now ev rp s')
  show ?case
  proof (cases "find_by he_key (ev_dedupe_key ev) (mt_held s)")
    case None
    define h where "h = \<lparr>he_envelope = ev, he_sequence = mt_sequence s + 1, he_status = PENDING,
      he_attempts = 0, he_lease = None, he_claimed_at = None, he_available_at = None,
      he_last_error = None\<rparr>"
    with 1(2) None have s': "s' = s\<lparr>mt_sequence := mt_sequence s + 1, mt_held := mt_held s @ [h]\<rparr>"
      by (simp add: memory_ops_def memory_publish_def Let_def)
    have "memory_life s' = (memory_life s)(ev_dedupe_key ev \<mapsto> (PENDING, 0))"
      using None by (auto simp: s' memory_life_def find_by_append h_def split: option.splits)
    moreover have "memory_life s (ev_dedupe_key ev) = None" using None by (simp add: memory_life_def)
    moreover have "memory_ok s'"
      using 1(1) None by (auto simp: s' memory_ok_def find_by_None h_def)
    ultimately show ?thesis by blast
  qed (use 1 in \<open>simp add: memory_ops_def memory_publish_def\<close>)
next
  case (2 s now r s')
  then show ?case using memory_claim_law [of s c now r s'] by (simp add: memory_ops_def)
next
  case (3 s now d b s')
  then show ?case
    using memory_current_facts [of d s] memory_put_life [of _ _ s] memory_put_ok [of _ s]
    by (cases "memory_current d s") (auto simp: memory_ops_def memory_ack_def)
next
  case (4 s now u d err rn s')
  show ?case
  proof (cases "s' = s")
    case False
    with 4(2) obtain h f where h: "memory_current d s = Some h" and s': "s' = memory_put h f s"
      and f: "\<And>g. he_key (f g) = he_key g" "he_status (f h) \<in> {PENDING, DEAD_LETTER, QUARANTINE}"
      "he_attempts (f h) = he_attempts h"
      by (auto simp: memory_ops_def memory_nack_def memory_park_def split: sum.splits option.splits if_splits)
    from memory_put_life [OF f(1) memory_current_facts(1,2) [OF h]] f memory_put_ok [OF f(1) 4(1)]
      memory_current_facts(3) [OF h] s'
    show ?thesis by auto
  qed (use 4(1) in simp)
next
  case (5 s now d why b s')
  then show ?case
    using memory_current_facts [of d s] memory_put_life [of _ _ s] memory_put_ok [of _ s]
    by (cases "memory_current d s") (auto simp: memory_ops_def memory_dead_letter_def memory_park_def)
next
  case (6 s i b s')
  show ?case
  proof (cases "s' = s")
    case False
    let ?f = "\<lambda>g. g\<lparr>he_status := PENDING, he_attempts := 0, he_lease := None,
                    he_claimed_at := None, he_available_at := None\<rparr>"
    from False 6(2) obtain h where h: "h \<in> set (mt_held s)" "he_status h \<in> {DEAD_LETTER, QUARANTINE}"
      and s': "s' = memory_put h ?f s"
      by (auto simp: memory_ops_def memory_requeue_def split: option.splits dest: find_first_Some)
    have fk: "he_key (?f g) = he_key g" for g by simp
    have fh: "find_by he_key (he_key h) (mt_held s) = Some h"
      using 6(1) h(1) find_by_distinct [of he_key] by (simp add: memory_ok_def)
    have "memory_life s (he_key h) = Some (he_status h, he_attempts h)"
      using fh by (simp add: memory_life_def)
    with memory_put_life [where f = ?f, OF fk fh refl] memory_put_ok [where f = ?f, OF fk 6(1)] h s'
    show ?thesis by auto
  qed (use 6(1) in simp)
qed

end
