(* ===== verification/Outbox.thy ===== *)
theory Outbox
  imports Transport "HOL-Library.Product_Lexorder"
begin

text \<open>
  The transactional outbox (\<open>OutboxEventRepository\<close> of
  \<open>personalos/persistence/repositories.py\<close> and \<open>personalos/persistence/event_outbox.py\<close>): the
  table, staging, the compare-and-set claim with what other workers commit between its read
  and its write, and the transport built on it, which keeps the contract of
  \<open>Transport.event_transport\<close>. The clock reads the same all through one call of the
  transport. UUID parsing is a parameter.
\<close>

section \<open>The table\<close>

text \<open>
  What \<open>payload_json\<close> holds: an envelope that meets the schema, one that does not (with the
  described validation error and the two ids a reader can still find in it), or the bare
  payload of a row that predates envelopes.
\<close>

datatype stored_payload =
  Enveloped event_envelope
| BadEnvelope string "uuid option" "uuid option"
| Legacy pydict

record outbox_row =
  ox_id :: uuid
  ox_type :: string
  ox_payload :: stored_payload
  ox_dedupe_key :: "string option"
  ox_status :: event_status
  ox_created_at :: datetime
  ox_claimed_at :: "datetime option"
  ox_attempts :: int
  ox_available_at :: "datetime option"
  ox_last_error :: "string option"
  ox_failed_at :: "datetime option"
  ox_dispatched_at :: "datetime option"
  ox_workflow_id :: "uuid option"

text \<open>\<open>ob_runs\<close>: correlation and workflow id of each workflow run, in creation order.\<close>

record outbox =
  ob_rows :: "outbox_row list"
  ob_workflows :: "uuid list"
  ob_runs :: "(uuid \<times> uuid) list"

record outbox_config = transport_config +
  oc_redact_payload :: "stored_payload \<Rightarrow> stored_payload"
  oc_as_uuid :: "pyval \<Rightarrow> uuid option"
  oc_redact :: "pydict \<Rightarrow> pydict"
  oc_byte_count :: "pydict \<Rightarrow> nat"
  oc_describe_int :: "uuid \<Rightarrow> string"

definition update_where :: "('a \<Rightarrow> bool) \<Rightarrow> ('a \<Rightarrow> 'a) \<Rightarrow> 'a list \<Rightarrow> 'a list" where
  "update_where p f xs = map (\<lambda>x. if p x then f x else x) xs"

definition integrity_error :: exn where
  "integrity_error = PY ''IntegrityError'' ''UNIQUE constraint failed'' None"

definition get_by_dedupe_key :: "string \<Rightarrow> outbox \<Rightarrow> outbox_row option" where
  "get_by_dedupe_key k db = find_by ox_dedupe_key (Some k) (ob_rows db)"

text \<open>\<open>OutboxEventRepository.create\<close>; the flush fails on a taken id or dedupe key.\<close>

definition outbox_create ::
  "outbox_config \<Rightarrow> datetime \<Rightarrow> uuid \<Rightarrow> string \<Rightarrow> stored_payload \<Rightarrow> string option \<Rightarrow> outbox \<Rightarrow>
   exn + (outbox_row \<times> outbox)" where
  "outbox_create c now n ty payload k db =
     (let row = \<lparr>ox_id = n, ox_type = ty, ox_payload = oc_redact_payload c payload,
                 ox_dedupe_key = k, ox_status = PENDING, ox_created_at = now,
                 ox_claimed_at = None, ox_attempts = 0, ox_available_at = None,
                 ox_last_error = None, ox_failed_at = None, ox_dispatched_at = None,
                 ox_workflow_id = None\<rparr>
      in if n \<in> ox_id ` set (ob_rows db) \<or> (k \<noteq> None \<and> k \<in> ox_dedupe_key ` set (ob_rows db))
         then raise integrity_error
         else ret (row, db\<lparr>ob_rows := ob_rows db @ [row]\<rparr>))"

definition claimable ::
  "string option \<Rightarrow> string list \<Rightarrow> seconds option \<Rightarrow> datetime \<Rightarrow> outbox_row \<Rightarrow> bool" where
  "claimable ty excluded reclaim_after now r \<longleftrightarrow>
     (ox_status r = PENDING
        \<and> (case ox_available_at r of None \<Rightarrow> True | Some t \<Rightarrow> t \<le> now)
      \<or> (case reclaim_after of
           None \<Rightarrow> False
         | Some period \<Rightarrow> ox_status r = IN_PROGRESS
             \<and> (case ox_claimed_at r of None \<Rightarrow> True | Some t \<Rightarrow> t \<le> now - period)))
     \<and> (case ty of None \<Rightarrow> True | Some t \<Rightarrow> ox_type r = t)
     \<and> ox_type r \<notin> set excluded"

definition stamp_claim :: "datetime \<Rightarrow> outbox_row \<Rightarrow> outbox_row" where
  "stamp_claim now r =
     r\<lparr>ox_status := IN_PROGRESS, ox_claimed_at := Some now, ox_attempts := ox_attempts r + 1\<rparr>"

text \<open>The row is still in the state it was read in.\<close>

definition same_claim :: "outbox_row \<Rightarrow> outbox_row \<Rightarrow> bool" where
  "same_claim candidate r \<longleftrightarrow>
     ox_id r = ox_id candidate \<and> ox_status r = ox_status candidate
     \<and> ox_claimed_at r = ox_claimed_at candidate"

definition CLAIM_RACE_RETRIES :: nat where "CLAIM_RACE_RETRIES = 8"

text \<open>
  \<open>claim_next\<close>: read the oldest claimable row, then update it if it has not changed.
  \<open>race n\<close> is what other workers commit between the two; under Postgres row locks it leaves
  the row alone.
\<close>

fun claim_next_loop ::
  "nat \<Rightarrow> (nat \<Rightarrow> outbox \<Rightarrow> outbox) \<Rightarrow> string option \<Rightarrow> string list \<Rightarrow> seconds option \<Rightarrow> datetime \<Rightarrow>
   outbox \<Rightarrow> outbox_row option \<times> outbox" where
  "claim_next_loop 0 race ty excluded reclaim_after now db = (None, db)"
| "claim_next_loop (Suc n) race ty excluded reclaim_after now db =
     (case first_by (\<lambda>r. (ox_created_at r, ox_id r))
             (filter (claimable ty excluded reclaim_after now) (ob_rows db)) of
        None \<Rightarrow> (None, db)
      | Some candidate \<Rightarrow>
          let db1 = race n db;
              updated = length (filter (same_claim candidate) (ob_rows db1));
              db2 = db1\<lparr>ob_rows := update_where (same_claim candidate) (stamp_claim now) (ob_rows db1)\<rparr>
          in if updated = 1 then (find_by ox_id (ox_id candidate) (ob_rows db2), db2)
             else claim_next_loop n race ty excluded reclaim_after now db2)"

definition claim_next ::
  "(nat \<Rightarrow> outbox \<Rightarrow> outbox) \<Rightarrow> string option \<Rightarrow> string list \<Rightarrow> seconds option \<Rightarrow> datetime \<Rightarrow>
   outbox \<Rightarrow> outbox_row option \<times> outbox" where
  "claim_next race ty excluded reclaim_after now db =
     claim_next_loop (CLAIM_RACE_RETRIES + 1) race ty excluded reclaim_after now db"

definition set_row :: "uuid \<Rightarrow> (outbox_row \<Rightarrow> outbox_row) \<Rightarrow> outbox \<Rightarrow> outbox" where
  "set_row n f db = db\<lparr>ob_rows := update_by ox_id n f (ob_rows db)\<rparr>"

definition outbox_not_found :: exn where
  "outbox_not_found = PY ''ValueError'' ''Outbox event not found'' None"

definition mark_dispatched :: "datetime \<Rightarrow> uuid \<Rightarrow> outbox \<Rightarrow> exn + outbox" where
  "mark_dispatched now n db =
     (if n \<notin> ox_id ` set (ob_rows db) then raise outbox_not_found
      else ret (set_row n (\<lambda>r. r\<lparr>ox_status := DISPATCHED, ox_dispatched_at := Some now\<rparr>) db))"

definition mark_failed :: "uuid \<Rightarrow> outbox \<Rightarrow> exn + outbox" where
  "mark_failed n db =
     (if n \<notin> ox_id ` set (ob_rows db) then raise outbox_not_found
      else ret (set_row n (\<lambda>r. r\<lparr>ox_status := GIVEN_UP\<rparr>) db))"

section \<open>Staging\<close>

text \<open>\<open>_stage\<close>: the row that holds the fact and whether it was already there.\<close>

definition stage ::
  "outbox_config \<Rightarrow> datetime \<Rightarrow> event_envelope \<Rightarrow> outbox \<Rightarrow> exn + (outbox_row \<times> bool \<times> outbox)" where
  "stage c now e db =
     (case get_by_dedupe_key (ev_dedupe_key e) db of
        Some r \<Rightarrow> ret (r, True, db)
      | None \<Rightarrow>
          (case outbox_create c now (ev_id e) (ev_type e) (Enveloped e) (Some (ev_dedupe_key e)) db of
             Inl err \<Rightarrow> raise err
           | Inr (r, db') \<Rightarrow> ret (r, False, db')))"

definition stage_event ::
  "outbox_config \<Rightarrow> datetime \<Rightarrow> event_envelope \<Rightarrow> outbox \<Rightarrow> exn + (outbox_row \<times> outbox)" where
  "stage_event c now e db =
     (case stage c now e db of Inl err \<Rightarrow> raise err | Inr (r, _, db') \<Rightarrow> ret (r, db'))"

definition stage_raw_event ::
  "outbox_config \<Rightarrow> datetime \<Rightarrow> uuid \<Rightarrow> string \<Rightarrow> pydict \<Rightarrow> string option \<Rightarrow> bool \<Rightarrow> outbox \<Rightarrow>
   exn + (outbox_row option \<times> outbox)" where
  "stage_raw_event c now fresh ty payload k skip_duplicate db =
     (if skip_duplicate \<and> (case k of None \<Rightarrow> False | Some k' \<Rightarrow> get_by_dedupe_key k' db \<noteq> None)
      then ret (None, db)
      else case outbox_create c now fresh ty (Legacy payload) k db of
        Inl err \<Rightarrow> raise err
      | Inr (r, db') \<Rightarrow> ret (Some r, db'))"

definition envelope_from_row :: "outbox_config \<Rightarrow> outbox_row \<Rightarrow> exn + event_envelope" where
  "envelope_from_row c r =
     (case ox_payload r of
        Enveloped e \<Rightarrow> ret e
      | BadEnvelope txt _ _ \<Rightarrow> raise (PY ''ValidationError'' txt None)
      | Legacy payload \<Rightarrow>
          EventEnvelope_init (oc_redact c) (oc_byte_count c)
            \<lparr>ev_id = ox_id r, ev_type = ox_type r, ev_source = ''outbox'',
             ev_occurred_at = ox_created_at r, ev_subject_ref = None, ev_correlation_id = None,
             ev_dedupe_key = (case ox_dedupe_key r of
                                Some k \<Rightarrow> if k \<noteq> [] then k else ''outbox:'' @ oc_describe_int c (ox_id r)
                              | None \<Rightarrow> ''outbox:'' @ oc_describe_int c (ox_id r)),
             ev_payload = payload\<rparr>)"

section \<open>The outbox as a transport\<close>

record claimed_event =
  ce_outbox_id :: uuid
  ce_envelope :: event_envelope
  ce_attempt :: int
  ce_claimed_at :: datetime

definition outbox_publish ::
  "outbox_config \<Rightarrow> datetime \<Rightarrow> event_envelope \<Rightarrow> outbox \<Rightarrow> (exn + published) \<times> outbox" where
  "outbox_publish c now e db =
     (case stage c now e db of
        Inr (r, dup, db') \<Rightarrow> (ret \<lparr>pb_event_id = ox_id r, pb_duplicate = dup\<rparr>, db')
      | Inl err \<Rightarrow>
          (case get_by_dedupe_key (ev_dedupe_key e) db of
             None \<Rightarrow> (raise err, db)
           | Some r \<Rightarrow> (ret \<lparr>pb_event_id = ox_id r, pb_duplicate = True\<rparr>, db)))"

definition workflow_hint :: "outbox_config \<Rightarrow> event_envelope \<Rightarrow> uuid option \<times> uuid option" where
  "workflow_hint c e =
     (oc_as_uuid c (dict_get (ev_payload e) ''workflow_id''), ev_correlation_id e)"

definition registered_workflow :: "outbox \<Rightarrow> uuid option \<times> uuid option \<Rightarrow> uuid option" where
  "registered_workflow db hint =
     (case hint of (named, correlation) \<Rightarrow>
        if (case named of None \<Rightarrow> False | Some n \<Rightarrow> n \<in> set (ob_workflows db)) then named
        else (case correlation of
          None \<Rightarrow> None
        | Some k \<Rightarrow> map_option snd (find_first (\<lambda>p. fst p = k) (ob_runs db))))"

text \<open>\<open>_update_claim\<close>: settle the row if this claim is still the current one.\<close>

definition holds_claim :: "uuid \<Rightarrow> datetime \<Rightarrow> outbox_row \<Rightarrow> bool" where
  "holds_claim n claimed_at r \<longleftrightarrow>
     ox_id r = n \<and> ox_status r = IN_PROGRESS \<and> ox_claimed_at r = Some claimed_at"

definition update_claim ::
  "uuid \<Rightarrow> datetime \<Rightarrow> (outbox_row \<Rightarrow> outbox_row) \<Rightarrow> outbox \<Rightarrow> bool \<times> outbox" where
  "update_claim n claimed_at f db =
     (length (filter (holds_claim n claimed_at) (ob_rows db)) = 1,
      db\<lparr>ob_rows := update_where (holds_claim n claimed_at) f (ob_rows db)\<rparr>)"

definition park_row ::
  "outbox_config \<Rightarrow> datetime \<Rightarrow> event_status \<Rightarrow> string \<Rightarrow> uuid option \<Rightarrow> outbox_row \<Rightarrow> outbox_row" where
  "park_row c now st err linked r =
     r\<lparr>ox_status := st, ox_last_error := Some (tc_redact_text c err), ox_failed_at := Some now,
       ox_available_at := None,
       ox_workflow_id := (case linked of None \<Rightarrow> ox_workflow_id r | Some w \<Rightarrow> Some w)\<rparr>"

definition park ::
  "outbox_config \<Rightarrow> datetime \<Rightarrow> uuid \<Rightarrow> datetime \<Rightarrow> event_status \<Rightarrow> string \<Rightarrow>
   uuid option \<times> uuid option \<Rightarrow> outbox \<Rightarrow> bool \<times> outbox" where
  "park c now n claimed_at st err hint db =
     update_claim n claimed_at (park_row c now st err (registered_workflow db hint)) db"

definition park_claim ::
  "outbox_config \<Rightarrow> datetime \<Rightarrow> claimed_event \<Rightarrow> event_status \<Rightarrow> string \<Rightarrow> outbox \<Rightarrow> bool \<times> outbox" where
  "park_claim c now d st err db =
     park c now (ce_outbox_id d) (ce_claimed_at d) st err (workflow_hint c (ce_envelope d)) db"

definition PARK_LIMIT :: nat where "PARK_LIMIT = 16"

fun outbox_claim_loop ::
  "nat \<Rightarrow> outbox_config \<Rightarrow> (nat \<Rightarrow> outbox \<Rightarrow> outbox) \<Rightarrow> datetime \<Rightarrow> outbox \<Rightarrow>
   claimed_event option \<times> outbox" where
  "outbox_claim_loop 0 c race now db = (None, db)"
| "outbox_claim_loop (Suc n) c race now db =
     (case claim_next race None (tc_exclude_types c) (Some (tc_visibility_timeout c)) now db of
        (None, db1) \<Rightarrow> (None, db1)
      | (Some r, db1) \<Rightarrow>
          (case envelope_from_row c r of
             Inl err \<Rightarrow>
               outbox_claim_loop n c race now
                 (snd (park c now (ox_id r) now QUARANTINE (tc_describe c err)
                        (case ox_payload r of BadEnvelope _ w k \<Rightarrow> (w, k) | _ \<Rightarrow> (None, None)) db1))
           | Inr e \<Rightarrow>
               let d = \<lparr>ce_outbox_id = ox_id r, ce_envelope = e, ce_attempt = ox_attempts r,
                        ce_claimed_at = now\<rparr>
               in if ox_attempts r > tc_max_attempts c
                  then outbox_claim_loop n c race now
                         (snd (park_claim c now d DEAD_LETTER (tc_lapsed c (ox_attempts r)) db1))
                  else (Some d, db1)))"

definition outbox_claim ::
  "outbox_config \<Rightarrow> (nat \<Rightarrow> outbox \<Rightarrow> outbox) \<Rightarrow> datetime \<Rightarrow> outbox \<Rightarrow> claimed_event option \<times> outbox" where
  "outbox_claim c race now db = outbox_claim_loop PARK_LIMIT c race now db"

definition outbox_ack :: "datetime \<Rightarrow> claimed_event \<Rightarrow> outbox \<Rightarrow> bool \<times> outbox" where
  "outbox_ack now d db =
     update_claim (ce_outbox_id d) (ce_claimed_at d)
       (\<lambda>r. r\<lparr>ox_status := DISPATCHED, ox_dispatched_at := Some now\<rparr>) db"

definition back_off :: "datetime \<Rightarrow> string \<Rightarrow> outbox_row \<Rightarrow> outbox_row" where
  "back_off until err r =
     r\<lparr>ox_status := PENDING, ox_claimed_at := None, ox_available_at := Some until,
       ox_last_error := Some err\<rparr>"

definition outbox_nack ::
  "outbox_config \<Rightarrow> datetime \<Rightarrow> rat \<Rightarrow> claimed_event \<Rightarrow> exn \<Rightarrow> outbox \<Rightarrow>
   (exn + delivery_failure) \<times> outbox" where
  "outbox_nack c now u d e db =
     (case classify_failure (tc_describe c) e (ce_attempt d) (tc_retry_policy c) u of
        Inl err \<Rightarrow> (raise err, db)
      | Inr plan \<Rightarrow>
          (case (if df_outcome plan = QUARANTINED then park_claim c now d QUARANTINE (df_error plan) db
                 else if df_outcome plan = DEAD_LETTERED
                 then park_claim c now d DEAD_LETTER (df_error plan) db
                 else update_claim (ce_outbox_id d) (ce_claimed_at d)
                        (back_off (now + (case df_delay plan of None \<Rightarrow> 0 | Some t \<Rightarrow> t)) (df_error plan)) db)
           of (settled, db') \<Rightarrow>
             (ret (if settled then plan
                   else \<lparr>df_outcome = CLAIM_LOST, df_error = df_error plan, df_delay = None\<rparr>), db')))"

definition outbox_dead_letter ::
  "outbox_config \<Rightarrow> datetime \<Rightarrow> claimed_event \<Rightarrow> string \<Rightarrow> outbox \<Rightarrow> bool \<times> outbox" where
  "outbox_dead_letter c now d why db = park_claim c now d DEAD_LETTER why db"

definition parked :: "event_status \<Rightarrow> bool" where
  "parked st \<longleftrightarrow> st \<in> {DEAD_LETTER, QUARANTINE, GIVEN_UP}"

definition outbox_requeue :: "uuid \<Rightarrow> outbox \<Rightarrow> bool \<times> outbox" where
  "outbox_requeue n db =
     (let p = (\<lambda>r. ox_id r = n \<and> parked (ox_status r)) in
      (filter p (ob_rows db) \<noteq> [],
       db\<lparr>ob_rows := update_where p (\<lambda>r. r\<lparr>ox_status := PENDING, ox_attempts := 0,
            ox_claimed_at := None, ox_available_at := None, ox_failed_at := None\<rparr>) (ob_rows db)\<rparr>))"

definition outbox_ops :: "outbox_config \<Rightarrow> (outbox, claimed_event) transport_ops" where
  "outbox_ops c =
     \<lparr>tr_publish = outbox_publish c, tr_claim = outbox_claim c (\<lambda>_ db. db),
      tr_ack = outbox_ack, tr_nack = outbox_nack c,
      tr_dead_letter = outbox_dead_letter c, tr_requeue = outbox_requeue\<rparr>"

section \<open>Rows by id\<close>

definition dedupe_keys :: "outbox \<Rightarrow> string list" where
  "dedupe_keys db = List.map_filter ox_dedupe_key (ob_rows db)"

definition outbox_ok :: "outbox \<Rightarrow> bool" where
  "outbox_ok db \<longleftrightarrow> distinct (map ox_id (ob_rows db)) \<and> distinct (dedupe_keys db)"

definition outbox_life :: "outbox \<Rightarrow> uuid \<Rightarrow> life" where
  "outbox_life db n = map_option (\<lambda>r. (ox_status r, ox_attempts r)) (find_by ox_id n (ob_rows db))"

definition keeps_identity :: "(outbox_row \<Rightarrow> outbox_row) \<Rightarrow> bool" where
  "keeps_identity f \<longleftrightarrow> (\<forall>r. ox_id (f r) = ox_id r \<and> ox_dedupe_key (f r) = ox_dedupe_key r)"

lemma keeps_identity_simps [simp]:
  "keeps_identity (stamp_claim now)"
  "keeps_identity (park_row c now st err linked)"
  "keeps_identity (back_off t err)"
  "keeps_identity (\<lambda>r. r\<lparr>ox_status := st, ox_dispatched_at := a\<rparr>)"
  "keeps_identity (\<lambda>r. r\<lparr>ox_status := st, ox_attempts := 0, ox_claimed_at := None,
     ox_available_at := None, ox_failed_at := None\<rparr>)"
  by (simp_all add: keeps_identity_def stamp_claim_def park_row_def back_off_def)

lemma map_filter_map_cong:
  "(\<And>x. g (f x) = g x) \<Longrightarrow> List.map_filter g (map f xs) = List.map_filter g xs"
  by (induction xs) (simp_all add: List.map_filter_def)

lemma update_where_ok:
  assumes "keeps_identity f" and "outbox_ok db"
  shows "outbox_ok (db\<lparr>ob_rows := update_where p f (ob_rows db)\<rparr>)"
proof -
  have "map ox_id (update_where p f rs) = map ox_id rs" for rs
    using assms(1) by (simp add: update_where_def keeps_identity_def)
  moreover have "List.map_filter ox_dedupe_key (update_where p f rs) = List.map_filter ox_dedupe_key rs" for rs
    unfolding update_where_def
    by (rule map_filter_map_cong) (use assms(1) in \<open>simp add: keeps_identity_def\<close>)
  ultimately show ?thesis using assms(2) by (simp add: outbox_ok_def dedupe_keys_def)
qed

text \<open>Updates of one row: the predicate names its id.\<close>

lemma find_by_update_where:
  assumes "keeps_identity f" and "\<And>r. p r \<Longrightarrow> ox_id r = n"
  shows "find_by ox_id k (update_where p f rs)
         = (if k = n then map_option (\<lambda>r. if p r then f r else r) (find_by ox_id k rs)
            else find_by ox_id k rs)"
  using assms
  by (induction rs) (auto simp: find_by_def update_where_def keeps_identity_def)

lemma filter_one_row:
  assumes "distinct (map ox_id rs)" and "\<And>r. p r \<Longrightarrow> ox_id r = n"
  shows "filter p rs = (case find_by ox_id n rs of None \<Rightarrow> [] | Some r \<Rightarrow> if p r then [r] else [])"
  using assms(1)
proof (induction rs)
  case (Cons r rs)
  show ?case
  proof (cases "ox_id r = n")
    case True
    with Cons.prems have "\<forall>x \<in> set rs. ox_id x \<noteq> n"
      by (simp add: image_iff) metis
    then have "filter p rs = []" using assms(2) unfolding filter_empty_conv by blast
    with True show ?thesis by (simp add: find_by_def)
  next
    case False
    with assms(2) have "\<not> p r" by auto
    with False Cons show ?thesis by (simp add: find_by_def)
  qed
qed (simp add: find_by_def)

lemma update_where_none: "filter p rs = [] \<Longrightarrow> update_where p f rs = rs"
  by (induction rs) (auto simp: update_where_def split: if_splits)

lemma update_where_life:
  assumes "outbox_ok db" and "keeps_identity f" and "\<And>r. p r \<Longrightarrow> ox_id r = n"
    and "db' = db\<lparr>ob_rows := update_where p f (ob_rows db)\<rparr>"
  shows "(filter p (ob_rows db) = [] \<and> db' = db)
    \<or> (\<exists>r. filter p (ob_rows db) = [r] \<and> p r \<and> find_by ox_id n (ob_rows db) = Some r
          \<and> outbox_life db n = Some (ox_status r, ox_attempts r)
          \<and> outbox_life db' = (outbox_life db)(n \<mapsto> (ox_status (f r), ox_attempts (f r)))
          \<and> find_by ox_id n (ob_rows db') = Some (f r))"
proof (cases "filter p (ob_rows db) = []")
  case True
  then show ?thesis using assms(4) by (simp add: update_where_none)
next
  case False
  have "filter p (ob_rows db) = (case find_by ox_id n (ob_rows db) of None \<Rightarrow> []
          | Some r \<Rightarrow> if p r then [r] else [])"
    using assms(1,3) by (intro filter_one_row) (auto simp: outbox_ok_def)
  with False obtain r where r: "find_by ox_id n (ob_rows db) = Some r" "p r"
    "filter p (ob_rows db) = [r]"
    by (auto split: option.splits if_splits)
  have "outbox_life db' k = ((outbox_life db)(n \<mapsto> (ox_status (f r), ox_attempts (f r)))) k" for k
    using r find_by_update_where [OF assms(2,3)] by (simp add: assms(4) outbox_life_def)
  moreover have "find_by ox_id n (ob_rows db') = Some (f r)"
    using r find_by_update_where [OF assms(2,3)] by (simp add: assms(4))
  ultimately show ?thesis using r by (auto simp: outbox_life_def)
qed

lemma update_claim_cases:
  assumes "outbox_ok db" and "keeps_identity f" and "update_claim n t f db = (b, db')"
  shows "outbox_ok db' \<and> (if b
     then \<exists>r. find_by ox_id n (ob_rows db) = Some r \<and> holds_claim n t r
            \<and> outbox_life db n = Some (IN_PROGRESS, ox_attempts r)
            \<and> outbox_life db' = (outbox_life db)(n \<mapsto> (ox_status (f r), ox_attempts (f r)))
            \<and> find_by ox_id n (ob_rows db') = Some (f r)
     else db' = db)"
proof -
  have db': "db' = db\<lparr>ob_rows := update_where (holds_claim n t) f (ob_rows db)\<rparr>"
    and b: "b \<longleftrightarrow> length (filter (holds_claim n t) (ob_rows db)) = 1"
    using assms(3) by (auto simp: update_claim_def)
  have n: "\<And>r. holds_claim n t r \<Longrightarrow> ox_id r = n" by (simp add: holds_claim_def)
  from update_where_life [OF assms(1,2) n db']
  show ?thesis
  proof
    assume "filter (holds_claim n t) (ob_rows db) = [] \<and> db' = db"
    with b assms(1) show ?thesis by simp
  next
    assume "\<exists>r. filter (holds_claim n t) (ob_rows db) = [r] \<and> holds_claim n t r
       \<and> find_by ox_id n (ob_rows db) = Some r
       \<and> outbox_life db n = Some (ox_status r, ox_attempts r)
       \<and> outbox_life db' = (outbox_life db)(n \<mapsto> (ox_status (f r), ox_attempts (f r)))
       \<and> find_by ox_id n (ob_rows db') = Some (f r)"
    then obtain r where "filter (holds_claim n t) (ob_rows db) = [r]" "holds_claim n t r"
       "find_by ox_id n (ob_rows db) = Some r"
       "outbox_life db n = Some (ox_status r, ox_attempts r)"
       "outbox_life db' = (outbox_life db)(n \<mapsto> (ox_status (f r), ox_attempts (f r)))"
       "find_by ox_id n (ob_rows db') = Some (f r)" by blast
    moreover have "outbox_ok db'" unfolding db' by (rule update_where_ok [OF assms(2,1)])
    moreover from calculation(2) have "ox_status r = IN_PROGRESS" by (simp add: holds_claim_def)
    ultimately show ?thesis using b by simp
  qed
qed

section \<open>Claiming\<close>

lemma claim_next_alone:
  assumes "outbox_ok db" and "claim_next (\<lambda>_ db. db) ty excluded period now db = (r, db')"
  shows "outbox_ok db' \<and> (case r of
      None \<Rightarrow> db' = db
    | Some row \<Rightarrow> \<exists>st. live st \<and> outbox_life db (ox_id row) = Some (st, ox_attempts row - 1)
        \<and> outbox_life db' = (outbox_life db)(ox_id row \<mapsto> (IN_PROGRESS, ox_attempts row))
        \<and> find_by ox_id (ox_id row) (ob_rows db') = Some row
        \<and> ox_status row = IN_PROGRESS \<and> ox_claimed_at row = Some now)"
proof -
  let ?sel = "first_by (\<lambda>r. (ox_created_at r, ox_id r)) (filter (claimable ty excluded period now) (ob_rows db))"
  show ?thesis
  proof (cases ?sel)
    case None
    with assms show ?thesis by (simp add: claim_next_def)
  next
    case (Some cand)
    then have "cand \<in> set (filter (claimable ty excluded period now) (ob_rows db))"
      by (rule first_by_in)
    then have cand: "cand \<in> set (ob_rows db)" "claimable ty excluded period now cand" by simp_all
    let ?db2 = "db\<lparr>ob_rows := update_where (same_claim cand) (stamp_claim now) (ob_rows db)\<rparr>"
    have n: "\<And>r. same_claim cand r \<Longrightarrow> ox_id r = ox_id cand" by (simp add: same_claim_def)
    have "cand \<in> set (filter (same_claim cand) (ob_rows db))" using cand(1) by (simp add: same_claim_def)
    then have "filter (same_claim cand) (ob_rows db) \<noteq> []" by force
    with update_where_life [OF assms(1) _ n refl, of "stamp_claim now"]
    obtain r0 where r0: "filter (same_claim cand) (ob_rows db) = [r0]" "same_claim cand r0"
      "outbox_life db (ox_id cand) = Some (ox_status r0, ox_attempts r0)"
      "outbox_life ?db2 = (outbox_life db)(ox_id cand \<mapsto> (ox_status (stamp_claim now r0), ox_attempts (stamp_claim now r0)))"
      "find_by ox_id (ox_id cand) (ob_rows ?db2) = Some (stamp_claim now r0)"
      by auto
    have "claim_next (\<lambda>_ db. db) ty excluded period now db
          = (find_by ox_id (ox_id cand) (ob_rows ?db2), ?db2)"
      using Some r0(1)
      by (simp add: claim_next_def CLAIM_RACE_RETRIES_def Let_def eval_nat_numeral)
    with assms(2) have db': "db' = ?db2" and "r = find_by ox_id (ox_id cand) (ob_rows ?db2)"
      by (metis Pair_inject)+
    with r0(5) have r: "r = Some (stamp_claim now r0)" by (simp only:)
    have "live (ox_status r0)" using cand(2) r0(2)
      by (auto simp: claimable_def same_claim_def split: option.splits)
    moreover have "outbox_ok ?db2" by (rule update_where_ok) (use assms(1) in simp_all)
    moreover have "ox_id r0 = ox_id cand" by (rule n [OF r0(2)])
    ultimately show ?thesis
      unfolding r db' using r0 by (simp add: stamp_claim_def del: fun_upd_apply)
  qed
qed

lemma park_cases:
  assumes "outbox_ok db" and "find_by ox_id n (ob_rows db) = Some r"
    and "ox_status r = IN_PROGRESS" and "ox_claimed_at r = Some t"
  shows "outbox_ok (snd (park c now n t st err hint db))
    \<and> outbox_life (snd (park c now n t st err hint db)) = (outbox_life db)(n \<mapsto> (st, ox_attempts r))"
proof -
  let ?f = "park_row c now st err (registered_workflow db hint)"
  have db': "snd (park c now n t st err hint db)
             = db\<lparr>ob_rows := update_where (holds_claim n t) ?f (ob_rows db)\<rparr>"
    by (simp add: park_def update_claim_def)
  have n: "\<And>r. holds_claim n t r \<Longrightarrow> ox_id r = n" by (simp add: holds_claim_def)
  have "holds_claim n t r" using find_by_in [OF assms(2)] assms(3,4) by (simp add: holds_claim_def)
  moreover have "r \<in> set (ob_rows db)" using find_by_in [OF assms(2)] by simp
  ultimately have "filter (holds_claim n t) (ob_rows db) \<noteq> []" by (auto simp: filter_empty_conv)
  with update_where_life [OF assms(1) _ n db'] assms(2)
  have "outbox_life (snd (park c now n t st err hint db)) = (outbox_life db)(n \<mapsto> (ox_status (?f r), ox_attempts (?f r)))"
    by auto
  moreover have "outbox_ok (snd (park c now n t st err hint db))"
    unfolding db' by (rule update_where_ok) (use assms(1) in simp_all)
  ultimately show ?thesis by (simp add: park_row_def)
qed

lemma outbox_claim_law:
  assumes "outbox_ok db" and "outbox_claim_loop n c (\<lambda>_ db. db) now db = (r, db')"
  shows "outbox_ok db' \<and> (case r of
        None \<Rightarrow> \<forall>k. passed_over (outbox_life db k) (outbox_life db' k)
      | Some d \<Rightarrow> (\<forall>k. k \<noteq> ce_outbox_id d \<longrightarrow> passed_over (outbox_life db k) (outbox_life db' k))
          \<and> ce_attempt d \<le> tc_max_attempts c
          \<and> outbox_life db' (ce_outbox_id d) = Some (IN_PROGRESS, ce_attempt d)
          \<and> (\<exists>st. live st \<and> outbox_life db (ce_outbox_id d) = Some (st, ce_attempt d - 1)))"
  using assms
proof (induction n arbitrary: db)
  case 0
  then show ?case by (simp add: passed_over_def)
next
  case (Suc n)
  obtain row db1 where cn: "claim_next (\<lambda>_ db. db) None (tc_exclude_types c)
      (Some (tc_visibility_timeout c)) now db = (row, db1)"
    by (cases "claim_next (\<lambda>_ db. db) None (tc_exclude_types c) (Some (tc_visibility_timeout c)) now db")
  note alone = claim_next_alone [OF Suc.prems(1) cn]
  show ?case
  proof (cases row)
    case None
    with Suc.prems(2) cn have "r = None" "db' = db1" by simp_all
    with alone None show ?thesis by (auto simp: passed_over_def)
  next
    case (Some x)
    with alone obtain st where st: "live st" "outbox_life db (ox_id x) = Some (st, ox_attempts x - 1)"
      and l1: "outbox_life db1 = (outbox_life db)(ox_id x \<mapsto> (IN_PROGRESS, ox_attempts x))"
      and f: "find_by ox_id (ox_id x) (ob_rows db1) = Some x" "ox_status x = IN_PROGRESS"
        "ox_claimed_at x = Some now"
      and ok1: "outbox_ok db1" by auto
    have continue: ?thesis
      if run: "outbox_claim_loop n c (\<lambda>_ db. db) now (snd (park c now (ox_id x) now st' err hint db1)) = (r, db')"
        and st': "st' \<in> {DEAD_LETTER, QUARANTINE}" for st' err hint
    proof -
      let ?db2 = "snd (park c now (ox_id x) now st' err hint db1)"
      have ok2: "outbox_ok ?db2"
        and l2: "outbox_life ?db2 = (outbox_life db)(ox_id x \<mapsto> (st', ox_attempts x))"
        using park_cases [OF ok1 f] l1 by simp_all
      have trans: "passed_over (outbox_life db k) (outbox_life db' k)"
        if "passed_over (outbox_life ?db2 k) (outbox_life db' k)" for k
        using that st st' unfolding l2 by (cases "k = ox_id x") (auto simp: passed_over_def)
      note ih = Suc.IH [OF ok2 run]
      show ?thesis
      proof (cases r)
        case None
        with ih trans show ?thesis by simp
      next
        case (Some d)
        with ih obtain st2 where "live st2" "outbox_life ?db2 (ce_outbox_id d) = Some (st2, ce_attempt d - 1)"
          by auto
        moreover from this st' have "ce_outbox_id d \<noteq> ox_id x" unfolding l2 by auto
        ultimately have "\<exists>st. live st \<and> outbox_life db (ce_outbox_id d) = Some (st, ce_attempt d - 1)"
          unfolding l2 by auto
        with ih trans Some show ?thesis by simp
      qed
    qed
    show ?thesis
    proof (cases "envelope_from_row c x")
      case (Inl err)
      with Suc.prems(2) cn Some show ?thesis by (intro continue) auto
    next
      case (Inr e)
      show ?thesis
      proof (cases "ox_attempts x > tc_max_attempts c")
        case True
        with Suc.prems(2) cn Some Inr show ?thesis
          by (intro continue [where st' = DEAD_LETTER]) (auto simp: park_claim_def)
      next
        case False
        with Suc.prems(2) cn Some Inr have "r = Some \<lparr>ce_outbox_id = ox_id x, ce_envelope = e,
            ce_attempt = ox_attempts x, ce_claimed_at = now\<rparr>" "db' = db1" by auto
        with False ok1 l1 st show ?thesis by (auto simp: passed_over_def)
      qed
    qed
  qed
qed

section \<open>The outbox keeps the contract\<close>

lemma dedupe_keys_append:
  "dedupe_keys (db\<lparr>ob_rows := ob_rows db @ [r]\<rparr>)
   = dedupe_keys db @ (case ox_dedupe_key r of None \<Rightarrow> [] | Some k \<Rightarrow> [k])"
  by (simp add: dedupe_keys_def List.map_filter_def split: option.split)

lemma set_map_filter_Some: "k \<in> set (List.map_filter g xs) \<longleftrightarrow> Some k \<in> g ` set xs"
  by (induction xs) (auto simp: List.map_filter_def)

lemma set_dedupe_keys: "k \<in> set (dedupe_keys db) \<longleftrightarrow> Some k \<in> ox_dedupe_key ` set (ob_rows db)"
  by (simp add: dedupe_keys_def set_map_filter_Some)

lemma outbox_create_ok:
  assumes "outbox_ok db" and "outbox_create c now n ty payload k db = ret (r, db')"
  shows "outbox_ok db' \<and> outbox_life db n = None
         \<and> outbox_life db' = (outbox_life db)(n \<mapsto> (PENDING, 0)) \<and> ox_id r = n"
proof -
  from assms(2) have fresh: "n \<notin> ox_id ` set (ob_rows db)"
    "\<And>k'. k = Some k' \<Longrightarrow> Some k' \<notin> ox_dedupe_key ` set (ob_rows db)"
    and db': "db' = db\<lparr>ob_rows := ob_rows db @ [r]\<rparr>"
    and r: "ox_id r = n" "ox_dedupe_key r = k" "ox_status r = PENDING" "ox_attempts r = 0"
    by (auto simp: outbox_create_def Let_def split: if_splits)
  have none: "find_by ox_id n (ob_rows db) = None" using fresh(1) by (simp add: find_by_None)
  have "outbox_life db' j = ((outbox_life db)(n \<mapsto> (PENDING, 0))) j" for j
    using none r by (simp add: db' outbox_life_def find_by_append split: option.split)
  moreover have "outbox_ok db'"
  proof (cases k)
    case None
    with assms(1) fresh(1) r show ?thesis
      by (simp add: db' outbox_ok_def dedupe_keys_append)
  next
    case (Some k')
    with assms(1) fresh r show ?thesis
      by (simp add: db' outbox_ok_def dedupe_keys_append set_dedupe_keys)
  qed
  moreover have "outbox_life db n = None" using none by (simp add: outbox_life_def)
  ultimately show ?thesis using r(1) by (simp add: fun_eq_iff)
qed

lemma outbox_publish_law:
  assumes "outbox_ok db" and "outbox_publish c now e db = (r, db')"
  shows "outbox_ok db' \<and> (outbox_life db' = outbox_life db
          \<or> (\<exists>k. outbox_life db k = None \<and> outbox_life db' = (outbox_life db)(k \<mapsto> (PENDING, 0))))"
proof (cases "get_by_dedupe_key (ev_dedupe_key e) db")
  case (Some x)
  with assms show ?thesis by (simp add: outbox_publish_def stage_def)
next
  case None
  let ?create = "outbox_create c now (ev_id e) (ev_type e) (Enveloped e) (Some (ev_dedupe_key e)) db"
  show ?thesis
  proof (cases ?create)
    case (Inl err)
    with None assms show ?thesis by (simp add: outbox_publish_def stage_def)
  next
    case (Inr p)
    obtain x db1 where p: "p = (x, db1)" by (cases p)
    with None Inr assms(2) have "db' = db1" by (simp add: outbox_publish_def stage_def)
    with outbox_create_ok [OF assms(1) Inr [unfolded p]] show ?thesis by blast
  qed
qed

text \<open>What a nack writes: one of three updates under the claim it was handed out with.\<close>

definition nack_update ::
  "outbox_config \<Rightarrow> datetime \<Rightarrow> claimed_event \<Rightarrow> delivery_failure \<Rightarrow> outbox \<Rightarrow> outbox_row \<Rightarrow> outbox_row" where
  "nack_update c now d plan db =
     (let linked = registered_workflow db (workflow_hint c (ce_envelope d)) in
      if df_outcome plan = QUARANTINED then park_row c now QUARANTINE (df_error plan) linked
      else if df_outcome plan = DEAD_LETTERED then park_row c now DEAD_LETTER (df_error plan) linked
      else back_off (now + (case df_delay plan of None \<Rightarrow> 0 | Some t \<Rightarrow> t)) (df_error plan))"

lemma nack_update_keeps [simp]: "keeps_identity (nack_update c now d plan db)"
  by (simp add: nack_update_def Let_def)

lemma nack_update_status:
  "ox_status (nack_update c now d plan db r)
     = (if df_outcome plan = QUARANTINED then QUARANTINE
        else if df_outcome plan = DEAD_LETTERED then DEAD_LETTER else PENDING)"
  "ox_attempts (nack_update c now d plan db r) = ox_attempts r"
  by (simp_all add: nack_update_def Let_def park_row_def back_off_def)

lemma outbox_nack_plan:
  assumes "classify_failure (tc_describe c) e (ce_attempt d) (tc_retry_policy c) u = ret plan"
  shows "outbox_nack c now u d e db
         = (case update_claim (ce_outbox_id d) (ce_claimed_at d) (nack_update c now d plan db) db of
              (settled, db') \<Rightarrow>
                (ret (if settled then plan
                      else \<lparr>df_outcome = CLAIM_LOST, df_error = df_error plan, df_delay = None\<rparr>), db'))"
  using assms
  by (simp add: outbox_nack_def nack_update_def park_claim_def park_def Let_def)

lemma outbox_nack_claim:
  assumes "s' \<noteq> s" and "outbox_nack c now u d e s = (r, s')"
  obtains f st b where "update_claim (ce_outbox_id d) (ce_claimed_at d) f s = (b, s')"
    "keeps_identity f" "st \<in> {PENDING, DEAD_LETTER, QUARANTINE}"
    "\<And>r. ox_status (f r) = st \<and> ox_attempts (f r) = ox_attempts r"
proof (cases "classify_failure (tc_describe c) e (ce_attempt d) (tc_retry_policy c) u")
  case (Inl err)
  with assms show ?thesis by (simp add: outbox_nack_def)
next
  case (Inr plan)
  let ?f = "nack_update c now d plan s"
  let ?st = "if df_outcome plan = QUARANTINED then QUARANTINE
             else if df_outcome plan = DEAD_LETTERED then DEAD_LETTER else PENDING"
  obtain b where "update_claim (ce_outbox_id d) (ce_claimed_at d) ?f s = (b, s')"
    using outbox_nack_plan [OF Inr, of now s] assms(2) by (auto split: prod.splits)
  then show ?thesis by (rule that [of ?f _ ?st]) (simp_all add: nack_update_status)
qed

interpretation outbox_transport:
  event_transport "outbox_ops c" outbox_life ce_outbox_id ce_attempt "tc_max_attempts c" outbox_ok
  for c
proof (unfold_locales, goal_cases)
  case (1 s now ev rp s')
  then show ?case using outbox_publish_law [of s c now ev rp s'] by (simp add: outbox_ops_def)
next
  case (2 s now r s')
  then show ?case
    using outbox_claim_law [of s PARK_LIMIT c now r s'] by (simp add: outbox_ops_def outbox_claim_def)
next
  case (3 s now d b s')
  then have run: "update_claim (ce_outbox_id d) (ce_claimed_at d)
      (\<lambda>r. r\<lparr>ox_status := DISPATCHED, ox_dispatched_at := Some now\<rparr>) s = (b, s')"
    by (simp add: outbox_ops_def outbox_ack_def)
  from update_claim_cases [OF 3(1) _ run] show ?case by (auto split: if_splits)
next
  case (4 s now u d err rn s')
  show ?case
  proof (cases "s' = s")
    case False
    from 4(2) have "outbox_nack c now u d err s = (rn, s')" by (simp add: outbox_ops_def)
    with False obtain f st b where run: "update_claim (ce_outbox_id d) (ce_claimed_at d) f s = (b, s')"
      and f: "keeps_identity f" "st \<in> {PENDING, DEAD_LETTER, QUARANTINE}"
      "\<And>r. ox_status (f r) = st \<and> ox_attempts (f r) = ox_attempts r"
      by (rule outbox_nack_claim) metis
    from update_claim_cases [OF 4(1) f(1) run] False f show ?thesis
      by (auto split: if_splits)
  qed (use 4(1) in simp)
next
  case (5 s now d why b s')
  let ?f = "park_row c now DEAD_LETTER why (registered_workflow s (workflow_hint c (ce_envelope d)))"
  from 5 have run: "update_claim (ce_outbox_id d) (ce_claimed_at d) ?f s = (b, s')"
    by (simp add: outbox_ops_def outbox_dead_letter_def park_claim_def park_def)
  from update_claim_cases [OF 5(1) _ run] show ?case by (auto simp: park_row_def split: if_splits)
next
  case (6 s i b s')
  let ?p = "\<lambda>r. ox_id r = i \<and> parked (ox_status r)"
  let ?f = "\<lambda>r. r\<lparr>ox_status := PENDING, ox_attempts := 0, ox_claimed_at := None,
                 ox_available_at := None, ox_failed_at := None\<rparr>"
  from 6(2) have s': "s' = s\<lparr>ob_rows := update_where ?p ?f (ob_rows s)\<rparr>"
    by (simp add: outbox_ops_def outbox_requeue_def Let_def)
  have ki: "keeps_identity ?f" by simp
  have "\<And>r. ?p r \<Longrightarrow> ox_id r = i" by simp
  from update_where_life [OF 6(1) ki this s'] update_where_ok [OF ki 6(1), of ?p] show ?case
    by (auto simp: s' parked_def)
qed

section \<open>What the outbox promises\<close>

definition held_under :: "uuid \<Rightarrow> datetime \<Rightarrow> outbox \<Rightarrow> bool" where
  "held_under n t db \<longleftrightarrow> (\<exists>r. find_by ox_id n (ob_rows db) = Some r \<and> holds_claim n t r)"

lemma claim_loop_respects_lease:
  assumes "\<And>k db. outbox_ok db \<Longrightarrow> outbox_ok (race k db)"
    and "\<And>k db. held_under n t db \<Longrightarrow> held_under n t (race k db)"
    and "now - period < t" and "outbox_ok db"
    and "\<And>m. fuel = Suc m \<Longrightarrow> held_under n t (race m db)"
    and "claim_next_loop fuel race ty excluded (Some period) now db = (Some row, db')"
  shows "ox_id row \<noteq> n"
  using assms(4-6)
proof (induction fuel arbitrary: db)
  case (Suc m)
  let ?sel = "first_by (\<lambda>r. (ox_created_at r, ox_id r)) (filter (claimable ty excluded (Some period) now) (ob_rows db))"
  obtain cand where cand: "?sel = Some cand" using Suc.prems(3) by (cases ?sel) auto
  then have "cand \<in> set (filter (claimable ty excluded (Some period) now) (ob_rows db))"
    by (rule first_by_in)
  then have cl: "claimable ty excluded (Some period) now cand" by simp
  let ?db1 = "race m db"
  let ?db2 = "?db1\<lparr>ob_rows := update_where (same_claim cand) (stamp_claim now) (ob_rows ?db1)\<rparr>"
  have ok1: "outbox_ok ?db1" by (rule assms(1) [OF Suc.prems(1)])
  have ok2: "outbox_ok ?db2" by (rule update_where_ok [OF _ ok1]) simp
  obtain r where r: "find_by ox_id n (ob_rows ?db1) = Some r" "holds_claim n t r"
    using Suc.prems(2) by (auto simp: held_under_def)
  have id: "\<And>x. same_claim cand x \<Longrightarrow> ox_id x = ox_id cand" by (simp add: same_claim_def)
  have no: "\<not> same_claim cand r"
    using r(2) cl assms(3)
    by (cases "ox_claimed_at cand") (auto simp: same_claim_def holds_claim_def claimable_def)
  have held2: "held_under n t ?db2"
    using r no find_by_update_where [where p = "same_claim cand" and f = "stamp_claim now"
        and rs = "ob_rows ?db1" and n = "ox_id cand" and k = n, OF _ id]
    by (auto simp: held_under_def)
  show ?case
  proof (cases "length (filter (same_claim cand) (ob_rows ?db1)) = 1")
    case True
    then have row: "find_by ox_id (ox_id cand) (ob_rows ?db2) = Some row"
      using Suc.prems(3) cand by (auto simp: Let_def)
    have "ox_id cand \<noteq> n"
    proof
      assume n: "ox_id cand = n"
      have "filter (same_claim cand) (ob_rows ?db1) = (case find_by ox_id (ox_id cand) (ob_rows ?db1) of
              None \<Rightarrow> [] | Some r \<Rightarrow> if same_claim cand r then [r] else [])"
        using ok1 id by (intro filter_one_row) (auto simp: outbox_ok_def)
      with True n r no show False by simp
    qed
    with find_by_in [OF row] show ?thesis by simp
  next
    case False
    with Suc.prems(3) cand
    have run: "claim_next_loop m race ty excluded (Some period) now ?db2 = (Some row, db')"
      by (simp add: Let_def)
    show ?thesis
      by (rule Suc.IH [OF ok2 _ run]) (rule assms(2) [OF held2])
  qed
qed simp


text \<open>
  C12: at-least-once, but not forever. Over any sequence of publishes, claims and settlements
  (with stale deliveries too), as long as no operator requeues, the outbox hands one row out
  at most \<open>max_attempts\<close> times, and so does the in-memory transport one event.
\<close>

theorem deliveries_are_bounded:
  assumes "\<And>i. Requeue i \<notin> set cmds" and "\<And>i. Requeue i \<notin> set mcmds"
    and "policy_ok (tc_retry_policy c)" and "policy_ok (tc_retry_policy mc)"
    and "perform_all (outbox_ops c) cmds \<lparr>ob_rows = [], ob_workflows = ws, ob_runs = rs\<rparr> = (ds, db)"
    and "perform_all (memory_ops mc) mcmds \<lparr>mt_held = [], mt_sequence = 0, mt_leases = 0\<rparr> = (mds, m)"
  shows "int (length (filter (\<lambda>d. ce_outbox_id d = n) ds)) \<le> tc_max_attempts c
    \<and> int (length (filter (\<lambda>d. ev_dedupe_key (md_envelope d) = k) mds)) \<le> tc_max_attempts mc"
proof -
  let ?db0 = "\<lparr>ob_rows = [], ob_workflows = ws, ob_runs = rs\<rparr>"
  let ?m0 = "\<lparr>mt_held = [], mt_sequence = 0, mt_leases = 0\<rparr>"
  have o: "outbox_ok ?db0" by (simp add: outbox_ok_def dedupe_keys_def List.map_filter_def)
  have z: "outbox_transport.claims ?db0 n = 0"
    by (simp add: outbox_transport.claims_def outbox_life_def find_by_def)
  have mo: "memory_ok ?m0" by (simp add: memory_ok_def)
  have mz: "memory_transport.claims ?m0 k = 0"
    by (simp add: memory_transport.claims_def memory_life_def find_by_def)
  have "int (length (filter (\<lambda>d. ce_outbox_id d = n) ds)) \<le> max 0 (tc_max_attempts c - 0)"
    using outbox_transport.bounded_deliveries [OF o assms(5,1), of n] z by simp
  moreover have "int (length (filter (\<lambda>d. ev_dedupe_key (md_envelope d) = k) mds))
      \<le> max 0 (tc_max_attempts mc - 0)"
    using memory_transport.bounded_deliveries [OF mo assms(6,2), of k] mz by simp
  ultimately show ?thesis using assms(3,4) by (auto simp: policy_ok_def max_attempts_def)
qed

text \<open>
  An acked event is never delivered again: after an \<open>ack\<close> that reports success nothing
  that publishers, consumers and operators do, requeueing included, makes the outbox hand
  the row out once more.
\<close>

theorem acked_is_never_redelivered:
  assumes "outbox_ok db" and "outbox_ack now d db = (True, db1)"
    and "perform_all (outbox_ops c) cmds db1 = (ds, db')"
  shows "\<forall>d' \<in> set ds. ce_outbox_id d' \<noteq> ce_outbox_id d"
proof -
  have "tr_ack (outbox_ops c) now d db = (True, db1)" using assms(2) by (simp add: outbox_ops_def)
  from outbox_transport.acked_forever [OF assms(1) this assms(3)] show ?thesis .
qed

text \<open>
  What a nack does. For the holder of the current claim a malformed event is
  quarantined at once, a terminal failure or a spent budget is dead-lettered, and anything
  else is put back no sooner than the backoff; for anybody else it changes nothing and says
  \<open>CLAIM_LOST\<close>.
\<close>

theorem nack_outcome:
  assumes ok: "outbox_ok db"
    and plan: "classify_failure (tc_describe c) e (ce_attempt d) (tc_retry_policy c) u = ret plan"
    and run: "outbox_nack c now u d e db = (ret out, db')"
  shows "if held_under (ce_outbox_id d) (ce_claimed_at d) db
    then out = plan \<and> (\<exists>r. find_by ox_id (ce_outbox_id d) (ob_rows db') = Some r
        \<and> ox_status r = (if is_poison e then QUARANTINE
             else if is_terminal e \<or> \<not> allows_retry (tc_retry_policy c) (ce_attempt d) then DEAD_LETTER
             else PENDING)
        \<and> (ox_status r = PENDING \<longrightarrow> (\<exists>s. df_delay plan = Some s \<and> ox_available_at r = Some (now + s))))
    else db' = db \<and> df_outcome out = CLAIM_LOST"
proof -
  let ?f = "nack_update c now d plan db"
  let ?n = "ce_outbox_id d" and ?t = "ce_claimed_at d"
  obtain b where upd: "update_claim ?n ?t ?f db = (b, db')"
    and out: "out = (if b then plan
                     else \<lparr>df_outcome = CLAIM_LOST, df_error = df_error plan, df_delay = None\<rparr>)"
    using run unfolding outbox_nack_plan [OF plan] by (auto split: prod.splits)
  note cases = update_claim_cases [OF ok nack_update_keeps upd]
  have b: "b \<longleftrightarrow> held_under ?n ?t db"
  proof
    assume b then show "held_under ?n ?t db" using cases by (auto simp: held_under_def)
  next
    assume "held_under ?n ?t db"
    then obtain r where "find_by ox_id ?n (ob_rows db) = Some r" "holds_claim ?n ?t r"
      by (auto simp: held_under_def)
    moreover have "filter (holds_claim ?n ?t) (ob_rows db) = (case find_by ox_id ?n (ob_rows db) of
              None \<Rightarrow> [] | Some r \<Rightarrow> if holds_claim ?n ?t r then [r] else [])"
      using ok by (intro filter_one_row) (auto simp: outbox_ok_def holds_claim_def)
    ultimately show b using upd by (simp add: update_claim_def)
  qed
  have shape: "df_outcome plan = (if is_poison e then QUARANTINED
      else if is_terminal e \<or> \<not> allows_retry (tc_retry_policy c) (ce_attempt d) then DEAD_LETTERED
      else RETRY_SCHEDULED) \<and> (df_outcome plan = RETRY_SCHEDULED \<longrightarrow> (\<exists>s. df_delay plan = Some s))"
    using plan by (auto simp: classify_failure_def Let_def split: if_splits sum.splits)
  show ?thesis
  proof (cases "held_under ?n ?t db")
    case False
    with b cases out show ?thesis by simp
  next
    case True
    with b cases obtain r where "find_by ox_id ?n (ob_rows db') = Some (?f r)" by auto
    moreover have "ox_available_at (?f r) = Some (now + s)"
      if "df_outcome plan = RETRY_SCHEDULED" "df_delay plan = Some s" for s
      using that by (simp add: nack_update_def back_off_def Let_def)
    ultimately show ?thesis using True b out shape by (auto simp: nack_update_status split: if_splits)
  qed
qed

text \<open>
  One row per fact. However often and from however many producers a fact is published,
  and whatever else happens, the table holds at most one row with its dedupe key.
\<close>

theorem one_row_per_fact:
  assumes "perform_all (outbox_ops c) cmds \<lparr>ob_rows = [], ob_workflows = ws, ob_runs = rs\<rparr> = (ds, db)"
  shows "length (filter (\<lambda>r. ox_dedupe_key r = Some k) (ob_rows db)) \<le> 1"
proof -
  have "outbox_ok \<lparr>ob_rows = [], ob_workflows = ws, ob_runs = rs\<rparr>"
    by (simp add: outbox_ok_def dedupe_keys_def List.map_filter_def)
  from outbox_transport.perform_all_ok [OF this assms] have "distinct (dedupe_keys db)"
    by (simp add: outbox_ok_def)
  moreover have "count_list ks k \<le> 1" if "distinct ks" for ks
    using that by (induction ks) (auto simp: count_list_0_iff)
  ultimately have "count_list (dedupe_keys db) k \<le> 1" by blast
  moreover have "length (filter (\<lambda>r. ox_dedupe_key r = Some k) rows)
                 = count_list (List.map_filter ox_dedupe_key rows) k" for rows :: "outbox_row list"
    by (induction rows) (auto simp: List.map_filter_def)
  ultimately show ?thesis by (simp add: dedupe_keys_def)
qed

section \<open>Witnesses\<close>

definition ex_transport :: transport_config where
  "ex_transport = \<lparr>tc_exclude_types = [], tc_visibility_timeout = 300,
     tc_retry_policy = EVENT_DELIVERY, tc_describe = (\<lambda>_. ''error''), tc_redact_text = (\<lambda>t. t),
     tc_lapsed = (\<lambda>_. ''lapsed'')\<rparr>"

definition ex_outbox_config :: outbox_config where
  "ex_outbox_config = transport_config.extend ex_transport
     \<lparr>oc_redact_payload = (\<lambda>p. p), oc_as_uuid = (\<lambda>_. None), oc_redact = (\<lambda>d. d),
      oc_byte_count = (\<lambda>_. 0), oc_describe_int = (\<lambda>_. ''1'')\<rparr>"

definition ex_event :: event_envelope where
  "ex_event = \<lparr>ev_id = 5, ev_type = ''application.created'', ev_source = ''graph'',
     ev_occurred_at = 0, ev_subject_ref = None, ev_correlation_id = None,
     ev_dedupe_key = ''k'', ev_payload = []\<rparr>"

definition ex_leased_row :: outbox_row where
  "ex_leased_row = \<lparr>ox_id = 5, ox_type = ''application.created'', ox_payload = Enveloped ex_event,
     ox_dedupe_key = Some ''k'', ox_status = IN_PROGRESS, ox_created_at = 0,
     ox_claimed_at = Some 100, ox_attempts = 1, ox_available_at = None, ox_last_error = None,
     ox_failed_at = None, ox_dispatched_at = None, ox_workflow_id = None\<rparr>"

definition ex_free_row :: outbox_row where
  "ex_free_row = ex_leased_row\<lparr>ox_id := 6, ox_dedupe_key := Some ''l'', ox_status := PENDING,
     ox_claimed_at := None, ox_attempts := 0, ox_created_at := 7\<rparr>"

definition ex_outbox :: outbox where
  "ex_outbox = \<lparr>ob_rows = [ex_leased_row, ex_free_row], ob_workflows = [], ob_runs = []\<rparr>"

definition ex_delivery :: claimed_event where
  "ex_delivery = \<lparr>ce_outbox_id = 5, ce_envelope = ex_event, ce_attempt = 1, ce_claimed_at = 100\<rparr>"

lemmas ex_outbox_defs = ex_transport_def ex_outbox_config_def ex_event_def ex_leased_row_def
  ex_free_row_def ex_outbox_def ex_delivery_def

lemma ex_outbox_ok: "outbox_ok ex_outbox"
  by (simp add: outbox_ok_def dedupe_keys_def List.map_filter_def ex_outbox_defs)

lemma ex_held: "held_under 5 100 ex_outbox"
  by (simp add: held_under_def holds_claim_def find_by_def ex_outbox_defs)


theorem deliveries_are_bounded_witness:
  "int (length (filter (\<lambda>d. ce_outbox_id d = 5)
     (fst (perform_all (outbox_ops ex_outbox_config) [Publish 0 ex_event, Claim 10, Claim 400]
             \<lparr>ob_rows = [], ob_workflows = [], ob_runs = []\<rparr>)))) \<le> 5"
proof -
  let ?cmds = "[Publish 0 ex_event, Claim 10, Claim 400]"
  obtain ds db where o: "perform_all (outbox_ops ex_outbox_config) ?cmds
      \<lparr>ob_rows = [], ob_workflows = [], ob_runs = []\<rparr> = (ds, db)" by fastforce
  obtain mds m where q: "perform_all (memory_ops ex_transport) [] 
      \<lparr>mt_held = [], mt_sequence = 0, mt_leases = 0\<rparr> = (mds, m)" by simp
  have p: "policy_ok (tc_retry_policy ex_outbox_config)" "policy_ok (tc_retry_policy ex_transport)"
    by (simp_all add: ex_transport_def ex_outbox_config_def transport_config.defs)
  have "tc_max_attempts ex_outbox_config = 5"
    by (simp add: ex_transport_def ex_outbox_config_def transport_config.defs max_attempts_def
        EVENT_DELIVERY_def)
  with deliveries_are_bounded [OF _ _ p o q, of 5 "[]"] o show ?thesis by simp
qed

theorem acked_is_never_redelivered_witness:
  "\<exists>db1. outbox_ack 200 ex_delivery ex_outbox = (True, db1)
     \<and> (\<forall>d' \<in> set (fst (perform_all (outbox_ops ex_outbox_config) [Requeue 5, Claim 900] db1)).
          ce_outbox_id d' \<noteq> 5)"
proof -
  obtain b db1 where a: "outbox_ack 200 ex_delivery ex_outbox = (b, db1)"
    by (cases "outbox_ack 200 ex_delivery ex_outbox")
  have "fst (outbox_ack 200 ex_delivery ex_outbox) = True"
    by (simp add: outbox_ack_def update_claim_def holds_claim_def ex_outbox_defs)
  with a have a': "outbox_ack 200 ex_delivery ex_outbox = (True, db1)" by simp
  obtain ds db' where p: "perform_all (outbox_ops ex_outbox_config) [Requeue 5, Claim 900] db1 = (ds, db')"
    by (cases "perform_all (outbox_ops ex_outbox_config) [Requeue 5, Claim 900] db1")
  from acked_is_never_redelivered [OF ex_outbox_ok a' p] a' p show ?thesis
    by (simp add: ex_delivery_def)
qed

theorem nack_outcome_witness:
  "\<exists>out db'. outbox_nack ex_outbox_config 200 (1/2) ex_delivery (POS ValidationFailed ''bad'' None) ex_outbox
       = (ret out, db')
     \<and> (\<exists>r. find_by ox_id 5 (ob_rows db') = Some r \<and> ox_status r = QUARANTINE)"
proof -
  let ?e = "POS ValidationFailed ''bad'' None"
  have poison: "is_poison ?e" by (simp add: is_poison_def isinstance_of_def)
  then obtain plan where plan: "classify_failure (tc_describe ex_outbox_config) ?e
      (ce_attempt ex_delivery) (tc_retry_policy ex_outbox_config) (1/2) = ret plan"
    by (simp add: classify_failure_def Let_def)
  from outbox_nack_plan [OF plan, of 200 ex_outbox] obtain out db'
    where run: "outbox_nack ex_outbox_config 200 (1/2) ex_delivery ?e ex_outbox = (ret out, db')"
    by (auto split: prod.splits)
  have "held_under (ce_outbox_id ex_delivery) (ce_claimed_at ex_delivery) ex_outbox"
    using ex_held by (simp add: ex_delivery_def)
  with nack_outcome [OF ex_outbox_ok plan run] poison run show ?thesis
    by (auto simp: ex_delivery_def)
qed

theorem one_row_per_fact_witness:
  "length (filter (\<lambda>r. ox_dedupe_key r = Some ''k'')
     (ob_rows (snd (perform_all (outbox_ops ex_outbox_config)
        [Publish 0 ex_event, Publish 1 (ex_event\<lparr>ev_id := 9\<rparr>)]
        \<lparr>ob_rows = [], ob_workflows = [], ob_runs = []\<rparr>)))) \<le> 1"
proof -
  obtain ds db where p: "perform_all (outbox_ops ex_outbox_config)
        [Publish 0 ex_event, Publish 1 (ex_event\<lparr>ev_id := 9\<rparr>)]
        \<lparr>ob_rows = [], ob_workflows = [], ob_runs = []\<rparr> = (ds, db)" by fastforce
  from one_row_per_fact [OF p, of "''k''"] p show ?thesis by simp
qed

end
