(* ===== verification/Inbox.thy ===== *)
theory Inbox
  imports Transport
begin

text \<open>
  Idempotent consumers (\<open>personalos/persistence/event_inbox.py\<close>). A transaction stages an
  effect and the row \<open>(consumer, dedupe_key)\<close> of \<open>consumed_events\<close>, whose unique constraint
  decides at the commit. The state is the set of those rows and the domain the effects
  change; an effect reads the state it finds and yields a value and the change to commit.
\<close>

section \<open>The consumer\<close>

record 'd inbox =
  ib_consumed :: "(string \<times> string) set"
  ib_domain :: 'd

type_synonym ('d, 'a) effect = "event_envelope \<Rightarrow> 'd \<Rightarrow> exn + ('a \<times> ('d \<Rightarrow> 'd))"

record 'a consumption =
  cn_applied :: bool
  cn_result :: "'a option"

definition IdempotentConsumer_init :: "string \<Rightarrow> exn + string" where
  "IdempotentConsumer_init name =
     (if strip name = [] then raise (PY ''ValueError'' ''a consumer needs a name'' None)
      else ret (strip name))"

definition seen :: "string \<Rightarrow> string \<Rightarrow> 'd inbox \<Rightarrow> bool" where
  "seen c k s \<longleftrightarrow> (c, k) \<in> ib_consumed s"

definition duplicate :: "'a consumption" where
  "duplicate = \<lparr>cn_applied = False, cn_result = None\<rparr>"

text \<open>
  \<open>consume\<close>. \<open>race\<close> is what other workers commit after this one looked the key up and before
  it commits. A commit that violates the constraint rolls everything back.
\<close>

definition consume ::
  "string \<Rightarrow> ('d inbox \<Rightarrow> 'd inbox) \<Rightarrow> event_envelope \<Rightarrow> ('d, 'a) effect \<Rightarrow> 'd inbox \<Rightarrow>
   (exn + 'a consumption) \<times> 'd inbox" where
  "consume c race e eff s =
     (if seen c (ev_dedupe_key e) s then (ret duplicate, s)
      else case eff e (ib_domain s) of
        Inl err \<Rightarrow> (raise err, race s)
      | Inr (x, change) \<Rightarrow>
          let s1 = race s in
          if seen c (ev_dedupe_key e) s1 then (ret duplicate, s1)
          else (ret \<lparr>cn_applied = True, cn_result = Some x\<rparr>,
                s1\<lparr>ib_consumed := insert (c, ev_dedupe_key e) (ib_consumed s1),
                   ib_domain := change (ib_domain s1)\<rparr>))"

definition has_consumed :: "string \<Rightarrow> string \<Rightarrow> 'd inbox \<Rightarrow> bool" where
  "has_consumed c k s = seen c k s"

section \<open>Once\<close>

text \<open>
  Deliveries with the deliveries other workers complete in between, one inside the other.
  The domain notes the key of every effect committed for the consumer.
\<close>

datatype ('d, 'a) delivery = Deliver event_envelope "('d, 'a) effect" "('d, 'a) delivery list"

definition noted :: "('d, 'a) effect \<Rightarrow> ('d \<times> string list, 'a) effect" where
  "noted eff e dl =
     (case eff e (fst dl) of
        Inl err \<Rightarrow> raise err
      | Inr (x, change) \<Rightarrow> ret (x, \<lambda>(d, log). (change d, log @ [ev_dedupe_key e])))"

fun deliver :: "string \<Rightarrow> ('d, 'a) delivery \<Rightarrow> ('d \<times> string list) inbox \<Rightarrow> ('d \<times> string list) inbox"
  and deliver_all :: "string \<Rightarrow> ('d, 'a) delivery list \<Rightarrow> ('d \<times> string list) inbox \<Rightarrow>
                      ('d \<times> string list) inbox" where
  "deliver c (Deliver e eff others) s = snd (consume c (deliver_all c others) e (noted eff) s)"
| "deliver_all c [] s = s"
| "deliver_all c (x # xs) s = deliver_all c xs (deliver c x s)"

definition inbox_inv :: "string \<Rightarrow> ('d \<times> string list) inbox \<Rightarrow> bool" where
  [inv_defs]: "inbox_inv c s \<longleftrightarrow>
     (\<forall>k. count_list (snd (ib_domain s)) k = (if (c, k) \<in> ib_consumed s then 1 else 0))"

lemma consume_inv:
  assumes "inbox_inv c s" and "inbox_inv c (race s)"
  shows "inbox_inv c (snd (consume c race e (noted eff) s))"
  using assms
  by (auto simp: consume_def inbox_inv_def noted_def seen_def Let_def count_list_append
      split: sum.splits prod.splits)

lemma deliver_inv:
  fixes x :: "('d, 'a) delivery" and xs :: "('d, 'a) delivery list"
  shows "inbox_inv c s \<Longrightarrow> inbox_inv c (deliver c x s)"
    and "inbox_inv c s \<Longrightarrow> inbox_inv c (deliver_all c xs s)"
proof (induction c x s and c xs s rule: deliver_deliver_all.induct)
  case (1 c e eff others s)
  then show ?case by (simp add: consume_inv)
qed simp_all

text \<open>
  C35: an event is applied exactly once. Whatever deliveries of whatever events reach the
  consumer, however often and however they overlap, the effect committed for a dedupe key is
  committed once if the inbox has its row and never otherwise.
\<close>

theorem applied_exactly_once:
  "count_list (snd (ib_domain (deliver_all c ds \<lparr>ib_consumed = {}, ib_domain = (d, [])\<rparr>))) k
   = (if has_consumed c k (deliver_all c ds \<lparr>ib_consumed = {}, ib_domain = (d, [])\<rparr>) then 1 else 0)"
proof -
  have "inbox_inv c \<lparr>ib_consumed = {}, ib_domain = (d, [])\<rparr>" by (simp add: inbox_inv_def)
  from deliver_inv(2) [OF this, of ds] show ?thesis
    by (simp add: inbox_inv_def has_consumed_def seen_def)
qed

text \<open>
  A failed effect is offered again. When the effect raises, the delivery leaves what it
  found (up to what others committed) and the next delivery of the same event, if nobody
  else has applied it, runs the effect and applies it.
\<close>

theorem failure_is_redelivered:
  assumes "\<not> has_consumed c (ev_dedupe_key e) s" and "eff e (ib_domain s) = raise err"
    and "consume c (\<lambda>s. s) e eff s = (r, s')" and "eff' e (ib_domain s') = ret (x, change)"
  shows "r = raise err \<and> s' = s
    \<and> consume c (\<lambda>s. s) e eff' s' =
        (ret \<lparr>cn_applied = True, cn_result = Some x\<rparr>,
         s'\<lparr>ib_consumed := insert (c, ev_dedupe_key e) (ib_consumed s'),
            ib_domain := change (ib_domain s')\<rparr>)"
  using assms by (auto simp: consume_def has_consumed_def Let_def)

theorem failure_is_redelivered_witness:
  "\<exists>e. consume ''board'' (\<lambda>s. s) e (\<lambda>_ n. ret ((), Suc)) \<lparr>ib_consumed = {}, ib_domain = 0\<rparr>
       = (ret \<lparr>cn_applied = True, cn_result = Some ()\<rparr>,
          \<lparr>ib_consumed = {(''board'', ev_dedupe_key e)}, ib_domain = 1\<rparr>)"
proof -
  define e :: event_envelope where "e = \<lparr>ev_id = 1, ev_type = ''t'', ev_source = ''s'',
    ev_occurred_at = 0, ev_subject_ref = None, ev_correlation_id = None, ev_dedupe_key = ''k'',
    ev_payload = []\<rparr>"
  let ?s = "\<lparr>ib_consumed = {}, ib_domain = 0::nat\<rparr>"
  have seen: "\<not> has_consumed ''board'' (ev_dedupe_key e) ?s" by (simp add: has_consumed_def seen_def)
  obtain r s' where run: "consume ''board'' (\<lambda>s. s) e (\<lambda>_ _. raise (POS ToolFailure ''x'' None) :: exn + unit \<times> (nat \<Rightarrow> nat)) ?s = (r, s')"
    by (cases "consume ''board'' (\<lambda>s. s) e (\<lambda>_ _. raise (POS ToolFailure ''x'' None) :: exn + unit \<times> (nat \<Rightarrow> nat)) ?s")
  have again: "(\<lambda>_ n. ret ((), Suc)) e (ib_domain s') = (ret ((), Suc) :: exn + unit \<times> (nat \<Rightarrow> nat))" by simp
  note fact = failure_is_redelivered [OF seen refl run again]
  then have "s' = ?s" by blast
  with fact show ?thesis by (intro exI [of _ e]) auto
qed

end
