(* ===== verification/Leases.thy ===== *)
theory Leases
  imports Taxonomy
begin

text \<open>
  Workflow leases (\<open>personalos/persistence/leases.py\<close>): acquiring, renewing and releasing the
  one row per workflow, and the interleavings of workers that do. \<open>uuid4()\<close> is a counter, so
  tokens are fresh. An acquisition reads the row and then writes; \<open>SELECT ... FOR UPDATE\<close>
  makes the two one step on Postgres and is a no-op on SQLite, and the step relation has
  both. Refusals for a locked database, which the code infers from SQLite's own error, are
  not modelled.
\<close>

section \<open>The store\<close>

record workflow_lease =
  wl_workflow_id :: uuid
  wl_owner :: string
  wl_token :: uuid
  wl_acquired_at :: datetime
  wl_expires_at :: datetime
  wl_thread_id :: "string option"

record lease_row =
  lr_lease :: workflow_lease
  lr_released_at :: "datetime option"

record lease_db =
  lb_row :: "uuid \<rightharpoonup> lease_row"
  lb_next_token :: uuid

definition DEFAULT_LEASE_TTL_SECONDS :: seconds where
  "DEFAULT_LEASE_TTL_SECONDS = 300"

text \<open>The constructor refuses a duration that is not positive.\<close>

definition WorkflowLeaseStore_init :: "seconds \<Rightarrow> exn + seconds" where
  "WorkflowLeaseStore_init ttl =
     (if ttl \<le> 0 then raise (PY ''ValueError'' ''lease ttl_seconds must be positive'' None)
      else ret ttl)"

definition lease_unavailable :: "string \<Rightarrow> exn" where
  "lease_unavailable reason = POS WorkflowLeaseUnavailable reason None"

definition lease_lost :: exn where
  "lease_lost = POS WorkflowLeaseLost ''lease is no longer held'' None"

definition is_held :: "lease_row \<Rightarrow> datetime \<Rightarrow> bool" where
  "is_held r now \<longleftrightarrow> lr_released_at r = None \<and> wl_expires_at (lr_lease r) > now"

definition new_lease :: "seconds \<Rightarrow> uuid \<Rightarrow> string \<Rightarrow> string option \<Rightarrow> datetime \<Rightarrow> uuid \<Rightarrow> workflow_lease" where
  "new_lease ttl w owner thread now token =
     \<lparr>wl_workflow_id = w, wl_owner = owner, wl_token = token, wl_acquired_at = now,
      wl_expires_at = now + ttl, wl_thread_id = thread\<rparr>"

definition write_lease :: "workflow_lease \<Rightarrow> lease_db \<Rightarrow> lease_db" where
  "write_lease l db =
     db\<lparr>lb_row := (lb_row db)(wl_workflow_id l \<mapsto> \<lparr>lr_lease = l, lr_released_at = None\<rparr>),
        lb_next_token := Suc (lb_next_token db)\<rparr>"

text \<open>
  What \<open>acquire\<close> does after it has read \<open>existing\<close>, on the database as it is when it writes:
  the insert fails on a row that has appeared, and the takeover is guarded on the token read.
\<close>

definition acquire_write ::
  "seconds \<Rightarrow> uuid \<Rightarrow> string \<Rightarrow> string option \<Rightarrow> datetime \<Rightarrow> lease_row option \<Rightarrow> lease_db \<Rightarrow>
   (exn + workflow_lease) \<times> lease_db" where
  "acquire_write ttl w owner thread now existing db =
     (let l = new_lease ttl w owner thread now (lb_next_token db) in
      case existing of
        None \<Rightarrow> if lb_row db w \<noteq> None then (raise (lease_unavailable ''lost_insert_race''), db)
                else (ret l, write_lease l db)
      | Some r \<Rightarrow>
          if is_held r now then (raise (lease_unavailable ''held''), db)
          else (case lb_row db w of
                  None \<Rightarrow> (raise (lease_unavailable ''lost_takeover_race''), db)
                | Some cur \<Rightarrow>
                    if wl_token (lr_lease cur) = wl_token (lr_lease r)
                    then (ret l, write_lease l db)
                    else (raise (lease_unavailable ''lost_takeover_race''), db)))"

definition acquire ::
  "seconds \<Rightarrow> uuid \<Rightarrow> string \<Rightarrow> string option \<Rightarrow> datetime \<Rightarrow> lease_db \<Rightarrow>
   (exn + workflow_lease) \<times> lease_db" where
  "acquire ttl w owner thread now db = acquire_write ttl w owner thread now (lb_row db w) db"

definition current_holder :: "workflow_lease \<Rightarrow> lease_db \<Rightarrow> bool" where
  "current_holder l db \<longleftrightarrow>
     (case lb_row db (wl_workflow_id l) of
        None \<Rightarrow> False
      | Some r \<Rightarrow> wl_token (lr_lease r) = wl_token l \<and> lr_released_at r = None)"

definition set_lease :: "uuid \<Rightarrow> (lease_row \<Rightarrow> lease_row) \<Rightarrow> lease_db \<Rightarrow> lease_db" where
  "set_lease w f db = db\<lparr>lb_row := (lb_row db)(w := map_option f (lb_row db w))\<rparr>"

definition renew ::
  "seconds \<Rightarrow> datetime \<Rightarrow> workflow_lease \<Rightarrow> lease_db \<Rightarrow> (exn + workflow_lease) \<times> lease_db" where
  "renew ttl now l db =
     (if current_holder l db
      then (ret (l\<lparr>wl_expires_at := now + ttl\<rparr>),
            set_lease (wl_workflow_id l)
              (\<lambda>r. r\<lparr>lr_lease := (lr_lease r)\<lparr>wl_expires_at := now + ttl\<rparr>\<rparr>) db)
      else (raise lease_lost, db))"

definition release :: "datetime \<Rightarrow> workflow_lease \<Rightarrow> lease_db \<Rightarrow> bool \<times> lease_db" where
  "release now l db =
     (if current_holder l db
      then (True, set_lease (wl_workflow_id l) (\<lambda>r. r\<lparr>lr_released_at := Some now\<rparr>) db)
      else (False, db))"

definition current_lease :: "datetime \<Rightarrow> uuid \<Rightarrow> lease_db \<Rightarrow> workflow_lease option" where
  "current_lease now w db =
     (case lb_row db w of
        None \<Rightarrow> None
      | Some r \<Rightarrow> if is_held r now then Some (lr_lease r) else None)"

text \<open>
  \<open>hold\<close>: the block runs under the lease and the lease is released on the way out, also when
  the block raises.
\<close>

definition hold ::
  "seconds \<Rightarrow> uuid \<Rightarrow> string \<Rightarrow> string option \<Rightarrow> datetime \<Rightarrow> datetime \<Rightarrow>
   (workflow_lease \<Rightarrow> lease_db \<Rightarrow> (exn + 'a) \<times> lease_db) \<Rightarrow> lease_db \<Rightarrow> (exn + 'a) \<times> lease_db" where
  "hold ttl w owner thread now later block db =
     (case acquire ttl w owner thread now db of
        (Inl e, db1) \<Rightarrow> (raise e, db1)
      | (Inr l, db1) \<Rightarrow> (case block l db1 of (r, db2) \<Rightarrow> (r, snd (release later l db2))))"

section \<open>Workers\<close>

datatype lease_worker = LIdle | LRead datetime "lease_row option" | LHolds workflow_lease

record lease_system =
  ls_db :: lease_db
  ls_now :: datetime
  ls_worker :: "nat \<Rightarrow> lease_worker"

abbreviation set_worker :: "nat \<Rightarrow> lease_worker \<Rightarrow> lease_system \<Rightarrow> lease_system" where
  "set_worker i x s \<equiv> s\<lparr>ls_worker := (ls_worker s)(i := x)\<rparr>"

text \<open>
  Any number of workers on one workflow. Without row locks an acquisition may be split in a
  read and a write. A worker that crashes forgets its lease without releasing it. \<open>renewals\<close>
  says whether the workers renew.
\<close>

inductive lease_step ::
  "bool \<Rightarrow> bool \<Rightarrow> seconds \<Rightarrow> uuid \<Rightarrow> lease_system \<Rightarrow> lease_system \<Rightarrow> bool"
  for row_locks renewals ttl w where
  acquire_locked:
    "\<lbrakk> ls_worker s i = LIdle; acquire ttl w owner thread (ls_now s) (ls_db s) = (res, db') \<rbrakk> \<Longrightarrow>
     lease_step row_locks renewals ttl w s
       (set_worker i (case res of Inl _ \<Rightarrow> LIdle | Inr l \<Rightarrow> LHolds l) (s\<lparr>ls_db := db'\<rparr>))"
| acquire_read:
    "\<lbrakk> \<not> row_locks; ls_worker s i = LIdle \<rbrakk> \<Longrightarrow>
     lease_step row_locks renewals ttl w s (set_worker i (LRead (ls_now s) (lb_row (ls_db s) w)) s)"
| acquire_commit:
    "\<lbrakk> ls_worker s i = LRead now existing;
       acquire_write ttl w owner thread now existing (ls_db s) = (res, db') \<rbrakk> \<Longrightarrow>
     lease_step row_locks renewals ttl w s
       (set_worker i (case res of Inl _ \<Rightarrow> LIdle | Inr l \<Rightarrow> LHolds l) (s\<lparr>ls_db := db'\<rparr>))"
| renew_lease:
    "\<lbrakk> renewals; ls_worker s i = LHolds l; renew ttl (ls_now s) l (ls_db s) = (res, db') \<rbrakk> \<Longrightarrow>
     lease_step row_locks renewals ttl w s
       (set_worker i (case res of Inl _ \<Rightarrow> LIdle | Inr l' \<Rightarrow> LHolds l') (s\<lparr>ls_db := db'\<rparr>))"
| release_lease:
    "\<lbrakk> ls_worker s i = LHolds l; release (ls_now s) l (ls_db s) = (b, db') \<rbrakk> \<Longrightarrow>
     lease_step row_locks renewals ttl w s (set_worker i LIdle (s\<lparr>ls_db := db'\<rparr>))"
| crash: "lease_step row_locks renewals ttl w s (set_worker i LIdle s)"
| tick: "ls_now s \<le> t \<Longrightarrow> lease_step row_locks renewals ttl w s (s\<lparr>ls_now := t\<rparr>)"

inductive lease_reachable :: "bool \<Rightarrow> bool \<Rightarrow> seconds \<Rightarrow> uuid \<Rightarrow> lease_system \<Rightarrow> bool"
  for row_locks renewals ttl w where
  start: "lb_row db w = None \<Longrightarrow>
    lease_reachable row_locks renewals ttl w
      \<lparr>ls_db = db, ls_now = t, ls_worker = (\<lambda>_. LIdle)\<rparr>"
| step: "\<lbrakk> lease_reachable row_locks renewals ttl w s; lease_step row_locks renewals ttl w s s' \<rbrakk> \<Longrightarrow>
    lease_reachable row_locks renewals ttl w s'"

text \<open>A worker believes it may work while its own copy of the lease has not expired.\<close>

definition believes :: "lease_system \<Rightarrow> nat \<Rightarrow> bool" where
  "believes s i \<longleftrightarrow> (case ls_worker s i of LHolds l \<Rightarrow> ls_now s < wl_expires_at l | _ \<Rightarrow> False)"

section \<open>Fencing\<close>

definition fence_inv :: "uuid \<Rightarrow> lease_system \<Rightarrow> bool" where
  [inv_defs]: "fence_inv w s \<longleftrightarrow>
     (\<forall>i l. ls_worker s i = LHolds l \<longrightarrow>
        wl_workflow_id l = w \<and> wl_token l < lb_next_token (ls_db s))
     \<and> (\<forall>r. lb_row (ls_db s) w = Some r \<longrightarrow> wl_token (lr_lease r) < lb_next_token (ls_db s))
     \<and> (\<forall>i j l m. ls_worker s i = LHolds l \<longrightarrow> ls_worker s j = LHolds m \<longrightarrow>
          wl_token l = wl_token m \<longrightarrow> i = j)"

lemma acquire_write_cases:
  assumes "acquire_write ttl w owner thread now existing db = (res, db')"
  shows "(\<exists>e. res = raise e \<and> db' = db)
    \<or> (res = ret (new_lease ttl w owner thread now (lb_next_token db))
       \<and> db' = write_lease (new_lease ttl w owner thread now (lb_next_token db)) db
       \<and> (existing = None \<and> lb_row db w = None
          \<or> (\<exists>r cur. existing = Some r \<and> \<not> is_held r now \<and> lb_row db w = Some cur
               \<and> wl_token (lr_lease cur) = wl_token (lr_lease r))))"
  using assms
  by (auto simp: acquire_write_def Let_def split: option.splits if_splits)

lemma new_lease_simps [simp]:
  "wl_workflow_id (new_lease ttl w owner thread now tok) = w"
  "wl_token (new_lease ttl w owner thread now tok) = tok"
  "wl_expires_at (new_lease ttl w owner thread now tok) = now + ttl"
  by (simp_all add: new_lease_def)

lemma write_lease_simps [simp]:
  "lb_next_token (write_lease l db) = Suc (lb_next_token db)"
  "lb_row (write_lease l db) (wl_workflow_id l) = Some \<lparr>lr_lease = l, lr_released_at = None\<rparr>"
  by (simp_all add: write_lease_def)

lemma fence_inv_acquired:
  assumes "fence_inv w s" and "l = new_lease ttl w owner thread now (lb_next_token (ls_db s))"
  shows "fence_inv w (set_worker i (LHolds l) (s\<lparr>ls_db := write_lease l (ls_db s)\<rparr>))"
proof -
  have row: "lb_row (write_lease l (ls_db s)) w = Some \<lparr>lr_lease = l, lr_released_at = None\<rparr>"
    using write_lease_simps(2) [of l "ls_db s"] by (simp add: assms(2))
  have old: "wl_token m < lb_next_token (ls_db s) \<and> wl_workflow_id m = w"
    if "ls_worker s j = LHolds m" for j m using assms(1) that by (simp add: inv_defs)
  have new: "wl_token l = lb_next_token (ls_db s)" "wl_workflow_id l = w"
    by (simp_all add: assms(2))
  have ne: "\<forall>j m. ls_worker s j = LHolds m \<longrightarrow> wl_token m \<noteq> wl_token l"
    using old new(1) by (metis less_irrefl)
  have one: "\<forall>j k m m'. ls_worker s j = LHolds m \<longrightarrow> ls_worker s k = LHolds m' \<longrightarrow>
               wl_token m = wl_token m' \<longrightarrow> j = k"
    using assms(1) by (simp add: inv_defs)
  let ?s = "set_worker i (LHolds l) (s\<lparr>ls_db := write_lease l (ls_db s)\<rparr>)"
  have "wl_workflow_id m = w \<and> wl_token m < lb_next_token (ls_db ?s)" if "ls_worker ?s j = LHolds m" for j m
    using that old [of j m] new by (cases "j = i") auto
  moreover have "wl_token (lr_lease r) < lb_next_token (ls_db ?s)" if "lb_row (ls_db ?s) w = Some r" for r
    using that row new by auto
  moreover have "j = k"
    if "ls_worker ?s j = LHolds m" "ls_worker ?s k = LHolds m'" "wl_token m = wl_token m'" for j k m m'
    using that ne one by (cases "j = i"; cases "k = i"; simp; metis)
  ultimately show ?thesis by (simp only: fence_inv_def) blast
qed

lemma fence_inv_idle: "fence_inv w s \<Longrightarrow> \<forall>l. x \<noteq> LHolds l \<Longrightarrow> fence_inv w (set_worker i x s)"
  by (auto simp: fence_inv_def)

lemma fence_inv_renewed:
  assumes "fence_inv w s" and "ls_worker s i = LHolds l" and "renew ttl now l (ls_db s) = (res, db')"
  shows "fence_inv w (set_worker i (case res of Inl _ \<Rightarrow> LIdle | Inr l' \<Rightarrow> LHolds l') (s\<lparr>ls_db := db'\<rparr>))"
proof (cases "current_holder l (ls_db s)")
  case False
  with assms(3) have "res = raise lease_lost" "db' = ls_db s" by (simp_all add: renew_def)
  with fence_inv_idle [OF assms(1), of LIdle i] show ?thesis by simp
next
  case True
  have w: "wl_workflow_id l = w" using assms(1,2) by (simp add: inv_defs)
  have res: "res = ret (l\<lparr>wl_expires_at := now + ttl\<rparr>)"
    and db': "lb_next_token db' = lb_next_token (ls_db s)"
      "lb_row db' w = map_option (\<lambda>r. r\<lparr>lr_lease := (lr_lease r)\<lparr>wl_expires_at := now + ttl\<rparr>\<rparr>)
                        (lb_row (ls_db s) w)"
    using assms(3) True w by (auto simp: renew_def set_lease_def)
  from assms(1,2) show ?thesis by (auto simp: fence_inv_def res db')
qed

lemma fence_inv_released:
  assumes "fence_inv w s" and "ls_worker s i = LHolds l" and "release now l (ls_db s) = (b, db')"
  shows "fence_inv w (set_worker i LIdle (s\<lparr>ls_db := db'\<rparr>))"
proof (cases "current_holder l (ls_db s)")
  case False
  with assms(3) have "db' = ls_db s" by (simp add: release_def)
  with fence_inv_idle [OF assms(1), of LIdle i] show ?thesis by simp
next
  case True
  have w: "wl_workflow_id l = w" using assms(1,2) by (simp add: inv_defs)
  have db': "lb_next_token db' = lb_next_token (ls_db s)"
      "lb_row db' w = map_option (\<lambda>r. r\<lparr>lr_released_at := Some now\<rparr>) (lb_row (ls_db s) w)"
    using assms(3) True w by (auto simp: release_def set_lease_def)
  from assms(1) show ?thesis by (auto simp: fence_inv_def db')
qed

lemma fence_inv_step:
  assumes "fence_inv w s" and "lease_step row_locks renewals ttl w s s'"
  shows "fence_inv w s'"
  using assms(2)
proof cases
  case (acquire_locked i owner thread res db')
  from acquire_write_cases [OF acquire_locked(3) [unfolded acquire_def]]
  show ?thesis
    using acquire_locked(1) fence_inv_acquired [OF assms(1) refl] fence_inv_idle [OF assms(1), of LIdle i]
    by auto
next
  case (acquire_commit i now existing owner thread res db')
  from acquire_write_cases [OF acquire_commit(3)]
  show ?thesis
    using acquire_commit(1) fence_inv_acquired [OF assms(1) refl] fence_inv_idle [OF assms(1), of LIdle i]
    by auto
next
  case (renew_lease i l res db')
  then show ?thesis using fence_inv_renewed [OF assms(1)] by simp
next
  case (release_lease i l b db')
  then show ?thesis using fence_inv_released [OF assms(1)] by simp
next
  case (tick t)
  with assms(1) show ?thesis by (simp add: fence_inv_def)
qed (use fence_inv_idle [OF assms(1)] in simp_all)

lemma fence_inv_reachable: "lease_reachable row_locks renewals ttl w s \<Longrightarrow> fence_inv w s"
proof (induction rule: lease_reachable.induct)
  case (start db t)
  then show ?case by (simp add: fence_inv_def)
next
  case (step s s')
  from fence_inv_step [OF step(3,2)] show ?case .
qed

text \<open>
  Fencing. In every reachable state, with or without row locks, at most one worker
  holds a lease the store still honours; every other worker's renewal is refused with
  \<open>WorkflowLeaseLost\<close> and its release is a no-op, so it cannot disturb its successor.
\<close>

theorem one_honoured_lease:
  assumes "lease_reachable row_locks renewals ttl w s" and "ls_worker s i = LHolds l"
  shows "(current_holder l (ls_db s) \<longrightarrow>
            (\<forall>j m. ls_worker s j = LHolds m \<and> current_holder m (ls_db s) \<longrightarrow> j = i))
    \<and> (\<not> current_holder l (ls_db s) \<longrightarrow>
         renew ttl now l (ls_db s) = (raise lease_lost, ls_db s)
         \<and> release now l (ls_db s) = (False, ls_db s))"
proof -
  have inv: "fence_inv w s" by (rule fence_inv_reachable [OF assms(1)])
  have "j = i" if "current_holder l (ls_db s)" "ls_worker s j = LHolds m" "current_holder m (ls_db s)" for j m
  proof -
    have "wl_workflow_id l = w" "wl_workflow_id m = w"
      using inv assms(2) that(2) by (simp_all add: inv_defs)
    with that(1,3) have "wl_token m = wl_token l"
      by (auto simp: current_holder_def split: option.splits)
    with inv assms(2) that(2) show ?thesis by (simp add: inv_defs)
  qed
  then show ?thesis by (simp add: renew_def release_def)
qed

section \<open>Mutual exclusion\<close>

definition mutex_inv :: "bool \<Rightarrow> uuid \<Rightarrow> lease_system \<Rightarrow> bool" where
  "mutex_inv row_locks w s \<longleftrightarrow> fence_inv w s
     \<and> (\<forall>i l. ls_worker s i = LHolds l \<longrightarrow> ls_now s < wl_expires_at l \<longrightarrow>
          (\<exists>r. lb_row (ls_db s) w = Some r \<and> wl_token (lr_lease r) = wl_token l
             \<and> lr_released_at r = None \<and> wl_expires_at (lr_lease r) = wl_expires_at l))
     \<and> (\<forall>i t e. ls_worker s i = LRead t e \<longrightarrow> \<not> row_locks \<and> t \<le> ls_now s)
     \<and> (\<forall>i t r. ls_worker s i = LRead t (Some r) \<longrightarrow>
          wl_token (lr_lease r) < lb_next_token (ls_db s)
          \<and> (\<forall>cur. lb_row (ls_db s) w = Some cur \<longrightarrow> wl_token (lr_lease cur) = wl_token (lr_lease r) \<longrightarrow>
               wl_expires_at (lr_lease cur) = wl_expires_at (lr_lease r)
               \<and> (lr_released_at r \<noteq> None \<longrightarrow> lr_released_at cur \<noteq> None)))"

lemma mutex_invI:
  assumes "fence_inv w s"
    and "\<And>i l. ls_worker s i = LHolds l \<Longrightarrow> ls_now s < wl_expires_at l \<Longrightarrow>
          \<exists>r. lb_row (ls_db s) w = Some r \<and> wl_token (lr_lease r) = wl_token l
             \<and> lr_released_at r = None \<and> wl_expires_at (lr_lease r) = wl_expires_at l"
    and "\<And>i t e. ls_worker s i = LRead t e \<Longrightarrow> \<not> row_locks \<and> t \<le> ls_now s"
    and "\<And>i t r. ls_worker s i = LRead t (Some r) \<Longrightarrow>
          wl_token (lr_lease r) < lb_next_token (ls_db s)"
    and "\<And>i t r cur. ls_worker s i = LRead t (Some r) \<Longrightarrow> lb_row (ls_db s) w = Some cur \<Longrightarrow>
          wl_token (lr_lease cur) = wl_token (lr_lease r) \<Longrightarrow>
          wl_expires_at (lr_lease cur) = wl_expires_at (lr_lease r)
          \<and> (lr_released_at r \<noteq> None \<longrightarrow> lr_released_at cur \<noteq> None)"
  shows "mutex_inv row_locks w s"
  unfolding mutex_inv_def using assms by blast

lemma mutex_snapshot:
  "mutex_inv row_locks w s \<Longrightarrow> ls_worker s i = LRead t (Some r) \<Longrightarrow>
   wl_token (lr_lease r) < lb_next_token (ls_db s)
   \<and> (\<forall>cur. lb_row (ls_db s) w = Some cur \<longrightarrow> wl_token (lr_lease cur) = wl_token (lr_lease r) \<longrightarrow>
        wl_expires_at (lr_lease cur) = wl_expires_at (lr_lease r)
        \<and> (lr_released_at r \<noteq> None \<longrightarrow> lr_released_at cur \<noteq> None))"
  unfolding mutex_inv_def by blast

lemma mutex_fence: "mutex_inv row_locks w s \<Longrightarrow> fence_inv w s"
  unfolding mutex_inv_def by blast

lemma mutex_read:
  "mutex_inv row_locks w s \<Longrightarrow> ls_worker s i = LRead t e \<Longrightarrow> \<not> row_locks \<and> t \<le> ls_now s"
  unfolding mutex_inv_def by blast

lemma mutex_live:
  "mutex_inv row_locks w s \<Longrightarrow> ls_worker s i = LHolds l \<Longrightarrow> ls_now s < wl_expires_at l \<Longrightarrow>
   \<exists>r. lb_row (ls_db s) w = Some r \<and> wl_token (lr_lease r) = wl_token l
     \<and> lr_released_at r = None \<and> wl_expires_at (lr_lease r) = wl_expires_at l"
  unfolding mutex_inv_def by blast

text \<open>A free row means that no worker believes in its lease.\<close>

lemma free_row_nobody:
  assumes "mutex_inv row_locks w s"
    and "lb_row (ls_db s) w = None \<or> (\<exists>r. lb_row (ls_db s) w = Some r \<and> \<not> is_held r (ls_now s))"
  shows "\<not> believes s i"
  using assms by (auto simp: believes_def mutex_inv_def is_held_def split: lease_worker.splits)

lemma mutex_inv_acquired:
  assumes inv: "mutex_inv row_locks w s" and nobody: "\<And>j. \<not> believes s j"
    and l: "l = new_lease ttl w owner thread now (lb_next_token (ls_db s))"
  shows "mutex_inv row_locks w (set_worker i (LHolds l) (s\<lparr>ls_db := write_lease l (ls_db s)\<rparr>))"
proof -
  let ?s = "set_worker i (LHolds l) (s\<lparr>ls_db := write_lease l (ls_db s)\<rparr>)"
  have row: "lb_row (ls_db ?s) w = Some \<lparr>lr_lease = l, lr_released_at = None\<rparr>"
    using write_lease_simps(2) [of l "ls_db s"] by (simp add: l)
  have tok: "wl_token l = lb_next_token (ls_db s)" by (simp add: l)
  have others: "x = LHolds l \<or> ls_worker s j = x" if "ls_worker ?s j = x" for j x
    using that by (cases "j = i") auto
  show ?thesis
  proof (rule mutex_invI)
    show "fence_inv w ?s" by (rule fence_inv_acquired [OF mutex_fence [OF inv] l])
  next
    fix j m assume "ls_worker ?s j = LHolds m" "ls_now ?s < wl_expires_at m"
    with nobody [of j] others [of j "LHolds m"] have "m = l" by (auto simp: believes_def)
    with row show "\<exists>r. lb_row (ls_db ?s) w = Some r \<and> wl_token (lr_lease r) = wl_token m
             \<and> lr_released_at r = None \<and> wl_expires_at (lr_lease r) = wl_expires_at m" by simp
  next
    fix j t e assume "ls_worker ?s j = LRead t e"
    then have "ls_worker s j = LRead t e" using others by blast
    from mutex_read [OF inv this] show "\<not> row_locks \<and> t \<le> ls_now ?s" by simp
  next
    fix j t r assume "ls_worker ?s j = LRead t (Some r)"
    then have "ls_worker s j = LRead t (Some r)" using others by blast
    from mutex_snapshot [OF inv this] show "wl_token (lr_lease r) < lb_next_token (ls_db ?s)" by simp
  next
    fix j t r cur assume "ls_worker ?s j = LRead t (Some r)" and cur: "lb_row (ls_db ?s) w = Some cur"
      "wl_token (lr_lease cur) = wl_token (lr_lease r)"
    then have "ls_worker s j = LRead t (Some r)" using others by blast
    from mutex_snapshot [OF inv this] cur row tok
    show "wl_expires_at (lr_lease cur) = wl_expires_at (lr_lease r)
          \<and> (lr_released_at r \<noteq> None \<longrightarrow> lr_released_at cur \<noteq> None)" by simp
  qed
qed

lemma mutex_inv_idle: "mutex_inv row_locks w s \<Longrightarrow> mutex_inv row_locks w (set_worker i LIdle s)"
  by (auto simp: mutex_inv_def intro: fence_inv_idle)

lemma mutex_inv_renewed:
  assumes inv: "mutex_inv True w s" and h: "ls_worker s i = LHolds l"
    and run: "renew ttl (ls_now s) l (ls_db s) = (res, db')"
  shows "mutex_inv True w (set_worker i (case res of Inl _ \<Rightarrow> LIdle | Inr l' \<Rightarrow> LHolds l') (s\<lparr>ls_db := db'\<rparr>))"
proof (cases "current_holder l (ls_db s)")
  case False
  with run have "res = raise lease_lost" "db' = ls_db s" by (simp_all add: renew_def)
  with mutex_inv_idle [OF inv, of i] show ?thesis by simp
next
  case True
  have f: "fence_inv w s" using inv by (simp add: mutex_inv_def)
  then have w: "wl_workflow_id l = w" using h by (simp add: inv_defs)
  obtain r where r: "lb_row (ls_db s) w = Some r" "wl_token (lr_lease r) = wl_token l" "lr_released_at r = None"
    using True w by (auto simp: current_holder_def split: option.splits)
  have res: "res = ret (l\<lparr>wl_expires_at := ls_now s + ttl\<rparr>)"
    and db': "lb_row db' w = Some (r\<lparr>lr_lease := (lr_lease r)\<lparr>wl_expires_at := ls_now s + ttl\<rparr>\<rparr>)"
    using run True w r by (auto simp: renew_def set_lease_def)
  have "j = i" if "ls_worker s j = LHolds m" "ls_now s < wl_expires_at m" for j m
  proof -
    have "wl_token m = wl_token l" using inv that r by (auto simp: mutex_inv_def)
    with f h that(1) show ?thesis by (simp add: inv_defs)
  qed
  moreover have "ls_worker s j \<noteq> LRead t e" for j t e using inv by (auto simp: mutex_inv_def)
  ultimately show ?thesis
    using fence_inv_renewed [OF f h run] r(2,3) db' res
    by (auto simp: mutex_inv_def split: if_splits)
qed

lemma mutex_inv_released:
  assumes inv: "mutex_inv row_locks w s" and h: "ls_worker s i = LHolds l"
    and run: "release (ls_now s) l (ls_db s) = (b, db')"
  shows "mutex_inv row_locks w (set_worker i LIdle (s\<lparr>ls_db := db'\<rparr>))"
proof (cases "current_holder l (ls_db s)")
  case False
  with run have "db' = ls_db s" by (simp add: release_def)
  with mutex_inv_idle [OF inv, of i] show ?thesis by simp
next
  case True
  have f: "fence_inv w s" using inv by (simp add: mutex_inv_def)
  then have w: "wl_workflow_id l = w" using h by (simp add: inv_defs)
  obtain r where r: "lb_row (ls_db s) w = Some r" "wl_token (lr_lease r) = wl_token l" "lr_released_at r = None"
    using True w by (auto simp: current_holder_def split: option.splits)
  have db': "lb_row db' w = Some (r\<lparr>lr_released_at := Some (ls_now s)\<rparr>)"
      "lb_next_token db' = lb_next_token (ls_db s)"
    using run True w r by (auto simp: release_def set_lease_def)
  have "j = i" if "ls_worker s j = LHolds m" "ls_now s < wl_expires_at m" for j m
  proof -
    have "wl_token m = wl_token l" using inv that r by (auto simp: mutex_inv_def)
    with f h that(1) show ?thesis by (simp add: inv_defs)
  qed
  moreover have "wl_expires_at (lr_lease r) = wl_expires_at (lr_lease x)"
    if "ls_worker s j = LRead t (Some x)" "wl_token (lr_lease r) = wl_token (lr_lease x)" for j t x
    using inv that r(1) by (auto simp: mutex_inv_def)
  moreover have "(\<not> row_locks \<and> t \<le> ls_now s)" if "ls_worker s j = LRead t e" for j t e
    by (rule mutex_read [OF inv that])
  moreover have "wl_token (lr_lease x) < lb_next_token (ls_db s)" if "ls_worker s j = LRead t (Some x)" for j t x
    using inv that by (auto simp: mutex_inv_def)
  ultimately show ?thesis
    using fence_inv_released [OF f h run] db'
    by (auto simp: mutex_inv_def split: if_splits)
qed

lemma mutex_inv_try:
  assumes inv: "mutex_inv row_locks w s"
    and run: "acquire_write ttl w owner thread now existing (ls_db s) = (res, db')"
    and free: "\<And>r cur. existing = Some r \<Longrightarrow> \<not> is_held r now \<Longrightarrow> lb_row (ls_db s) w = Some cur \<Longrightarrow>
                wl_token (lr_lease cur) = wl_token (lr_lease r) \<Longrightarrow> \<not> is_held cur (ls_now s)"
  shows "mutex_inv row_locks w
           (set_worker i (case res of Inl _ \<Rightarrow> LIdle | Inr l \<Rightarrow> LHolds l) (s\<lparr>ls_db := db'\<rparr>))"
proof (cases res)
  case (Inl e)
  with acquire_write_cases [OF run] have "db' = ls_db s" by auto
  with Inl mutex_inv_idle [OF inv, of i] show ?thesis by simp
next
  case (Inr l)
  with acquire_write_cases [OF run]
  have l: "l = new_lease ttl w owner thread now (lb_next_token (ls_db s))"
    and db': "db' = write_lease l (ls_db s)"
    and old: "existing = None \<and> lb_row (ls_db s) w = None
          \<or> (\<exists>r cur. existing = Some r \<and> \<not> is_held r now \<and> lb_row (ls_db s) w = Some cur
               \<and> wl_token (lr_lease cur) = wl_token (lr_lease r))" by auto
  from old free
  have "lb_row (ls_db s) w = None \<or> (\<exists>r. lb_row (ls_db s) w = Some r \<and> \<not> is_held r (ls_now s))"
    by blast
  then have "\<not> believes s j" for j by (rule free_row_nobody [OF inv])
  from mutex_inv_acquired [OF inv this l] show ?thesis by (simp only: Inr db' sum.case)
qed

lemma mutex_inv_read:
  assumes inv: "mutex_inv False w s"
  shows "mutex_inv False w (set_worker i (LRead (ls_now s) (lb_row (ls_db s) w)) s)" (is "mutex_inv _ _ ?s")
proof (rule mutex_invI)
  show "fence_inv w ?s" by (rule fence_inv_idle [OF mutex_fence [OF inv]]) simp
next
  fix j l assume "ls_worker ?s j = LHolds l" "ls_now ?s < wl_expires_at l"
  then have "ls_worker s j = LHolds l" "ls_now s < wl_expires_at l" by (simp_all split: if_splits)
  from mutex_live [OF inv this]
  show "\<exists>r. lb_row (ls_db ?s) w = Some r \<and> wl_token (lr_lease r) = wl_token l
             \<and> lr_released_at r = None \<and> wl_expires_at (lr_lease r) = wl_expires_at l" by simp
next
  fix j t e assume "ls_worker ?s j = LRead t e"
  with mutex_read [OF inv, of j t e] show "\<not> False \<and> t \<le> ls_now ?s" by (auto split: if_splits)
next
  fix j t r assume h: "ls_worker ?s j = LRead t (Some r)"
  have "wl_token (lr_lease r) < lb_next_token (ls_db s)" if "lb_row (ls_db s) w = Some r"
    using mutex_fence [OF inv] that by (simp add: fence_inv_def)
  with h mutex_snapshot [OF inv, of j t r] show "wl_token (lr_lease r) < lb_next_token (ls_db ?s)"
    by (auto split: if_splits)
next
  fix j t r cur assume "ls_worker ?s j = LRead t (Some r)" "lb_row (ls_db ?s) w = Some cur"
    "wl_token (lr_lease cur) = wl_token (lr_lease r)"
  with mutex_snapshot [OF inv, of j t r]
  show "wl_expires_at (lr_lease cur) = wl_expires_at (lr_lease r)
          \<and> (lr_released_at r \<noteq> None \<longrightarrow> lr_released_at cur \<noteq> None)"
    by (cases "j = i") auto
qed

lemma mutex_inv_tick:
  assumes inv: "mutex_inv row_locks w s" and le: "ls_now s \<le> t"
  shows "mutex_inv row_locks w (s\<lparr>ls_now := t\<rparr>)"
proof (rule mutex_invI)
  show "fence_inv w (s\<lparr>ls_now := t\<rparr>)" using mutex_fence [OF inv] by (simp add: fence_inv_def)
next
  fix j l assume "ls_worker (s\<lparr>ls_now := t\<rparr>) j = LHolds l" "ls_now (s\<lparr>ls_now := t\<rparr>) < wl_expires_at l"
  with le have "ls_worker s j = LHolds l" "ls_now s < wl_expires_at l" by simp_all
  from mutex_live [OF inv this]
  show "\<exists>r. lb_row (ls_db (s\<lparr>ls_now := t\<rparr>)) w = Some r \<and> wl_token (lr_lease r) = wl_token l
             \<and> lr_released_at r = None \<and> wl_expires_at (lr_lease r) = wl_expires_at l" by simp
next
  fix j u e assume "ls_worker (s\<lparr>ls_now := t\<rparr>) j = LRead u e"
  with mutex_read [OF inv, of j u e] le show "\<not> row_locks \<and> u \<le> ls_now (s\<lparr>ls_now := t\<rparr>)" by simp
qed (use mutex_snapshot [OF inv] in simp_all)

lemma mutex_inv_step:
  assumes inv: "mutex_inv row_locks w s" and mode: "row_locks \<or> \<not> renewals"
    and st: "lease_step row_locks renewals ttl w s s'"
  shows "mutex_inv row_locks w s'"
  using st
proof cases
  case (acquire_locked i owner thread res db')
  show ?thesis
    unfolding acquire_locked(1)
    by (rule mutex_inv_try [OF inv acquire_locked(3) [unfolded acquire_def]]) simp
next
  case (acquire_commit i now existing owner thread res db')
  show ?thesis
    unfolding acquire_commit(1)
  proof (rule mutex_inv_try [OF inv acquire_commit(3)])
    fix r cur assume a: "existing = Some r" "\<not> is_held r now" "lb_row (ls_db s) w = Some cur"
      "wl_token (lr_lease cur) = wl_token (lr_lease r)"
    then have rd: "ls_worker s i = LRead now (Some r)" using acquire_commit(2) by simp
    from mutex_snapshot [OF inv rd] a(3,4) mutex_read [OF inv rd] a(2)
    show "\<not> is_held cur (ls_now s)" by (auto simp: is_held_def)
  qed
next
  case (acquire_read i)
  with inv show ?thesis by (simp add: mutex_inv_read)
next
  case (renew_lease i l res db')
  with mode have locks: "row_locks = True" by simp
  show ?thesis
    unfolding renew_lease(1) locks
    by (rule mutex_inv_renewed [OF inv [unfolded locks] renew_lease(3,4)])
next
  case (release_lease i l b db')
  show ?thesis
    unfolding release_lease(1) by (rule mutex_inv_released [OF inv release_lease(2,3)])
next
  case (crash i)
  show ?thesis unfolding crash by (rule mutex_inv_idle [OF inv])
next
  case (tick t)
  show ?thesis unfolding tick(1) by (rule mutex_inv_tick [OF inv tick(2)])
qed

text \<open>
  C28: mutual exclusion. With row locks, or where no holder renews, two workers never both
  believe they may run the workflow, however they acquire, renew, release, crash and however
  the clock advances.
\<close>

theorem one_live_worker:
  assumes "lease_reachable row_locks renewals ttl w s" and "row_locks \<or> \<not> renewals"
    and "believes s i" and "believes s j"
  shows "i = j"
proof -
  have inv: "mutex_inv row_locks w s"
    using assms(1)
  proof (induction rule: lease_reachable.induct)
    case (start db t)
    then show ?case by (simp add: mutex_inv_def fence_inv_def)
  next
    case (step s s')
    from mutex_inv_step [OF step(3) assms(2) step(2)] show ?case .
  qed
  obtain l m where "ls_worker s i = LHolds l" "ls_worker s j = LHolds m"
    "ls_now s < wl_expires_at l" "ls_now s < wl_expires_at m"
    using assms(3,4) by (auto simp: believes_def split: lease_worker.splits)
  moreover from this have "wl_token l = wl_token m" by (auto dest!: mutex_live [OF inv])
  moreover have "fence_inv w s" using inv by (simp add: mutex_inv_def)
  ultimately show ?thesis unfolding fence_inv_def by blast
qed

section \<open>A takeover that misses a renewal\<close>

text \<open>
  The run: worker 0 leases at 0, the lease expires at 300, worker 1 reads the expired row,
  worker 0 renews, worker 1 commits.
\<close>

definition ex_worker :: "nat \<Rightarrow> lease_worker \<Rightarrow> lease_worker \<Rightarrow> nat \<Rightarrow> lease_worker" where
  "ex_worker n x y = (\<lambda>i. if i = 0 then x else if i = 1 then y else LIdle)"

definition ex_lease :: "uuid \<Rightarrow> datetime \<Rightarrow> workflow_lease" where
  "ex_lease tok now = new_lease 300 1 ''host'' None now tok"

definition ex_lease_db :: "workflow_lease option \<Rightarrow> uuid \<Rightarrow> lease_db" where
  "ex_lease_db l n = \<lparr>lb_row = (\<lambda>w. if w = 1 then map_option (\<lambda>x. \<lparr>lr_lease = x, lr_released_at = None\<rparr>) l
                                     else None), lb_next_token = n\<rparr>"

definition ex_system ::
  "workflow_lease option \<Rightarrow> uuid \<Rightarrow> datetime \<Rightarrow> lease_worker \<Rightarrow> lease_worker \<Rightarrow> lease_system" where
  "ex_system l n t x y = \<lparr>ls_db = ex_lease_db l n, ls_now = t, ls_worker = ex_worker 0 x y\<rparr>"

abbreviation ex_renewed :: workflow_lease where
  "ex_renewed \<equiv> (ex_lease 0 0)\<lparr>wl_expires_at := 600\<rparr>"

lemmas ex_lease_defs = ex_worker_def ex_lease_def ex_lease_db_def ex_system_def

lemma ex_set_worker:
  "(ex_worker 0 x y)(0 := z) = ex_worker 0 z y"
  "(ex_worker 0 x y)(Suc 0 := z) = ex_worker 0 x z"
  by (auto simp: ex_worker_def)

lemma ex_start: "lease_reachable locks renewals 300 1 (ex_system None 0 0 LIdle LIdle)"
proof -
  have "ex_system None 0 0 LIdle LIdle
        = \<lparr>ls_db = ex_lease_db None 0, ls_now = 0, ls_worker = (\<lambda>_. LIdle)\<rparr>"
    by (auto simp: ex_system_def ex_worker_def)
  moreover have "lb_row (ex_lease_db None 0) 1 = None" by (simp add: ex_lease_db_def)
  ultimately show ?thesis using lease_reachable.start by metis
qed

lemma ex_leased:
  "lease_reachable locks renewals 300 1 (ex_system (Some (ex_lease 0 0)) 1 0 (LHolds (ex_lease 0 0)) LIdle)"
proof -
  let ?s = "ex_system None 0 0 LIdle LIdle"
  have i: "ls_worker ?s 0 = LIdle" by (simp add: ex_lease_defs)
  have "lb_row (write_lease (ex_lease 0 0) (ex_lease_db None 0)) = lb_row (ex_lease_db (Some (ex_lease 0 0)) 1)"
    by (auto simp: write_lease_def ex_lease_db_def ex_lease_def new_lease_def)
  then have "write_lease (ex_lease 0 0) (ex_lease_db None 0) = ex_lease_db (Some (ex_lease 0 0)) 1"
    by (simp add: write_lease_def ex_lease_db_def)
  then have a: "acquire 300 1 ''host'' None (ls_now ?s) (ls_db ?s)
      = (ret (ex_lease 0 0), ex_lease_db (Some (ex_lease 0 0)) 1)"
    by (simp add: acquire_def acquire_write_def ex_system_def Let_def)
      (simp add: ex_lease_db_def ex_lease_def)
  from lease_reachable.step [OF ex_start lease_step.acquire_locked [OF i a]]
  show ?thesis by (simp add: ex_system_def ex_set_worker)
qed

lemma ex_expired:
  "lease_reachable locks renewals 300 1 (ex_system (Some (ex_lease 0 0)) 1 300 (LHolds (ex_lease 0 0)) LIdle)"
proof -
  have "ls_now (ex_system (Some (ex_lease 0 0)) 1 0 (LHolds (ex_lease 0 0)) LIdle) \<le> 300"
    by (simp add: ex_system_def)
  from lease_reachable.step [OF ex_leased lease_step.tick [OF this]]
  show ?thesis by (simp add: ex_system_def)
qed

definition ex_old_row :: lease_row where
  "ex_old_row = \<lparr>lr_lease = ex_lease 0 0, lr_released_at = None\<rparr>"

lemma ex_read_expired:
  "lease_reachable False renewals 300 1
     (ex_system (Some (ex_lease 0 0)) 1 300 (LHolds (ex_lease 0 0)) (LRead 300 (Some ex_old_row)))"
proof -
  let ?s = "ex_system (Some (ex_lease 0 0)) 1 300 (LHolds (ex_lease 0 0)) LIdle"
  have i: "ls_worker ?s 1 = LIdle" by (simp add: ex_lease_defs)
  have "\<not> False" by simp
  from lease_reachable.step [OF ex_expired lease_step.acquire_read [OF this i]]
  show ?thesis by (simp add: ex_system_def ex_set_worker) (simp add: ex_lease_db_def ex_old_row_def)
qed

lemma ex_renewed_reachable:
  "lease_reachable False True 300 1
     (ex_system (Some ex_renewed) 1 300 (LHolds ex_renewed) (LRead 300 (Some ex_old_row)))"
proof -
  let ?s = "ex_system (Some (ex_lease 0 0)) 1 300 (LHolds (ex_lease 0 0)) (LRead 300 (Some ex_old_row))"
  have i: "ls_worker ?s 0 = LHolds (ex_lease 0 0)" by (simp add: ex_system_def ex_worker_def)
  have "set_lease 1 (\<lambda>r. r\<lparr>lr_lease := (lr_lease r)\<lparr>wl_expires_at := 600\<rparr>\<rparr>) (ex_lease_db (Some (ex_lease 0 0)) 1)
        = ex_lease_db (Some ex_renewed) 1"
    by (auto simp: set_lease_def ex_lease_db_def)
  then have r: "renew 300 (ls_now ?s) (ex_lease 0 0) (ls_db ?s) = (ret ex_renewed, ex_lease_db (Some ex_renewed) 1)"
    by (simp add: renew_def current_holder_def ex_system_def)
      (simp add: ex_lease_def ex_lease_db_def)
  from lease_reachable.step [OF ex_read_expired lease_step.renew_lease [OF TrueI i r]]
  show ?thesis by (simp add: ex_system_def ex_set_worker)
qed

text \<open>
  Without row locks the takeover can miss a renewal. It is guarded on the token, which a
  renewal keeps, so a worker that read the row as expired takes over a lease its holder has
  renewed in between, and both believe they may run the workflow.
\<close>

theorem takeover_misses_renewal:
  "\<exists>s. lease_reachable False True 300 1 s \<and> believes s 0 \<and> believes s 1"
proof -
  let ?s = "ex_system (Some ex_renewed) 1 300 (LHolds ex_renewed) (LRead 300 (Some ex_old_row))"
  have i: "ls_worker ?s 1 = LRead 300 (Some ex_old_row)" by (simp add: ex_system_def ex_worker_def)
  have "\<not> is_held ex_old_row 300" by (simp add: is_held_def ex_old_row_def ex_lease_def)
  moreover have "lb_row (ls_db ?s) 1 = Some \<lparr>lr_lease = ex_renewed, lr_released_at = None\<rparr>"
    by (simp add: ex_system_def ex_lease_db_def)
  ultimately have "acquire_write 300 1 ''other'' None 300 (Some ex_old_row) (ls_db ?s)
      = (ret (new_lease 300 1 ''other'' None 300 1),
         write_lease (new_lease 300 1 ''other'' None 300 1) (ls_db ?s))"
    by (simp add: acquire_write_def Let_def ex_old_row_def)
      (simp add: ex_system_def ex_lease_db_def)
  from lease_reachable.step [OF ex_renewed_reachable lease_step.acquire_commit [OF i this]]
  show ?thesis by (intro exI conjI) (auto simp: believes_def ex_system_def ex_worker_def)
qed

theorem one_honoured_lease_witness:
  "current_holder (ex_lease 0 0) (ex_lease_db (Some (ex_lease 0 0)) 1)
   \<and> lease_reachable True True 300 1 (ex_system (Some (ex_lease 0 0)) 1 0 (LHolds (ex_lease 0 0)) LIdle)
   \<and> {j. \<exists>m. ls_worker (ex_system (Some (ex_lease 0 0)) 1 0 (LHolds (ex_lease 0 0)) LIdle) j = LHolds m
             \<and> current_holder m (ex_lease_db (Some (ex_lease 0 0)) 1)} = {0}"
proof -
  let ?s = "ex_system (Some (ex_lease 0 0)) 1 0 (LHolds (ex_lease 0 0)) LIdle"
  have i: "ls_worker ?s 0 = LHolds (ex_lease 0 0)" by (simp add: ex_system_def ex_worker_def)
  have c: "current_holder (ex_lease 0 0) (ex_lease_db (Some (ex_lease 0 0)) 1)"
    by (simp add: current_holder_def ex_lease_db_def ex_lease_def)
  have db: "ls_db ?s = ex_lease_db (Some (ex_lease 0 0)) 1" by (simp add: ex_system_def)
  from one_honoured_lease [OF ex_leased [of True True] i]
  have "j = 0" if "ls_worker ?s j = LHolds m" "current_holder m (ls_db ?s)" for j m
    using that c unfolding db by blast
  with c i ex_leased [of True True] show ?thesis unfolding db [symmetric] by blast
qed

theorem one_live_worker_witness:
  "\<exists>s. lease_reachable True True 300 1 s \<and> believes s 0 \<and> (\<forall>j. believes s j \<longrightarrow> j = 0)"
proof -
  let ?s = "ex_system (Some (ex_lease 0 0)) 1 0 (LHolds (ex_lease 0 0)) LIdle"
  have b: "believes ?s 0" by (simp add: believes_def ex_lease_defs)
  have "j = 0" if "believes ?s j" for j
    using one_live_worker [OF ex_leased [of True True] _ that b] by simp
  with b ex_leased show ?thesis by blast
qed

end
