(* ===== verification/Ledger.thy ===== *)
theory Ledger
  imports Engine Approvals Outbox
begin

text \<open>
  The record of mutating actions: \<open>ToolExecutionRepository\<close>, \<open>PolicyDecisionRepository\<close> and
  \<open>AuditEventRepository\<close> of \<open>personalos/persistence/repositories.py\<close>, grouped into
  transactions by \<open>ExecutionLedger\<close> of \<open>personalos/persistence/execution_ledger.py\<close>. One
  database holds the policy decisions, the execution rows, the audit trail and the outbox;
  \<open>decision_log\<close> is its view of \<open>Engine\<close>. An operation that rolls back gives back the
  database it was called with.
\<close>

section \<open>Rows\<close>

datatype execution_status = EX_IN_PROGRESS | EX_COMPLETED | EX_FAILED | EX_UNKNOWN

record tool_execution =
  te_operation_id :: uuid
  te_workflow_id :: "uuid option"
  te_tool_name :: string
  te_key :: string
  te_status :: execution_status
  te_fingerprint :: "string option"
  te_policy_decision_id :: "uuid option"
  te_approval_ref :: "string option"
  te_approved_by :: "string option"
  te_attempts :: int
  te_receipt :: "action_receipt option"
  te_error :: "string option"

datatype audit_result = SUCCESS | FAILURE

record audit_event =
  ae_actor :: string
  ae_action :: string
  ae_target_ref :: string
  ae_result :: audit_result
  ae_workflow_id :: "uuid option"
  ae_policy_decision :: "decision option"
  ae_policy_decision_id :: "uuid option"
  ae_operation_id :: "uuid option"
  ae_approval_ref :: "string option"

record database =
  db_policy :: policy_db
  db_executions :: "string \<rightharpoonup> tool_execution"
  db_next_operation :: uuid
  db_audit :: "audit_event list"
  db_outbox :: outbox

record execution_authorization =
  xa_policy_decision_id :: "uuid option"
  xa_approval_ref :: "string option"
  xa_approved_by :: "string option"

record audit_entry =
  au_actor :: string
  au_action :: string
  au_target_ref :: string

record domain_event =
  dv_type :: string
  dv_payload :: pydict

text \<open>
  The ledger's environment: its workflow, the outbox configuration (with the redactor of
  texts and the rendering of ids) and the redactor of receipts.
\<close>

record ledger_config =
  lc_workflow_id :: "uuid option"
  lc_outbox :: outbox_config
  lc_redact_receipt :: "action_receipt \<Rightarrow> action_receipt"

definition redact_opt :: "ledger_config \<Rightarrow> string option \<Rightarrow> string option" where
  "redact_opt c s =
     (case s of None \<Rightarrow> None
      | Some t \<Rightarrow> Some (if t \<noteq> [] then tc_redact_text (lc_outbox c) t else t))"

text \<open>The SQL decision log, on the whole database.\<close>

definition decision_log_of :: "database log_port" where
  "decision_log_of row db =
     (case SqlPolicyDecisionLog_record row (db_policy db) of
        Inl e \<Rightarrow> raise e
      | Inr (rid, p) \<Rightarrow> ret (rid, db\<lparr>db_policy := p\<rparr>))"

interpretation database_log: decision_log_port decision_log_of "\<lambda>db. pdb_rows (db_policy db)"
  by unfold_locales (auto simp: decision_log_of_def SqlPolicyDecisionLog_record_def Let_def)

definition get_decision :: "uuid \<Rightarrow> database \<Rightarrow> log_entry option" where
  "get_decision n db = map_of (pdb_rows (db_policy db)) n"

section \<open>Executions\<close>

definition execution_not_found :: "string \<Rightarrow> exn" where
  "execution_not_found k = PY ''ValueError'' (''Tool execution '' @ k @ '' not found'') None"

definition put_execution :: "tool_execution \<Rightarrow> database \<Rightarrow> database" where
  "put_execution r db = db\<lparr>db_executions := (db_executions db)(te_key r \<mapsto> r)\<rparr>"

text \<open>
  \<open>ToolExecutionRepository.claim\<close>: a read and an insert that fails where another attempt
  has inserted in between (\<open>race\<close>).
\<close>

definition execution_claim ::
  "ledger_config \<Rightarrow> (database \<Rightarrow> database) \<Rightarrow> string \<Rightarrow> string \<Rightarrow> uuid option \<Rightarrow> string \<Rightarrow>
   execution_authorization \<Rightarrow> database \<Rightarrow> (tool_execution \<times> bool) \<times> database" where
  "execution_claim c race k tool_name wid fp auth db =
     (case db_executions db k of
        Some r \<Rightarrow> ((r, False), db)
      | None \<Rightarrow>
          let db1 = race db;
              r = \<lparr>te_operation_id = db_next_operation db1, te_workflow_id = wid,
                   te_tool_name = tool_name, te_key = k, te_status = EX_IN_PROGRESS,
                   te_fingerprint = Some fp,
                   te_policy_decision_id = xa_policy_decision_id auth,
                   te_approval_ref = redact_opt c (xa_approval_ref auth),
                   te_approved_by = redact_opt c (xa_approved_by auth),
                   te_attempts = 1, te_receipt = None, te_error = None\<rparr>
          in (case db_executions db1 k of
                Some winner \<Rightarrow> ((winner, False), db1)
              | None \<Rightarrow> ((r, True),
                         (put_execution r db1)\<lparr>db_next_operation := Suc (db_next_operation db1)\<rparr>)))"

definition execution_complete ::
  "ledger_config \<Rightarrow> string \<Rightarrow> action_receipt \<Rightarrow> database \<Rightarrow> exn + (tool_execution \<times> database)" where
  "execution_complete c k receipt db =
     (case db_executions db k of
        None \<Rightarrow> raise (execution_not_found k)
      | Some r \<Rightarrow>
          let r' = r\<lparr>te_status := EX_COMPLETED, te_receipt := Some (lc_redact_receipt c receipt),
                     te_error := None\<rparr>
          in ret (r', db\<lparr>db_executions := (db_executions db)(k \<mapsto> r')\<rparr>))"

definition execution_fail ::
  "ledger_config \<Rightarrow> string \<Rightarrow> string \<Rightarrow> database \<Rightarrow> exn + (tool_execution \<times> database)" where
  "execution_fail c k err db =
     (case db_executions db k of
        None \<Rightarrow> raise (execution_not_found k)
      | Some r \<Rightarrow>
          let r' = r\<lparr>te_status := EX_FAILED, te_error := redact_opt c (Some err)\<rparr>
          in ret (r', db\<lparr>db_executions := (db_executions db)(k \<mapsto> r')\<rparr>))"

definition mark_unknown :: "string \<Rightarrow> database \<Rightarrow> bool \<times> database" where
  "mark_unknown k db =
     (case db_executions db k of
        None \<Rightarrow> (False, db)
      | Some r \<Rightarrow>
          if te_status r = EX_IN_PROGRESS \<or> te_status r = EX_FAILED
          then (True, db\<lparr>db_executions := (db_executions db)(k \<mapsto> r\<lparr>te_status := EX_UNKNOWN\<rparr>)\<rparr>)
          else (te_status r = EX_UNKNOWN, db))"

definition reclaim ::
  "ledger_config \<Rightarrow> string \<Rightarrow> execution_authorization \<Rightarrow> database \<Rightarrow> bool \<times> database" where
  "reclaim c k auth db =
     (case db_executions db k of
        None \<Rightarrow> (False, db)
      | Some r \<Rightarrow>
          if te_status r = EX_UNKNOWN
          then (True, db\<lparr>db_executions := (db_executions db)(k \<mapsto>
                  r\<lparr>te_status := EX_IN_PROGRESS, te_attempts := te_attempts r + 1, te_error := None,
                    te_policy_decision_id := xa_policy_decision_id auth,
                    te_approval_ref := redact_opt c (xa_approval_ref auth),
                    te_approved_by := redact_opt c (xa_approved_by auth)\<rparr>)\<rparr>)
          else (False, db))"

section \<open>Transactions\<close>

definition linked_workflow_id :: "ledger_config \<Rightarrow> database \<Rightarrow> uuid option" where
  "linked_workflow_id c db =
     (case lc_workflow_id c of
        None \<Rightarrow> None
      | Some w \<Rightarrow> if w \<in> set (pdb_workflows (db_policy db)) then Some w else None)"

definition ledger_claim ::
  "ledger_config \<Rightarrow> string \<Rightarrow> string \<Rightarrow> string \<Rightarrow> execution_authorization \<Rightarrow> database \<Rightarrow>
   (tool_execution \<times> bool) \<times> database" where
  "ledger_claim c k tool_name fp auth db =
     execution_claim c (\<lambda>d. d) k tool_name (linked_workflow_id c db) fp auth db"

text \<open>\<open>_audit\<close>: what authorized the execution is read off its row.\<close>

definition audit_row ::
  "ledger_config \<Rightarrow> tool_execution \<Rightarrow> audit_entry \<Rightarrow> audit_result \<Rightarrow> database \<Rightarrow> audit_event" where
  "audit_row c r entry result db =
     (let txt = tc_redact_text (lc_outbox c) in
      \<lparr>ae_actor = txt (au_actor entry), ae_action = txt (au_action entry),
       ae_target_ref = txt (au_target_ref entry), ae_result = result,
       ae_workflow_id = te_workflow_id r,
       ae_policy_decision =
         (case te_policy_decision_id r of
            None \<Rightarrow> None | Some n \<Rightarrow> map_option le_decision (get_decision n db)),
       ae_policy_decision_id = te_policy_decision_id r,
       ae_operation_id = Some (te_operation_id r),
       ae_approval_ref = redact_opt c (te_approval_ref r)\<rparr>)"

definition append_audit :: "audit_event \<Rightarrow> database \<Rightarrow> database" where
  "append_audit a db = db\<lparr>db_audit := db_audit db @ [a]\<rparr>"

text \<open>An id that no outbox row has, as \<open>uuid4()\<close> draws it.\<close>

definition fresh_event_id :: "database \<Rightarrow> uuid" where
  "fresh_event_id db = Suc (fold max (map ox_id (ob_rows (db_outbox db))) 0)"

definition show_id :: "ledger_config \<Rightarrow> uuid \<Rightarrow> string" where
  "show_id c n = oc_describe_int (lc_outbox c) n"

definition record_outcome ::
  "ledger_config \<Rightarrow> datetime \<Rightarrow> string \<Rightarrow> action_receipt \<Rightarrow> bool \<Rightarrow> audit_entry \<Rightarrow>
   domain_event option \<Rightarrow> database \<Rightarrow> (exn + unit) \<times> database" where
  "record_outcome c now k receipt succeeded entry event db =
     (case execution_complete c k receipt db of
        Inl e \<Rightarrow> (raise e, db)
      | Inr (r, db1) \<Rightarrow>
          let db2 = append_audit (audit_row c r entry (if succeeded then SUCCESS else FAILURE) db1) db1 in
          (case event of
             Some v \<Rightarrow>
               if succeeded
               then (case stage_raw_event (lc_outbox c) now (fresh_event_id db2) (dv_type v)
                            (dv_payload v @ [(''operation_id'', PStr (show_id c (te_operation_id r)))])
                            (Some (dv_type v @ '':'' @ show_id c (te_operation_id r))) False (db_outbox db2) of
                       Inl e \<Rightarrow> (raise e, db)
                     | Inr (_, ob) \<Rightarrow> (ret (), db2\<lparr>db_outbox := ob\<rparr>))
               else (ret (), db2)
           | None \<Rightarrow> (ret (), db2)))"

definition FAILURE_EVENT_SOURCE :: string where
  "FAILURE_EVENT_SOURCE = ''tool_executor''"

text \<open>\<open>show_attempts\<close> renders the attempt number in the event's dedupe key.\<close>

definition record_failure ::
  "ledger_config \<Rightarrow> (int \<Rightarrow> string) \<Rightarrow> datetime \<Rightarrow> string \<Rightarrow> string \<Rightarrow> audit_entry \<Rightarrow>
   domain_event option \<Rightarrow> database \<Rightarrow> (exn + unit) \<times> database" where
  "record_failure c show_attempts now k err entry event db =
     (case execution_fail c k err db of
        Inl e \<Rightarrow> (raise e, db)
      | Inr (r, db1) \<Rightarrow>
          let db2 = append_audit (audit_row c r entry FAILURE db1) db1 in
          (case event of
             None \<Rightarrow> (ret (), db2)
           | Some v \<Rightarrow>
               (case EventEnvelope_init (oc_redact (lc_outbox c)) (oc_byte_count (lc_outbox c))
                       \<lparr>ev_id = fresh_event_id db2, ev_type = dv_type v,
                        ev_source = FAILURE_EVENT_SOURCE, ev_occurred_at = now,
                        ev_subject_ref = Some (''tool_execution:'' @ show_id c (te_operation_id r)),
                        ev_correlation_id = None,
                        ev_dedupe_key = dv_type v @ '':'' @ show_id c (te_operation_id r) @ '':''
                                        @ show_attempts (te_attempts r),
                        ev_payload = dv_payload v
                          @ [(''operation_id'', PStr (show_id c (te_operation_id r))),
                             (''attempts'', PInt (te_attempts r))]\<rparr> of
                  Inl e \<Rightarrow> (raise e, db)
                | Inr env \<Rightarrow>
                    (case stage_event (lc_outbox c) now env (db_outbox db2) of
                       Inl e \<Rightarrow> (raise e, db)
                     | Inr (_, ob) \<Rightarrow> (ret (), db2\<lparr>db_outbox := ob\<rparr>)))))"

lemma decision_log_frame:
  "decision_log_of row db = ret (rid, db') \<Longrightarrow>
   db_executions db' = db_executions db \<and> db_audit db' = db_audit db \<and> db_outbox db' = db_outbox db"
  by (auto simp: decision_log_of_def split: sum.splits)

section \<open>Atomicity\<close>

lemma stage_raw_event_row:
  assumes "stage_raw_event oc now n ty payload (Some k) False ob = ret (r, ob')"
  shows "\<exists>x. ob_rows ob' = ob_rows ob @ [x] \<and> ox_dedupe_key x = Some k \<and> ox_type x = ty"
  using assms
  by (auto simp: stage_raw_event_def outbox_create_def Let_def split: sum.splits if_splits)

definition completed_row :: "ledger_config \<Rightarrow> action_receipt \<Rightarrow> tool_execution \<Rightarrow> tool_execution" where
  "completed_row c receipt r =
     r\<lparr>te_status := EX_COMPLETED, te_receipt := Some (lc_redact_receipt c receipt), te_error := None\<rparr>"

definition completed_db ::
  "ledger_config \<Rightarrow> string \<Rightarrow> action_receipt \<Rightarrow> bool \<Rightarrow> audit_entry \<Rightarrow> tool_execution \<Rightarrow> database \<Rightarrow> database" where
  "completed_db c k receipt succeeded entry r db =
     (let r' = completed_row c receipt r; db1 = db\<lparr>db_executions := (db_executions db)(k \<mapsto> r')\<rparr>
      in append_audit (audit_row c r' entry (if succeeded then SUCCESS else FAILURE) db1) db1)"

lemma completed_db_simps:
  "db_executions (completed_db c k receipt succeeded entry r db) =
     (db_executions db)(k \<mapsto> completed_row c receipt r)"
  "\<exists>a. db_audit (completed_db c k receipt succeeded entry r db) = db_audit db @ [a]
     \<and> ae_operation_id a = Some (te_operation_id r) \<and> ae_policy_decision_id a = te_policy_decision_id r
     \<and> ae_result a = (if succeeded then SUCCESS else FAILURE)"
  "db_policy (completed_db c k receipt succeeded entry r db) = db_policy db"
  "db_outbox (completed_db c k receipt succeeded entry r db) = db_outbox db"
  by (simp_all add: completed_db_def completed_row_def append_audit_def audit_row_def Let_def)

lemma record_outcome_ret:
  assumes "record_outcome c now k receipt succeeded entry event db = (ret u, db')"
    and "db_executions db k = Some r"
  shows "\<not> (succeeded \<and> event \<noteq> None) \<and> db' = completed_db c k receipt succeeded entry r db
    \<or> succeeded \<and> (\<exists>v ob x. event = Some v
         \<and> db' = (completed_db c k receipt succeeded entry r db)\<lparr>db_outbox := ob\<rparr>
         \<and> ob_rows ob = ob_rows (db_outbox db) @ [x]
         \<and> ox_dedupe_key x = Some (dv_type v @ '':'' @ show_id c (te_operation_id r)))"
proof -
  let ?db2 = "completed_db c k receipt succeeded entry r db"
  have complete: "execution_complete c k receipt db =
      ret (completed_row c receipt r, db\<lparr>db_executions := (db_executions db)(k \<mapsto> completed_row c receipt r)\<rparr>)"
    by (simp add: execution_complete_def completed_row_def assms(2) Let_def)
  have ids: "te_operation_id (completed_row c receipt r) = te_operation_id r"
    by (simp add: completed_row_def)
  show ?thesis
  proof (cases "succeeded \<and> event \<noteq> None")
    case True
    then obtain v where v: "event = Some v" by auto
    from assms(1) complete True v obtain x ob where
      st: "stage_raw_event (lc_outbox c) now (fresh_event_id ?db2) (dv_type v)
             (dv_payload v @ [(''operation_id'', PStr (show_id c (te_operation_id r)))])
             (Some (dv_type v @ '':'' @ show_id c (te_operation_id r))) False (db_outbox ?db2) = ret (x, ob)"
      and db': "db' = ?db2\<lparr>db_outbox := ob\<rparr>"
      by (auto simp: record_outcome_def completed_db_def ids Let_def split: sum.splits)
    from stage_raw_event_row [OF st] v db' True show ?thesis
      unfolding completed_db_simps by blast
  next
    case False
    with assms(1) complete show ?thesis
      by (auto simp: record_outcome_def completed_db_def Let_def split: option.splits)
  qed
qed

text \<open>
  An outcome is one write. Recording an outcome either changes nothing and raises, or
  leaves the receipt on the completed row, one more audit row that cites the row's own
  operation, approval and policy decision, and, for an accepted action with an event, one
  more outbox row keyed on that operation; other executions and the decisions stay.
\<close>

theorem outcome_is_atomic:
  assumes "record_outcome c now k receipt succeeded entry event db = (res, db')"
  shows "(\<exists>e. res = raise e \<and> db' = db)
    \<or> (\<exists>r a. res = ret () \<and> db_executions db k = Some r
         \<and> db_executions db' = (db_executions db)(k \<mapsto>
              r\<lparr>te_status := EX_COMPLETED, te_receipt := Some (lc_redact_receipt c receipt),
                te_error := None\<rparr>)
         \<and> db_audit db' = db_audit db @ [a]
         \<and> ae_operation_id a = Some (te_operation_id r)
         \<and> ae_policy_decision_id a = te_policy_decision_id r
         \<and> ae_result a = (if succeeded then SUCCESS else FAILURE)
         \<and> db_policy db' = db_policy db
         \<and> (if succeeded \<and> event \<noteq> None
            then \<exists>x. ob_rows (db_outbox db') = ob_rows (db_outbox db) @ [x]
                   \<and> ox_dedupe_key x = Some (dv_type (the event) @ '':'' @ show_id c (te_operation_id r))
            else db_outbox db' = db_outbox db))"
proof (cases "res")
  case (Inl e)
  with assms show ?thesis
    by (auto simp: record_outcome_def Let_def split: sum.splits option.splits if_splits)
next
  case (Inr u)
  then have res: "res = ret ()" by simp
  obtain r where r: "db_executions db k = Some r"
    using assms res by (auto simp: record_outcome_def execution_complete_def split: option.splits)
  let ?db2 = "completed_db c k receipt succeeded entry r db"
  obtain a where a: "db_audit ?db2 = db_audit db @ [a]" "ae_operation_id a = Some (te_operation_id r)"
    "ae_policy_decision_id a = te_policy_decision_id r" "ae_result a = (if succeeded then SUCCESS else FAILURE)"
    using completed_db_simps(2) by blast
  note run = record_outcome_ret [OF assms [unfolded res] r]
  have events: "if succeeded \<and> event \<noteq> None
      then \<exists>x. ob_rows (db_outbox db') = ob_rows (db_outbox db) @ [x]
             \<and> ox_dedupe_key x = Some (dv_type (the event) @ '':'' @ show_id c (te_operation_id r))
      else db_outbox db' = db_outbox db"
    using run by (auto simp: completed_db_simps(4))
  have rest: "db_executions db' = (db_executions db)(k \<mapsto> completed_row c receipt r)"
    "db_audit db' = db_audit db @ [a]" "db_policy db' = db_policy db"
    using run by (auto simp: completed_db_simps(1,3) simp flip: a(1))
  show ?thesis
    by (rule disjI2, rule exI [of _ r], rule exI [of _ a], intro conjI)
      (fact res r events rest [unfolded completed_row_def] a)+
qed

definition ex_ledger :: ledger_config where
  "ex_ledger = \<lparr>lc_workflow_id = None, lc_outbox = ex_outbox_config, lc_redact_receipt = (\<lambda>r. r)\<rparr>"

definition ex_execution :: tool_execution where
  "ex_execution = \<lparr>te_operation_id = 1, te_workflow_id = None, te_tool_name = ''t'', te_key = ''k'',
     te_status = EX_IN_PROGRESS, te_fingerprint = Some ''h'', te_policy_decision_id = None,
     te_approval_ref = None, te_approved_by = None, te_attempts = 1, te_receipt = None, te_error = None\<rparr>"

definition ex_claimed :: database where
  "ex_claimed = \<lparr>db_policy = \<lparr>pdb_rows = [], pdb_workflows = [], pdb_next_id = 0\<rparr>,
     db_executions = [''k'' \<mapsto> ex_execution], db_next_operation = 2, db_audit = [],
     db_outbox = \<lparr>ob_rows = [], ob_workflows = [], ob_runs = []\<rparr>\<rparr>"

theorem outcome_is_atomic_witness:
  "\<exists>db' a. record_outcome ex_ledger 0 ''k'' ex_receipt True
       \<lparr>au_actor = ''graph'', au_action = ''t'', au_target_ref = ''x''\<rparr>
       (Some \<lparr>dv_type = ''accepted'', dv_payload = []\<rparr>) ex_claimed = (ret (), db')
     \<and> db_audit db' = [a] \<and> ae_operation_id a = Some 1"
proof -
  let ?entry = "\<lparr>au_actor = ''graph'', au_action = ''t'', au_target_ref = ''x''\<rparr>"
  let ?event = "Some \<lparr>dv_type = ''accepted'', dv_payload = []\<rparr>"
  obtain res db' where run:
    "record_outcome ex_ledger 0 ''k'' ex_receipt True ?entry ?event ex_claimed = (res, db')"
    by (metis prod.collapse)
  have res: "res = ret ()"
    using run by (auto simp: record_outcome_def execution_complete_def ex_claimed_def
        stage_raw_event_def outbox_create_def append_audit_def Let_def split: sum.splits)
  from outcome_is_atomic [OF run] res obtain a where
    "db_audit db' = db_audit ex_claimed @ [a]" "ae_operation_id a = Some (te_operation_id ex_execution)"
    by (auto simp: ex_claimed_def)
  with run res show ?thesis by (auto simp: ex_claimed_def ex_execution_def)
qed

end
