(* ===== verification/ToolExecutor.thy ===== *)
theory ToolExecutor
  imports Ledger Retry
begin

text \<open>
  The executor every mutating action goes through (\<open>personalos/executor/tool_executor.py\<close>):
  policy is asked, the key is claimed, the provider is called, the outcome is recorded; a key
  found claimed without an outcome is reconciled with the provider first. The provider
  adapter, the reconciler, the clock and the random source are functions on a world \<open>'w\<close>; the
  database is \<open>Ledger\<close>'s. Log lines and spans are left out.
\<close>

section \<open>Ports\<close>

text \<open>
  What an awaited port does: it answers, it raises an \<open>Exception\<close>, or the run ends there
  (\<open>Killed\<close>: the task is cancelled or the process dies), which no \<open>except Exception\<close> catches.
\<close>

datatype 'r answer = Answer 'r | Error exn | Killed

datatype reconcile_outcome = APPLIED | NOT_APPLIED | INDETERMINATE

record reconciliation =
  rn_outcome :: reconcile_outcome
  rn_receipt :: "action_receipt option"

record 'w tool_executor =
  tx_inner :: "action_intent \<Rightarrow> approval_decision option \<Rightarrow> 'w \<Rightarrow> action_receipt answer \<times> 'w"
  tx_policy :: "database policy_engine"
  tx_ledger :: ledger_config
  tx_reconciler :: "(action_intent \<Rightarrow> 'w \<Rightarrow> reconciliation answer \<times> 'w) option"
  tx_action_tools :: "action_kind \<rightharpoonup> string"
  tx_retry_policies :: "string \<Rightarrow> retry_policy"
  tx_sleep :: "seconds \<Rightarrow> 'w \<Rightarrow> unit answer \<times> 'w"
  tx_rand :: "'w \<Rightarrow> rat \<times> 'w"
  tx_now :: "'w \<Rightarrow> datetime"
  tx_sha :: "pyval \<Rightarrow> string"
  tx_explain :: "policy_decision \<Rightarrow> string"
  tx_show_int :: "int \<Rightarrow> string"

text \<open>
  \<open>tx_explain\<close> is the message of a policy outcome, \<open>tx_show_int\<close> is \<open>str\<close> on integers. Two of
  the fields are filled with the module's own tables where the caller passes none.
\<close>

fun ACTION_TOOLS :: "action_kind \<Rightarrow> string option" where
  "ACTION_TOOLS SUBMIT_APPLICATION = Some ''jobs.submit_application''"
| "ACTION_TOOLS SEND_RECRUITER_MESSAGE = Some ''google.gmail_send_message''"
| "ACTION_TOOLS OVERWRITE_DOCUMENT = Some ''files.overwrite_document''"
| "ACTION_TOOLS CREATE_CALENDAR_EVENT = Some ''google.calendar_create_event''"
| "ACTION_TOOLS UPDATE_CALENDAR_EVENT = Some ''google.calendar_update_event''"

definition ACTION_SUCCEEDED_EVENT :: string where
  "ACTION_SUCCEEDED_EVENT = ''action.succeeded''"

definition TOOL_OPERATION_FAILED :: string where
  "TOOL_OPERATION_FAILED = ''tool.operation.failed''"

fun error_code_value :: "error_code \<Rightarrow> string" where
  "error_code_value VALIDATION = ''validation''"
| "error_code_value NOT_FOUND = ''not_found''"
| "error_code_value POLICY_DENIED = ''policy_denied''"
| "error_code_value APPROVAL_REQUIRED = ''approval_required''"
| "error_code_value IDEMPOTENCY_CONFLICT = ''idempotency_conflict''"
| "error_code_value CONFLICT = ''conflict''"
| "error_code_value TOOL_FAILURE = ''tool_failure''"
| "error_code_value RETRYABLE = ''retryable''"
| "error_code_value INTERNAL = ''internal''"

fun failure_class_value :: "failure_class \<Rightarrow> string" where
  "failure_class_value MODEL_TRANSIENT = ''model_transient''"
| "failure_class_value MODEL_SEMANTIC = ''model_semantic''"
| "failure_class_value PROVIDER_TRANSIENT = ''provider_transient''"
| "failure_class_value PROVIDER_PERMANENT = ''provider_permanent''"
| "failure_class_value CONCURRENCY = ''concurrency''"
| "failure_class_value PARTIAL_SIDE_EFFECT = ''partial_side_effect''"
| "failure_class_value POLICY_DENIAL = ''policy_denial''"
| "failure_class_value HUMAN_TIMEOUT = ''human_timeout''"
| "failure_class_value UNCLASSIFIED = ''unclassified''"

fun operation_class_value :: "operation_class \<Rightarrow> string" where
  "operation_class_value OC_READ = ''read''"
| "operation_class_value OC_DRAFT = ''draft''"
| "operation_class_value OC_SEND = ''send''"
| "operation_class_value OC_CALENDAR_WRITE = ''calendar_write''"
| "operation_class_value OC_EVENT_DELIVERY = ''event_delivery''"

section \<open>Steps\<close>

definition action_tool :: "'w tool_executor \<Rightarrow> action_intent \<Rightarrow> string" where
  "action_tool x i =
     (case tx_action_tools x (ac_kind i) of
        Some t \<Rightarrow> t | None \<Rightarrow> ''job_search.'' @ kind_value (ac_kind i))"

definition intent_hash :: "'w tool_executor \<Rightarrow> action_intent \<Rightarrow> string" where
  "intent_hash x i = action_fingerprint (tx_sha x) i"

definition approved :: "'w tool_executor \<Rightarrow> approval_decision option \<Rightarrow> action_intent \<Rightarrow> bool" where
  "approved x d i = (case d of None \<Rightarrow> False | Some a \<Rightarrow> authorizes (tx_sha x) a i)"

text \<open>
  \<open>_authorize\<close>. The verdict is committed before it is acted on, so a refusal keeps the
  decision's row.
\<close>

definition tx_authorize ::
  "'w tool_executor \<Rightarrow> action_intent \<Rightarrow> approval_decision option \<Rightarrow> string \<Rightarrow> database \<Rightarrow>
   (exn + execution_authorization) \<times> database" where
  "tx_authorize x i d t db =
     (case evaluate_action (tx_policy x) (ac_requested_by i) (lc_workflow_id (tx_ledger x)) t
             (intent_hash x i) (rk_scopes (risk_profile_for (ac_kind i)))
             \<lparr>pv_origin = SYSTEM, pv_requested_by = ac_requested_by i\<rparr> (Some (ac_id i)) 0 db of
        Inl e \<Rightarrow> (raise e, db)
      | Inr (verdict, db1) \<Rightarrow>
          if pd_decision verdict = DENY
          then (raise (POS PolicyDenied (tx_explain x verdict) None), db1)
          else if pd_decision verdict = REQUIRE_APPROVAL \<and> \<not> approved x d i
          then (raise (POS ApprovalRequired (tx_explain x verdict) None), db1)
          else (ret \<lparr>xa_policy_decision_id = pd_record_id verdict,
                     xa_approval_ref =
                       (if approved x d i
                        then Some (show_id (tx_ledger x)
                               (case ad_request_id (the d) of Some r \<Rightarrow> r | None \<Rightarrow> ad_action_id (the d)))
                        else None),
                     xa_approved_by = (if approved x d i then Some (ad_decided_by (the d)) else None)\<rparr>,
                db1))"

definition tx_audit_entry :: "action_intent \<Rightarrow> string \<Rightarrow> audit_entry" where
  "tx_audit_entry i t =
     \<lparr>au_actor = ac_requested_by i, au_action = t, au_target_ref = ac_target i\<rparr>"

definition workflow_ref :: "'w tool_executor \<Rightarrow> pyval" where
  "workflow_ref x =
     (case lc_workflow_id (tx_ledger x) of
        None \<Rightarrow> PNone | Some w \<Rightarrow> PStr (show_id (tx_ledger x) w))"

definition tx_record ::
  "'w tool_executor \<Rightarrow> action_intent \<Rightarrow> string \<Rightarrow> action_receipt \<Rightarrow> database \<times> 'w \<Rightarrow>
   (exn + unit) \<times> database" where
  "tx_record x i t receipt s =
     record_outcome (tx_ledger x) (tx_now x (snd s)) (ac_key i) receipt (rc_ok receipt)
       (tx_audit_entry i t)
       (Some \<lparr>dv_type = ACTION_SUCCEEDED_EVENT,
              dv_payload =
                [(''kind'', PStr (kind_value (ac_kind i))),
                 (''target'', PStr (ac_target i)),
                 (''idempotency_key'', PStr (ac_key i)),
                 (''workflow_id'', workflow_ref x),
                 (''external_reference'',
                    case rc_external_reference receipt of None \<Rightarrow> PNone | Some r \<Rightarrow> PStr r)]\<rparr>)
       (fst s)"

fun failure_codes :: "exn \<Rightarrow> error_code \<times> failure_class" where
  "failure_codes (POS c _ _) =
     (code_of c, case failure_class_of c of Some f \<Rightarrow> f | None \<Rightarrow> UNCLASSIFIED)"
| "failure_codes (PY _ _ _) = (INTERNAL, UNCLASSIFIED)"

definition tx_record_failure ::
  "'w tool_executor \<Rightarrow> action_intent \<Rightarrow> string \<Rightarrow> exn \<Rightarrow> retry_policy \<Rightarrow> database \<times> 'w \<Rightarrow>
   (exn + unit) \<times> database" where
  "tx_record_failure x i t e p s =
     record_failure (tx_ledger x) (tx_show_int x) (tx_now x (snd s)) (ac_key i) (exn_text e)
       (tx_audit_entry i t)
       (Some \<lparr>dv_type = TOOL_OPERATION_FAILED,
              dv_payload =
                [(''kind'', PStr (kind_value (ac_kind i))),
                 (''tool'', PStr t),
                 (''target'', PStr (ac_target i)),
                 (''idempotency_key'', PStr (ac_key i)),
                 (''workflow_id'', workflow_ref x),
                 (''operation_class'', PStr (operation_class_value (rp_operation_class p))),
                 (''failure_class'', PStr (failure_class_value (snd (failure_codes e)))),
                 (''error_code'', PStr (error_code_value (fst (failure_codes e)))),
                 (''retryable'', PBool (is_retryable e)),
                 (''error'', PStr (tc_describe (lc_outbox (tx_ledger x)) e))]\<rparr>)
       (fst s)"

text \<open>\<open>self._record_failure(...); raise\<close>: what recording raises replaces the error.\<close>

definition give_up ::
  "'w tool_executor \<Rightarrow> action_intent \<Rightarrow> string \<Rightarrow> retry_policy \<Rightarrow> exn \<Rightarrow> database \<times> 'w \<Rightarrow>
   action_receipt answer \<times> (database \<times> 'w)" where
  "give_up x i t p e s =
     (case tx_record_failure x i t e p s of
        (Inl e', db) \<Rightarrow> (Error e', (db, snd s))
      | (Inr _, db) \<Rightarrow> (Error e, (db, snd s)))"

text \<open>A receipt recorded and returned, redacted once.\<close>

definition settle ::
  "'w tool_executor \<Rightarrow> action_intent \<Rightarrow> string \<Rightarrow> action_receipt \<Rightarrow> database \<times> 'w \<Rightarrow>
   action_receipt answer \<times> (database \<times> 'w)" where
  "settle x i t receipt s =
     (let r = lc_redact_receipt (tx_ledger x) receipt in
      case tx_record x i t r s of
        (Inl e, db) \<Rightarrow> (Error e, (db, snd s))
      | (Inr _, db) \<Rightarrow> (Answer r, (db, snd s)))"

text \<open>\<open>_prepare_retry\<close>: the receipt if the failed call turns out to have landed, else whether to retry.\<close>

datatype preparation = Settled action_receipt | Retry | GiveUp

definition prepare_retry ::
  "'w tool_executor \<Rightarrow> action_intent \<Rightarrow> string \<Rightarrow> retry_policy \<Rightarrow> database \<times> 'w \<Rightarrow>
   preparation answer \<times> (database \<times> 'w)" where
  "prepare_retry x i t p s =
     (let db1 = snd (mark_unknown (ac_key i) (fst s)) in
      if \<not> rp_requires_reconciliation p then (Answer Retry, (db1, snd s))
      else case tx_reconciler x of
        None \<Rightarrow> (Answer GiveUp, (db1, snd s))
      | Some reconcile \<Rightarrow>
          (case reconcile i (snd s) of
             (Killed, w1) \<Rightarrow> (Killed, (db1, w1))
           | (Error _, w1) \<Rightarrow> (Answer GiveUp, (db1, w1))
           | (Answer rn, w1) \<Rightarrow>
               if rn_outcome rn = APPLIED \<and> rn_receipt rn \<noteq> None
               then (case settle x i t ((the (rn_receipt rn))\<lparr>rc_action_id := ac_id i\<rparr>) (db1, w1) of
                       (Answer r, s2) \<Rightarrow> (Answer (Settled r), s2)
                     | (Error e, s2) \<Rightarrow> (Error e, s2)
                     | (Killed, s2) \<Rightarrow> (Killed, s2))
               else if rn_outcome rn = NOT_APPLIED then (Answer Retry, (db1, w1))
               else (Answer GiveUp, (db1, w1))))"

text \<open>The pause before a retry: the jitter, the delay, the sleep.\<close>

definition pause ::
  "'w tool_executor \<Rightarrow> retry_policy \<Rightarrow> int \<Rightarrow> exn \<Rightarrow> 'w \<Rightarrow> unit answer \<times> 'w" where
  "pause x p attempt e w =
     (case tx_rand x w of (u, w1) \<Rightarrow>
        (case delay p attempt (retry_after_seconds e) u of
           Inl err \<Rightarrow> (Error err, w1)
         | Inr dl \<Rightarrow> tx_sleep x dl w1))"

function tx_run ::
  "'w tool_executor \<Rightarrow> action_intent \<Rightarrow> approval_decision option \<Rightarrow> string \<Rightarrow>
   execution_authorization \<Rightarrow> int \<Rightarrow> database \<times> 'w \<Rightarrow>
   action_receipt answer \<times> (database \<times> 'w)" where
  "tx_run x i d t auth attempt s =
     (let p = tx_retry_policies x t in
      case tx_inner x i d (snd s) of
        (Answer r, w1) \<Rightarrow> settle x i t r (fst s, w1)
      | (Killed, w1) \<Rightarrow> (Killed, (fst s, w1))
      | (Error e, w1) \<Rightarrow>
          if \<not> (allows_retry p attempt \<and> is_retryable e) then give_up x i t p e (fst s, w1)
          else (case prepare_retry x i t p (fst s, w1) of
            (Error e', s2) \<Rightarrow> (Error e', s2)
          | (Killed, s2) \<Rightarrow> (Killed, s2)
          | (Answer (Settled r), s2) \<Rightarrow> (Answer r, s2)
          | (Answer GiveUp, s2) \<Rightarrow> give_up x i t p e s2
          | (Answer Retry, (db2, w2)) \<Rightarrow>
              (case pause x p attempt e w2 of
                 (Error e', w3) \<Rightarrow> (Error e', (db2, w3))
               | (Killed, w3) \<Rightarrow> (Killed, (db2, w3))
               | (Answer _, w3) \<Rightarrow>
                   (case reclaim (tx_ledger x) (ac_key i) auth db2 of
                      (False, db3) \<Rightarrow> (Error e, (db3, w3))
                    | (True, db3) \<Rightarrow> tx_run x i d t auth (attempt + 1) (db3, w3)))))"
  by pat_completeness auto
termination
  by (relation "measure (\<lambda>(x, i, d, t, auth, attempt, s).
                  nat (rp_max_retries (tx_retry_policies x t) + 1 - attempt))")
    (auto simp: allows_retry_def)

declare tx_run.simps [simp del]

definition quoted :: "string \<Rightarrow> string" where
  "quoted s = CHR 0x27 # s @ [CHR 0x27]"

fun execution_status_value :: "execution_status \<Rightarrow> string" where
  "execution_status_value EX_IN_PROGRESS = ''in_progress''"
| "execution_status_value EX_COMPLETED = ''completed''"
| "execution_status_value EX_FAILED = ''failed''"
| "execution_status_value EX_UNKNOWN = ''unknown''"

definition in_doubt :: "action_intent \<Rightarrow> tool_execution \<Rightarrow> string \<Rightarrow> action_receipt" where
  "in_doubt i r why =
     \<lparr>rc_action_id = ac_id i, rc_ok = False, rc_external_reference = None,
      rc_detail = Some (''a previous attempt at '' @ quoted (ac_key i) @
        '' did not record an outcome (status='' @ execution_status_value (te_status r) @ '') and '' @
        why @ ''; not retried, because this action may already have taken effect outside this system'')\<rparr>"

definition resolve_in_doubt ::
  "'w tool_executor \<Rightarrow> action_intent \<Rightarrow> approval_decision option \<Rightarrow> string \<Rightarrow>
   tool_execution \<Rightarrow> execution_authorization \<Rightarrow> database \<times> 'w \<Rightarrow>
   action_receipt answer \<times> (database \<times> 'w)" where
  "resolve_in_doubt x i d t r auth s =
     (let db1 = snd (mark_unknown (ac_key i) (fst s)) in
      case tx_reconciler x of
        None \<Rightarrow> (Answer (in_doubt i r ''no reconciler is configured for it''), (db1, snd s))
      | Some reconcile \<Rightarrow>
          (case reconcile i (snd s) of
             (Killed, w1) \<Rightarrow> (Killed, (db1, w1))
           | (Error _, w1) \<Rightarrow> (Answer (in_doubt i r ''the provider could not be asked''), (db1, w1))
           | (Answer rn, w1) \<Rightarrow>
               if rn_outcome rn = APPLIED \<and> rn_receipt rn \<noteq> None
               then settle x i t ((the (rn_receipt rn))\<lparr>rc_action_id := ac_id i\<rparr>) (db1, w1)
               else if rn_outcome rn = NOT_APPLIED
               then (case reclaim (tx_ledger x) (ac_key i) auth db1 of
                       (True, db2) \<Rightarrow> tx_run x i d t auth 2 (db2, w1)
                     | (False, db2) \<Rightarrow> (Answer (in_doubt i r ''another attempt took it over''), (db2, w1)))
               else (Answer (in_doubt i r ''the provider could not confirm either way''), (db1, w1))))"

definition key_reused :: "action_intent \<Rightarrow> exn" where
  "key_reused i =
     POS IdempotencyConflict (''idempotency_key '' @ quoted (ac_key i) @
       '' was already used for a different action; use a new key'') None"

definition rebind :: "action_intent \<Rightarrow> action_receipt \<Rightarrow> action_receipt" where
  "rebind i stored = stored\<lparr>rc_action_id := ac_id i\<rparr>"

definition tx_execute ::
  "'w tool_executor \<Rightarrow> action_intent \<Rightarrow> approval_decision option \<Rightarrow> database \<times> 'w \<Rightarrow>
   action_receipt answer \<times> (database \<times> 'w)" where
  "tx_execute x i d s =
     (let t = action_tool x i in
      case tx_authorize x i d t (fst s) of
        (Inl e, db1) \<Rightarrow> (Error e, (db1, snd s))
      | (Inr auth, db1) \<Rightarrow>
          (case ledger_claim (tx_ledger x) (ac_key i) t (intent_hash x i) auth db1 of
             ((r, True), db2) \<Rightarrow> tx_run x i d t auth 1 (db2, snd s)
           | ((r, False), db2) \<Rightarrow>
               if (case te_fingerprint r of
                     None \<Rightarrow> False | Some f \<Rightarrow> f \<noteq> [] \<and> f \<noteq> intent_hash x i)
               then (Error (key_reused i), (db2, snd s))
               else if te_status r = EX_COMPLETED \<and> te_receipt r \<noteq> None
               then (Answer (rebind i (the (te_receipt r))), (db2, snd s))
               else resolve_in_doubt x i d t r auth (db2, snd s)))"

text \<open>Calls one after the other, each under the workflow's lease, whatever became of the ones before.\<close>

fun execute_all ::
  "'w tool_executor \<Rightarrow> (action_intent \<times> approval_decision option) list \<Rightarrow> database \<times> 'w \<Rightarrow>
   database \<times> 'w" where
  "execute_all x [] s = s"
| "execute_all x ((i, d) # cs) s = execute_all x cs (snd (tx_execute x i d s))"

section \<open>What a step leaves alone\<close>

text \<open>
  A meter is a count read off the world that only the provider adapter moves: the actions that
  landed under a key, or the calls made. \<open>cited\<close> is the policy decision each execution row
  names; \<open>quiet\<close> steps change neither it nor the decisions.
\<close>

definition idle_ports :: "'w tool_executor \<Rightarrow> ('w \<Rightarrow> nat) \<Rightarrow> bool" where
  "idle_ports x m \<longleftrightarrow>
     (\<forall>rec i w. tx_reconciler x = Some rec \<longrightarrow> m (snd (rec i w)) = m w)
     \<and> (\<forall>dl w. m (snd (tx_sleep x dl w)) = m w)
     \<and> (\<forall>w. m (snd (tx_rand x w)) = m w)"

definition cited :: "database \<Rightarrow> string \<Rightarrow> uuid option option" where
  "cited db k = map_option te_policy_decision_id (db_executions db k)"

definition quiet :: "database \<Rightarrow> database \<Rightarrow> bool" where
  "quiet db db' \<longleftrightarrow> cited db' = cited db \<and> db_policy db' = db_policy db"

lemma quiet_refl [simp]: "quiet db db"
  by (simp add: quiet_def)

lemma quiet_trans [trans]: "quiet a b \<Longrightarrow> quiet b c \<Longrightarrow> quiet a c"
  by (simp add: quiet_def)

lemma quiet_audit: "quiet db db1 \<Longrightarrow> quiet db (append_audit a db1)"
  "quiet db db1 \<Longrightarrow> quiet db (db1\<lparr>db_outbox := ob\<rparr>)"
  by (simp_all add: quiet_def append_audit_def cited_def fun_eq_iff)

lemma quiet_update:
  "db_executions db k = Some r \<Longrightarrow> te_policy_decision_id r' = te_policy_decision_id r \<Longrightarrow>
   quiet db (db\<lparr>db_executions := (db_executions db)(k \<mapsto> r')\<rparr>)"
  by (auto simp: quiet_def cited_def)

lemma quiet_complete: "execution_complete c k receipt db = ret (r, db') \<Longrightarrow> quiet db db'"
  by (auto simp: execution_complete_def Let_def intro!: quiet_update split: option.splits)

lemma quiet_fail: "execution_fail c k err db = ret (r, db') \<Longrightarrow> quiet db db'"
  by (auto simp: execution_fail_def Let_def intro!: quiet_update split: option.splits)

lemma quiet_mark: "quiet db (snd (mark_unknown k db))"
  by (auto simp: mark_unknown_def intro!: quiet_update split: option.splits)

lemma quiet_record: "quiet db (snd (record_outcome c now k rc ok entry ev db))"
  by (auto simp: record_outcome_def Let_def intro!: quiet_audit split: sum.splits option.splits
      dest!: quiet_complete)

lemma quiet_record_failure: "quiet db (snd (record_failure c sh now k err entry ev db))"
  by (auto simp: record_failure_def Let_def intro!: quiet_audit split: sum.splits option.splits
      dest!: quiet_fail)

lemma quiet_tx_record: "tx_record x i t r s = (v, db) \<Longrightarrow> quiet (fst s) db"
  by (metis quiet_record sndI tx_record_def)

lemma quiet_tx_record_failure: "tx_record_failure x i t e p s = (v, db) \<Longrightarrow> quiet (fst s) db"
  by (metis quiet_record_failure sndI tx_record_failure_def)

lemma quiet_settle:
  "settle x i t r s = (a, s') \<Longrightarrow> snd s' = snd s \<and> quiet (fst s) (fst s')"
  by (auto simp: settle_def Let_def dest: quiet_tx_record split: prod.splits sum.splits)

lemma quiet_give_up:
  "give_up x i t p e s = (a, s') \<Longrightarrow> snd s' = snd s \<and> quiet (fst s) (fst s') \<and> (\<exists>e'. a = Error e')"
  by (auto simp: give_up_def dest: quiet_tx_record_failure split: prod.splits sum.splits)

lemma pause_idle: "idle_ports x m \<Longrightarrow> pause x p n e w = (a, w') \<Longrightarrow> m w' = m w"
  by (auto simp: pause_def idle_ports_def split: prod.splits sum.splits) (metis sndI)+

lemma reclaim_cited:
  "reclaim c k auth db = (True, db') \<Longrightarrow>
   cited db' = (cited db)(k \<mapsto> xa_policy_decision_id auth) \<and> db_policy db' = db_policy db"
  "reclaim c k auth db = (False, db') \<Longrightarrow> db' = db"
  by (auto simp: reclaim_def cited_def fun_eq_iff split: option.splits if_splits)

text \<open>\<open>_prepare_retry\<close>: the provider was asked whenever the policy wants it.\<close>

definition asks_first :: "'w tool_executor \<Rightarrow> action_intent \<Rightarrow> 'w \<Rightarrow> 'w \<Rightarrow> bool" where
  "asks_first x i w w' \<longleftrightarrow>
     (\<exists>rec rn. tx_reconciler x = Some rec \<and> rec i w = (Answer rn, w') \<and> rn_outcome rn = NOT_APPLIED)"

lemma prepare_retry_quiet:
  assumes "prepare_retry x i t p s = (a, s')" and "idle_ports x m"
  shows "m (snd s') = m (snd s) \<and> quiet (fst s) (fst s')
    \<and> (a = Answer Retry \<and> rp_requires_reconciliation p \<longrightarrow> asks_first x i (snd s) (snd s'))"
proof -
  let ?db1 = "snd (mark_unknown (ac_key i) (fst s))"
  have mark: "quiet (fst s) ?db1" by (rule quiet_mark)
  show ?thesis
  proof (cases "rp_requires_reconciliation p \<and> tx_reconciler x \<noteq> None")
    case False
    with assms(1) mark show ?thesis
      by (auto simp: prepare_retry_def Let_def split: if_splits option.splits)
  next
    case True
    then obtain rec where rec: "tx_reconciler x = Some rec" by blast
    obtain ra w1 where w1: "rec i (snd s) = (ra, w1)" by (cases "rec i (snd s)")
    have m: "m w1 = m (snd s)" using assms(2) rec w1 by (metis idle_ports_def sndI)
    show ?thesis
    proof (cases ra)
      case (Answer rn)
      show ?thesis
      proof (cases "rn_outcome rn = APPLIED \<and> rn_receipt rn \<noteq> None")
        case True
        let ?rc = "(the (rn_receipt rn))\<lparr>rc_action_id := ac_id i\<rparr>"
        obtain b s2 where st: "settle x i t ?rc (?db1, w1) = (b, s2)"
          by (cases "settle x i t ?rc (?db1, w1)")
        with quiet_settle [OF st] mark m True Answer rec w1 assms(1) show ?thesis
          by (cases b) (auto simp: prepare_retry_def Let_def intro: quiet_trans split: if_splits)
      next
        case False
        with mark m Answer rec w1 assms(1) show ?thesis
          by (auto simp: prepare_retry_def Let_def asks_first_def split: if_splits)
      qed
    qed (use mark m rec w1 assms(1) in
        \<open>auto simp: prepare_retry_def Let_def split: if_splits\<close>)
  qed
qed

section \<open>The provider calls of a run\<close>

text \<open>
  A run as its provider calls: the last one, after which only quiet steps follow, and one that
  failed and is followed by another call, once the retry was prepared and the key reclaimed.
\<close>

inductive calls ::
  "'w tool_executor \<Rightarrow> ('w \<Rightarrow> nat) \<Rightarrow> action_intent \<Rightarrow> approval_decision option \<Rightarrow> string \<Rightarrow>
   execution_authorization \<Rightarrow> int \<Rightarrow> database \<times> 'w \<Rightarrow> database \<times> 'w \<Rightarrow> bool"
  for x m i d t auth where
  last_call:
    "\<lbrakk> tx_inner x i d (snd s) = (r, w1); m (snd s') = m w1; quiet (fst s) (fst s') \<rbrakk> \<Longrightarrow>
     calls x m i d t auth n s s'"
| next_call:
    "\<lbrakk> tx_inner x i d (snd s) = (Error e, w1); is_retryable e;
       allows_retry (tx_retry_policies x t) n;
       rp_requires_reconciliation (tx_retry_policies x t) \<longrightarrow> asks_first x i w1 w2;
       m w2 = m w1; m w3 = m w1; db_policy db3 = db_policy (fst s);
       cited db3 = (cited (fst s))(ac_key i \<mapsto> xa_policy_decision_id auth);
       calls x m i d t auth (n + 1) (db3, w3) s' \<rbrakk> \<Longrightarrow>
     calls x m i d t auth n s s'"

lemma last_call':
  assumes inner: "tx_inner x i d (snd s) = (r, w1)" and "m (snd s2) = m w1"
    and "quiet (fst s) (fst s2)" and "snd s' = snd s2" and "quiet (fst s2) (fst s')"
  shows "calls x m i d t auth n s s'"
proof (rule last_call [OF inner])
  show "m (snd s') = m w1" using assms(2,4) by simp
  show "quiet (fst s) (fst s')" using assms(3,5) by (rule quiet_trans)
qed

text \<open>The ways a round of the loop goes.\<close>

lemma tx_run_answer:
  "tx_inner x i d (snd s) = (Answer rc, w1) \<Longrightarrow> tx_run x i d t auth n s = settle x i t rc (fst s, w1)"
  by (subst tx_run.simps) simp

lemma tx_run_killed:
  "tx_inner x i d (snd s) = (Killed, w1) \<Longrightarrow> tx_run x i d t auth n s = (Killed, (fst s, w1))"
  by (subst tx_run.simps) simp

lemma tx_run_final:
  "tx_inner x i d (snd s) = (Error e, w1) \<Longrightarrow>
   \<not> (allows_retry (tx_retry_policies x t) n \<and> is_retryable e) \<Longrightarrow>
   tx_run x i d t auth n s = give_up x i t (tx_retry_policies x t) e (fst s, w1)"
  by (subst tx_run.simps) (simp add: Let_def)

lemma tx_run_prepared:
  assumes "tx_inner x i d (snd s) = (Error e, w1)"
    and "allows_retry (tx_retry_policies x t) n \<and> is_retryable e"
    and "prepare_retry x i t (tx_retry_policies x t) (fst s, w1) = (pa, s2)"
  shows "pa = Error e' \<Longrightarrow> tx_run x i d t auth n s = (Error e', s2)"
    and "pa = Killed \<Longrightarrow> tx_run x i d t auth n s = (Killed, s2)"
    and "pa = Answer (Settled r) \<Longrightarrow> tx_run x i d t auth n s = (Answer r, s2)"
    and "pa = Answer GiveUp \<Longrightarrow>
      tx_run x i d t auth n s = give_up x i t (tx_retry_policies x t) e s2"
    and "pa = Answer Retry \<Longrightarrow> pause x (tx_retry_policies x t) n e (snd s2) = (Error e', w3) \<Longrightarrow>
      tx_run x i d t auth n s = (Error e', (fst s2, w3))"
    and "pa = Answer Retry \<Longrightarrow> pause x (tx_retry_policies x t) n e (snd s2) = (Killed, w3) \<Longrightarrow>
      tx_run x i d t auth n s = (Killed, (fst s2, w3))"
    and "pa = Answer Retry \<Longrightarrow> pause x (tx_retry_policies x t) n e (snd s2) = (Answer u, w3) \<Longrightarrow>
      reclaim (tx_ledger x) (ac_key i) auth (fst s2) = (False, db3) \<Longrightarrow>
      tx_run x i d t auth n s = (Error e, (db3, w3))"
    and "pa = Answer Retry \<Longrightarrow> pause x (tx_retry_policies x t) n e (snd s2) = (Answer u, w3) \<Longrightarrow>
      reclaim (tx_ledger x) (ac_key i) auth (fst s2) = (True, db3) \<Longrightarrow>
      tx_run x i d t auth n s = tx_run x i d t auth (n + 1) (db3, w3)"
  using assms by (subst tx_run.simps, cases s2, simp add: Let_def)+

lemma tx_run_stopped:
  assumes "tx_inner x i d (snd s) = (Error e, w1)"
    and "allows_retry (tx_retry_policies x t) n \<and> is_retryable e"
    and "prepare_retry x i t (tx_retry_policies x t) (fst s, w1) = (pa, s2)"
    and "pa \<noteq> Answer Retry" and "tx_run x i d t auth n s = (a, s')"
  shows "snd s' = snd s2 \<and> quiet (fst s2) (fst s')"
proof (cases pa)
  case (Answer b)
  note p = tx_run_prepared [OF assms(1-3)]
  show ?thesis
  proof (cases b)
    case GiveUp
    from p(4) Answer GiveUp assms(5)
    have "give_up x i t (tx_retry_policies x t) e s2 = (a, s')" by metis
    then show ?thesis using quiet_give_up by blast
  qed (use p(3) Answer assms(4,5) in auto)
qed (use tx_run_prepared(1,2) [OF assms(1-3)] assms(5) in auto)

lemma tx_run_round:
  assumes inner: "tx_inner x i d (snd s) = (Error e, w1)"
    and again: "allows_retry (tx_retry_policies x t) n \<and> is_retryable e"
    and pr: "prepare_retry x i t (tx_retry_policies x t) (fst s, w1) = (Answer Retry, s2)"
    and run: "tx_run x i d t auth n s = (a, s')" and idle: "idle_ports x m"
  shows "m (snd s') = m (snd s2) \<and> fst s' = fst s2
    \<or> (\<exists>db3 w3. m w3 = m (snd s2)
         \<and> cited db3 = (cited (fst s2))(ac_key i \<mapsto> xa_policy_decision_id auth)
         \<and> db_policy db3 = db_policy (fst s2)
         \<and> tx_run x i d t auth (n + 1) (db3, w3) = (a, s'))"
proof -
  obtain ua w3 where pause: "pause x (tx_retry_policies x t) n e (snd s2) = (ua, w3)"
    by (cases "pause x (tx_retry_policies x t) n e (snd s2)")
  have m3: "m w3 = m (snd s2)" by (rule pause_idle [OF idle pause])
  note p = tx_run_prepared [OF inner again pr]
  show ?thesis
  proof (cases ua)
    case (Answer u)
    obtain ok db3 where rc: "reclaim (tx_ledger x) (ac_key i) auth (fst s2) = (ok, db3)"
      by (cases "reclaim (tx_ledger x) (ac_key i) auth (fst s2)")
    show ?thesis
    proof (cases ok)
      case True
      with rc have rc': "reclaim (tx_ledger x) (ac_key i) auth (fst s2) = (True, db3)" by simp
      from p(8) [OF refl _ rc'] pause Answer run
      have "tx_run x i d t auth (n + 1) (db3, w3) = (a, s')" by simp
      with reclaim_cited(1) [OF rc'] m3 show ?thesis by blast
    next
      case False
      with rc have rc': "reclaim (tx_ledger x) (ac_key i) auth (fst s2) = (False, db3)" by simp
      from p(7) [OF refl _ rc'] pause Answer run have "s' = (db3, w3)" by simp
      with reclaim_cited(2) [OF rc'] m3 show ?thesis by simp
    qed
  qed (use p(5,6) pause run m3 in auto)
qed

lemma tx_run_calls:
  assumes idle: "idle_ports x m" and run: "tx_run x i d t auth n s = (a, s')"
  shows "calls x m i d t auth n s s'"
  using run
proof (induction "nat (rp_max_retries (tx_retry_policies x t) + 1 - n)" arbitrary: n s
    rule: less_induct)
  case less
  let ?p = "tx_retry_policies x t"
  obtain r w1 where inner: "tx_inner x i d (snd s) = (r, w1)" by (cases "tx_inner x i d (snd s)")
  show ?case
  proof (cases r)
    case (Answer rc)
    with less.prems inner have st: "settle x i t rc (fst s, w1) = (a, s')"
      by (simp add: tx_run_answer)
    show ?thesis using last_call [OF inner] quiet_settle [OF st] by simp
  next
    case Killed
    with less.prems inner have "s' = (fst s, w1)" by (simp add: tx_run_killed)
    then show ?thesis using last_call [OF inner] by simp
  next
    case (Error e)
    with inner have inner': "tx_inner x i d (snd s) = (Error e, w1)" by simp
    show ?thesis
    proof (cases "allows_retry ?p n \<and> is_retryable e")
      case False
      with less.prems inner' have st: "give_up x i t ?p e (fst s, w1) = (a, s')"
        by (simp add: tx_run_final)
      show ?thesis using last_call [OF inner] quiet_give_up [OF st] by simp
    next
      case True
      obtain pa s2 where pr: "prepare_retry x i t ?p (fst s, w1) = (pa, s2)"
        by (cases "prepare_retry x i t ?p (fst s, w1)")
      have q: "m (snd s2) = m w1" "quiet (fst s) (fst s2)"
        "pa = Answer Retry \<Longrightarrow> rp_requires_reconciliation ?p \<Longrightarrow> asks_first x i w1 (snd s2)"
        using prepare_retry_quiet [OF pr idle] by auto
      show ?thesis
      proof (cases "pa = Answer Retry")
        case False
        with tx_run_stopped [OF inner' True pr _ less.prems] q show ?thesis
          by (intro last_call' [OF inner, of m s2]) auto
      next
        case Retry: True
        from tx_run_round [OF inner' True pr [unfolded Retry] less.prems idle]
        consider (stop) "m (snd s') = m (snd s2)" "fst s' = fst s2"
          | (more) db3 w3 where "m w3 = m (snd s2)"
              "cited db3 = (cited (fst s2))(ac_key i \<mapsto> xa_policy_decision_id auth)"
              "db_policy db3 = db_policy (fst s2)" "tx_run x i d t auth (n + 1) (db3, w3) = (a, s')"
          by blast
        then show ?thesis
        proof cases
          case stop
          with q show ?thesis by (intro last_call [OF inner]) auto
        next
          case more
          have "nat (rp_max_retries ?p + 1 - (n + 1)) < nat (rp_max_retries ?p + 1 - n)"
            using True by (simp add: allows_retry_def)
          then have "calls x m i d t auth (n + 1) (db3, w3) s'" using more(4) by (rule less.hyps)
          with more(1-3) inner' True q Retry show ?thesis
            by (intro next_call [of x i d s e w1 t n "snd s2" m w3 db3]) (auto simp: quiet_def)
        qed
      qed
    qed
  qed
qed

section \<open>The shape of an execute\<close>

lemma authorize_frame:
  assumes "decision_log (tx_policy x) = Some decision_log_of"
    and "tx_authorize x i d t db = (v, db')"
  shows "db_executions db' = db_executions db \<and> db_audit db' = db_audit db \<and> db_outbox db' = db_outbox db"
  using assms
  by (auto simp: tx_authorize_def evaluate_action_def persist_def dest!: decision_log_frame
      split: sum.splits prod.splits if_splits)

lemma ledger_claim_cases:
  assumes "ledger_claim c k t fp auth db = ((r, fresh), db')"
  shows "fresh \<Longrightarrow> db_executions db k = None
      \<and> db_executions db' = (db_executions db)(k \<mapsto> r) \<and> te_fingerprint r = Some fp
      \<and> te_policy_decision_id r = xa_policy_decision_id auth \<and> db_policy db' = db_policy db"
    and "\<not> fresh \<Longrightarrow> db' = db \<and> db_executions db k = Some r"
  using assms
  by (auto simp: ledger_claim_def execution_claim_def put_execution_def Let_def
      split: option.splits)

lemma ledger_claim_cited:
  assumes "ledger_claim c k t fp auth db = ((r, True), db')"
  shows "cited db k = None \<and> cited db' = (cited db)(k \<mapsto> xa_policy_decision_id auth)
    \<and> db_policy db' = db_policy db"
  using ledger_claim_cases(1) [OF assms] by (auto simp: cited_def fun_eq_iff)

lemma resolve_shape:
  assumes "resolve_in_doubt x i d t r auth s = (a, s')" and "idle_ports x m"
  shows "m (snd s') = m (snd s) \<and> quiet (fst s) (fst s')
    \<or> (\<exists>db2 w1. asks_first x i (snd s) w1 \<and> m w1 = m (snd s)
         \<and> cited db2 = (cited (fst s))(ac_key i \<mapsto> xa_policy_decision_id auth)
         \<and> db_policy db2 = db_policy (fst s) \<and> tx_run x i d t auth 2 (db2, w1) = (a, s'))"
proof -
  let ?db1 = "snd (mark_unknown (ac_key i) (fst s))"
  have mark: "quiet (fst s) ?db1" by (rule quiet_mark)
  show ?thesis
  proof (cases "tx_reconciler x")
    case None
    with assms(1) mark show ?thesis by (auto simp: resolve_in_doubt_def Let_def)
  next
    case (Some rec)
    obtain ra w1 where w1: "rec i (snd s) = (ra, w1)" by (cases "rec i (snd s)")
    have m: "m w1 = m (snd s)" using assms(2) Some w1 by (metis idle_ports_def sndI)
    show ?thesis
    proof (cases ra)
      case (Answer rn)
      consider (applied) "rn_outcome rn = APPLIED \<and> rn_receipt rn \<noteq> None"
        | (clear) "rn_outcome rn = NOT_APPLIED"
        | (unsure) "\<not> (rn_outcome rn = APPLIED \<and> rn_receipt rn \<noteq> None)" "rn_outcome rn \<noteq> NOT_APPLIED"
        by blast
      then show ?thesis
      proof cases
        case applied
        with assms(1) Some w1 Answer have
          st: "settle x i t ((the (rn_receipt rn))\<lparr>rc_action_id := ac_id i\<rparr>) (?db1, w1) = (a, s')"
          by (simp add: resolve_in_doubt_def Let_def)
        from quiet_settle [OF st] mark m show ?thesis by (auto intro: quiet_trans)
      next
        case clear
        obtain ok db2 where rc: "reclaim (tx_ledger x) (ac_key i) auth ?db1 = (ok, db2)"
          by (cases "reclaim (tx_ledger x) (ac_key i) auth ?db1")
        have ask: "asks_first x i (snd s) w1"
          using Some w1 Answer clear by (auto simp: asks_first_def)
        show ?thesis
        proof (cases ok)
          case True
          with rc have rc': "reclaim (tx_ledger x) (ac_key i) auth ?db1 = (True, db2)" by simp
          have "tx_run x i d t auth 2 (db2, w1) = (a, s')"
            using assms(1) Some w1 Answer clear rc'
            by (simp add: resolve_in_doubt_def Let_def)
          with reclaim_cited(1) [OF rc'] mark ask m show ?thesis by (auto simp: quiet_def)
        next
          case False
          with rc have rc': "reclaim (tx_ledger x) (ac_key i) auth ?db1 = (False, db2)" by simp
          have "s' = (db2, w1)"
            using assms(1) Some w1 Answer clear rc'
            by (simp add: resolve_in_doubt_def Let_def)
          with reclaim_cited(2) [OF rc'] mark m show ?thesis by simp
        qed
      next
        case unsure
        with assms(1) Some w1 Answer have "s' = (?db1, w1)"
          by (auto simp: resolve_in_doubt_def Let_def)
        with mark m show ?thesis by simp
      qed
    qed (use assms(1) Some w1 mark m in \<open>auto simp: resolve_in_doubt_def Let_def\<close>)
  qed
qed

text \<open>An execute is refused, touches no provider, or calls the provider on a key it holds.\<close>

lemma execute_shape:
  assumes run: "tx_execute x i d s = (a, s')" and idle: "idle_ports x m"
  obtains (refused) e db1 where "tx_authorize x i d (action_tool x i) (fst s) = (Inl e, db1)"
      "a = Error e" "s' = (db1, snd s)"
  | (no_call) auth db1 where "tx_authorize x i d (action_tool x i) (fst s) = (Inr auth, db1)"
      "m (snd s') = m (snd s)" "quiet db1 (fst s')"
  | (called) auth db1 n db2 w2 where
      "tx_authorize x i d (action_tool x i) (fst s) = (Inr auth, db1)"
      "n = 1 \<and> w2 = snd s \<and> cited db1 (ac_key i) = None \<or> n = 2 \<and> asks_first x i (snd s) w2"
      "m w2 = m (snd s)" "cited db2 = (cited db1)(ac_key i \<mapsto> xa_policy_decision_id auth)"
      "db_policy db2 = db_policy db1" "calls x m i d (action_tool x i) auth n (db2, w2) s'"
proof -
  let ?t = "action_tool x i"
  obtain v db1 where az: "tx_authorize x i d ?t (fst s) = (v, db1)"
    by (cases "tx_authorize x i d ?t (fst s)")
  show ?thesis
  proof (cases v)
    case (Inl e)
    with run az show ?thesis by (intro refused [of e db1]) (simp_all add: tx_execute_def Let_def)
  next
    case (Inr auth)
    with az have az': "tx_authorize x i d ?t (fst s) = (Inr auth, db1)" by simp
    obtain r fresh db2 where cl:
      "ledger_claim (tx_ledger x) (ac_key i) ?t (intent_hash x i) auth db1 = ((r, fresh), db2)"
      by (metis prod.collapse)
    show ?thesis
    proof (cases fresh)
      case True
      with cl have cl': "ledger_claim (tx_ledger x) (ac_key i) ?t (intent_hash x i) auth db1
        = ((r, True), db2)" by simp
      have "tx_run x i d ?t auth 1 (db2, snd s) = (a, s')"
        using run az' cl' by (simp add: tx_execute_def Let_def)
      note c = tx_run_calls [OF idle this]
      show ?thesis using ledger_claim_cited [OF cl'] c by (intro called [OF az']) auto
    next
      case False
      with cl have cl': "ledger_claim (tx_ledger x) (ac_key i) ?t (intent_hash x i) auth db1
        = ((r, False), db2)" by simp
      have db2: "db2 = db1" using ledger_claim_cases(2) [OF cl'] by simp
      consider (answered) "snd s' = snd s" "fst s' = db1"
        | (doubt) "resolve_in_doubt x i d ?t r auth (db1, snd s) = (a, s')"
        using run az' cl' db2 by (auto simp: tx_execute_def Let_def split: if_splits)
      then show ?thesis
      proof cases
        case answered
        then show ?thesis by (intro no_call [OF az']) simp_all
      next
        case doubt
        from resolve_shape [OF doubt idle] show ?thesis
        proof (elim disjE exE conjE)
          fix db3 w1
          assume *: "asks_first x i (snd (db1, snd s)) w1" "m w1 = m (snd (db1, snd s))"
            "cited db3 = (cited (fst (db1, snd s)))(ac_key i \<mapsto> xa_policy_decision_id auth)"
            "db_policy db3 = db_policy (fst (db1, snd s))" "tx_run x i d ?t auth 2 (db3, w1) = (a, s')"
          then show ?thesis
            using tx_run_calls [OF idle *(5)] by (intro called [OF az', of 2 w1 db3]) simp_all
        qed (use no_call [OF az'] in simp)
      qed
    qed
  qed
qed

section \<open>At most once\<close>

text \<open>
  What the executor relies on the provider for, under one key \<open>k\<close>: a call makes the action land
  at most once, asking and waiting make nothing land, and \<open>NOT_APPLIED\<close> is answered only when
  nothing has landed under that key. \<open>landed\<close> counts the effects at the provider.
\<close>

definition truthful_provider :: "'w tool_executor \<Rightarrow> string \<Rightarrow> ('w \<Rightarrow> nat) \<Rightarrow> bool" where
  "truthful_provider x k landed \<longleftrightarrow>
     idle_ports x landed
     \<and> (\<forall>i d w. landed (snd (tx_inner x i d w)) \<le> landed w + (if ac_key i = k then 1 else 0))
     \<and> (\<forall>i w w'. ac_key i = k \<and> asks_first x i w w' \<longrightarrow> landed w = 0)"

lemma truthful_call:
  "truthful_provider x k m \<Longrightarrow> m (snd (tx_inner x i d w)) \<le> m w + (if ac_key i = k then 1 else 0)"
  unfolding truthful_provider_def by blast

lemma truthful_ask:
  "truthful_provider x k m \<Longrightarrow> asks_first x i w w' \<Longrightarrow> ac_key i = k \<Longrightarrow> m w = 0"
  unfolding truthful_provider_def by blast

definition no_blind_retry :: "retry_policy \<Rightarrow> bool" where
  "no_blind_retry p \<longleftrightarrow> rp_requires_reconciliation p \<or> rp_max_retries p \<le> 0"

lemma action_tools_no_blind_retry:
  assumes "tx_action_tools x = ACTION_TOOLS" and "tx_retry_policies x = retry_policy_for"
  shows "no_blind_retry (tx_retry_policies x (action_tool x i))"
  by (cases "ac_kind i")
    (simp_all add: assms action_tool_def no_blind_retry_def retry_policy_for_def
      CALENDAR_WRITE_TOOLS_def DEFAULT_TOOL_PERMISSIONS_def CALENDAR_WRITE_def SEND_def)

lemma run_lands_once:
  assumes "calls x m i d t auth n s s'" and "truthful_provider x k m"
    and "no_blind_retry (tx_retry_policies x t)" and "n \<ge> 1" and "ac_key i = k" and "m (snd s) = 0"
  shows "m (snd s') \<le> 1"
  using assms
proof (induction rule: calls.induct)
  case (last_call s r w1 s' n)
  with truthful_call [OF last_call.prems(1), of i d "snd s"] show ?case by simp
next
  case (next_call s e w1 n w2 w3 db3 s')
  then have "rp_requires_reconciliation (tx_retry_policies x t)"
    by (auto simp: no_blind_retry_def allows_retry_def)
  with next_call have "m w1 = 0" by (auto dest: truthful_ask)
  with next_call show ?case by simp
qed

lemma run_lands_elsewhere:
  assumes "calls x m i d t auth n s s'" and "truthful_provider x k m" and "ac_key i \<noteq> k"
  shows "m (snd s') \<le> m (snd s)"
  using assms
proof (induction rule: calls.induct)
  case (last_call s r w1 s' n)
  with truthful_call [OF last_call.prems(1), of i d "snd s"] show ?case by simp
next
  case (next_call s e w1 n w2 w3 db3 s')
  with truthful_call [OF next_call.prems(1), of i d "snd s"] show ?case by simp
qed

lemma calls_cited:
  assumes "calls x m i d t auth n s s'" and "cited (fst s) (ac_key i) = Some (xa_policy_decision_id auth)"
  shows "cited (fst s') = cited (fst s) \<and> db_policy (fst s') = db_policy (fst s)"
  using assms
proof (induction rule: calls.induct)
  case (next_call s e w1 n w2 w3 db3 s')
  then have "cited db3 = cited (fst s)" by (simp add: fun_upd_idem_iff)
  with next_call show ?case by simp
qed (simp add: quiet_def)

definition once :: "string \<Rightarrow> ('w \<Rightarrow> nat) \<Rightarrow> database \<times> 'w \<Rightarrow> bool" where
  "once k landed s \<longleftrightarrow>
     landed (snd s) \<le> 1 \<and> (db_executions (fst s) k = None \<longrightarrow> landed (snd s) = 0)"

lemma once_cited: "once k m s \<longleftrightarrow> m (snd s) \<le> 1 \<and> (cited (fst s) k = None \<longrightarrow> m (snd s) = 0)"
  by (simp add: once_def cited_def)

lemma execute_keeps_once:
  assumes truth: "truthful_provider x k m"
    and blind: "no_blind_retry (tx_retry_policies x (action_tool x i))"
    and log: "decision_log (tx_policy x) = Some decision_log_of"
    and once: "once k m s" and run: "tx_execute x i d s = (a, s')"
  shows "once k m s'"
proof -
  have idle: "idle_ports x m" using truth by (simp add: truthful_provider_def)
  have frame: "cited db1 = cited (fst s)"
    if "tx_authorize x i d (action_tool x i) (fst s) = (v, db1)" for v db1
    using authorize_frame [OF log that] by (simp add: cited_def fun_eq_iff)
  from run idle show ?thesis
  proof (cases rule: execute_shape)
    case (refused e db1)
    with once frame [OF refused(1)] show ?thesis by (simp add: once_cited)
  next
    case (no_call auth db1)
    with once frame [OF no_call(1)] show ?thesis by (simp add: once_cited quiet_def)
  next
    case (called auth db1 n db2 w2)
    have key: "cited (fst (db2, w2)) (ac_key i) = Some (xa_policy_decision_id auth)"
      using called(4) by simp
    have cited: "cited (fst s') = (cited (fst s))(ac_key i \<mapsto> xa_policy_decision_id auth)"
      using calls_cited [OF called(6) key] called(4) frame [OF called(1)] by simp
    show ?thesis
    proof (cases "ac_key i = k")
      case True
      have "m w2 = 0"
      proof (cases "n = 1")
        case True
        then show ?thesis using called(2,3) once frame [OF called(1)] \<open>ac_key i = k\<close>
          by (auto simp: once_cited)
      next
        case False
        then have "asks_first x i (snd s) w2" using called(2) by simp
        then have "m (snd s) = 0" using truthful_ask [OF truth] True by blast
        with called(3) show ?thesis by simp
      qed
      moreover have "n \<ge> 1" using called(2) by auto
      ultimately have "m (snd s') \<le> 1" using run_lands_once [OF called(6) truth blind _ True] by simp
      with cited True show ?thesis by (simp add: once_cited)
    next
      case False
      then have "m (snd s') \<le> m (snd s)" using run_lands_elsewhere [OF called(6) truth] called(3) by simp
      with once cited False show ?thesis by (auto simp: once_cited)
    qed
  qed
qed

lemma execute_all_keeps_once:
  assumes "truthful_provider x k m"
    and "\<And>i. no_blind_retry (tx_retry_policies x (action_tool x i))"
    and "decision_log (tx_policy x) = Some decision_log_of" and "once k m s"
  shows "once k m (execute_all x cs s)"
  using assms(4)
proof (induction cs arbitrary: s)
  case (Cons c cs)
  obtain i d where c: "c = (i, d)" by (cases c)
  obtain a s' where e: "tx_execute x i d s = (a, s')" by (cases "tx_execute x i d s")
  from execute_keeps_once [OF assms(1) assms(2) assms(3) Cons.prems e] Cons.IH
  show ?case by (simp add: c e)
qed simp

section \<open>Answers are on the row\<close>

definition prints :: "database \<Rightarrow> string \<Rightarrow> string option option" where
  "prints db k = map_option te_fingerprint (db_executions db k)"

definition completed_with :: "string \<Rightarrow> action_receipt \<Rightarrow> database \<Rightarrow> bool" where
  "completed_with k rc db \<longleftrightarrow>
     (\<exists>r. db_executions db k = Some r \<and> te_status r = EX_COMPLETED \<and> te_receipt r = Some rc)"

lemma mark_prints: "prints (snd (mark_unknown k db)) = prints db"
  by (auto simp: mark_unknown_def prints_def fun_eq_iff split: option.splits)

lemma reclaim_prints: "reclaim c k auth db = (b, db') \<Longrightarrow> prints db' = prints db"
  by (auto simp: reclaim_def prints_def fun_eq_iff split: option.splits if_splits)

lemma record_outcome_row:
  assumes "record_outcome c now k rc ok entry ev db = (ret (), db')"
  shows "completed_with k (lc_redact_receipt c rc) db' \<and> prints db' = prints db"
  using assms
  by (auto simp: record_outcome_def execution_complete_def append_audit_def completed_with_def
      prints_def fun_eq_iff Let_def split: option.splits sum.splits if_splits)

lemma settle_answer:
  assumes "settle x i t r s = (Answer rc, s')"
  shows "completed_with (ac_key i) (lc_redact_receipt (tx_ledger x) rc) (fst s')
    \<and> prints (fst s') = prints (fst s) \<and> rc = lc_redact_receipt (tx_ledger x) r"
proof -
  from assms obtain u where "tx_record x i t (lc_redact_receipt (tx_ledger x) r) s = (Inr u, fst s')"
    "rc = lc_redact_receipt (tx_ledger x) r"
    by (auto simp: settle_def Let_def split: prod.splits sum.splits)
  then show ?thesis by (auto simp: tx_record_def dest!: record_outcome_row)
qed

lemma give_up_never_answers: "give_up x i t p e s \<noteq> (Answer rc, s')"
  by (auto simp: give_up_def split: prod.splits sum.splits)

lemma prepare_retry_prints:
  assumes "prepare_retry x i t p s = (Answer b, s')"
  shows "b = Retry \<Longrightarrow> prints (fst s') = prints (fst s)"
    and "b = Settled rc \<Longrightarrow> completed_with (ac_key i) (lc_redact_receipt (tx_ledger x) rc) (fst s')
          \<and> prints (fst s') = prints (fst s) \<and> (\<exists>r. rc = lc_redact_receipt (tx_ledger x) r)"
  using assms
  by (auto simp: prepare_retry_def Let_def mark_prints dest!: settle_answer
      split: if_splits option.splits prod.splits answer.splits)

lemma run_answer:
  "tx_run x i d t auth n s = (Answer rc, s') \<Longrightarrow>
   completed_with (ac_key i) (lc_redact_receipt (tx_ledger x) rc) (fst s')
   \<and> prints (fst s') = prints (fst s) \<and> (\<exists>r. rc = lc_redact_receipt (tx_ledger x) r)"
proof (induction "nat (rp_max_retries (tx_retry_policies x t) + 1 - n)" arbitrary: n s
    rule: less_induct)
  case less
  let ?p = "tx_retry_policies x t"
  obtain r w1 where inner: "tx_inner x i d (snd s) = (r, w1)" by (cases "tx_inner x i d (snd s)")
  show ?case
  proof (cases r)
    case (Answer raw)
    with less.prems inner have "settle x i t raw (fst s, w1) = (Answer rc, s')"
      by (simp add: tx_run_answer)
    from settle_answer [OF this] show ?thesis by auto
  next
    case Killed
    with less.prems inner show ?thesis by (simp add: tx_run_killed)
  next
    case (Error e)
    with inner have inner': "tx_inner x i d (snd s) = (Error e, w1)" by simp
    have again: "allows_retry ?p n \<and> is_retryable e"
    proof (rule ccontr)
      assume "\<not> (allows_retry ?p n \<and> is_retryable e)"
      from tx_run_final [OF inner' this] less.prems show False
        by (simp add: give_up_never_answers)
    qed
    obtain pa s2 where pr: "prepare_retry x i t ?p (fst s, w1) = (pa, s2)"
      by (cases "prepare_retry x i t ?p (fst s, w1)")
    note p = tx_run_prepared [OF inner' again pr]
    have "pa = Answer (Settled rc) \<and> s' = s2 \<or> pa = Answer Retry"
    proof (cases pa)
      case (Answer b)
      with p(3,4) less.prems show ?thesis by (cases b) (auto simp: give_up_never_answers)
    qed (use p(1,2) less.prems in auto)
    then consider (settled) "pa = Answer (Settled rc)" "s' = s2" | (retry) "pa = Answer Retry"
      by blast
    then show ?thesis
    proof cases
      case settled
      with prepare_retry_prints(2) [OF pr [unfolded settled(1)] refl] show ?thesis by simp
    next
      case retry
      obtain ua w3 where pause: "pause x ?p n e (snd s2) = (ua, w3)"
        by (cases "pause x ?p n e (snd s2)")
      obtain ok db3 where rc: "reclaim (tx_ledger x) (ac_key i) auth (fst s2) = (ok, db3)"
        by (cases "reclaim (tx_ledger x) (ac_key i) auth (fst s2)")
      have "ua = Answer () \<and> ok"
        using p(5-7) [OF retry] pause rc less.prems by (cases ua; cases ok) auto
      with p(8) [OF retry] pause rc less.prems
      have run: "tx_run x i d t auth (n + 1) (db3, w3) = (Answer rc, s')" by simp
      have lt: "nat (rp_max_retries ?p + 1 - (n + 1)) < nat (rp_max_retries ?p + 1 - n)"
        using again by (simp add: allows_retry_def)
      from less.hyps [OF lt run] prepare_retry_prints(1) [OF pr [unfolded retry] refl]
        reclaim_prints [OF rc] show ?thesis by simp
    qed
  qed
qed

lemma resolve_answer:
  assumes "resolve_in_doubt x i d t r auth s = (Answer rc, s')" and "rc_ok rc"
  shows "completed_with (ac_key i) (lc_redact_receipt (tx_ledger x) rc) (fst s')
    \<and> prints (fst s') = prints (fst s) \<and> (\<exists>r. rc = lc_redact_receipt (tx_ledger x) r)"
proof -
  let ?db1 = "snd (mark_unknown (ac_key i) (fst s))"
  from assms consider (applied) raw w1 where "settle x i t raw (?db1, w1) = (Answer rc, s')"
    | (ran) db2 w1 where "reclaim (tx_ledger x) (ac_key i) auth ?db1 = (True, db2)"
        "tx_run x i d t auth 2 (db2, w1) = (Answer rc, s')"
    by (auto simp: resolve_in_doubt_def in_doubt_def Let_def
        split: option.splits prod.splits answer.splits if_splits bool.splits)
  then show ?thesis
  proof cases
    case applied
    from settle_answer [OF applied] show ?thesis by (auto simp: mark_prints)
  next
    case ran
    from run_answer [OF ran(2)] reclaim_prints [OF ran(1)] show ?thesis by (simp add: mark_prints)
  qed
qed

definition same_but_id :: "action_receipt \<Rightarrow> action_receipt \<Rightarrow> bool" where
  "same_but_id a b \<longleftrightarrow> (\<forall>n. a\<lparr>rc_action_id := n\<rparr> = b\<lparr>rc_action_id := n\<rparr>)"

definition replayable :: "string \<Rightarrow> string \<Rightarrow> action_receipt \<Rightarrow> database \<Rightarrow> bool" where
  "replayable k h rc db \<longleftrightarrow>
     (\<exists>st. completed_with k st db \<and> same_but_id st rc)
     \<and> (\<exists>f. prints db k = Some f \<and> (case f of None \<Rightarrow> True | Some g \<Rightarrow> g = [] \<or> g = h))"

lemma execute_answer:
  assumes run: "tx_execute x i d s = (Answer rc, s')" and ok: "rc_ok rc"
    and idem: "\<And>r. lc_redact_receipt (tx_ledger x) (lc_redact_receipt (tx_ledger x) r)
                   = lc_redact_receipt (tx_ledger x) r"
  shows "replayable (ac_key i) (intent_hash x i) rc (fst s')"
proof -
  let ?t = "action_tool x i"
  obtain v db1 where az: "tx_authorize x i d ?t (fst s) = (v, db1)"
    by (cases "tx_authorize x i d ?t (fst s)")
  then obtain auth where az: "tx_authorize x i d ?t (fst s) = (Inr auth, db1)"
    using run by (cases v) (auto simp: tx_execute_def Let_def)
  obtain r fresh db2 where cl:
    "ledger_claim (tx_ledger x) (ac_key i) ?t (intent_hash x i) auth db1 = ((r, fresh), db2)"
    by (metis prod.collapse)
  have stored: "replayable (ac_key i) (intent_hash x i) rc db"
    if "completed_with (ac_key i) (lc_redact_receipt (tx_ledger x) rc) db"
      and "\<exists>r. rc = lc_redact_receipt (tx_ledger x) r" and "prints db (ac_key i) = Some f"
      and "case f of None \<Rightarrow> True | Some g \<Rightarrow> g = [] \<or> g = intent_hash x i" for db f
    using that idem by (auto simp: replayable_def same_but_id_def)
  show ?thesis
  proof (cases fresh)
    case True
    with cl have cl': "ledger_claim (tx_ledger x) (ac_key i) ?t (intent_hash x i) auth db1
      = ((r, True), db2)" by simp
    have "tx_run x i d ?t auth 1 (db2, snd s) = (Answer rc, s')"
      using run az cl' by (simp add: tx_execute_def Let_def)
    from run_answer [OF this] ledger_claim_cases(1) [OF cl'] show ?thesis
      by (intro stored [of _ "Some (intent_hash x i)"]) (auto simp: prints_def)
  next
    case False
    with cl have cl': "ledger_claim (tx_ledger x) (ac_key i) ?t (intent_hash x i) auth db1
      = ((r, False), db2)" by simp
    note row = ledger_claim_cases(2) [OF cl', simplified]
    have fits: "case te_fingerprint r of None \<Rightarrow> True | Some g \<Rightarrow> g = [] \<or> g = intent_hash x i"
      using run az cl' by (auto simp: tx_execute_def Let_def split: option.splits if_splits)
    from run az cl' row
    consider (replay) st where "te_status r = EX_COMPLETED" "te_receipt r = Some st"
        "rc = rebind i st" "s' = (db1, snd s)"
      | (doubt) "resolve_in_doubt x i d ?t r auth (db1, snd s) = (Answer rc, s')"
      by (auto simp: tx_execute_def Let_def split: if_splits)
    then show ?thesis
    proof cases
      case replay
      with row fits show ?thesis
        by (auto simp: replayable_def completed_with_def same_but_id_def rebind_def prints_def)
    next
      case doubt
      from resolve_answer [OF doubt ok] row fits show ?thesis
        by (intro stored [of _ "te_fingerprint r"]) (auto simp: prints_def)
    qed
  qed
qed

section \<open>What authorizing leaves\<close>

lemma authorize_refused:
  assumes "decision_log (tx_policy x) = Some decision_log_of"
    and "tx_authorize x i d t db = (Inl e, db')"
  shows "isinstance e PolicyError"
  using assms
  by (auto simp: tx_authorize_def evaluate_action_def persist_def decision_log_of_def
      SqlPolicyDecisionLog_record_def Let_def isinstance_of_def split: prod.splits if_splits)

lemma authorize_recorded:
  assumes log: "decision_log (tx_policy x) = Some decision_log_of"
    and "tx_authorize x i d t db = (Inr auth, db')"
  shows "\<exists>n row. xa_policy_decision_id auth = Some n \<and> (n, row) \<in> set (pdb_rows (db_policy db'))
    \<and> le_tool row = t \<and> le_args_hash row = intent_hash x i \<and> le_principal row = ac_requested_by i
    \<and> (le_decision row = ALLOW \<or> le_decision row = REQUIRE_APPROVAL \<and> approved x d i)"
proof -
  let ?ev = "evaluate_action (tx_policy x) (ac_requested_by i) (lc_workflow_id (tx_ledger x)) t
    (intent_hash x i) (rk_scopes (risk_profile_for (ac_kind i)))
    \<lparr>pv_origin = SYSTEM, pv_requested_by = ac_requested_by i\<rparr> (Some (ac_id i)) 0 db"
  obtain verdict where ev: "?ev = ret (verdict, db')"
    and "pd_decision verdict \<noteq> DENY" "pd_decision verdict = REQUIRE_APPROVAL \<Longrightarrow> approved x d i"
    and "xa_policy_decision_id auth = pd_record_id verdict"
    using assms(2) by (auto simp: tx_authorize_def split: sum.splits prod.splits if_splits)
  moreover note database_log.action_recorded [OF log ev]
  ultimately show ?thesis by (cases "pd_decision verdict") auto
qed

section \<open>What an execution guarantees\<close>

text \<open>
  C1: an action takes effect at most once per idempotency key. Whatever calls come one after
  the other, for this key or others, with whatever approvals, and wherever one of them raised
  or was killed (before, during or after the provider call), under the shipped tool table and
  retry budgets a key that was unused at the start has landed at most once at a provider that
  answers truthfully.
\<close>

theorem executed_at_most_once:
  assumes "truthful_provider x k landed"
    and "tx_action_tools x = ACTION_TOOLS" and "tx_retry_policies x = retry_policy_for"
    and "decision_log (tx_policy x) = Some decision_log_of"
    and "db_executions (fst s) k = None" and "landed (snd s) = 0"
  shows "landed (snd (execute_all x cs s)) \<le> 1"
proof -
  have "once k landed s" using assms(5,6) by (simp add: once_def)
  from execute_all_keeps_once [OF assms(1) action_tools_no_blind_retry [OF assms(2,3)] assms(4) this]
  show ?thesis by (simp add: once_def)
qed

text \<open>
  C2: no provider call without a recorded authorization. If an execute called the provider,
  the policy log holds a decision on this tool, this action's fingerprint and its requester
  that allows it, or demands an approval the caller's decision gives for exactly this action,
  and the execution row cites that decision.
\<close>

theorem calls_are_authorized:
  assumes idle: "idle_ports x m"
    and log: "decision_log (tx_policy x) = Some decision_log_of"
    and run: "tx_execute x i d s = (a, s')" and called: "m (snd s') \<noteq> m (snd s)"
  shows "\<exists>n row. (n, row) \<in> set (pdb_rows (db_policy (fst s')))
    \<and> map_option te_policy_decision_id (db_executions (fst s') (ac_key i)) = Some (Some n)
    \<and> le_tool row = action_tool x i \<and> le_args_hash row = intent_hash x i
    \<and> le_principal row = ac_requested_by i
    \<and> (le_decision row = ALLOW \<or> le_decision row = REQUIRE_APPROVAL \<and> approved x d i)"
  using run idle
proof (cases rule: execute_shape)
  case (called auth db1 n db2 w2)
  then have "cited (fst s') = cited db2 \<and> db_policy (fst s') = db_policy db1"
    using calls_cited [OF called(6)] by simp
  with called(4) have "cited (fst s') (ac_key i) = Some (xa_policy_decision_id auth)"
    "db_policy (fst s') = db_policy db1" by simp_all
  with authorize_recorded [OF log called(1)] show ?thesis unfolding cited_def by metis
qed (use called in simp_all)


definition counts_calls :: "'w tool_executor \<Rightarrow> ('w \<Rightarrow> nat) \<Rightarrow> bool" where
  "counts_calls x m \<longleftrightarrow> idle_ports x m \<and> (\<forall>i d w. m (snd (tx_inner x i d w)) = Suc (m w))"

lemma run_calls_bounded:
  assumes "calls x m i d t auth n s s'" and "counts_calls x m"
  shows "m (snd s') \<ge> Suc (m (snd s))
    \<and> int (m (snd s')) \<le> int (m (snd s)) + max 1 (max_attempts (tx_retry_policies x t) - n + 1)"
  using assms
proof (induction rule: calls.induct)
  case (last_call s r w1 s' n)
  then have "m w1 = Suc (m (snd s))" unfolding counts_calls_def by (metis sndI)
  with last_call show ?case by simp
next
  case (next_call s e w1 n w2 w3 db3 s')
  then have "m w1 = Suc (m (snd s))" unfolding counts_calls_def by (metis sndI)
  with next_call show ?case by (auto simp: allows_retry_def max_attempts_def)
qed

text \<open>
  C34: one execute makes at most as many provider calls as the tool's retry budget has
  attempts, the reconciled re-execution of an earlier attempt included, and none when the call
  comes back on a refusal.
\<close>

theorem provider_calls_are_bounded:
  assumes count: "counts_calls x m" and run: "tx_execute x i d s = (a, s')"
    and budget: "rp_max_retries (tx_retry_policies x (action_tool x i)) \<ge> 0"
  shows "m (snd s) \<le> m (snd s')
    \<and> int (m (snd s')) \<le> int (m (snd s)) + max_attempts (tx_retry_policies x (action_tool x i))
    \<and> (\<forall>e db. tx_authorize x i d (action_tool x i) (fst s) = (Inl e, db) \<longrightarrow> m (snd s') = m (snd s))"
proof -
  have idle: "idle_ports x m" using count by (simp add: counts_calls_def)
  from run idle show ?thesis
  proof (cases rule: execute_shape)
    case (called auth db1 n db2 w2)
    then have "n \<ge> 1" by auto
    with run_calls_bounded [OF called(6) count] called(1,3) budget show ?thesis
      by (auto simp: max_attempts_def)
  qed (use budget in \<open>auto simp: max_attempts_def\<close>)
qed

section \<open>The guarantees at work\<close>

text \<open>
  The shipped tables and policy, over a provider whose world is the number of effects under
  each key, and a reconciler that looks the key up there.
\<close>

definition ex_tx :: "(string \<Rightarrow> nat) tool_executor" where
  "ex_tx =
     \<lparr>tx_inner = (\<lambda>i d w. (Answer \<lparr>rc_action_id = ac_id i, rc_ok = True,
                                    rc_external_reference = None, rc_detail = None\<rparr>,
                           w(ac_key i := Suc (w (ac_key i))))),
      tx_policy = default_policy_engine None (Some decision_log_of),
      tx_ledger = \<lparr>lc_workflow_id = None, lc_outbox = ex_outbox_config, lc_redact_receipt = (\<lambda>r. r)\<rparr>,
      tx_reconciler = Some (\<lambda>i w. (Answer \<lparr>rn_outcome = (if w (ac_key i) = 0 then NOT_APPLIED
                                                         else INDETERMINATE),
                                          rn_receipt = None\<rparr>, w)),
      tx_action_tools = ACTION_TOOLS, tx_retry_policies = retry_policy_for,
      tx_sleep = (\<lambda>dl w. (Answer (), w)), tx_rand = (\<lambda>w. (0, w)), tx_now = (\<lambda>w. 0),
      tx_sha = (\<lambda>_. ''h''), tx_explain = (\<lambda>_. ''verdict''), tx_show_int = (\<lambda>_. ''1'')\<rparr>"

definition ex_database :: database where
  "ex_database = \<lparr>db_policy = \<lparr>pdb_rows = [], pdb_workflows = [], pdb_next_id = 1\<rparr>,
     db_executions = Map.empty, db_next_operation = 1, db_audit = [],
     db_outbox = \<lparr>ob_rows = [], ob_workflows = [], ob_runs = []\<rparr>\<rparr>"

definition ex_authorization :: execution_authorization where
  "ex_authorization = \<lparr>xa_policy_decision_id = Some 1, xa_approval_ref = Some ''1'',
     xa_approved_by = Some ''ada''\<rparr>"

definition ex_logged :: database where
  "ex_logged = ex_database\<lparr>db_policy := \<lparr>pdb_rows = [(1, \<lparr>le_principal = ''graph'',
     le_workflow_id = None, le_tool = ''files.overwrite_document'', le_args_hash = ''h'',
     le_decision = REQUIRE_APPROVAL, le_requested_scopes = [''artifacts:write'']\<rparr>)],
     pdb_workflows = [], pdb_next_id = 2\<rparr>\<rparr>"

lemma ex_tool [simp]: "action_tool ex_tx ex_action = ''files.overwrite_document''"
  by (simp add: action_tool_def ex_tx_def ex_action_def)

lemma ex_show [simp]: "show_id (tx_ledger ex_tx) n = ''1''"
  by (simp add: show_id_def ex_tx_def ex_outbox_defs transport_config.defs)

lemma ex_log [simp]: "decision_log (tx_policy ex_tx) = Some decision_log_of"
  by (simp add: ex_tx_def default_policy_engine_def PolicyEngine_init_def)

lemma ex_hash [simp]: "intent_hash ex_tx i = ''h''" "approved ex_tx (Some ex_approval) ex_action"
  by (simp_all add: intent_hash_def approved_def authorizes_def action_fingerprint_def ex_tx_def
      ex_action_defs)

lemma ex_approval_fields [simp]:
  "ad_request_id ex_approval = Some 1" "ad_decided_by ex_approval = ''ada''"
  by (simp_all add: ex_approval_def)

lemma ex_redact [simp]: "lc_redact_receipt (tx_ledger ex_tx) r = r"
  by (simp add: ex_tx_def)

lemma ex_classify:
  "classify (tx_policy ex_tx) ''files.overwrite_document'' [''artifacts:write'']
     \<lparr>pv_origin = SYSTEM, pv_requested_by = ''graph''\<rparr>
   = (REQUIRE_APPROVAL, ''permission_class'', ClassOutcome ''files.overwrite_document'' DESTRUCTIVE None)"
  by (simp add: classify_def ex_tx_def default_policy_engine_def PolicyEngine_init_def attributed_def
      DEFAULT_TOOL_PERMISSIONS_def strip_def is_space_def Let_def)

lemma ex_authorize:
  "tx_authorize ex_tx ex_action (Some ex_approval) ''files.overwrite_document'' ex_database
   = (Inr ex_authorization, ex_logged)"
proof -
  have scopes: "rk_scopes (risk_profile_for (ac_kind ex_action)) = [''artifacts:write'']"
    "ac_requested_by ex_action = ''graph''" "lc_workflow_id (tx_ledger ex_tx) = None"
    by (simp_all add: risk_profile_for_def ex_action_def ex_tx_def)
  show ?thesis
    unfolding tx_authorize_def evaluate_action_def persist_def scopes
    by (simp add: ex_classify decision_log_of_def SqlPolicyDecisionLog_record_def ex_database_def
        ex_logged_def ex_authorization_def Let_def)
qed

lemma ex_claim:
  "ledger_claim (tx_ledger ex_tx) ''overwrite-1'' t ''h'' auth ex_logged
   = ((r, b), db) \<Longrightarrow> b"
  by (simp add: ledger_claim_def execution_claim_def ex_logged_def ex_database_def Let_def)

lemma ex_settle:
  assumes "db_executions db ''overwrite-1'' = Some r" and "db_outbox db = db_outbox ex_database"
  shows "fst (settle ex_tx ex_action t ex_receipt (db, w)) = Answer ex_receipt"
  using assms
  by (simp add: settle_def tx_record_def record_outcome_def execution_complete_def ex_action_def
      ex_tx_def stage_raw_event_def outbox_create_def append_audit_def ex_database_def Let_def
      ex_outbox_defs transport_config.defs split: sum.split)

lemma ex_execute:
  "\<exists>s'. tx_execute ex_tx ex_action (Some ex_approval) (ex_database, \<lambda>_. 0) = (Answer ex_receipt, s')
     \<and> snd s' ''overwrite-1'' = 1"
proof -
  let ?t = "''files.overwrite_document''"
  have key: "ac_key ex_action = ''overwrite-1''" by (simp add: ex_action_def)
  obtain r b db where cl:
    "ledger_claim (tx_ledger ex_tx) ''overwrite-1'' ?t ''h'' ex_authorization ex_logged = ((r, b), db)"
    by (metis prod.collapse)
  with ex_claim have b: b by blast
  have db: "db_executions db ''overwrite-1'' = Some r" "db_outbox db = db_outbox ex_database"
    using cl by (auto simp: ledger_claim_def execution_claim_def put_execution_def ex_logged_def
        ex_database_def Let_def)
  have inner: "tx_inner ex_tx ex_action (Some ex_approval) (snd (db, \<lambda>_. 0))
    = (Answer ex_receipt, (\<lambda>_. 0)(''overwrite-1'' := Suc 0))"
    by (simp add: ex_tx_def ex_action_def)
  let ?s = "settle ex_tx ex_action ?t ex_receipt (db, (\<lambda>_. 0)(''overwrite-1'' := Suc 0))"
  have "tx_execute ex_tx ex_action (Some ex_approval) (ex_database, \<lambda>_. 0) = ?s"
    using cl b by (simp add: tx_execute_def ex_authorize key tx_run_answer [OF inner])
  moreover have "fst ?s = Answer ex_receipt" by (rule ex_settle [OF db])
  moreover have "snd (snd ?s) = (\<lambda>_. 0)(''overwrite-1'' := Suc 0)"
    using quiet_settle [of ex_tx ex_action ?t ex_receipt _ "fst ?s" "snd ?s"] by simp
  ultimately show ?thesis by (metis fun_upd_same One_nat_def prod.collapse)
qed

lemma ex_idle: "idle_ports ex_tx (\<lambda>w. w k)"
  by (simp add: idle_ports_def ex_tx_def)

lemma ex_truthful: "truthful_provider ex_tx k (\<lambda>w. w k)"
  by (auto simp: truthful_provider_def ex_idle asks_first_def) (auto simp: ex_tx_def split: if_splits)

theorem executed_at_most_once_witness:
  "snd (execute_all ex_tx [(ex_action, Some ex_approval), (ex_action, None),
         (ex_action, Some ex_approval)] (ex_database, \<lambda>_. 0)) ''overwrite-1'' \<le> 1"
  by (rule executed_at_most_once [OF ex_truthful])
    (simp_all add: ex_tx_def ex_database_def default_policy_engine_def PolicyEngine_init_def)

theorem calls_are_authorized_witness:
  "\<exists>(s' :: database \<times> (string \<Rightarrow> nat)) n row. snd s' ''overwrite-1'' = 1 \<and> (n, row) \<in> set (pdb_rows (db_policy (fst s')))
     \<and> le_tool row = ''files.overwrite_document'' \<and> le_principal row = ''graph''"
proof -
  obtain s' where run:
    "tx_execute ex_tx ex_action (Some ex_approval) (ex_database, \<lambda>_. 0) = (Answer ex_receipt, s')"
    and m: "snd s' ''overwrite-1'' = 1" using ex_execute by blast
  have "snd s' ''overwrite-1'' \<noteq> snd (ex_database, \<lambda>_. 0) ''overwrite-1''" using m by simp
  from calls_are_authorized [where m = "\<lambda>w. w ''overwrite-1''", OF ex_idle ex_log run this] m
  obtain n row where "(n, row) \<in> set (pdb_rows (db_policy (fst s')))"
    "le_tool row = action_tool ex_tx ex_action" "le_principal row = ac_requested_by ex_action"
    by blast
  moreover have "ac_requested_by ex_action = ''graph''" by (simp add: ex_action_def)
  ultimately have "snd s' ''overwrite-1'' = 1 \<and> (n, row) \<in> set (pdb_rows (db_policy (fst s')))
     \<and> le_tool row = ''files.overwrite_document'' \<and> le_principal row = ''graph''"
    using m by simp
  then show ?thesis by blast
qed


definition ex_dying :: "(string \<Rightarrow> nat) tool_executor" where
  "ex_dying = ex_tx\<lparr>tx_inner := \<lambda>i d w. (Killed, \<lambda>k. Suc (w k))\<rparr>"

theorem provider_calls_are_bounded_witness:
  "\<exists>a s'. tx_execute ex_dying ex_action (Some ex_approval) (ex_database, \<lambda>_. 0) = (a, s')
     \<and> snd s' ''overwrite-1'' \<le> 1"
proof -
  have count: "counts_calls ex_dying (\<lambda>w. w ''overwrite-1'')"
    using ex_idle by (simp add: counts_calls_def idle_ports_def ex_dying_def)
  have tool: "action_tool ex_dying ex_action = ''files.overwrite_document''"
    "tx_retry_policies ex_dying = retry_policy_for"
    by (simp_all add: action_tool_def ex_dying_def ex_tx_def ex_action_def)
  have once: "retry_policy_for ''files.overwrite_document'' = SEND"
    by (simp add: retry_policy_for_def CALENDAR_WRITE_TOOLS_def DEFAULT_TOOL_PERMISSIONS_def)
  obtain a s' where run:
    "tx_execute ex_dying ex_action (Some ex_approval) (ex_database, \<lambda>_. 0) = (a, s')"
    by (metis prod.collapse)
  from provider_calls_are_bounded [OF count run] have "snd s' ''overwrite-1'' \<le> 1"
    by (simp add: tool once SEND_def max_attempts_def)
  with run show ?thesis by blast
qed

end
