(* ===== verification/Lifecycle.thy ===== *)
theory Lifecycle
  imports Taxonomy "HOL-Library.Product_Lexorder" "HOL-Library.Multiset"
begin

text \<open>
  The lifecycle of a tracked application: the table of legal moves and its guards
  (\<open>personalos/domain/models.py\<close>), the one write that makes a move
  (\<open>ApplicationRepository.update_status\<close>, \<open>EventLogRepository\<close> and
  \<open>ApplicationStatusViewRepository\<close> of \<open>personalos/persistence/repositories.py\<close>), the store and
  the stall sweep over it (\<open>personalos/persistence/application_lifecycle.py\<close>,
  \<open>apps/worker/stall_monitor.py\<close>).
\<close>

section \<open>Statuses and moves\<close>

datatype application_status =
  DISCOVERED | SAVED | PREPARING | READY_TO_APPLY | APPLIED | RESPONSE | INTERVIEWING | OFFER
| ACCEPTED | DECLINED | REJECTED | WITHDRAWN | SKIPPED | FOLLOW_UP_PENDING | STALLED

fun status_value :: "application_status \<Rightarrow> string" where
  "status_value DISCOVERED = ''discovered''"
| "status_value SAVED = ''saved''"
| "status_value PREPARING = ''preparing''"
| "status_value READY_TO_APPLY = ''ready_to_apply''"
| "status_value APPLIED = ''applied''"
| "status_value RESPONSE = ''response''"
| "status_value INTERVIEWING = ''interviewing''"
| "status_value OFFER = ''offer''"
| "status_value ACCEPTED = ''accepted''"
| "status_value DECLINED = ''declined''"
| "status_value REJECTED = ''rejected''"
| "status_value WITHDRAWN = ''withdrawn''"
| "status_value SKIPPED = ''skipped''"
| "status_value FOLLOW_UP_PENDING = ''follow_up_pending''"
| "status_value STALLED = ''stalled''"

definition application_statuses :: "application_status list" where
  "application_statuses =
     [DISCOVERED, SAVED, PREPARING, READY_TO_APPLY, APPLIED, RESPONSE, INTERVIEWING, OFFER,
      ACCEPTED, DECLINED, REJECTED, WITHDRAWN, SKIPPED, FOLLOW_UP_PENDING, STALLED]"

text \<open>\<open>ApplicationStatus(text)\<close>: the member with that value, if any.\<close>

definition application_status_of :: "string \<Rightarrow> application_status option" where
  "application_status_of s = find_first (\<lambda>st. status_value st = s) application_statuses"

text \<open>The table has no row for the two holding states.\<close>

fun ALLOWED_APPLICATION_TRANSITIONS :: "application_status \<Rightarrow> application_status set option" where
  "ALLOWED_APPLICATION_TRANSITIONS DISCOVERED = Some {SAVED, SKIPPED}"
| "ALLOWED_APPLICATION_TRANSITIONS SAVED = Some {PREPARING, SKIPPED, STALLED}"
| "ALLOWED_APPLICATION_TRANSITIONS PREPARING = Some {READY_TO_APPLY, SKIPPED, STALLED}"
| "ALLOWED_APPLICATION_TRANSITIONS READY_TO_APPLY = Some {APPLIED, SKIPPED, STALLED}"
| "ALLOWED_APPLICATION_TRANSITIONS APPLIED =
     Some {RESPONSE, INTERVIEWING, REJECTED, WITHDRAWN, FOLLOW_UP_PENDING, STALLED}"
| "ALLOWED_APPLICATION_TRANSITIONS RESPONSE =
     Some {INTERVIEWING, REJECTED, WITHDRAWN, FOLLOW_UP_PENDING, STALLED}"
| "ALLOWED_APPLICATION_TRANSITIONS INTERVIEWING =
     Some {OFFER, REJECTED, WITHDRAWN, FOLLOW_UP_PENDING, STALLED}"
| "ALLOWED_APPLICATION_TRANSITIONS OFFER = Some {ACCEPTED, DECLINED, WITHDRAWN, STALLED}"
| "ALLOWED_APPLICATION_TRANSITIONS ACCEPTED = Some {}"
| "ALLOWED_APPLICATION_TRANSITIONS DECLINED = Some {}"
| "ALLOWED_APPLICATION_TRANSITIONS REJECTED = Some {}"
| "ALLOWED_APPLICATION_TRANSITIONS WITHDRAWN = Some {}"
| "ALLOWED_APPLICATION_TRANSITIONS SKIPPED = Some {}"
| "ALLOWED_APPLICATION_TRANSITIONS FOLLOW_UP_PENDING = None"
| "ALLOWED_APPLICATION_TRANSITIONS STALLED = None"

definition table_row :: "application_status \<Rightarrow> application_status set" where
  "table_row s = (case ALLOWED_APPLICATION_TRANSITIONS s of None \<Rightarrow> {} | Some ss \<Rightarrow> ss)"

definition HOLDING_APPLICATION_STATUSES :: "application_status set" where
  "HOLDING_APPLICATION_STATUSES = {FOLLOW_UP_PENDING, STALLED}"

definition TERMINAL_APPLICATION_STATUSES :: "application_status set" where
  "TERMINAL_APPLICATION_STATUSES =
     set (filter (\<lambda>s. ALLOWED_APPLICATION_TRANSITIONS s = Some {}) application_statuses)"

definition STALLABLE_APPLICATION_STATUSES :: "application_status set" where
  "STALLABLE_APPLICATION_STATUSES =
     set (filter (\<lambda>s. STALLED \<in> table_row s) application_statuses) \<union> {FOLLOW_UP_PENDING}"

definition allowed_application_transitions ::
  "application_status \<Rightarrow> application_status option \<Rightarrow> application_status set" where
  "allowed_application_transitions current resume =
     (if current \<notin> HOLDING_APPLICATION_STATUSES then table_row current
      else case resume of
        None \<Rightarrow> {}
      | Some r \<Rightarrow>
          if r \<in> HOLDING_APPLICATION_STATUSES then {} else (table_row r \<union> {r}) - {current})"

definition invalid_transition :: "string \<Rightarrow> exn" where
  "invalid_transition msg = POS InvalidApplicationTransition msg None"

definition validate_application_status_transition ::
  "application_status \<Rightarrow> application_status \<Rightarrow> application_status option \<Rightarrow>
   exn + application_status" where
  "validate_application_status_transition current new resume =
     (if new \<notin> allowed_application_transitions current resume
      then raise (invalid_transition (''cannot transition application from '' @ status_value current
                                      @ '' to '' @ status_value new))
      else ret new)"

definition resume_status_after ::
  "application_status \<Rightarrow> application_status \<Rightarrow> application_status option \<Rightarrow>
   application_status option" where
  "resume_status_after current new resume =
     (if new \<notin> HOLDING_APPLICATION_STATUSES then None
      else if current \<in> HOLDING_APPLICATION_STATUSES then resume else Some current)"

record recommendation =
  rcm_application_id :: uuid
  rcm_to :: string
  rcm_reason :: "string option"

definition parse_recommended_status :: "recommendation \<Rightarrow> exn + application_status" where
  "parse_recommended_status r =
     (case application_status_of (lower (strip (rcm_to r))) of
        None \<Rightarrow> raise (invalid_transition (rcm_to r @ '' is not an application status''))
      | Some s \<Rightarrow>
          if s = STALLED
          then raise (invalid_transition
                 ''stalled is set by the scheduled stall check and cannot be recommended'')
          else ret s)"

definition is_application_stalled ::
  "application_status \<Rightarrow> datetime \<Rightarrow> datetime \<Rightarrow> seconds \<Rightarrow> bool" where
  "is_application_stalled s last_activity now win \<longleftrightarrow>
     s \<in> STALLABLE_APPLICATION_STATUSES \<and> last_activity \<le> now - win"

section \<open>Rows\<close>

text \<open>The columns of \<open>applications\<close> that the lifecycle reads or writes.\<close>

record application =
  ap_status :: application_status
  ap_resume_status :: "application_status option"
  ap_last_activity_at :: "datetime option"
  ap_applied_at :: "datetime option"
  ap_updated_at :: datetime

record lifecycle_event =
  le_id :: uuid
  le_application :: uuid
  le_from :: application_status
  le_to :: application_status
  le_resume :: "application_status option"
  le_actor :: string
  le_reason :: "string option"
  le_occurred_at :: datetime

record status_view =
  sv_status :: application_status
  sv_last_event_id :: "uuid option"

record lifecycle_db =
  lf_applications :: "uuid \<rightharpoonup> application"
  lf_log :: "lifecycle_event list"
  lf_view :: "uuid \<rightharpoonup> status_view"
  lf_next_id :: uuid

text \<open>
  \<open>lf_log\<close> holds the \<open>application.status_changed\<close> rows of \<open>event_log\<close> in the order they were
  appended; redaction of the actor's and reason's text is left out.
\<close>

definition application_create :: "uuid \<Rightarrow> datetime \<Rightarrow> lifecycle_db \<Rightarrow> exn + lifecycle_db" where
  "application_create n now db =
     (if lf_applications db n \<noteq> None then raise (PY ''IntegrityError'' ''duplicate key'' None)
      else ret (db\<lparr>lf_applications := (lf_applications db)(n \<mapsto>
                    \<lparr>ap_status = DISCOVERED, ap_resume_status = None,
                     ap_last_activity_at = Some now, ap_applied_at = None,
                     ap_updated_at = now\<rparr>)\<rparr>))"

text \<open>\<open>EventLogRepository.append\<close> and \<open>ApplicationStatusViewRepository.recompute\<close>.\<close>

definition append_event :: "lifecycle_event \<Rightarrow> lifecycle_db \<Rightarrow> lifecycle_db" where
  "append_event e db = db\<lparr>lf_log := lf_log db @ [e], lf_next_id := Suc (lf_next_id db)\<rparr>"

definition recompute_view ::
  "uuid \<Rightarrow> application_status \<Rightarrow> uuid option \<Rightarrow> lifecycle_db \<Rightarrow> lifecycle_db" where
  "recompute_view n s ev db =
     db\<lparr>lf_view := (lf_view db)(n \<mapsto> \<lparr>sv_status = s, sv_last_event_id = ev\<rparr>)\<rparr>"

definition application_not_found :: exn where
  "application_not_found = PY ''ValueError'' ''Application not found'' None"

definition transition_conflict :: exn where
  "transition_conflict =
     POS ApplicationTransitionConflict ''application changed while moving it'' None"

text \<open>
  \<open>update_status\<close> after the row \<open>a\<close> was read: the move is validated against \<open>a\<close>, then one
  transaction, on whatever the database holds by then, does the guarded update, the event and
  the projection, or nothing.
\<close>

definition update_status_write ::
  "uuid \<Rightarrow> application_status \<Rightarrow> string option \<Rightarrow> string \<Rightarrow> datetime \<Rightarrow> datetime option \<Rightarrow>
   application \<Rightarrow> lifecycle_db \<Rightarrow> (exn + application) \<times> lifecycle_db" where
  "update_status_write n new reason actor now quiet_since a db =
     (case validate_application_status_transition (ap_status a) new (ap_resume_status a) of
        Inl e \<Rightarrow> (raise e, db)
      | Inr _ \<Rightarrow>
          let next_held = resume_status_after (ap_status a) new (ap_resume_status a) in
          (case lf_applications db n of
             None \<Rightarrow> (raise transition_conflict, db)
           | Some cur \<Rightarrow>
               if ap_status cur \<noteq> ap_status a
                  \<or> (case quiet_since of None \<Rightarrow> False
                     | Some q \<Rightarrow> (case ap_last_activity_at cur of None \<Rightarrow> True | Some t \<Rightarrow> \<not> t \<le> q))
               then (raise transition_conflict, db)
               else
                 let cur' = cur\<lparr>ap_status := new, ap_resume_status := next_held,
                       ap_updated_at := now,
                       ap_last_activity_at := (if new \<noteq> STALLED then Some now else ap_last_activity_at cur),
                       ap_applied_at := (if new = APPLIED \<and> ap_applied_at a = None then Some now
                                         else ap_applied_at cur)\<rparr>;
                     e = \<lparr>le_id = lf_next_id db, le_application = n, le_from = ap_status a,
                          le_to = new, le_resume = next_held, le_actor = actor, le_reason = reason,
                          le_occurred_at = now\<rparr>
                 in (ret cur', recompute_view n new (Some (le_id e))
                       (append_event e (db\<lparr>lf_applications := (lf_applications db)(n \<mapsto> cur')\<rparr>)))))"

text \<open>\<open>race\<close> is what other writers commit between the read and the write.\<close>

definition update_status ::
  "(lifecycle_db \<Rightarrow> lifecycle_db) \<Rightarrow> uuid \<Rightarrow> application_status \<Rightarrow> string option \<Rightarrow> string \<Rightarrow>
   datetime \<Rightarrow> datetime option \<Rightarrow> lifecycle_db \<Rightarrow> (exn + application) \<times> lifecycle_db" where
  "update_status race n new reason actor now quiet_since db =
     (case lf_applications db n of
        None \<Rightarrow> (raise application_not_found, db)
      | Some a \<Rightarrow>
          (case validate_application_status_transition (ap_status a) new (ap_resume_status a) of
             Inl e \<Rightarrow> (raise e, db)
           | Inr _ \<Rightarrow> update_status_write n new reason actor now quiet_since a (race db)))"

section \<open>The store\<close>

record lifecycle_state =
  ls_application_id :: uuid
  ls_status :: application_status
  ls_resume_status :: "application_status option"
  ls_last_activity_at :: datetime
  ls_last_event_id :: "uuid option"

definition to_state :: "lifecycle_db \<Rightarrow> uuid \<Rightarrow> application \<Rightarrow> lifecycle_state" where
  "to_state db n a =
     \<lparr>ls_application_id = n, ls_status = ap_status a, ls_resume_status = ap_resume_status a,
      ls_last_activity_at = (case ap_last_activity_at a of Some t \<Rightarrow> t | None \<Rightarrow> ap_updated_at a),
      ls_last_event_id = (case lf_view db n of None \<Rightarrow> None | Some v \<Rightarrow> sv_last_event_id v)\<rparr>"

definition lifecycle_get :: "uuid \<Rightarrow> lifecycle_db \<Rightarrow> lifecycle_state option" where
  "lifecycle_get n db = map_option (to_state db n) (lf_applications db n)"

definition transition ::
  "(lifecycle_db \<Rightarrow> lifecycle_db) \<Rightarrow> uuid \<Rightarrow> application_status \<Rightarrow> string option \<Rightarrow> string \<Rightarrow>
   datetime \<Rightarrow> lifecycle_db \<Rightarrow> (exn + lifecycle_state) \<times> lifecycle_db" where
  "transition race n new reason actor now db =
     (case update_status race n new reason actor now None db of
        (Inl e, db') \<Rightarrow> (raise e, db')
      | (Inr a, db') \<Rightarrow> (ret (to_state db' n a), db'))"

definition recommend ::
  "(lifecycle_db \<Rightarrow> lifecycle_db) \<Rightarrow> recommendation \<Rightarrow> string \<Rightarrow> datetime \<Rightarrow> lifecycle_db \<Rightarrow>
   (exn + lifecycle_state) \<times> lifecycle_db" where
  "recommend race r actor now db =
     (case parse_recommended_status r of
        Inl e \<Rightarrow> (raise e, db)
      | Inr s \<Rightarrow> transition race (rcm_application_id r) s (rcm_reason r) actor now db)"

text \<open>
  \<open>record_activity\<close>: at most two passes. \<open>race\<close> of a pass is what others commit between its
  read and its write; \<open>race'\<close> the same inside the transition it may make.
\<close>

definition reason_or :: "string \<Rightarrow> string option \<Rightarrow> string" where
  "reason_or dflt r = (case r of None \<Rightarrow> dflt | Some t \<Rightarrow> if t \<noteq> [] then t else dflt)"

fun activity_loop ::
  "((lifecycle_db \<Rightarrow> lifecycle_db) \<times> (lifecycle_db \<Rightarrow> lifecycle_db)) list \<Rightarrow> uuid \<Rightarrow>
   string option \<Rightarrow> datetime \<Rightarrow> lifecycle_db \<Rightarrow> (exn + lifecycle_state) \<times> lifecycle_db" where
  "activity_loop [] n reason now db = (raise transition_conflict, db)"
| "activity_loop ((race, race') # passes) n reason now db =
     (case lifecycle_get n db of
        None \<Rightarrow> (raise application_not_found, db)
      | Some st \<Rightarrow>
          if ls_status st = STALLED \<and> ls_resume_status st \<noteq> None
          then (case transition race' n (the (ls_resume_status st))
                       (Some (reason_or ''activity resumed'' reason)) ''system'' now (race db) of
                  (Inr s, db') \<Rightarrow> (ret s, db')
                | (Inl e, db') \<Rightarrow>
                    if isinstance e ApplicationTransitionConflict
                    then activity_loop passes n reason now db'
                    else (raise e, db'))
          else (let db1 = race db in
                case lf_applications db1 n of
                  Some cur \<Rightarrow>
                    if ap_status cur = ls_status st
                    then (ret (st\<lparr>ls_last_activity_at := now\<rparr>),
                          db1\<lparr>lf_applications := (lf_applications db1)(n \<mapsto>
                                cur\<lparr>ap_last_activity_at := Some now\<rparr>)\<rparr>)
                    else activity_loop passes n reason now db1
                | None \<Rightarrow> activity_loop passes n reason now db1))"

definition record_activity ::
  "(lifecycle_db \<Rightarrow> lifecycle_db) \<times> (lifecycle_db \<Rightarrow> lifecycle_db) \<Rightarrow>
   (lifecycle_db \<Rightarrow> lifecycle_db) \<times> (lifecycle_db \<Rightarrow> lifecycle_db) \<Rightarrow> uuid \<Rightarrow>
   string option \<Rightarrow> datetime \<Rightarrow> lifecycle_db \<Rightarrow> (exn + lifecycle_state) \<times> lifecycle_db" where
  "record_activity first second n reason now db = activity_loop [first, second] n reason now db"

definition STALL_MONITOR_ACTOR :: string where
  "STALL_MONITOR_ACTOR = ''stall_monitor''"

definition mark_stalled ::
  "(lifecycle_db \<Rightarrow> lifecycle_db) \<Rightarrow> uuid \<Rightarrow> datetime \<Rightarrow> datetime \<Rightarrow> lifecycle_db \<Rightarrow>
   (exn + bool) \<times> lifecycle_db" where
  "mark_stalled race n quiet_since now db =
     (case update_status race n STALLED (Some ''no activity'') STALL_MONITOR_ACTOR now
             (Some quiet_since) db of
        (Inr _, db') \<Rightarrow> (ret True, db')
      | (Inl e, db') \<Rightarrow>
          if isinstance e ApplicationTransitionConflict \<or> isinstance e InvalidApplicationTransition
          then (ret False, db') else (raise e, db'))"

text \<open>
  \<open>quiet_since\<close>: the quietest first, ties by id, at most \<open>limit\<close>. \<open>known\<close> lists the ids of the
  table's rows.
\<close>

definition quiet_ids :: "uuid list \<Rightarrow> datetime \<Rightarrow> nat \<Rightarrow> lifecycle_db \<Rightarrow> uuid list" where
  "quiet_ids known cutoff limit db =
     take limit (map snd (sort (List.map_filter (\<lambda>n.
       case lf_applications db n of
         None \<Rightarrow> None
       | Some a \<Rightarrow>
           (case ap_last_activity_at a of
              None \<Rightarrow> None
            | Some t \<Rightarrow> if ap_status a \<in> STALLABLE_APPLICATION_STATUSES \<and> t \<le> cutoff
                        then Some (t, n) else None)) known)))"

section \<open>The stall sweep\<close>

record stall_report =
  sr_stalled :: "uuid list"
  sr_skipped :: "uuid list"

fun sweep_loop ::
  "(uuid \<Rightarrow> lifecycle_db \<Rightarrow> lifecycle_db) \<Rightarrow> datetime \<Rightarrow> datetime \<Rightarrow> uuid list \<Rightarrow> stall_report \<Rightarrow>
   lifecycle_db \<Rightarrow> (exn + stall_report) \<times> lifecycle_db" where
  "sweep_loop race cutoff now [] rep db = (ret rep, db)"
| "sweep_loop race cutoff now (n # ns) rep db =
     (case mark_stalled (race n) n cutoff now db of
        (Inl e, db') \<Rightarrow> (raise e, db')
      | (Inr True, db') \<Rightarrow> sweep_loop race cutoff now ns (rep\<lparr>sr_stalled := sr_stalled rep @ [n]\<rparr>) db'
      | (Inr False, db') \<Rightarrow> sweep_loop race cutoff now ns (rep\<lparr>sr_skipped := sr_skipped rep @ [n]\<rparr>) db')"

definition StalledApplicationMonitor_init :: "seconds \<Rightarrow> exn + seconds" where
  "StalledApplicationMonitor_init win =
     (if win \<le> 0 then raise (PY ''ValueError'' ''the stall window must be positive'' None) else ret win)"

definition sweep ::
  "(uuid \<Rightarrow> lifecycle_db \<Rightarrow> lifecycle_db) \<Rightarrow> seconds \<Rightarrow> uuid list \<Rightarrow> nat \<Rightarrow> datetime \<Rightarrow> lifecycle_db \<Rightarrow>
   (exn + stall_report) \<times> lifecycle_db" where
  "sweep race win known limit now db =
     sweep_loop race (now - win) now (quiet_ids known (now - win) limit db)
       \<lparr>sr_stalled = [], sr_skipped = []\<rparr> db"

section \<open>Holding states are transparent\<close>

lemmas status_sets = HOLDING_APPLICATION_STATUSES_def table_row_def

lemma terminal_statuses:
  "TERMINAL_APPLICATION_STATUSES = {ACCEPTED, DECLINED, REJECTED, WITHDRAWN, SKIPPED}"
  by (auto simp: TERMINAL_APPLICATION_STATUSES_def application_statuses_def)

lemma stallable_statuses:
  "STALLABLE_APPLICATION_STATUSES =
     {SAVED, PREPARING, READY_TO_APPLY, APPLIED, RESPONSE, INTERVIEWING, OFFER, FOLLOW_UP_PENDING}"
  by (auto simp: STALLABLE_APPLICATION_STATUSES_def application_statuses_def table_row_def)

text \<open>
  Where an application stands: its status, or the status a held one was held from. \<open>held_ok\<close>
  are the combinations the columns may hold, \<open>core_step\<close> the table's moves between statuses
  that are not holding states.
\<close>

definition stands_at :: "application_status \<Rightarrow> application_status option \<Rightarrow> application_status" where
  "stands_at s r = (if s \<in> HOLDING_APPLICATION_STATUSES then (case r of None \<Rightarrow> s | Some q \<Rightarrow> q) else s)"

definition held_ok :: "application_status \<Rightarrow> application_status option \<Rightarrow> bool" where
  "held_ok s r \<longleftrightarrow>
     (if s \<in> HOLDING_APPLICATION_STATUSES
      then (case r of None \<Rightarrow> False | Some q \<Rightarrow> q \<notin> HOLDING_APPLICATION_STATUSES \<and> s \<in> table_row q)
      else r = None)"

definition core_step :: "application_status \<Rightarrow> application_status \<Rightarrow> bool" where
  "core_step q q' \<longleftrightarrow> q' \<in> table_row q \<and> q' \<notin> HOLDING_APPLICATION_STATUSES"

lemma held_ok_move:
  assumes "held_ok s r" and "new \<in> allowed_application_transitions s r"
  shows "held_ok new (resume_status_after s new r)"
  using assms
  by (auto simp: held_ok_def allowed_application_transitions_def resume_status_after_def
      split: if_splits option.splits)

lemma move_changes: "new \<in> allowed_application_transitions s r \<Longrightarrow> new \<noteq> s"
  by (cases s) (auto simp: allowed_application_transitions_def status_sets split: if_splits option.splits)

text \<open>
  Being held changes nothing about where an application may go. From a held application
  the statuses that are not holding states are exactly those the status it was held from
  leads to, and that status itself; a move into or between holding states leaves where it
  stands; and every move keeps the columns consistent.
\<close>

theorem holding_is_transparent:
  assumes "held_ok s r"
  shows "(q \<notin> HOLDING_APPLICATION_STATUSES \<longrightarrow>
      (q \<in> allowed_application_transitions s r \<longleftrightarrow>
         core_step (stands_at s r) q \<or> (s \<in> HOLDING_APPLICATION_STATUSES \<and> q = stands_at s r)))
    \<and> (new \<in> allowed_application_transitions s r \<longrightarrow>
         held_ok new (resume_status_after s new r)
         \<and> (stands_at new (resume_status_after s new r) = stands_at s r
            \<or> core_step (stands_at s r) (stands_at new (resume_status_after s new r))))"
proof (intro conjI impI)
  assume q: "q \<notin> HOLDING_APPLICATION_STATUSES"
  show "q \<in> allowed_application_transitions s r \<longleftrightarrow>
      core_step (stands_at s r) q \<or> (s \<in> HOLDING_APPLICATION_STATUSES \<and> q = stands_at s r)"
    using assms q
    by (auto simp: held_ok_def allowed_application_transitions_def stands_at_def core_step_def
        split: if_splits option.splits)
next
  assume new: "new \<in> allowed_application_transitions s r"
  show "held_ok new (resume_status_after s new r)" by (rule held_ok_move [OF assms new])
  show "stands_at new (resume_status_after s new r) = stands_at s r
      \<or> core_step (stands_at s r) (stands_at new (resume_status_after s new r))"
    using assms new
    by (auto simp: held_ok_def allowed_application_transitions_def stands_at_def core_step_def
        resume_status_after_def split: if_splits option.splits)
qed

theorem holding_is_transparent_witness:
  "OFFER \<in> allowed_application_transitions STALLED (Some INTERVIEWING)
   \<and> OFFER \<notin> allowed_application_transitions STALLED (Some SAVED)"
proof -
  have i: "held_ok STALLED (Some INTERVIEWING)" and s: "held_ok STALLED (Some SAVED)"
    by (simp_all add: held_ok_def status_sets)
  from holding_is_transparent [OF i, of OFFER STALLED] holding_is_transparent [OF s, of OFFER STALLED]
  show ?thesis by (simp add: core_step_def stands_at_def status_sets)
qed

text \<open>
  A measure every move between statuses raises, so an application is moved finitely often
  between statuses that are not holding states.
\<close>

fun stage :: "application_status \<Rightarrow> nat" where
  "stage DISCOVERED = 0"
| "stage SAVED = 1"
| "stage PREPARING = 2"
| "stage READY_TO_APPLY = 3"
| "stage APPLIED = 4"
| "stage RESPONSE = 5"
| "stage INTERVIEWING = 6"
| "stage OFFER = 7"
| "stage _ = 8"

lemma core_step_stage: "core_step q q' \<Longrightarrow> stage q < stage q' \<and> stage q' \<le> 8"
  by (cases q) (auto simp: core_step_def status_sets)

section \<open>The history explains the row\<close>

text \<open>
  Replaying an application's events from its creation: each one has to start where the one
  before ended and be a legal move.
\<close>

type_synonym position = "application_status \<times> application_status option"

definition replay_event :: "lifecycle_event \<Rightarrow> position \<Rightarrow> position option" where
  "replay_event e p =
     (case p of (s, r) \<Rightarrow>
        if le_from e = s \<and> le_to e \<in> allowed_application_transitions s r
           \<and> le_resume e = resume_status_after s (le_to e) r
        then Some (le_to e, le_resume e) else None)"

fun replay :: "lifecycle_event list \<Rightarrow> position \<Rightarrow> position option" where
  "replay [] p = Some p"
| "replay (e # es) p = (case replay_event e p of None \<Rightarrow> None | Some p' \<Rightarrow> replay es p')"

lemma replay_append:
  "replay (es @ [e]) p = (case replay es p of None \<Rightarrow> None | Some p' \<Rightarrow> replay_event e p')"
  by (induction es arbitrary: p) (auto split: option.splits)

definition history :: "uuid \<Rightarrow> lifecycle_db \<Rightarrow> lifecycle_event list" where
  "history n db = filter (\<lambda>e. le_application e = n) (lf_log db)"

definition projected :: "lifecycle_event list \<Rightarrow> status_view option" where
  "projected es =
     (if es = [] then None
      else Some \<lparr>sv_status = le_to (last es), sv_last_event_id = Some (le_id (last es))\<rparr>)"

definition row_explained :: "uuid \<Rightarrow> lifecycle_db \<Rightarrow> bool" where
  "row_explained n db \<longleftrightarrow>
     (case lf_applications db n of
        None \<Rightarrow> history n db = []
      | Some a \<Rightarrow> replay (history n db) (DISCOVERED, None) = Some (ap_status a, ap_resume_status a))
     \<and> lf_view db n = projected (history n db)"

definition lifecycle_ok :: "lifecycle_db \<Rightarrow> bool" where
  "lifecycle_ok db \<longleftrightarrow> (\<forall>n. row_explained n db)"

lemma replay_held_ok:
  "replay es (s, r) = Some (s', r') \<Longrightarrow> held_ok s r \<Longrightarrow> held_ok s' r'"
proof (induction es arbitrary: s r)
  case (Cons e es)
  then obtain p where p: "replay_event e (s, r) = Some p" "replay es p = Some (s', r')"
    by (auto split: option.splits)
  then have "p = (le_to e, le_resume e)" "held_ok (le_to e) (le_resume e)"
    using Cons.prems(2) by (auto simp: replay_event_def intro: held_ok_move split: if_splits)
  with p Cons.IH show ?case by auto
qed simp

lemma ok_row:
  assumes "lifecycle_ok db" and "lf_applications db n = Some a"
  shows "held_ok (ap_status a) (ap_resume_status a)"
    and "replay (history n db) (DISCOVERED, None) = Some (ap_status a, ap_resume_status a)"
proof -
  have "row_explained n db" using assms(1) by (simp add: lifecycle_ok_def)
  then show r: "replay (history n db) (DISCOVERED, None) = Some (ap_status a, ap_resume_status a)"
    by (simp add: row_explained_def assms(2))
  have "held_ok DISCOVERED None" by (simp add: held_ok_def status_sets)
  then show "held_ok (ap_status a) (ap_resume_status a)" by (rule replay_held_ok [OF r])
qed

lemma held_ok_unique:
  "held_ok s r \<Longrightarrow> held_ok s r' \<Longrightarrow> s \<notin> HOLDING_APPLICATION_STATUSES \<Longrightarrow> r = r'"
  by (simp add: held_ok_def)

section \<open>The one write\<close>

definition moves :: "uuid \<Rightarrow> application \<Rightarrow> application \<Rightarrow> lifecycle_event \<Rightarrow> lifecycle_db \<Rightarrow> lifecycle_db \<Rightarrow> bool" where
  "moves n cur a' e db db' \<longleftrightarrow>
     lf_applications db n = Some cur
     \<and> le_application e = n \<and> le_from e = ap_status cur \<and> le_to e = ap_status a'
     \<and> le_resume e = ap_resume_status a'
     \<and> lf_applications db' = (lf_applications db)(n \<mapsto> a')
     \<and> lf_log db' = lf_log db @ [e]
     \<and> lf_view db' = (lf_view db)(n \<mapsto> \<lparr>sv_status = ap_status a', sv_last_event_id = Some (le_id e)\<rparr>)"

lemma validate_ret:
  "validate_application_status_transition c new r = ret x \<longleftrightarrow>
     new \<in> allowed_application_transitions c r \<and> x = new"
  by (auto simp: validate_application_status_transition_def)

lemma update_status_write_raise:
  "update_status_write n new reason actor now q a db = (raise e, db') \<Longrightarrow> db' = db"
  by (auto simp: update_status_write_def Let_def split: sum.splits option.splits if_splits)

lemma update_status_write_ret:
  assumes "update_status_write n new reason actor now q a db = (ret a', db')"
  shows "new \<in> allowed_application_transitions (ap_status a) (ap_resume_status a)"
    and "\<exists>cur e. moves n cur a' e db db' \<and> ap_status cur = ap_status a \<and> ap_status a' = new
      \<and> ap_resume_status a' = resume_status_after (ap_status a) new (ap_resume_status a)
      \<and> ap_last_activity_at a' = (if new \<noteq> STALLED then Some now else ap_last_activity_at cur)
      \<and> (\<forall>t. q = Some t \<longrightarrow> (\<exists>l. ap_last_activity_at cur = Some l \<and> l \<le> t))"
proof -
  have ok: "new \<in> allowed_application_transitions (ap_status a) (ap_resume_status a)"
    using assms by (auto simp: update_status_write_def validate_application_status_transition_def
        split: if_splits)
  then have v: "validate_application_status_transition (ap_status a) new (ap_resume_status a) = ret new"
    by (simp add: validate_ret)
  obtain cur where cur: "lf_applications db n = Some cur"
    using assms v by (cases "lf_applications db n") (auto simp: update_status_write_def Let_def)
  have N: "\<not> (ap_status cur \<noteq> ap_status a \<or> (case q of None \<Rightarrow> False
     | Some q \<Rightarrow> (case ap_last_activity_at cur of None \<Rightarrow> True | Some t \<Rightarrow> \<not> t \<le> q)))" (is "\<not> ?stop")
  proof
    assume stop: ?stop
    have "update_status_write n new reason actor now q a db = (raise transition_conflict, db)"
      unfolding update_status_write_def v Let_def by (simp only: sum.case cur option.case if_P [OF stop])
    with assms show False by simp
  qed
  show "new \<in> allowed_application_transitions (ap_status a) (ap_resume_status a)" by (rule ok)
  have quiet: "\<forall>t. q = Some t \<longrightarrow> (\<exists>l. ap_last_activity_at cur = Some l \<and> l \<le> t)"
    using N by (auto split: option.splits)
  let ?held = "resume_status_after (ap_status a) new (ap_resume_status a)"
  let ?a = "cur\<lparr>ap_status := new, ap_resume_status := ?held, ap_updated_at := now,
    ap_last_activity_at := (if new \<noteq> STALLED then Some now else ap_last_activity_at cur),
    ap_applied_at := (if new = APPLIED \<and> ap_applied_at a = None then Some now else ap_applied_at cur)\<rparr>"
  let ?e = "\<lparr>le_id = lf_next_id db, le_application = n, le_from = ap_status a, le_to = new,
    le_resume = ?held, le_actor = actor, le_reason = reason, le_occurred_at = now\<rparr>"
  have "update_status_write n new reason actor now q a db
    = (ret ?a, recompute_view n new (Some (le_id ?e))
         (append_event ?e (db\<lparr>lf_applications := (lf_applications db)(n \<mapsto> ?a)\<rparr>)))"
    unfolding update_status_write_def v Let_def by (simp only: sum.case cur option.case if_not_P [OF N])
  with assms have "(ret ?a :: exn + application, recompute_view n new (Some (le_id ?e))
         (append_event ?e (db\<lparr>lf_applications := (lf_applications db)(n \<mapsto> ?a)\<rparr>))) = (ret a', db')"
    by (simp only:)
  then have a': "a' = ?a" and db': "db' = recompute_view n new (Some (le_id ?e))
         (append_event ?e (db\<lparr>lf_applications := (lf_applications db)(n \<mapsto> ?a)\<rparr>))"
    by (metis prod.inject sum.inject(2))+
  have "moves n cur a' ?e db db'"
    unfolding db' a' using N by (simp add: moves_def cur recompute_view_def append_event_def)
  then show "\<exists>cur e. moves n cur a' e db db' \<and> ap_status cur = ap_status a \<and> ap_status a' = new
      \<and> ap_resume_status a' = resume_status_after (ap_status a) new (ap_resume_status a)
      \<and> ap_last_activity_at a' = (if new \<noteq> STALLED then Some now else ap_last_activity_at cur)
      \<and> (\<forall>t. q = Some t \<longrightarrow> (\<exists>l. ap_last_activity_at cur = Some l \<and> l \<le> t))"
    using quiet N by (intro exI [of _ cur] exI [of _ ?e]) (simp add: a')
qed

lemma moves_ok:
  assumes "lifecycle_ok db" and "moves n cur a' e db db'"
    and "ap_status a' \<in> allowed_application_transitions (ap_status cur) (ap_resume_status cur)"
    and "ap_resume_status a' = resume_status_after (ap_status cur) (ap_status a') (ap_resume_status cur)"
  shows "lifecycle_ok db'"
proof -
  have m: "lf_applications db n = Some cur" "le_application e = n" "le_from e = ap_status cur"
    "le_to e = ap_status a'" "le_resume e = ap_resume_status a'"
    "lf_applications db' = (lf_applications db)(n \<mapsto> a')" "lf_log db' = lf_log db @ [e]"
    "lf_view db' = (lf_view db)(n \<mapsto> \<lparr>sv_status = ap_status a', sv_last_event_id = Some (le_id e)\<rparr>)"
    using assms(2) by (simp_all add: moves_def)
  have own: "history n db' = history n db @ [e]" and other: "k \<noteq> n \<Longrightarrow> history k db' = history k db" for k
    using m(2,7) by (simp_all add: history_def)
  have "replay_event e (ap_status cur, ap_resume_status cur) = Some (ap_status a', ap_resume_status a')"
    using m assms(3,4) by (simp add: replay_event_def)
  then have here: "row_explained n db'"
    using ok_row(2) [OF assms(1) m(1)] m(4,6,8) own by (simp add: row_explained_def replay_append projected_def)
  have "row_explained k db'" if "k \<noteq> n" for k
  proof -
    have rows: "lf_applications db' k = lf_applications db k" "lf_view db' k = lf_view db k"
      using that m(6,8) by simp_all
    have "row_explained k db" using assms(1) by (simp add: lifecycle_ok_def)
    then show ?thesis unfolding row_explained_def rows other [OF that] .
  qed
  with here show ?thesis by (metis lifecycle_ok_def)
qed

text \<open>A write whose read saw the held-from status the row still has.\<close>

lemma write_ok:
  assumes "lifecycle_ok db"
    and "update_status_write n new reason actor now q a db = (res, db')"
    and "\<And>cur. lf_applications db n = Some cur \<Longrightarrow> ap_status cur = ap_status a \<Longrightarrow>
           ap_resume_status cur = ap_resume_status a"
  shows "lifecycle_ok db'"
proof (cases res)
  case (Inl e)
  with assms(1,2) update_status_write_raise show ?thesis by metis
next
  case (Inr a')
  with assms(2) have w: "update_status_write n new reason actor now q a db = (ret a', db')" by simp
  obtain cur e where c: "moves n cur a' e db db'" "ap_status cur = ap_status a" "ap_status a' = new"
    "ap_resume_status a' = resume_status_after (ap_status a) new (ap_resume_status a)"
    using update_status_write_ret(2) [OF w] by blast
  have "lf_applications db n = Some cur" using c(1) by (simp add: moves_def)
  with assms(3) c(2) have "ap_resume_status cur = ap_resume_status a" by simp
  with c update_status_write_ret(1) [OF w] show ?thesis by (intro moves_ok [OF assms(1) c(1)]) simp_all
qed

lemma update_status_read:
  assumes "lf_applications db n = Some a"
  shows "update_status race n new reason actor now q db =
    (if new \<in> allowed_application_transitions (ap_status a) (ap_resume_status a)
     then update_status_write n new reason actor now q a (race db)
     else (raise (invalid_transition (''cannot transition application from ''
             @ status_value (ap_status a) @ '' to '' @ status_value new)), db))"
  using assms by (simp add: update_status_def validate_application_status_transition_def)

lemma update_status_missing:
  "lf_applications db n = None \<Longrightarrow>
   update_status race n new reason actor now q db = (raise application_not_found, db)"
  by (simp add: update_status_def)

lemma update_status_ok:
  assumes ok: "lifecycle_ok db" and race: "lifecycle_ok (race db)"
    and same: "\<And>a cur. lf_applications db n = Some a \<Longrightarrow> lf_applications (race db) n = Some cur \<Longrightarrow>
      ap_status cur = ap_status a \<Longrightarrow> ap_resume_status cur = ap_resume_status a"
    and run: "update_status race n new reason actor now q db = (res, db')"
  shows "lifecycle_ok db'"
proof (cases "lf_applications db n")
  case None
  with run ok show ?thesis by (simp add: update_status_missing)
next
  case (Some a)
  show ?thesis
  proof (cases "new \<in> allowed_application_transitions (ap_status a) (ap_resume_status a)")
    case True
    with run Some have "update_status_write n new reason actor now q a (race db) = (res, db')"
      by (simp add: update_status_read)
    then show ?thesis using same [OF Some] by (rule write_ok [OF race])
  next
    case False
    with run Some ok show ?thesis by (simp add: update_status_read)
  qed
qed

lemma update_status_alone_ok:
  assumes "lifecycle_ok db" and run: "update_status (\<lambda>d. d) n new reason actor now q db = (res, db')"
  shows "lifecycle_ok db'"
  by (rule update_status_ok [OF assms(1) _ _ run]) (use assms(1) in simp_all)

lemma transition_ok:
  "lifecycle_ok db \<Longrightarrow> transition (\<lambda>d. d) n new reason actor now db = (res, db') \<Longrightarrow> lifecycle_ok db'"
  by (auto simp: transition_def dest: update_status_alone_ok split: prod.splits sum.splits)

lemma bump_ok:
  assumes "lifecycle_ok db" and "lf_applications db n = Some a"
  shows "lifecycle_ok (db\<lparr>lf_applications := (lf_applications db)(n \<mapsto> a\<lparr>ap_last_activity_at := t\<rparr>)\<rparr>)"
    (is "lifecycle_ok ?db")
proof -
  have h: "history k ?db = history k db" "lf_view ?db = lf_view db" for k
    by (simp_all add: history_def)
  have "row_explained k ?db" for k
  proof (cases "k = n")
    case True
    have "row_explained n db" using assms(1) by (simp add: lifecycle_ok_def)
    with True assms(2) show ?thesis unfolding row_explained_def h by simp
  next
    case False
    have "lf_applications ?db k = lf_applications db k" using False by simp
    moreover have "row_explained k db" using assms(1) by (simp add: lifecycle_ok_def)
    ultimately show ?thesis unfolding row_explained_def h by simp
  qed
  then show ?thesis by (simp add: lifecycle_ok_def)
qed

lemma activity_loop_ok:
  assumes "lifecycle_ok db"
    and "activity_loop (replicate k (\<lambda>d. d, \<lambda>d. d)) n reason now db = (res, db')"
  shows "lifecycle_ok db'"
  using assms
proof (induction k arbitrary: db)
  case (Suc k)
  show ?case
  proof (cases "lf_applications db n")
    case None
    with Suc.prems show ?thesis by (simp add: lifecycle_get_def)
  next
    case (Some a)
    then have get: "lifecycle_get n db = Some (to_state db n a)" by (simp add: lifecycle_get_def)
    show ?thesis
    proof (cases "ls_status (to_state db n a) = STALLED \<and> ls_resume_status (to_state db n a) \<noteq> None")
      case True
      obtain r d where t: "transition (\<lambda>d. d) n (the (ls_resume_status (to_state db n a)))
          (Some (reason_or ''activity resumed'' reason)) ''system'' now db = (r, d)"
        by (metis prod.collapse)
      have d: "lifecycle_ok d" by (rule transition_ok [OF Suc.prems(1) t])
      with Suc.prems(2) Suc.IH [OF d] show ?thesis
        by (auto simp: get True t split: sum.splits if_splits)
    next
      case False
      with Suc.prems bump_ok [OF Suc.prems(1) Some] show ?thesis
        by (auto simp: get Let_def Some to_state_def)
    qed
  qed
qed simp

lemma record_activity_ok:
  "lifecycle_ok db \<Longrightarrow>
   record_activity (\<lambda>d. d, \<lambda>d. d) (\<lambda>d. d, \<lambda>d. d) n reason now db = (res, db') \<Longrightarrow> lifecycle_ok db'"
  using activity_loop_ok [of db 2] by (simp add: record_activity_def numeral_2_eq_2)

lemma mark_stalled_ok:
  "lifecycle_ok db \<Longrightarrow> mark_stalled (\<lambda>d. d) n q now db = (res, db') \<Longrightarrow> lifecycle_ok db'"
  by (auto simp: mark_stalled_def dest: update_status_alone_ok split: prod.splits sum.splits if_splits)

lemma sweep_loop_ok:
  "lifecycle_ok db \<Longrightarrow> sweep_loop (\<lambda>_ d. d) c now ns rep db = (res, db') \<Longrightarrow> lifecycle_ok db'"
proof (induction ns arbitrary: rep db)
  case (Cons n ns)
  obtain r d where m: "mark_stalled (\<lambda>d. d) n c now db = (r, d)" by (metis prod.collapse)
  have d: "lifecycle_ok d" by (rule mark_stalled_ok [OF Cons.prems(1) m])
  show ?case
  proof (cases r)
    case (Inl e)
    with Cons.prems(2) m d show ?thesis by simp
  next
    case (Inr b)
    with Cons.prems(2) m Cons.IH [OF d] show ?thesis by (cases b) auto
  qed
qed simp

lemma create_ok:
  assumes "lifecycle_ok db" and "application_create n now db = ret db'"
  shows "lifecycle_ok db'"
proof -
  have none: "lf_applications db n = None"
    and db': "db' = db\<lparr>lf_applications := (lf_applications db)(n \<mapsto> \<lparr>ap_status = DISCOVERED,
        ap_resume_status = None, ap_last_activity_at = Some now, ap_applied_at = None,
        ap_updated_at = now\<rparr>)\<rparr>"
    using assms(2) by (auto simp: application_create_def split: if_splits)
  have h: "history k db' = history k db" "lf_view db' = lf_view db" for k
    by (simp_all add: history_def db')
  have "row_explained k db'" for k
  proof (cases "k = n")
    case True
    have "row_explained n db" using assms(1) by (simp add: lifecycle_ok_def)
    with none have "history n db = []" "lf_view db n = None" by (simp_all add: row_explained_def projected_def)
    with True show ?thesis unfolding row_explained_def h by (simp add: db' projected_def)
  next
    case False
    have "lf_applications db' k = lf_applications db k" using False by (simp add: db')
    moreover have "row_explained k db" using assms(1) by (simp add: lifecycle_ok_def)
    ultimately show ?thesis unfolding row_explained_def h by simp
  qed
  then show ?thesis by (simp add: lifecycle_ok_def)
qed

section \<open>What the lifecycle guarantees\<close>

text \<open>The operations one process runs on the lifecycle, and a run of them on an empty database.\<close>

datatype lifecycle_command =
  Create uuid datetime
| Move uuid application_status "string option" string datetime
| Recommend recommendation string datetime
| Activity uuid "string option" datetime
| Sweep seconds "uuid list" nat datetime

fun lifecycle_perform :: "lifecycle_command \<Rightarrow> lifecycle_db \<Rightarrow> lifecycle_db" where
  "lifecycle_perform (Create n now) db =
     (case application_create n now db of Inl _ \<Rightarrow> db | Inr db' \<Rightarrow> db')"
| "lifecycle_perform (Move n new reason actor now) db =
     snd (transition (\<lambda>d. d) n new reason actor now db)"
| "lifecycle_perform (Recommend r actor now) db = snd (recommend (\<lambda>d. d) r actor now db)"
| "lifecycle_perform (Activity n reason now) db =
     snd (record_activity (\<lambda>d. d, \<lambda>d. d) (\<lambda>d. d, \<lambda>d. d) n reason now db)"
| "lifecycle_perform (Sweep win known limit now) db = snd (sweep (\<lambda>_ d. d) win known limit now db)"

definition lifecycle_run :: "lifecycle_command list \<Rightarrow> lifecycle_db \<Rightarrow> lifecycle_db" where
  "lifecycle_run cs db = fold lifecycle_perform cs db"

definition empty_lifecycle :: lifecycle_db where
  "empty_lifecycle = \<lparr>lf_applications = Map.empty, lf_log = [], lf_view = Map.empty, lf_next_id = 0\<rparr>"

lemma lifecycle_perform_ok: "lifecycle_ok db \<Longrightarrow> lifecycle_ok (lifecycle_perform c db)"
proof (cases c)
  case (Create n now)
  then show "lifecycle_ok db \<Longrightarrow> ?thesis" using create_ok by (auto split: sum.split)
next
  case (Move n new reason actor now)
  then show "lifecycle_ok db \<Longrightarrow> ?thesis" using transition_ok by (metis lifecycle_perform.simps(2) prod.collapse)
next
  case (Recommend r actor now)
  then show "lifecycle_ok db \<Longrightarrow> ?thesis" using transition_ok
    by (simp add: recommend_def split: sum.split) (metis prod.collapse)
next
  case (Activity n reason now)
  then show "lifecycle_ok db \<Longrightarrow> ?thesis" using record_activity_ok
    by (metis lifecycle_perform.simps(4) prod.collapse)
next
  case (Sweep win known limit now)
  then show "lifecycle_ok db \<Longrightarrow> ?thesis" using sweep_loop_ok
    by (metis lifecycle_perform.simps(5) sweep_def prod.collapse)
qed

lemma empty_lifecycle_ok: "lifecycle_ok empty_lifecycle"
  by (simp add: lifecycle_ok_def row_explained_def empty_lifecycle_def history_def projected_def)

lemma run_ok: "lifecycle_ok db \<Longrightarrow> lifecycle_ok (lifecycle_run cs db)"
  unfolding lifecycle_run_def by (induction cs arbitrary: db) (simp_all add: lifecycle_perform_ok)


text \<open>
  Of two writers that read the same row, at most one moves it: once the first one's move is
  committed, the second one's write raises and changes nothing, whatever move it wanted.
\<close>

theorem one_writer_moves:
  assumes "lf_applications db n = Some a"
    and "update_status_write n new reason actor now q a db = (ret b, db1)"
  shows "\<exists>e. update_status_write n new' reason' actor' now' q' a db1 = (raise e, db1)"
proof -
  from update_status_write_ret(2) [OF assms(2)] obtain cur e where
    m: "moves n cur b e db db1" "ap_status b = new" by blast
  have "new \<noteq> ap_status a" by (rule move_changes [OF update_status_write_ret(1) [OF assms(2)]])
  moreover have row: "lf_applications db1 n = Some b" using m(1) by (simp add: moves_def)
  ultimately have "ap_status b \<noteq> ap_status a" using m(2) by simp
  with row show ?thesis
    by (auto simp: update_status_write_def Let_def split: sum.split)
qed

text \<open>
  The stall check only stalls what is still quiet. If \<open>mark_stalled\<close> returns True, the row,
  as it stood when it was written, was in a status that may stall and had been quiet since the
  cutoff, and stalling it left its activity date alone; if it returns False it wrote nothing.
\<close>

theorem only_quiet_applications_stall:
  assumes ok: "lifecycle_ok db" and run: "mark_stalled race n cutoff now db = (ret b, db')"
  shows "if b
    then \<exists>cur a' l. lf_applications (race db) n = Some cur \<and> ap_last_activity_at cur = Some l
      \<and> l \<le> cutoff \<and> ap_status cur \<in> STALLABLE_APPLICATION_STATUSES
      \<and> lf_applications db' n = Some a' \<and> ap_status a' = STALLED \<and> ap_last_activity_at a' = Some l
    else db' = db \<or> db' = race db"
proof -
  obtain res d where u: "update_status race n STALLED (Some ''no activity'') STALL_MONITOR_ACTOR now
      (Some cutoff) db = (res, d)" by (metis prod.collapse)
  have d: "db' = d" and b: "b \<longleftrightarrow> (\<exists>x. res = ret x)"
    using run u by (auto simp: mark_stalled_def split: sum.splits if_splits)
  show ?thesis
  proof (cases "lf_applications db n")
    case None
    with u have "res = raise application_not_found" "d = db" by (simp_all add: update_status_missing)
    with d b show ?thesis by simp
  next
    case (Some a)
    show ?thesis
    proof (cases res)
      case (Inr a')
      with u Some have w: "update_status_write n STALLED (Some ''no activity'') STALL_MONITOR_ACTOR now
          (Some cutoff) a (race db) = (ret a', d)" by (auto simp: update_status_read split: if_splits)
      obtain cur e l where c: "moves n cur a' e (race db) d" "ap_status cur = ap_status a"
        "ap_status a' = STALLED" "ap_last_activity_at a' = ap_last_activity_at cur"
        "ap_last_activity_at cur = Some l" "l \<le> cutoff"
        using update_status_write_ret(2) [OF w] by fastforce
      have "ap_status a \<in> STALLABLE_APPLICATION_STATUSES"
        using update_status_write_ret(1) [OF w] move_changes [OF update_status_write_ret(1) [OF w]]
        unfolding stallable_statuses
        by (cases "ap_status a") (auto simp: allowed_application_transitions_def status_sets)
      with c b Inr d show ?thesis by (auto simp: moves_def)
    next
      case (Inl e)
      with u Some have "d = db \<or> d = race db"
        by (auto simp: update_status_read dest: update_status_write_raise split: if_splits)
      with b Inl d show ?thesis by auto
    qed
  qed
qed

definition now_active :: "uuid \<Rightarrow> datetime \<Rightarrow> lifecycle_state \<Rightarrow> lifecycle_db \<Rightarrow> bool" where
  "now_active n now st db \<longleftrightarrow> ls_last_activity_at st = now
     \<and> (\<exists>a. lf_applications db n = Some a \<and> ap_last_activity_at a = Some now \<and> ap_status a \<noteq> STALLED)"

lemma transition_active:
  assumes run: "transition race n r reason actor now db = (ret st, db')"
    and r: "r \<noteq> STALLED"
  shows "now_active n now st db'"
proof -
  obtain a where a: "lf_applications db n = Some a"
    using run by (cases "lf_applications db n") (auto simp: transition_def update_status_missing)
  obtain b where w: "update_status_write n r reason actor now None a (race db) = (ret b, db')"
    and st: "st = to_state db' n b"
    using run by (auto simp: transition_def update_status_read [OF a]
        split: prod.splits sum.splits if_splits)
  from update_status_write_ret(2) [OF w] r obtain cur e where
    "moves n cur b e (race db) db'" "ap_status b = r" "ap_last_activity_at b = Some now"
    by auto
  with r st show ?thesis by (auto simp: now_active_def moves_def to_state_def)
qed

lemma transition_raise:
  "transition race n r reason actor now db = (raise e, db') \<Longrightarrow> db' = db \<or> db' = race db"
  by (cases "lf_applications db n")
    (auto simp: transition_def update_status_read update_status_missing
      dest!: update_status_write_raise split: prod.splits sum.splits if_splits)

lemma activity_pass:
  assumes ok: "lifecycle_ok db"
    and run: "activity_loop ((race, race') # ps) n reason now db = (ret st, db')"
  shows "now_active n now st db'
    \<or> (\<exists>d. activity_loop ps n reason now d = (ret st, db')
         \<and> (d = race db \<or> d = race' (race db)))"
proof -
  obtain a where a: "lf_applications db n = Some a"
    using run by (cases "lf_applications db n") (auto simp: lifecycle_get_def)
  then have get: "lifecycle_get n db = Some (to_state db n a)" by (simp add: lifecycle_get_def)
  have state: "ls_status (to_state db n a) = ap_status a"
    "ls_resume_status (to_state db n a) = ap_resume_status a" by (simp_all add: to_state_def)
  show ?thesis
  proof (cases "ap_status a = STALLED \<and> ap_resume_status a \<noteq> None")
    case True
    then obtain r where r: "ap_resume_status a = Some r" by blast
    have active: "r \<noteq> STALLED" using ok_row(1) [OF ok a] True r
      by (auto simp: held_ok_def status_sets split: if_splits)
    obtain res d where t: "transition race' n r (Some (reason_or ''activity resumed'' reason))
        ''system'' now (race db) = (res, d)" by (metis prod.collapse)
    show ?thesis
    proof (cases res)
      case (Inr st')
      with run get True state r t have "st' = st" "d = db'" by auto
      with t Inr transition_active [OF _ active] show ?thesis by blast
    next
      case (Inl e)
      then have "activity_loop ps n reason now d = (ret st, db')"
        using run get True state r t by (auto split: if_splits)
      with transition_raise [of race'] t Inl show ?thesis by blast
    qed
  next
    case False
    then have quiet: "ap_status a \<noteq> STALLED"
      using ok_row(1) [OF ok a] by (auto simp: held_ok_def status_sets split: option.splits)
    with run get False state show ?thesis
      by (cases "lf_applications (race db) n") (auto simp: now_active_def Let_def split: if_splits)
  qed
qed

text \<open>
  Activity restarts the stall window. Whatever else is committed meanwhile, as long as it
  keeps the database explained, a \<open>record_activity\<close> that returns leaves the application out of
  STALLED and last active now.
\<close>

theorem activity_restarts_the_window:
  assumes ok: "lifecycle_ok db"
    and races: "\<And>d. lifecycle_ok d \<Longrightarrow> lifecycle_ok (r1 d) \<and> lifecycle_ok (r1' d)
                 \<and> lifecycle_ok (r2 d) \<and> lifecycle_ok (r2' d)"
    and run: "record_activity (r1, r1') (r2, r2') n reason now db = (ret st, db')"
  shows "ls_last_activity_at st = now
    \<and> (\<exists>a. lf_applications db' n = Some a \<and> ap_last_activity_at a = Some now \<and> ap_status a \<noteq> STALLED)"
proof -
  have r1: "lifecycle_ok (r1 db)" "lifecycle_ok (r1' (r1 db))" using races ok by blast+
  from activity_pass [OF ok run [unfolded record_activity_def]]
  consider (first) "now_active n now st db'"
    | (again) d where "activity_loop [(r2, r2')] n reason now d = (ret st, db')"
        "d = r1 db \<or> d = r1' (r1 db)" by blast
  then have "now_active n now st db'"
  proof cases
    case first
    then show ?thesis .
  next
    case again
    then have "lifecycle_ok d" using r1 by blast
    from activity_pass [OF this again(1)] show ?thesis by auto
  qed
  then show ?thesis by (simp add: now_active_def)
qed

section \<open>A sweep with nobody else writing\<close>

definition is_quiet :: "datetime \<Rightarrow> uuid \<Rightarrow> lifecycle_db \<Rightarrow> bool" where
  "is_quiet cutoff n db \<longleftrightarrow>
     (\<exists>a l. lf_applications db n = Some a \<and> ap_status a \<in> STALLABLE_APPLICATION_STATUSES
        \<and> ap_last_activity_at a = Some l \<and> l \<le> cutoff)"

definition quiet_entry :: "datetime \<Rightarrow> lifecycle_db \<Rightarrow> uuid \<Rightarrow> (datetime \<times> uuid) option" where
  "quiet_entry cutoff db n =
     (case lf_applications db n of
        None \<Rightarrow> None
      | Some a \<Rightarrow>
          (case ap_last_activity_at a of
             None \<Rightarrow> None
           | Some t \<Rightarrow> if ap_status a \<in> STALLABLE_APPLICATION_STATUSES \<and> t \<le> cutoff
                       then Some (t, n) else None))"

lemma quiet_entry_None: "quiet_entry cutoff db n = None \<longleftrightarrow> \<not> is_quiet cutoff n db"
  by (auto simp: quiet_entry_def is_quiet_def split: option.splits if_splits)

lemma quiet_entry_Some: "quiet_entry cutoff db n = Some e \<Longrightarrow> snd e = n \<and> is_quiet cutoff n db"
  by (auto simp: quiet_entry_def is_quiet_def split: option.splits if_splits)

lemma quiet_entries:
  "map snd (List.map_filter (quiet_entry cutoff db) known) = filter (\<lambda>n. is_quiet cutoff n db) known"
proof (induction known)
  case (Cons n ns)
  then show ?case
    using quiet_entry_None [of cutoff db n] quiet_entry_Some [of cutoff db n]
    by (cases "quiet_entry cutoff db n") (simp_all add: List.map_filter_simps)
qed (simp add: List.map_filter_simps)

lemma quiet_ids_entries:
  "quiet_ids known cutoff limit db
   = take limit (map snd (sort (List.map_filter (quiet_entry cutoff db) known)))"
  by (simp add: quiet_ids_def quiet_entry_def [abs_def])

lemma quiet_ids_mset:
  "mset (map snd (sort (List.map_filter (quiet_entry cutoff db) known)))
   = mset (filter (\<lambda>n. is_quiet cutoff n db) known)"
  by (simp only: mset_map mset_sort) (simp only: mset_map [symmetric] quiet_entries)

lemma quiet_ids_quiet: "n \<in> set (quiet_ids known cutoff limit db) \<Longrightarrow> n \<in> set known \<and> is_quiet cutoff n db"
  using mset_eq_setD [OF quiet_ids_mset [of cutoff db known]]
  by (auto simp: quiet_ids_entries dest!: in_set_takeD)

lemma quiet_ids_distinct: "distinct known \<Longrightarrow> distinct (quiet_ids known cutoff limit db)"
  using mset_eq_imp_distinct_iff [OF quiet_ids_mset [of cutoff db known]]
  by (simp add: quiet_ids_entries)

lemma quiet_ids_all:
  assumes "length known \<le> limit"
  shows "set (quiet_ids known cutoff limit db) = {n \<in> set known. is_quiet cutoff n db}"
proof -
  have "length (map snd (sort (List.map_filter (quiet_entry cutoff db) known))) \<le> limit"
    using mset_eq_length [OF quiet_ids_mset [of cutoff db known]] assms
    by (metis le_trans length_filter_le)
  then have "quiet_ids known cutoff limit db = map snd (sort (List.map_filter (quiet_entry cutoff db) known))"
    by (simp add: quiet_ids_entries)
  with mset_eq_setD [OF quiet_ids_mset [of cutoff db known]] show ?thesis by auto
qed

lemma mark_stalled_alone:
  assumes ok: "lifecycle_ok db" and quiet: "is_quiet cutoff n db"
  shows "\<exists>a' db'. mark_stalled (\<lambda>d. d) n cutoff now db = (ret True, db')
    \<and> lf_applications db' = (lf_applications db)(n \<mapsto> a') \<and> ap_status a' = STALLED"
proof -
  from quiet obtain a l where a: "lf_applications db n = Some a" "ap_last_activity_at a = Some l"
    "l \<le> cutoff" "ap_status a \<in> STALLABLE_APPLICATION_STATUSES" unfolding is_quiet_def by blast
  have allowed: "STALLED \<in> allowed_application_transitions (ap_status a) (ap_resume_status a)"
  proof (cases "ap_status a = FOLLOW_UP_PENDING")
    case True
    then obtain q where "ap_resume_status a = Some q" "q \<notin> HOLDING_APPLICATION_STATUSES"
      "FOLLOW_UP_PENDING \<in> table_row q"
      using ok_row(1) [OF ok a(1)]
      by (auto simp: held_ok_def HOLDING_APPLICATION_STATUSES_def split: option.splits)
    then show ?thesis
      by (cases q) (simp_all add: True allowed_application_transitions_def status_sets)
  next
    case False
    with a(4) show ?thesis
      by (cases "ap_status a")
        (simp_all add: stallable_statuses allowed_application_transitions_def status_sets)
  qed
  let ?u = "update_status_write n STALLED (Some ''no activity'') STALL_MONITOR_ACTOR now (Some cutoff) a db"
  obtain res db' where u: "?u = (res, db')" by (metis prod.collapse)
  have "\<exists>a'. res = ret a'"
    using u a allowed
    by (auto simp: update_status_write_def validate_application_status_transition_def Let_def)
  then obtain a' where "?u = (ret a', db')" using u by blast
  from update_status_write_ret(2) [OF this] obtain cur e where
    "moves n cur a' e db db'" "ap_status a' = STALLED" by blast
  with \<open>?u = (ret a', db')\<close> a(1) allowed show ?thesis
    by (auto simp: mark_stalled_def update_status_read moves_def)
qed

lemma sweep_loop_alone:
  assumes "lifecycle_ok db" and "distinct ns" and "\<forall>n \<in> set ns. is_quiet cutoff n db"
  shows "\<exists>db'. sweep_loop (\<lambda>_ d. d) cutoff now ns rep db
      = (ret (rep\<lparr>sr_stalled := sr_stalled rep @ ns\<rparr>), db')
    \<and> (\<forall>n \<in> set ns. \<exists>a'. lf_applications db' n = Some a' \<and> ap_status a' = STALLED)
    \<and> (\<forall>n. n \<notin> set ns \<longrightarrow> lf_applications db' n = lf_applications db n)"
  using assms
proof (induction ns arbitrary: rep db)
  case (Cons n ns)
  then obtain a' d where d: "mark_stalled (\<lambda>d. d) n cutoff now db = (ret True, d)"
    "lf_applications d = (lf_applications db)(n \<mapsto> a')" "ap_status a' = STALLED"
    using mark_stalled_alone [OF Cons.prems(1), of cutoff n now] by auto
  have quiet: "\<forall>k \<in> set ns. is_quiet cutoff k d"
    using Cons.prems(2,3) d(2) by (auto simp: is_quiet_def)
  have dist: "distinct ns" using Cons.prems(2) by simp
  let ?rep = "rep\<lparr>sr_stalled := sr_stalled rep @ [n]\<rparr>"
  obtain db' where db': "sweep_loop (\<lambda>_ d. d) cutoff now ns ?rep d
      = (ret (?rep\<lparr>sr_stalled := sr_stalled ?rep @ ns\<rparr>), db')"
    "\<forall>k \<in> set ns. \<exists>a'. lf_applications db' k = Some a' \<and> ap_status a' = STALLED"
    "\<forall>k. k \<notin> set ns \<longrightarrow> lf_applications db' k = lf_applications d k"
    using Cons.IH [OF mark_stalled_ok [OF Cons.prems(1) d(1)] dist quiet, of ?rep] by blast
  have n: "lf_applications db' n = Some a'" using db'(3) Cons.prems(2) d(2) by simp
  show ?case
  proof (intro exI [of _ db'] conjI ballI allI impI)
    show "sweep_loop (\<lambda>_ d. d) cutoff now (n # ns) rep db
        = (ret (rep\<lparr>sr_stalled := sr_stalled rep @ n # ns\<rparr>), db')"
      using d(1) db'(1) by simp
    show "\<exists>a'. lf_applications db' k = Some a' \<and> ap_status a' = STALLED" if "k \<in> set (n # ns)" for k
      using that n d(3) db'(2) by (cases "k = n") auto
    show "lf_applications db' k = lf_applications db k" if "k \<notin> set (n # ns)" for k
      using that db'(3) d(2) by simp
  qed
qed simp

text \<open>
  A sweep stalls exactly the applications that went quiet. With no other writer, the report
  lists the quiet applications it selected, each of them is STALLED afterwards, every other
  application is as it was, and when the limit covers the table a second sweep at the same
  moment finds nothing.
\<close>

theorem sweep_stalls_the_quiet:
  assumes ok: "lifecycle_ok db" and known: "distinct known"
    and run: "sweep (\<lambda>_ d. d) win known limit now db = (res, db')"
  shows "res = ret \<lparr>sr_stalled = quiet_ids known (now - win) limit db, sr_skipped = []\<rparr>
    \<and> (\<forall>n. if n \<in> set (quiet_ids known (now - win) limit db)
           then is_quiet (now - win) n db \<and> (\<exists>a. lf_applications db' n = Some a \<and> ap_status a = STALLED)
           else lf_applications db' n = lf_applications db n)
    \<and> (length known \<le> limit \<longrightarrow> quiet_ids known (now - win) limit db' = [])"
proof -
  let ?ns = "quiet_ids known (now - win) limit db"
  have quiet: "\<forall>n \<in> set ?ns. is_quiet (now - win) n db" using quiet_ids_quiet by blast
  obtain d where d: "sweep_loop (\<lambda>_ d. d) (now - win) now ?ns \<lparr>sr_stalled = [], sr_skipped = []\<rparr> db
      = (ret \<lparr>sr_stalled = ?ns, sr_skipped = []\<rparr>, d)"
    "\<forall>n \<in> set ?ns. \<exists>a'. lf_applications d n = Some a' \<and> ap_status a' = STALLED"
    "\<forall>n. n \<notin> set ?ns \<longrightarrow> lf_applications d n = lf_applications db n"
    using sweep_loop_alone [OF ok quiet_ids_distinct [OF known] quiet,
        of now "\<lparr>sr_stalled = [], sr_skipped = []\<rparr>"] by auto
  have res: "res = ret \<lparr>sr_stalled = ?ns, sr_skipped = []\<rparr>" "db' = d"
    using run d(1) by (simp_all add: sweep_def)
  have "quiet_ids known (now - win) limit db' = []" if "length known \<le> limit"
  proof -
    have "\<not> is_quiet (now - win) n d" if "n \<in> set known" for n
    proof (cases "n \<in> set ?ns")
      case True
      with d(2) show ?thesis by (auto simp: is_quiet_def stallable_statuses)
    next
      case False
      with quiet_ids_all [OF \<open>length known \<le> limit\<close>] that d(3) show ?thesis
        by (auto simp: is_quiet_def)
    qed
    then have "set (quiet_ids known (now - win) limit d) = {}"
      unfolding quiet_ids_all [OF that] by blast
    with res(2) show ?thesis by simp
  qed
  with res d(2,3) quiet show ?thesis by simp
qed

section \<open>Recommendations, and a stale read of a held application\<close>

text \<open>
  A recommendation never sets a status. It moves an application only to a status its text
  names, other than STALLED, that the lifecycle allows from the stored row; anything else
  raises and leaves the database to the other writers.
\<close>

theorem recommendations_are_validated:
  assumes run: "recommend race r actor now db = (res, db')"
  shows "case res of
      Inr st \<Rightarrow> (\<exists>a s. lf_applications db (rcm_application_id r) = Some a
        \<and> application_status_of (lower (strip (rcm_to r))) = Some s \<and> s \<noteq> STALLED
        \<and> s \<in> allowed_application_transitions (ap_status a) (ap_resume_status a)
        \<and> map_option ap_status (lf_applications db' (rcm_application_id r)) = Some s
        \<and> ls_status st = s)
    | Inl e \<Rightarrow> db' = db \<or> db' = race db"
proof (cases "parse_recommended_status r")
  case (Inl e)
  with run show ?thesis by (auto simp: recommend_def)
next
  case (Inr s)
  then have s: "application_status_of (lower (strip (rcm_to r))) = Some s" "s \<noteq> STALLED"
    by (auto simp: parse_recommended_status_def split: option.splits if_splits)
  let ?n = "rcm_application_id r"
  obtain u d where u: "update_status race ?n s (rcm_reason r) actor now None db = (u, d)"
    by (metis prod.collapse)
  have d: "db' = d" using run Inr u by (auto simp: recommend_def transition_def split: sum.splits)
  show ?thesis
  proof (cases u)
    case (Inl e)
    with u have "d = db \<or> d = race db"
      by (cases "lf_applications db ?n")
        (auto simp: update_status_missing update_status_read dest: update_status_write_raise split: if_splits)
    with run \<open>parse_recommended_status r = Inr s\<close> u Inl d show ?thesis
      by (auto simp: recommend_def transition_def)
  next
    case (Inr b)
    then obtain a where a: "lf_applications db ?n = Some a"
      using u by (cases "lf_applications db ?n") (auto simp: update_status_missing)
    with u Inr have ok: "s \<in> allowed_application_transitions (ap_status a) (ap_resume_status a)"
      and w: "update_status_write ?n s (rcm_reason r) actor now None a (race db) = (ret b, d)"
      by (auto simp: update_status_read split: if_splits)
    from update_status_write_ret(2) [OF w] obtain cur e where
      "moves ?n cur b e (race db) d" "ap_status b = s" by blast
    moreover have "res = ret (to_state d ?n b)"
      using run \<open>parse_recommended_status r = Inr s\<close> u Inr by (auto simp: recommend_def transition_def)
    ultimately show ?thesis using a ok s d by (simp add: moves_def to_state_def)
  qed
qed

definition stale_setup :: "lifecycle_command list" where
  "stale_setup = [Create 1 0, Move 1 SAVED None ''u'' 1, Move 1 PREPARING None ''u'' 2,
     Move 1 READY_TO_APPLY None ''u'' 3, Move 1 APPLIED None ''u'' 4, Move 1 STALLED None ''u'' 5]"

definition stale_race :: "lifecycle_db \<Rightarrow> lifecycle_db" where
  "stale_race = lifecycle_run [Move 1 INTERVIEWING None ''u'' 6, Move 1 STALLED None ''u'' 7]"

lemmas lifecycle_eval =
  lifecycle_run_def application_create_def transition_def update_status_def
  update_status_write_def validate_application_status_transition_def
  allowed_application_transitions_def resume_status_after_def status_sets append_event_def
  recompute_view_def Let_def empty_lifecycle_def

lemma stale_setup_row:
  "\<exists>a. lf_applications (lifecycle_run stale_setup empty_lifecycle) 1 = Some a
     \<and> ap_status a = STALLED \<and> ap_resume_status a = Some APPLIED"
  by (simp add: stale_setup_def lifecycle_eval)

text \<open>
  The guard on the status alone misses a change of where an application is held from. A
  writer reads an application stalled from APPLIED; before it writes, others move it on to
  INTERVIEWING and the stall check holds it again. The write back to APPLIED still goes
  through, though from there the lifecycle does not allow it, and the history no longer
  replays.
\<close>

theorem stale_resume_moves_back:
  "\<exists>a' db' cur.
     update_status stale_race 1 APPLIED None ''worker'' 8 None (lifecycle_run stale_setup empty_lifecycle)
       = (ret a', db')
     \<and> lf_applications (stale_race (lifecycle_run stale_setup empty_lifecycle)) 1 = Some cur
     \<and> ap_status cur = STALLED \<and> ap_resume_status cur = Some INTERVIEWING
     \<and> ap_status a' = APPLIED
     \<and> APPLIED \<notin> allowed_application_transitions STALLED (Some INTERVIEWING)
     \<and> replay (history 1 db') (DISCOVERED, None) = None"
  by (simp add: stale_setup_def stale_race_def lifecycle_eval history_def replay_event_def)

section \<open>The guarantees at work\<close>

lemma stale_setup_ok: "lifecycle_ok (lifecycle_run stale_setup empty_lifecycle)"
  by (rule run_ok [OF empty_lifecycle_ok])


definition ex_applied :: lifecycle_db where
  "ex_applied = empty_lifecycle\<lparr>lf_applications := [1 \<mapsto> \<lparr>ap_status = DISCOVERED, ap_resume_status = None,
     ap_last_activity_at = Some 0, ap_applied_at = None, ap_updated_at = 0\<rparr>]\<rparr>"

theorem one_writer_moves_witness:
  "\<exists>a b db1 e. update_status_write 1 SAVED None ''u'' 1 None a ex_applied = (ret b, db1)
     \<and> update_status_write 1 SKIPPED None ''v'' 2 None a db1 = (raise e, db1)"
proof -
  obtain a where a: "lf_applications ex_applied 1 = Some a" "ap_status a = DISCOVERED"
    "ap_resume_status a = None" by (simp add: ex_applied_def)
  then obtain b db1 where w: "update_status_write 1 SAVED None ''u'' 1 None a ex_applied = (ret b, db1)"
    by (simp add: update_status_write_def validate_application_status_transition_def
        allowed_application_transitions_def status_sets Let_def)
  from one_writer_moves [OF a(1) w] w show ?thesis by blast
qed

theorem only_quiet_applications_stall_witness:
  "\<exists>b db'. mark_stalled stale_race 1 100 9 (lifecycle_run stale_setup empty_lifecycle) = (ret b, db')
     \<and> \<not> b \<and> db' \<in> {lifecycle_run stale_setup empty_lifecycle,
                        stale_race (lifecycle_run stale_setup empty_lifecycle)}"
proof -
  let ?db = "lifecycle_run stale_setup empty_lifecycle"
  obtain a where a: "lf_applications ?db 1 = Some a" "ap_status a = STALLED" "ap_resume_status a = Some APPLIED"
    using stale_setup_row by blast
  have run: "mark_stalled stale_race 1 100 9 ?db = (ret False, ?db)"
    using a by (simp add: mark_stalled_def update_status_read allowed_application_transitions_def
        status_sets invalid_transition_def isinstance_of_def)
  from only_quiet_applications_stall [OF stale_setup_ok run] run show ?thesis by auto
qed

theorem activity_restarts_the_window_witness:
  "\<exists>st db' a. record_activity (\<lambda>d. d, \<lambda>d. d) (\<lambda>d. d, \<lambda>d. d) 1 None 9
       (lifecycle_run stale_setup empty_lifecycle) = (ret st, db')
     \<and> lf_applications db' 1 = Some a \<and> ap_last_activity_at a = Some 9 \<and> ap_status a \<noteq> STALLED"
proof -
  let ?db = "lifecycle_run stale_setup empty_lifecycle"
  have "\<exists>st db'. record_activity (\<lambda>d. d, \<lambda>d. d) (\<lambda>d. d, \<lambda>d. d) 1 None 9 ?db = (ret st, db')"
    by (simp add: record_activity_def lifecycle_get_def to_state_def stale_setup_def lifecycle_eval)
  then obtain st db' where
    run: "record_activity (\<lambda>d. d, \<lambda>d. d) (\<lambda>d. d, \<lambda>d. d) 1 None 9 ?db = (ret st, db')" by blast
  from activity_restarts_the_window [OF stale_setup_ok _ run] run show ?thesis by blast
qed

theorem sweep_stalls_the_quiet_witness:
  "\<exists>res db'. sweep (\<lambda>_ d. d) 10 [1] 5 100 (lifecycle_run stale_setup empty_lifecycle) = (res, db')
     \<and> quiet_ids [1] 90 5 db' = []"
proof -
  obtain res db' where
    run: "sweep (\<lambda>_ d. d) 10 [1] 5 100 (lifecycle_run stale_setup empty_lifecycle) = (res, db')"
    by (metis prod.collapse)
  from sweep_stalls_the_quiet [OF stale_setup_ok _ run] run show ?thesis by simp
qed

theorem recommendations_are_validated_witness:
  "\<exists>st db'. recommend (\<lambda>d. d) \<lparr>rcm_application_id = 1, rcm_to = '' Saved '', rcm_reason = None\<rparr>
       ''llm'' 9 ex_applied = (ret st, db') \<and> map_option ap_status (lf_applications db' 1) = Some SAVED"
proof -
  let ?r = "\<lparr>rcm_application_id = 1, rcm_to = '' Saved '', rcm_reason = None\<rparr>"
  have named: "application_status_of (lower (strip '' Saved '')) = Some SAVED"
    by code_simp
  obtain res db' where run: "recommend (\<lambda>d. d) ?r ''llm'' 9 ex_applied = (res, db')"
    by (metis prod.collapse)
  have "\<exists>st. res = ret st"
    using run by (auto simp: recommend_def parse_recommended_status_def named transition_def
        update_status_def update_status_write_def validate_application_status_transition_def
        allowed_application_transitions_def status_sets ex_applied_def Let_def)
  with recommendations_are_validated [OF run] run show ?thesis by (auto simp: named)
qed

end
