(* ===== verification/Board.thy ===== *)
theory Board
  imports Approvals Lifecycle
begin

text \<open>
  Status changes a person asks for (\<open>personalos/domain/applications.py\<close>) and the two graph nodes
  that propose their effects and write them once the effects ran
  (\<open>propose_requested_transitions\<close>, \<open>apply_requested_transitions\<close> of
  \<open>personalos/graphs/job_search.py\<close>). \<open>show\<close> renders an id.
\<close>

section \<open>Manual transitions\<close>

datatype transition_effect = EFFECT_SUBMIT_APPLICATION | NOTIFY_RECRUITER

fun effect_value :: "transition_effect \<Rightarrow> string" where
  "effect_value EFFECT_SUBMIT_APPLICATION = ''submit_application''"
| "effect_value NOTIFY_RECRUITER = ''notify_recruiter''"

fun EFFECT_TARGETS :: "transition_effect \<Rightarrow> application_status set" where
  "EFFECT_TARGETS EFFECT_SUBMIT_APPLICATION = {APPLIED}"
| "EFFECT_TARGETS NOTIFY_RECRUITER = {WITHDRAWN, DECLINED, ACCEPTED}"

fun EFFECT_ACTION_KINDS :: "transition_effect \<Rightarrow> action_kind" where
  "EFFECT_ACTION_KINDS EFFECT_SUBMIT_APPLICATION = SUBMIT_APPLICATION"
| "EFFECT_ACTION_KINDS NOTIFY_RECRUITER = SEND_RECRUITER_MESSAGE"

definition effect_mismatch :: "transition_effect \<Rightarrow> exn" where
  "effect_mismatch ef =
     POS TransitionEffectMismatch (''effect '' @ effect_value ef @ '' does not accompany this move'') None"

definition manual_transition_targets ::
  "application_status \<Rightarrow> application_status option \<Rightarrow> application_status set" where
  "manual_transition_targets current resume = allowed_application_transitions current resume - {STALLED}"

definition check_manual_transition ::
  "application_status \<Rightarrow> application_status \<Rightarrow> application_status option \<Rightarrow>
   transition_effect option \<Rightarrow> exn + application_status" where
  "check_manual_transition current new resume ef =
     (if new = STALLED
      then raise (invalid_transition ''stalled is set by the scheduled stall check and cannot be requested'')
      else if new \<notin> manual_transition_targets current resume
      then raise (invalid_transition (''cannot transition application from '' @ status_value current
                                      @ '' to '' @ status_value new))
      else case ef of
        None \<Rightarrow> ret new
      | Some f \<Rightarrow> if new \<notin> EFFECT_TARGETS f then raise (effect_mismatch f) else ret new)"

record requested_transition =
  rt_request_id :: uuid
  rt_application_id :: uuid
  rt_from_status :: application_status
  rt_to_status :: application_status
  rt_effect :: transition_effect
  rt_reason :: "string option"
  rt_requested_by :: string
  rt_company :: string
  rt_title :: string
  rt_posting_url :: "string option"
  rt_recipient :: "string option"
  rt_message :: "string option"
  rt_attachments :: "pydict list"

definition text_or_blank :: "string option \<Rightarrow> string" where
  "text_or_blank t = (case t of None \<Rightarrow> [] | Some s \<Rightarrow> s)"

text \<open>\<open>RequestedTransition\<close>'s validator.\<close>

definition RequestedTransition_init :: "requested_transition \<Rightarrow> exn + requested_transition" where
  "RequestedTransition_init r =
     (if rt_to_status r \<notin> EFFECT_TARGETS (rt_effect r) then raise (effect_mismatch (rt_effect r))
      else if rt_effect r = NOTIFY_RECRUITER
              \<and> (strip (text_or_blank (rt_recipient r)) = [] \<or> strip (text_or_blank (rt_message r)) = [])
      then raise (POS ValidationFailed ''notifying the recruiter needs a recipient and a message'' None)
      else if rt_effect r = EFFECT_SUBMIT_APPLICATION \<and> rt_attachments r = []
      then raise (POS ValidationFailed ''there is nothing to submit'' None)
      else ret r)"

definition opt_str :: "string option \<Rightarrow> pyval" where
  "opt_str t = (case t of None \<Rightarrow> PNone | Some s \<Rightarrow> PStr s)"

definition submission_target :: "requested_transition \<Rightarrow> string" where
  "submission_target r =
     (if text_or_blank (rt_posting_url r) \<noteq> [] then text_or_blank (rt_posting_url r)
      else rt_company r @ '' / '' @ rt_title r)"

definition transition_action_intent ::
  "(uuid \<Rightarrow> string) \<Rightarrow> requested_transition \<Rightarrow> exn + action_intent" where
  "transition_action_intent show r =
     (let role = rt_title r @ '' at '' @ rt_company r;
          key = ''transition-'' @ show (rt_request_id r)
      in case rt_effect r of
        EFFECT_SUBMIT_APPLICATION \<Rightarrow>
          ActionIntent_init (rt_request_id r) (EFFECT_ACTION_KINDS (rt_effect r)) (submission_target r)
            (''Submit an application to '' @ rt_company r @ '' for '' @ rt_title r)
            [(''application_id'', PStr (show (rt_application_id r))),
             (''company'', PStr (rt_company r)), (''title'', PStr (rt_title r)),
             (''url'', opt_str (rt_posting_url r)),
             (''artifact_types'', PList (map (\<lambda>a. dict_get a ''artifact_type'') (rt_attachments r))),
             (''recipient'', PStr (submission_target r)),
             (''subject'', PStr (''Application for '' @ role)),
             (''body'', PStr (text_or_blank (rt_message r))),
             (''attachments'', PList (map PDict (rt_attachments r)))]
            key (rt_requested_by r)
      | NOTIFY_RECRUITER \<Rightarrow>
          ActionIntent_init (rt_request_id r) (EFFECT_ACTION_KINDS (rt_effect r))
            (text_or_blank (rt_recipient r))
            (''Tell '' @ text_or_blank (rt_recipient r) @ '' the application for '' @ role
             @ '' is now '' @ status_value (rt_to_status r))
            [(''application_id'', PStr (show (rt_application_id r))),
             (''to_status'', PStr (status_value (rt_to_status r))),
             (''recipient'', opt_str (rt_recipient r)), (''subject'', PStr role),
             (''body'', opt_str (rt_message r))]
            key (rt_requested_by r))"

section \<open>The graph nodes\<close>

record transition_outcome =
  to_request_id :: uuid
  to_application_id :: uuid
  to_to_status :: application_status
  to_applied :: bool
  to_detail :: "string option"

record board_state = job_state +
  bs_requested :: "requested_transition list"
  bs_outcomes :: "transition_outcome list"

type_synonym 'w transitioner =
  "uuid \<Rightarrow> application_status \<Rightarrow> string option \<Rightarrow> string \<Rightarrow> 'w \<Rightarrow> (exn + lifecycle_state) \<times> 'w"

fun all_intents :: "(uuid \<Rightarrow> string) \<Rightarrow> requested_transition list \<Rightarrow> exn + action_intent list" where
  "all_intents show [] = ret []"
| "all_intents show (r # rs) =
     (case transition_action_intent show r of
        Inl e \<Rightarrow> raise e
      | Inr i \<Rightarrow> (case all_intents show rs of Inl e \<Rightarrow> raise e | Inr is \<Rightarrow> ret (i # is)))"

definition STAGE_LIFECYCLE_TRANSITION :: string where
  "STAGE_LIFECYCLE_TRANSITION = ''lifecycle_transition''"

definition propose_requested_transitions ::
  "(uuid \<Rightarrow> string) \<Rightarrow> 'w transitioner option \<Rightarrow> board_state \<Rightarrow> exn + board_state" where
  "propose_requested_transitions show tr s =
     (case tr of
        None \<Rightarrow> raise (contract_error ''requested transitions reached a graph with no application_transitioner'')
      | Some _ \<Rightarrow>
          (case all_intents show (bs_requested s) of
             Inl e \<Rightarrow> raise e
           | Inr is \<Rightarrow> ret (s\<lparr>js_pending_actions := is, js_approval_stage := STAGE_LIFECYCLE_TRANSITION\<rparr>)))"

text \<open>The failures that leave a receipt without a status change; any other one ends the node.\<close>

fun refused_move :: "exn \<Rightarrow> bool" where
  "refused_move (POS c m ra) \<longleftrightarrow>
     isinstance (POS c m ra) ValidationFailed \<or> isinstance (POS c m ra) RetryableFailure"
| "refused_move (PY t m ra) \<longleftrightarrow> t = ''ValueError'' \<or> t = ''ValidationError''"

fun refusal_value :: "refusal_reason \<Rightarrow> string" where
  "refusal_value NO_REQUEST = ''no_approval_request''"
| "refusal_value NOT_APPROVED = ''not_approved''"
| "refusal_value DENIED_BY_USER = ''denied_by_user''"
| "refusal_value MISDIRECTED_DECISION = ''misdirected_decision''"
| "refusal_value HASH_MISMATCH = ''action_hash_mismatch''"
| "refusal_value EXPIRED = ''approval_expired''"

definition transition_outcome_for ::
  "requested_transition \<Rightarrow> bool \<Rightarrow> string option \<Rightarrow> transition_outcome" where
  "transition_outcome_for r ok why =
     \<lparr>to_request_id = rt_request_id r, to_application_id = rt_application_id r,
      to_to_status = rt_to_status r, to_applied = ok, to_detail = why\<rparr>"

definition apply_one ::
  "'w transitioner \<Rightarrow> (uuid \<rightharpoonup> action_receipt) \<Rightarrow> (uuid \<rightharpoonup> approval_refusal) \<Rightarrow>
   requested_transition \<Rightarrow> 'w \<Rightarrow> (exn + transition_outcome) \<times> 'w" where
  "apply_one tr receipts refusals r w =
     (case receipts (rt_request_id r) of
        Some receipt \<Rightarrow>
          if rc_ok receipt
          then (case tr (rt_application_id r) (rt_to_status r) (rt_reason r) (rt_requested_by r) w of
                  (Inr _, w') \<Rightarrow> (ret (transition_outcome_for r True None), w')
                | (Inl e, w') \<Rightarrow>
                    if refused_move e
                    then (ret (transition_outcome_for r False
                                 (Some (''effect ran; status not changed: '' @ exn_text e))), w')
                    else (raise e, w'))
          else (ret (transition_outcome_for r False
                       (Some (''effect failed: '' @
                          (if text_or_blank (rc_detail receipt) \<noteq> [] then text_or_blank (rc_detail receipt)
                           else ''no detail'')))), w)
      | None \<Rightarrow>
          (ret (transition_outcome_for r False
             (Some (case refusals (rt_request_id r) of
                      Some f \<Rightarrow> ''effect not run: '' @ refusal_value (rf_reason f)
                    | None \<Rightarrow> ''effect not run: no answer on record''))), w))"

fun apply_loop ::
  "'w transitioner \<Rightarrow> (uuid \<rightharpoonup> action_receipt) \<Rightarrow> (uuid \<rightharpoonup> approval_refusal) \<Rightarrow>
   requested_transition list \<Rightarrow> 'w \<Rightarrow> (exn + transition_outcome list) \<times> 'w" where
  "apply_loop tr receipts refusals [] w = (ret [], w)"
| "apply_loop tr receipts refusals (r # rs) w =
     (case apply_one tr receipts refusals r w of
        (Inl e, w1) \<Rightarrow> (raise e, w1)
      | (Inr oc, w1) \<Rightarrow>
          (case apply_loop tr receipts refusals rs w1 of
             (Inl e, w2) \<Rightarrow> (raise e, w2)
           | (Inr ocs, w2) \<Rightarrow> (ret (oc # ocs), w2)))"

definition apply_requested_transitions ::
  "'w transitioner \<Rightarrow> board_state \<Rightarrow> 'w \<Rightarrow> (exn + board_state) \<times> 'w" where
  "apply_requested_transitions tr s w =
     (case apply_loop tr (index_by rc_action_id (js_receipts s)) (index_by rf_action_id (js_refusals s))
             (bs_requested s) w of
        (Inl e, w') \<Rightarrow> (raise e, w')
      | (Inr ocs, w') \<Rightarrow> (ret (s\<lparr>bs_outcomes := bs_outcomes s @ ocs, bs_requested := []\<rparr>), w'))"

text \<open>\<open>StoreApplicationTransitioner\<close>: the lifecycle store, at the time \<open>now\<close>.\<close>

definition StoreApplicationTransitioner :: "datetime \<Rightarrow> lifecycle_db transitioner" where
  "StoreApplicationTransitioner now n new reason actor db =
     transition (\<lambda>d. d) n new reason actor now db"

section \<open>What the board guarantees\<close>

lemma manual_ret:
  "check_manual_transition c new r ef = ret x \<longleftrightarrow>
     x = new \<and> new \<noteq> STALLED \<and> new \<in> allowed_application_transitions c r
     \<and> (case ef of None \<Rightarrow> True | Some f \<Rightarrow> new \<in> EFFECT_TARGETS f)"
  by (auto simp: check_manual_transition_def manual_transition_targets_def split: option.splits)

lemma transition_alone:
  assumes "lf_applications db n = Some a"
  shows "new \<in> allowed_application_transitions (ap_status a) (ap_resume_status a) \<Longrightarrow>
      \<exists>st db'. transition (\<lambda>d. d) n new reason actor now db = (ret st, db') \<and> ls_status st = new"
    and "new \<notin> allowed_application_transitions (ap_status a) (ap_resume_status a) \<Longrightarrow>
      \<exists>e. transition (\<lambda>d. d) n new reason actor now db = (raise e, db)"
proof -
  assume new: "new \<in> allowed_application_transitions (ap_status a) (ap_resume_status a)"
  obtain u d where u: "update_status_write n new reason actor now None a db = (u, d)"
    by (metis prod.collapse)
  have "\<exists>b. u = ret b"
    using u new assms by (auto simp: update_status_write_def validate_application_status_transition_def Let_def)
  then obtain b where w: "update_status_write n new reason actor now None a db = (ret b, d)" using u by blast
  from update_status_write_ret(2) [OF w] have "ap_status b = new" by blast
  with w new show "\<exists>st db'. transition (\<lambda>d. d) n new reason actor now db = (ret st, db') \<and> ls_status st = new"
    by (simp add: transition_def update_status_read [OF assms] to_state_def)
next
  assume "new \<notin> allowed_application_transitions (ap_status a) (ap_resume_status a)"
  then show "\<exists>e. transition (\<lambda>d. d) n new reason actor now db = (raise e, db)"
    by (simp add: transition_def update_status_read [OF assms])
qed

text \<open>
  The board's early answer is the store's answer. A move a person may ask for (with an
  effect or without) is one the lifecycle store performs on that row, and one refused without
  an effect, other than STALLED, is one the store refuses too, leaving the database alone.
\<close>

theorem manual_moves_agree_with_the_store:
  assumes row: "lf_applications db n = Some a"
  shows "case check_manual_transition (ap_status a) new (ap_resume_status a) ef of
      Inr x \<Rightarrow> x = new \<and> new \<noteq> STALLED
        \<and> (\<exists>st db'. transition (\<lambda>d. d) n new reason actor now db = (ret st, db') \<and> ls_status st = new)
    | Inl e \<Rightarrow> ef = None \<and> new \<noteq> STALLED \<longrightarrow>
        (\<exists>e'. transition (\<lambda>d. d) n new reason actor now db = (raise e', db))"
proof (cases "check_manual_transition (ap_status a) new (ap_resume_status a) ef")
  case (Inr x)
  then have "x = new \<and> new \<noteq> STALLED
      \<and> new \<in> allowed_application_transitions (ap_status a) (ap_resume_status a)"
    using manual_ret by blast
  with Inr transition_alone(1) [OF row, of new] show ?thesis by simp
next
  case (Inl e)
  have "new \<notin> allowed_application_transitions (ap_status a) (ap_resume_status a)"
    if "ef = None" "new \<noteq> STALLED"
    using Inl that by (auto simp: check_manual_transition_def manual_transition_targets_def split: if_splits)
  with Inl transition_alone(2) [OF row, of new] show ?thesis by auto
qed

theorem manual_moves_agree_with_the_store_witness:
  "\<exists>st db'. transition (\<lambda>d. d) 1 SAVED None ''ada'' 3 ex_applied = (ret st, db') \<and> ls_status st = SAVED"
proof -
  obtain a where a: "lf_applications ex_applied 1 = Some a" "ap_status a = DISCOVERED"
    "ap_resume_status a = None" by (simp add: ex_applied_def)
  have "check_manual_transition DISCOVERED SAVED None None = ret SAVED"
    by (simp add: manual_ret allowed_application_transitions_def status_sets)
  with manual_moves_agree_with_the_store [where new = SAVED and ef = None, OF a(1)] a(2,3) show ?thesis by simp
qed

lemma transition_row:
  assumes "transition (\<lambda>d. d) n new reason actor now db = (u, db')"
  shows "(\<forall>k. k \<noteq> n \<longrightarrow> lf_applications db' k = lf_applications db k)
    \<and> ((\<exists>e. u = raise e) \<longrightarrow> db' = db)"
proof (cases "lf_applications db n")
  case None
  with assms show ?thesis by (auto simp: transition_def update_status_missing)
next
  case (Some a)
  obtain v d where w: "update_status (\<lambda>d. d) n new reason actor now None db = (v, d)"
    by (metis prod.collapse)
  show ?thesis
  proof (cases v)
    case (Inl e)
    with w Some have "d = db"
      by (auto simp: update_status_read dest: update_status_write_raise split: if_splits)
    with assms w Inl show ?thesis by (auto simp: transition_def)
  next
    case (Inr b)
    with w Some have "update_status_write n new reason actor now None a db = (ret b, d)"
      by (auto simp: update_status_read split: if_splits)
    from update_status_write_ret(2) [OF this] have "\<forall>k. k \<noteq> n \<longrightarrow> lf_applications d k = lf_applications db k"
      by (auto simp: moves_def)
    with assms w Inr show ?thesis by (auto simp: transition_def)
  qed
qed

definition effect_ran :: "(uuid \<rightharpoonup> action_receipt) \<Rightarrow> requested_transition \<Rightarrow> bool" where
  "effect_ran receipts r \<longleftrightarrow> (\<exists>rc. receipts (rt_request_id r) = Some rc \<and> rc_ok rc)"

lemma apply_one_store:
  assumes "apply_one (StoreApplicationTransitioner now) receipts refusals r db = (res, db')"
  shows "(\<forall>k. lf_applications db' k \<noteq> lf_applications db k \<longrightarrow>
        k = rt_application_id r \<and> effect_ran receipts r \<and> (\<exists>oc. res = ret oc \<and> to_applied oc))
    \<and> (\<forall>oc. res = ret oc \<longrightarrow> to_request_id oc = rt_request_id r \<and> (to_applied oc \<longrightarrow> effect_ran receipts r))
    \<and> (lifecycle_ok db \<longrightarrow> lifecycle_ok db')"
proof (cases "receipts (rt_request_id r)")
  case None
  with assms show ?thesis by (auto simp: apply_one_def transition_outcome_for_def)
next
  case (Some rc)
  show ?thesis
  proof (cases "rc_ok rc")
    case False
    with assms Some show ?thesis by (auto simp: apply_one_def transition_outcome_for_def)
  next
    case True
    then have ran: "effect_ran receipts r" using Some by (simp add: effect_ran_def)
    obtain u d where t: "transition (\<lambda>d. d) (rt_application_id r) (rt_to_status r) (rt_reason r)
        (rt_requested_by r) now db = (u, d)" by (metis prod.collapse)
    have d: "db' = d" and res: "res = (case u of Inr _ \<Rightarrow> ret (transition_outcome_for r True None)
        | Inl e \<Rightarrow> if refused_move e
            then ret (transition_outcome_for r False
                   (Some (''effect ran; status not changed: '' @ exn_text e))) else raise e)"
      using assms Some True t
      by (auto simp: apply_one_def StoreApplicationTransitioner_def split: sum.splits if_splits)
    show ?thesis
    proof (cases u)
      case (Inl e)
      with transition_row [OF t] d have "db' = db" by blast
      with res Inl ran show ?thesis by (auto simp: transition_outcome_for_def)
    next
      case (Inr st)
      with transition_row [OF t] d res ran transition_ok t show ?thesis
        by (auto simp: transition_outcome_for_def)
    qed
  qed
qed

lemma apply_loop_store:
  assumes "apply_loop (StoreApplicationTransitioner now) receipts refusals rs db = (res, db')"
  shows "(\<forall>k. lf_applications db' k \<noteq> lf_applications db k \<longrightarrow>
        (\<exists>r \<in> set rs. k = rt_application_id r \<and> effect_ran receipts r))
    \<and> (\<forall>ocs. res = ret ocs \<longrightarrow> map to_request_id ocs = map rt_request_id rs
         \<and> (\<forall>oc \<in> set ocs. to_applied oc \<longrightarrow>
              (\<exists>r \<in> set rs. rt_request_id r = to_request_id oc \<and> effect_ran receipts r)))
    \<and> (lifecycle_ok db \<longrightarrow> lifecycle_ok db')"
  using assms
proof (induction rs arbitrary: db res db')
  case (Cons r rs)
  obtain u d where o: "apply_one (StoreApplicationTransitioner now) receipts refusals r db = (u, d)"
    by (metis prod.collapse)
  note one = apply_one_store [OF o]
  show ?case
  proof (cases u)
    case (Inl e)
    with Cons.prems o have "res = raise e" "db' = d" by simp_all
    with one Inl show ?thesis by auto
  next
    case (Inr oc)
    obtain v d2 where l: "apply_loop (StoreApplicationTransitioner now) receipts refusals rs d = (v, d2)"
      by (metis prod.collapse)
    have r: "db' = d2" "res = (case v of Inl e \<Rightarrow> raise e | Inr ocs \<Rightarrow> ret (oc # ocs))"
      using Cons.prems o Inr l by (auto split: sum.splits)
    have rest: "lf_applications d2 k \<noteq> lf_applications d k \<Longrightarrow>
        \<exists>r \<in> set rs. k = rt_application_id r \<and> effect_ran receipts r" for k
      using Cons.IH [OF l] by blast
    have here: "lf_applications d k \<noteq> lf_applications db k \<Longrightarrow>
        k = rt_application_id r \<and> effect_ran receipts r" for k using one by blast
    have rows: "\<exists>r' \<in> set (r # rs). k = rt_application_id r' \<and> effect_ran receipts r'"
      if "lf_applications db' k \<noteq> lf_applications db k" for k
    proof (cases "lf_applications d k = lf_applications db k")
      case True
      with that r(1) rest [of k] show ?thesis by auto
    next
      case False
      from here [OF this] show ?thesis by simp
    qed
    have ok: "lifecycle_ok db \<longrightarrow> lifecycle_ok db'" using one Cons.IH [OF l] r(1) by blast
    have "map to_request_id ocs = map rt_request_id (r # rs) \<and> (\<forall>oc \<in> set ocs. to_applied oc \<longrightarrow>
        (\<exists>r' \<in> set (r # rs). rt_request_id r' = to_request_id oc \<and> effect_ran receipts r'))"
      if fin: "res = ret ocs" for ocs
    proof -
      obtain ocs' where v: "v = ret ocs'" "ocs = oc # ocs'" using fin r(2) by (cases v) auto
      moreover have "to_request_id oc = rt_request_id r \<and> (to_applied oc \<longrightarrow> effect_ran receipts r)"
        using one Inr by blast
      moreover have "map to_request_id ocs' = map rt_request_id rs \<and> (\<forall>oc \<in> set ocs'. to_applied oc \<longrightarrow>
          (\<exists>r \<in> set rs. rt_request_id r = to_request_id oc \<and> effect_ran receipts r))"
        using Cons.IH [OF l] v(1) by blast
      ultimately show ?thesis by auto
    qed
    with rows ok show ?thesis by blast
  qed
qed simp

text \<open>
  A status that waits on an effect moves only after the effect. Applying the requested
  transitions changes only applications named by a request whose action has an accepted
  receipt on the state, keeps the lifecycle's history consistent, answers every request in
  order exactly once, claims a move only for such a request, and consumes the requests.
\<close>

theorem moves_follow_effects:
  assumes ok: "lifecycle_ok db"
    and run: "apply_requested_transitions (StoreApplicationTransitioner now) s db = (res, db')"
  shows "(\<forall>k. lf_applications db' k \<noteq> lf_applications db k \<longrightarrow>
        (\<exists>r \<in> set (bs_requested s). \<exists>rc \<in> set (js_receipts s). rt_application_id r = k
           \<and> rc_action_id rc = rt_request_id r \<and> rc_ok rc))
    \<and> lifecycle_ok db'
    \<and> (\<forall>s'. res = ret s' \<longrightarrow> bs_requested s' = []
         \<and> (\<exists>ocs. bs_outcomes s' = bs_outcomes s @ ocs
              \<and> map to_request_id ocs = map rt_request_id (bs_requested s)
              \<and> (\<forall>oc \<in> set ocs. to_applied oc \<longrightarrow>
                   (\<exists>rc \<in> set (js_receipts s). rc_action_id rc = to_request_id oc \<and> rc_ok rc))))"
proof -
  let ?receipts = "index_by rc_action_id (js_receipts s)"
  obtain v d where l: "apply_loop (StoreApplicationTransitioner now) ?receipts
      (index_by rf_action_id (js_refusals s)) (bs_requested s) db = (v, d)" by (metis prod.collapse)
  have d: "db' = d" and res: "res = (case v of Inl e \<Rightarrow> raise e
      | Inr ocs \<Rightarrow> ret (s\<lparr>bs_outcomes := bs_outcomes s @ ocs, bs_requested := []\<rparr>))"
    using run l by (auto simp: apply_requested_transitions_def split: sum.splits)
  have receipt: "effect_ran ?receipts r \<Longrightarrow>
      \<exists>rc \<in> set (js_receipts s). rc_action_id rc = rt_request_id r \<and> rc_ok rc" for r
    by (auto simp: effect_ran_def dest!: index_by_Some)
  note loop = apply_loop_store [OF l]
  show ?thesis
  proof (intro conjI allI impI)
    show "lifecycle_ok db'" using loop ok unfolding d by blast
  next
    fix k assume k: "lf_applications db' k \<noteq> lf_applications db k"
    obtain r where r: "r \<in> set (bs_requested s)" "k = rt_application_id r" "effect_ran ?receipts r"
      using loop k unfolding d by blast
    show "\<exists>r \<in> set (bs_requested s). \<exists>rc \<in> set (js_receipts s). rt_application_id r = k
        \<and> rc_action_id rc = rt_request_id r \<and> rc_ok rc"
      using r(1,2) receipt [OF r(3)] by auto
  next
    fix s' assume fin: "res = ret s'"
    obtain ocs where v: "v = ret ocs" and s': "s' = s\<lparr>bs_outcomes := bs_outcomes s @ ocs, bs_requested := []\<rparr>"
      using fin res by (cases v) auto
    show "bs_requested s' = []" by (simp add: s')
    have ids: "map to_request_id ocs = map rt_request_id (bs_requested s)"
      and applied: "\<And>oc. oc \<in> set ocs \<Longrightarrow> to_applied oc \<Longrightarrow>
        \<exists>r \<in> set (bs_requested s). rt_request_id r = to_request_id oc \<and> effect_ran ?receipts r"
      using loop v by blast+
    have "\<exists>rc \<in> set (js_receipts s). rc_action_id rc = to_request_id oc \<and> rc_ok rc"
      if oc: "oc \<in> set ocs" "to_applied oc" for oc
    proof -
      obtain r where r: "rt_request_id r = to_request_id oc" "effect_ran ?receipts r"
        using applied [OF oc] by blast
      show ?thesis using receipt [OF r(2)] unfolding r(1) .
    qed
    then show "\<exists>ocs. bs_outcomes s' = bs_outcomes s @ ocs
        \<and> map to_request_id ocs = map rt_request_id (bs_requested s)
        \<and> (\<forall>oc \<in> set ocs. to_applied oc \<longrightarrow>
             (\<exists>rc \<in> set (js_receipts s). rc_action_id rc = to_request_id oc \<and> rc_ok rc))"
      using ids by (intro exI [of _ ocs]) (simp add: s')
  qed
qed

definition ex_requested :: requested_transition where
  "ex_requested = \<lparr>rt_request_id = 4, rt_application_id = 1, rt_from_status = DISCOVERED,
     rt_to_status = SAVED, rt_effect = EFFECT_SUBMIT_APPLICATION, rt_reason = None,
     rt_requested_by = ''ada'', rt_company = ''Acme'', rt_title = ''Engineer'', rt_posting_url = None,
     rt_recipient = None, rt_message = None, rt_attachments = []\<rparr>"

definition ex_board :: board_state where
  "ex_board = \<lparr>js_pending_actions = [], js_approval_stage = STAGE_LIFECYCLE_TRANSITION,
     js_requests = [], js_approvals = [],
     js_receipts = [\<lparr>rc_action_id = 4, rc_ok = True, rc_external_reference = None, rc_detail = None\<rparr>],
     js_refusals = [], bs_requested = [ex_requested], bs_outcomes = []\<rparr>"

lemma ex_applied_ok: "lifecycle_ok ex_applied"
proof -
  have "application_create 1 0 empty_lifecycle = ret ex_applied"
    by (simp add: application_create_def empty_lifecycle_def ex_applied_def)
  then show ?thesis by (rule create_ok [OF empty_lifecycle_ok])
qed

theorem moves_follow_effects_witness:
  "\<exists>s' db'. apply_requested_transitions (StoreApplicationTransitioner 9) ex_board ex_applied = (ret s', db')
     \<and> bs_requested s' = [] \<and> map to_request_id (bs_outcomes s') = [4] \<and> lifecycle_ok db'"
proof -
  obtain res db' where
    run: "apply_requested_transitions (StoreApplicationTransitioner 9) ex_board ex_applied = (res, db')"
    by (metis prod.collapse)
  obtain a where a: "lf_applications ex_applied 1 = Some a" "ap_status a = DISCOVERED"
    "ap_resume_status a = None" by (simp add: ex_applied_def)
  then obtain st d where t: "transition (\<lambda>d. d) 1 SAVED None ''ada'' 9 ex_applied = (ret st, d)"
    using transition_alone(1) [OF a(1), of SAVED None "''ada''" 9]
    by (auto simp: allowed_application_transitions_def status_sets)
  obtain s' where s': "res = ret s'"
    using run t by (auto simp: apply_requested_transitions_def ex_board_def ex_requested_def apply_one_def
        index_by_def StoreApplicationTransitioner_def)
  have "bs_requested ex_board = [ex_requested]" "bs_outcomes ex_board = []" by (simp_all add: ex_board_def)
  with moves_follow_effects [OF ex_applied_ok run] s' run show ?thesis
    by (auto simp: ex_requested_def)
qed

end
