(* ===== verification/Workflows.thy ===== *)
theory Workflows
  imports Outbox Leases "HOL-Library.Sublist"
begin

text \<open>
  Workflows and their commands: the snapshot of a workflow and the status derived from it
  (\<open>personalos/domain/workflow.py\<close>), the command queue on the outbox
  (\<open>personalos/persistence/workflow_commands.py\<close>), the lookup of the workflow an event answers
  (\<open>personalos/persistence/event_correlation.py\<close>), the resume endpoint
  (\<open>apps/api/routes/workflows.py\<close>), the runner (\<open>apps/worker/workflow_runner.py\<close>) and the
  worker that carries one command out (\<open>apps/worker/workflow_commands.py\<close>). \<open>show\<close> renders an
  id. The compiled graph, a LangGraph object, is a parameter of the runner.
\<close>

section \<open>Snapshots\<close>

datatype workflow_status =
  WF_PENDING | WF_QUEUED | WF_RUNNING | WF_WAITING | WF_FAILED | WF_COMPLETED

datatype command_kind = START | RESUME | RETRY

fun command_kind_value :: "command_kind \<Rightarrow> string" where
  "command_kind_value START = ''start''"
| "command_kind_value RESUME = ''resume''"
| "command_kind_value RETRY = ''retry''"

record workflow_command =
  wc_command_id :: uuid
  wc_kind :: command_kind
  wc_workflow_id :: uuid
  wc_thread_id :: string
  wc_actor_id :: string
  wc_correlation_id :: uuid
  wc_graph_input :: pyval
  wc_interrupt_ids :: "string list"

record pending_interrupt =
  pi_thread_id :: string
  pi_step :: "string option"
  pi_interrupt_id :: "string option"
  pi_value :: pyval

record recoverable_failure =
  rv_thread_id :: string
  rv_step :: "string option"
  rv_message :: string
  rv_checkpoint_id :: "string option"
  rv_task_id :: "string option"
  rv_checkpoint_at :: "datetime option"

record workflow_step =
  st_thread_id :: string
  st_step :: string

record thread_snapshot =
  th_thread_id :: string
  th_run_status :: string
  th_checkpoint_id :: "string option"
  th_completed_steps :: "string list"
  th_next_steps :: "string list"
  th_interrupts :: "pending_interrupt list"
  th_failures :: "recoverable_failure list"
  th_actor_id :: "string option"
  th_correlation_id :: "uuid option"
  th_updated_at :: "datetime option"

record workflow_snapshot =
  sn_workflow_id :: uuid
  sn_threads :: "thread_snapshot list"
  sn_queued :: "workflow_command list"

definition pending_interrupts :: "workflow_snapshot \<Rightarrow> pending_interrupt list" where
  "pending_interrupts s =
     (let resumes = filter (\<lambda>c. wc_kind c = RESUME) (sn_queued s);
          answered = concat (map wc_interrupt_ids resumes);
          resumed_threads = map wc_thread_id (filter (\<lambda>c. wc_interrupt_ids c = []) resumes)
      in concat (map (\<lambda>t.
           filter (\<lambda>i. \<not> (case pi_interrupt_id i of None \<Rightarrow> False | Some n \<Rightarrow> n \<in> set answered))
                  (th_interrupts t))
         (filter (\<lambda>t. th_thread_id t \<notin> set resumed_threads) (sn_threads s))))"

definition status_of :: "workflow_snapshot \<Rightarrow> workflow_status" where
  "status_of s =
     (if pending_interrupts s \<noteq> [] then WF_WAITING
      else if \<exists>t \<in> set (sn_threads s). th_run_status t = ''running'' \<and> th_interrupts t = []
      then WF_RUNNING
      else if sn_queued s \<noteq> [] then WF_QUEUED
      else if \<exists>t \<in> set (sn_threads s). th_run_status t = ''failed'' then WF_FAILED
      else if sn_threads s \<noteq> [] \<and> (\<forall>t \<in> set (sn_threads s). th_run_status t = ''completed'')
      then WF_COMPLETED
      else WF_PENDING)"

text \<open>\<open>max(xs, key=\<dots>)\<close>: the first of the largest. A thread without \<open>updated_at\<close> is the oldest.\<close>

fun max_by :: "('a \<Rightarrow> 'b::linorder) \<Rightarrow> 'a \<Rightarrow> 'a list \<Rightarrow> 'a" where
  "max_by key b [] = b"
| "max_by key b (x # xs) = max_by key (if key b < key x then x else b) xs"

definition updated_key :: "thread_snapshot \<Rightarrow> nat \<times> datetime" where
  "updated_key t = (case th_updated_at t of None \<Rightarrow> (0, 0) | Some d \<Rightarrow> (1, d))"

definition active_thread :: "workflow_snapshot \<Rightarrow> thread_snapshot option" where
  "active_thread s =
     (let waiting = map pi_thread_id (pending_interrupts s) in
      case find_first (\<lambda>t. th_thread_id t \<in> set waiting) (sn_threads s) of
        Some t \<Rightarrow> Some t
      | None \<Rightarrow>
          let unfinished = filter (\<lambda>t. th_run_status t \<noteq> ''completed'') (sn_threads s);
              candidates = (if unfinished \<noteq> [] then unfinished else sn_threads s)
          in (case candidates of [] \<Rightarrow> None | t # ts \<Rightarrow> Some (max_by updated_key t ts)))"

definition truthy_text :: "string option \<Rightarrow> bool" where
  "truthy_text s \<longleftrightarrow> s \<noteq> None \<and> s \<noteq> Some []"

definition current_step :: "workflow_snapshot \<Rightarrow> workflow_step option" where
  "current_step s =
     (case active_thread s of
        None \<Rightarrow> None
      | Some t \<Rightarrow>
          let step_at = (\<lambda>n. Some \<lparr>st_thread_id = th_thread_id t, st_step = n\<rparr>) in
          (case find_first (\<lambda>i. truthy_text (pi_step i)) (th_interrupts t) of
             Some i \<Rightarrow> step_at (the (pi_step i))
           | None \<Rightarrow>
               (case find_first (\<lambda>f. truthy_text (rv_step f)) (th_failures t) of
                  Some f \<Rightarrow> step_at (the (rv_step f))
                | None \<Rightarrow> (case th_next_steps t of [] \<Rightarrow> None | n # _ \<Rightarrow> step_at n))))"

definition completed_steps :: "workflow_snapshot \<Rightarrow> workflow_step list" where
  "completed_steps s =
     concat (map (\<lambda>t. map (\<lambda>n. \<lparr>st_thread_id = th_thread_id t, st_step = n\<rparr>) (th_completed_steps t))
       (sn_threads s))"

definition recoverable_failures :: "workflow_snapshot \<Rightarrow> recoverable_failure list" where
  "recoverable_failures s = concat (map th_failures (sn_threads s))"

text \<open>\<open>thread_namespace\<close>: the kind a derived thread id names.\<close>

definition thread_namespace :: "string \<Rightarrow> string option" where
  "thread_namespace n =
     (let name = takeWhile (\<lambda>c. c \<noteq> CHR '':'') n
      in if dropWhile (\<lambda>c. c \<noteq> CHR '':'') n \<noteq> [] \<and> name \<noteq> [] then Some name else None)"

definition derive_thread_id :: "(string list \<Rightarrow> string) \<Rightarrow> string \<Rightarrow> string list \<Rightarrow> exn + string" where
  "derive_thread_id digest namespace parts =
     (if strip namespace = []
      then raise (POS InvalidWorkflowIdentity ''a thread id namespace must not be blank'' None)
      else if CHR '':'' \<in> set namespace
      then raise (POS InvalidWorkflowIdentity ''a thread id namespace must not contain a colon'' None)
      else ret (strip namespace @ '':'' @ digest parts))"

section \<open>The command queue\<close>

definition WORKFLOW_COMMAND_EVENT :: string where
  "WORKFLOW_COMMAND_EVENT = ''workflow.command''"

record queue_config =
  qc_show :: "uuid \<Rightarrow> string"
  qc_parse :: "string \<Rightarrow> uuid option"
  qc_outbox :: outbox_config
  qc_reclaim_after :: "seconds option"

text \<open>\<open>model_dump\<close> of a command, and \<open>model_validate\<close> of what was stored.\<close>

definition dump_command :: "queue_config \<Rightarrow> workflow_command \<Rightarrow> pydict" where
  "dump_command q c =
     [(''command_id'', PStr (qc_show q (wc_command_id c))),
      (''kind'', PStr (command_kind_value (wc_kind c))),
      (''workflow_id'', PStr (qc_show q (wc_workflow_id c))),
      (''thread_id'', PStr (wc_thread_id c)),
      (''actor_id'', PStr (wc_actor_id c)),
      (''correlation_id'', PStr (qc_show q (wc_correlation_id c))),
      (''graph_input'', wc_graph_input c),
      (''interrupt_ids'', PList (map PStr (wc_interrupt_ids c)))]"

definition as_text :: "pyval \<Rightarrow> string option" where
  "as_text v = (case v of PStr s \<Rightarrow> Some s | _ \<Rightarrow> None)"

definition as_id :: "queue_config \<Rightarrow> pyval \<Rightarrow> uuid option" where
  "as_id q v = (case v of PStr s \<Rightarrow> qc_parse q s | _ \<Rightarrow> None)"

definition as_kind :: "pyval \<Rightarrow> command_kind option" where
  "as_kind v = find_first (\<lambda>k. v = PStr (command_kind_value k)) [START, RESUME, RETRY]"

fun as_texts :: "pyval list \<Rightarrow> string list option" where
  "as_texts [] = Some []"
| "as_texts (v # vs) =
     (case as_text v of
        None \<Rightarrow> None
      | Some s \<Rightarrow> (case as_texts vs of None \<Rightarrow> None | Some ss \<Rightarrow> Some (s # ss)))"

definition load_command :: "queue_config \<Rightarrow> pydict \<Rightarrow> exn + workflow_command" where
  "load_command q d =
     (case (as_id q (dict_get d ''command_id''), as_kind (dict_get d ''kind''),
            as_id q (dict_get d ''workflow_id''), as_text (dict_get d ''thread_id''),
            as_text (dict_get d ''actor_id''), as_id q (dict_get d ''correlation_id''),
            (case dict_get d ''interrupt_ids'' of PList vs \<Rightarrow> as_texts vs | _ \<Rightarrow> None)) of
        (Some n, Some k, Some w, Some t, Some a, Some r, Some is) \<Rightarrow>
          ret \<lparr>wc_command_id = n, wc_kind = k, wc_workflow_id = w, wc_thread_id = t,
               wc_actor_id = a, wc_correlation_id = r,
               wc_graph_input = dict_get d ''graph_input'', wc_interrupt_ids = is\<rparr>
      | _ \<Rightarrow> raise (validation_error ''WorkflowCommand''))"

definition row_command :: "queue_config \<Rightarrow> outbox_row \<Rightarrow> exn + workflow_command" where
  "row_command q r =
     (case ox_payload r of Legacy d \<Rightarrow> load_command q d
      | _ \<Rightarrow> raise (validation_error ''WorkflowCommand''))"

definition key_prefix :: "queue_config \<Rightarrow> uuid \<Rightarrow> string" where
  "key_prefix q w = ''workflow:'' @ qc_show q w @ '':''"

definition command_key :: "queue_config \<Rightarrow> workflow_command \<Rightarrow> string option \<Rightarrow> string" where
  "command_key q c dedupe =
     key_prefix q (wc_workflow_id c) @ command_kind_value (wc_kind c) @ '':'' @
     (case dedupe of Some d \<Rightarrow> if d \<noteq> [] then d else qc_show q (wc_command_id c)
      | None \<Rightarrow> qc_show q (wc_command_id c))"

definition duplicate_command :: exn where
  "duplicate_command =
     POS DuplicateWorkflowCommand ''a command answering the same state is already queued'' None"

text \<open>\<open>fresh\<close> is the id drawn for the row.\<close>

definition enqueue ::
  "queue_config \<Rightarrow> datetime \<Rightarrow> uuid \<Rightarrow> workflow_command \<Rightarrow> string option \<Rightarrow> outbox \<Rightarrow>
   (exn + workflow_command) \<times> outbox" where
  "enqueue q now fresh c dedupe db =
     (case outbox_create (qc_outbox q) now fresh WORKFLOW_COMMAND_EVENT (Legacy (dump_command q c))
             (Some (command_key q c dedupe)) db of
        Inl _ \<Rightarrow> (raise duplicate_command, db)
      | Inr (_, db') \<Rightarrow> (ret c, db'))"

text \<open>SQL's \<open>LIKE\<close>.\<close>

fun sql_like :: "string \<Rightarrow> string \<Rightarrow> bool" where
  "sql_like [] s \<longleftrightarrow> s = []"
| "sql_like (p # ps) s \<longleftrightarrow>
     (if p = CHR ''%'' then list_ex (\<lambda>n. sql_like ps (drop n s)) [0..<Suc (length s)]
      else case s of [] \<Rightarrow> False | c # cs \<Rightarrow> (p = CHR ''_'' \<or> p = c) \<and> sql_like ps cs)"

definition unfinished :: "event_status \<Rightarrow> bool" where
  "unfinished st \<longleftrightarrow> st = PENDING \<or> st = IN_PROGRESS"

definition keyed_rows :: "string \<Rightarrow> outbox \<Rightarrow> outbox_row list" where
  "keyed_rows pre db =
     filter (\<lambda>r. ox_type r = WORKFLOW_COMMAND_EVENT
               \<and> (case ox_dedupe_key r of None \<Rightarrow> False | Some k \<Rightarrow> sql_like (pre @ ''%'') k))
       (ob_rows db)"

definition queued_rows :: "queue_config \<Rightarrow> uuid \<Rightarrow> outbox \<Rightarrow> outbox_row list" where
  "queued_rows q w db =
     sort_key (\<lambda>r. (ox_created_at r, ox_id r))
       (filter (\<lambda>r. unfinished (ox_status r)) (keyed_rows (key_prefix q w) db))"

fun collect :: "(exn + 'a) list \<Rightarrow> exn + 'a list" where
  "collect [] = ret []"
| "collect (Inl e # rs) = raise e"
| "collect (Inr x # rs) = (case collect rs of Inl e \<Rightarrow> raise e | Inr xs \<Rightarrow> ret (x # xs))"

definition queued_for :: "queue_config \<Rightarrow> uuid \<Rightarrow> outbox \<Rightarrow> exn + workflow_command list" where
  "queued_for q w db = collect (map (row_command q) (queued_rows q w db))"

definition count_keyed ::
  "queue_config \<Rightarrow> uuid \<Rightarrow> command_kind \<Rightarrow> string \<Rightarrow> outbox \<Rightarrow> nat \<times> nat" where
  "count_keyed q w kind dedupe_prefix db =
     (let rows = keyed_rows (key_prefix q w @ command_kind_value kind @ '':'' @ dedupe_prefix) db
      in (length rows, length (filter (\<lambda>r. unfinished (ox_status r)) rows)))"

record claimed_command =
  cc_outbox_id :: uuid
  cc_command :: workflow_command
  cc_attempt :: int

definition redelivered :: "claimed_command \<Rightarrow> bool" where
  "redelivered c \<longleftrightarrow> cc_attempt c > 1"

text \<open>\<open>race\<close> as in \<open>Outbox.claim_next\<close>; a row that holds no command raises out of the claim.\<close>

definition claim_command ::
  "queue_config \<Rightarrow> (nat \<Rightarrow> outbox \<Rightarrow> outbox) \<Rightarrow> datetime \<Rightarrow> outbox \<Rightarrow>
   (exn + claimed_command option) \<times> outbox" where
  "claim_command q race now db =
     (case claim_next race (Some WORKFLOW_COMMAND_EVENT) [] (qc_reclaim_after q) now db of
        (None, db') \<Rightarrow> (ret None, db')
      | (Some r, db') \<Rightarrow>
          (case row_command q r of
             Inl e \<Rightarrow> (raise e, db')
           | Inr c \<Rightarrow>
               (ret (Some \<lparr>cc_outbox_id = ox_id r, cc_command = c,
                           cc_attempt = (if ox_attempts r \<noteq> 0 then ox_attempts r else 1)\<rparr>), db')))"

definition release_command :: "datetime \<Rightarrow> uuid \<Rightarrow> seconds option \<Rightarrow> outbox \<Rightarrow> outbox" where
  "release_command now n dly db =
     db\<lparr>ob_rows := update_where (\<lambda>r. ox_id r = n \<and> ox_status r = IN_PROGRESS)
          (\<lambda>r. r\<lparr>ox_status := PENDING,
                 ox_available_at := (case dly of None \<Rightarrow> ox_available_at r
                                     | Some s \<Rightarrow> Some (now + s))\<rparr>)
          (ob_rows db)\<rparr>"

section \<open>Reading and answering a workflow\<close>

text \<open>
  \<open>threads w\<close>: what the run rows and stored checkpoints of workflow \<open>w\<close> say, if it exists.
\<close>

type_synonym thread_reader = "uuid \<Rightarrow> thread_snapshot list option"

definition read_workflow ::
  "queue_config \<Rightarrow> thread_reader \<Rightarrow> uuid \<Rightarrow> outbox \<Rightarrow> exn + workflow_snapshot option" where
  "read_workflow q threads w db =
     (case threads w of
        None \<Rightarrow> ret None
      | Some ts \<Rightarrow>
          (case queued_for q w db of
             Inl e \<Rightarrow> raise e
           | Inr cs \<Rightarrow> ret (Some \<lparr>sn_workflow_id = w, sn_threads = ts, sn_queued = cs\<rparr>)))"

record waiting_thread =
  wt_workflow_id :: uuid
  wt_thread_id :: string
  wt_interrupt_ids :: "string list"
  wt_actor_id :: string

definition named_interrupts :: "pending_interrupt list \<Rightarrow> string list" where
  "named_interrupts is =
     map (\<lambda>i. the (pi_interrupt_id i)) (filter (\<lambda>i. truthy_text (pi_interrupt_id i)) is)"

text \<open>The runs of a correlation, oldest first, each workflow once.\<close>

fun first_waiting ::
  "queue_config \<Rightarrow> thread_reader \<Rightarrow> uuid list \<Rightarrow> outbox \<Rightarrow> exn + waiting_thread option" where
  "first_waiting q threads [] db = ret None"
| "first_waiting q threads (w # ws) db =
     (case read_workflow q threads w db of
        Inl e \<Rightarrow> raise e
      | Inr None \<Rightarrow> first_waiting q threads ws db
      | Inr (Some s) \<Rightarrow>
          (case pending_interrupts s of
             [] \<Rightarrow> first_waiting q threads ws db
           | i # is \<Rightarrow>
               (case find_first (\<lambda>t. th_thread_id t = pi_thread_id i) (sn_threads s) of
                  None \<Rightarrow> raise (PY ''StopIteration'' [] None)
                | Some t \<Rightarrow>
                    ret (Some \<lparr>wt_workflow_id = w, wt_thread_id = pi_thread_id i,
                      wt_interrupt_ids =
                        named_interrupts (filter (\<lambda>j. pi_thread_id j = pi_thread_id i) (i # is)),
                      wt_actor_id = (if truthy_text (th_actor_id t) then the (th_actor_id t)
                                     else ''system'')\<rparr>))))"

definition waiting_for ::
  "queue_config \<Rightarrow> thread_reader \<Rightarrow> uuid \<Rightarrow> outbox \<Rightarrow> exn + waiting_thread option" where
  "waiting_for q threads corr db =
     first_waiting q threads
       (rev (remdups (rev (map snd (filter (\<lambda>p. fst p = corr) (ob_runs db)))))) db"

definition conflict :: "string \<Rightarrow> exn" where
  "conflict msg = POS Conflict msg None"

text \<open>\<open>resume_workflow\<close>: the endpoint. \<open>n\<close> and \<open>fresh\<close> are the ids it draws.\<close>

definition resume_workflow ::
  "queue_config \<Rightarrow> datetime \<Rightarrow> uuid \<Rightarrow> uuid \<Rightarrow> thread_reader \<Rightarrow> uuid \<Rightarrow> string option \<Rightarrow> pyval \<Rightarrow>
   string \<Rightarrow> uuid \<Rightarrow> outbox \<Rightarrow> (exn + workflow_command) \<times> outbox" where
  "resume_workflow q now n fresh threads w thread_id value actor corr db =
     (case read_workflow q threads w db of
        Inl e \<Rightarrow> (raise e, db)
      | Inr None \<Rightarrow> (raise (POS NotFound ''workflow not found'' None), db)
      | Inr (Some s) \<Rightarrow>
          let pending = filter (\<lambda>i. case thread_id of None \<Rightarrow> True | Some t \<Rightarrow> pi_thread_id i = t)
                          (pending_interrupts s);
              waiting = sort (remdups (map pi_thread_id pending))
          in (case waiting of
                [] \<Rightarrow> (raise (conflict ''workflow is not waiting on anything''), db)
              | t # others \<Rightarrow>
                  if others \<noteq> [] then (raise (conflict ''workflow has several threads waiting''), db)
                  else (case find_first (\<lambda>th. th_thread_id th = t) (sn_threads s) of
                    None \<Rightarrow> (raise (PY ''StopIteration'' [] None), db)
                  | Some th \<Rightarrow>
                      enqueue q now fresh
                        \<lparr>wc_command_id = n, wc_kind = RESUME, wc_workflow_id = w,
                         wc_thread_id = th_thread_id th, wc_actor_id = actor,
                         wc_correlation_id = corr, wc_graph_input = value,
                         wc_interrupt_ids = named_interrupts pending\<rparr>
                        (th_checkpoint_id th) db)))"

section \<open>The runner\<close>

text \<open>
  A run of the graph ends, raises, or dies with its process, which settles nothing. The graph
  is given fresh input, an answer to its interrupt, or nothing, to carry on from where it
  stopped; its state says which checkpoint it stopped at, what runs next and which command
  the checkpoint was written for.
\<close>

datatype 'a ran = Finished 'a | Raised exn | Died

datatype graph_input = Fresh pyval | Answered pyval | Carry_on

record graph_state =
  gs_checkpoint_id :: "string option"
  gs_next :: "string list"
  gs_command_id :: "string option"

record 'g graph_port =
  gp_state :: "string \<Rightarrow> 'g \<Rightarrow> graph_state"
  gp_run :: "string \<Rightarrow> graph_input \<Rightarrow> string \<Rightarrow> 'g \<Rightarrow> unit ran \<times> 'g"

record 'g flow_world =
  fw_leases :: lease_db
  fw_runs :: "string \<rightharpoonup> uuid \<times> string"
  fw_graph :: 'g

record runner_config =
  rn_ttl :: seconds
  rn_owner :: string

definition mark_status :: "string \<Rightarrow> string \<Rightarrow> 'g flow_world \<Rightarrow> 'g flow_world" where
  "mark_status t st w =
     w\<lparr>fw_runs := (fw_runs w)(t := map_option (\<lambda>(n, _). (n, st)) (fw_runs w t))\<rparr>"

definition invoke ::
  "'g graph_port \<Rightarrow> string \<Rightarrow> graph_input \<Rightarrow> string \<Rightarrow> 'g flow_world \<Rightarrow> unit ran \<times> 'g flow_world" where
  "invoke p t inp cmd w =
     (let w1 = mark_status t ''running'' w in
      case gp_run p t inp cmd (fw_graph w1) of
        (Died, g) \<Rightarrow> (Died, w1\<lparr>fw_graph := g\<rparr>)
      | (Raised e, g) \<Rightarrow> (Raised e, mark_status t ''failed'' (w1\<lparr>fw_graph := g\<rparr>))
      | (Finished _, g) \<Rightarrow>
          (Finished (), if gs_next (gp_state p t g) \<noteq> [] then w1\<lparr>fw_graph := g\<rparr>
                        else mark_status t ''completed'' (w1\<lparr>fw_graph := g\<rparr>)))"

text \<open>\<open>with self.leases.hold(\<dots>)\<close> around a body; a process that dies releases nothing.\<close>

definition under_lease ::
  "runner_config \<Rightarrow> uuid \<Rightarrow> string \<Rightarrow> datetime \<Rightarrow> datetime \<Rightarrow>
   ('g flow_world \<Rightarrow> unit ran \<times> 'g flow_world) \<Rightarrow> 'g flow_world \<Rightarrow> unit ran \<times> 'g flow_world" where
  "under_lease c n t now later body w =
     (case acquire (rn_ttl c) n (rn_owner c) (Some t) now (fw_leases w) of
        (Inl e, ls) \<Rightarrow> (Raised e, w\<lparr>fw_leases := ls\<rparr>)
      | (Inr l, ls) \<Rightarrow>
          (case body (w\<lparr>fw_leases := ls\<rparr>) of
             (Died, w') \<Rightarrow> (Died, w')
           | (r, w') \<Rightarrow> (r, w'\<lparr>fw_leases := snd (release later l (fw_leases w'))\<rparr>)))"

definition unregistered :: exn where
  "unregistered = POS UnregisteredWorkflowThread ''thread is not registered'' None"

definition runner_start ::
  "runner_config \<Rightarrow> 'g graph_port \<Rightarrow> datetime \<Rightarrow> datetime \<Rightarrow> string \<Rightarrow> pyval \<Rightarrow> string \<Rightarrow>
   'g flow_world \<Rightarrow> unit ran \<times> 'g flow_world" where
  "runner_start c p now later t input cmd w =
     (case fw_runs w t of
        None \<Rightarrow> (Raised unregistered, w)
      | Some (n, _) \<Rightarrow> under_lease c n t now later (invoke p t (Fresh input) cmd) w)"

definition runner_resume ::
  "runner_config \<Rightarrow> 'g graph_port \<Rightarrow> datetime \<Rightarrow> datetime \<Rightarrow> string \<Rightarrow> graph_input \<Rightarrow> string \<Rightarrow>
   'g flow_world \<Rightarrow> unit ran \<times> 'g flow_world" where
  "runner_resume c p now later t inp cmd w =
     (case fw_runs w t of
        None \<Rightarrow> (Raised unregistered, w)
      | Some (n, _) \<Rightarrow>
          under_lease c n t now later
            (\<lambda>w. let s = gp_state p t (fw_graph w) in
               if gs_checkpoint_id s = None
               then (Raised (POS NothingToResume ''has to be started, not resumed'' None), w)
               else if gs_next s = [] then (Finished (), mark_status t ''completed'' w)
               else invoke p t inp cmd w) w)"

section \<open>Carrying a command out\<close>

definition already_under_way :: "queue_config \<Rightarrow> 'g graph_port \<Rightarrow> workflow_command \<Rightarrow> 'g flow_world \<Rightarrow> bool" where
  "already_under_way q p c w \<longleftrightarrow>
     fw_runs w (wc_thread_id c) \<noteq> None
     \<and> gs_command_id (gp_state p (wc_thread_id c) (fw_graph w)) = Some (qc_show q (wc_command_id c))"

definition run_workflow_command ::
  "queue_config \<Rightarrow> runner_config \<Rightarrow> 'g graph_port \<Rightarrow> datetime \<Rightarrow> datetime \<Rightarrow> workflow_command \<Rightarrow> bool \<Rightarrow>
   'g flow_world \<Rightarrow> unit ran \<times> 'g flow_world" where
  "run_workflow_command q c p now later cmd again w =
     (let t = wc_thread_id cmd; n = qc_show q (wc_command_id cmd) in
      if again \<and> already_under_way q p cmd w then runner_resume c p now later t Carry_on n w
      else case wc_kind cmd of
        START \<Rightarrow> runner_start c p now later t
                   (if truthy (wc_graph_input cmd) then wc_graph_input cmd else PDict []) n w
      | RETRY \<Rightarrow> runner_resume c p now later t Carry_on n w
      | RESUME \<Rightarrow> runner_resume c p now later t (Answered (wc_graph_input cmd)) n w)"

definition DEFAULT_LEASE_BUSY_DELAY :: seconds where "DEFAULT_LEASE_BUSY_DELAY = 5"

record command_clock =
  ck_claim :: datetime
  ck_acquire :: datetime
  ck_release :: datetime
  ck_settle :: datetime

text \<open>
  \<open>process_next\<close>. \<open>runners\<close> maps the kind of a thread to its runner and graph; \<open>others\<close> is
  what other processes do to the outbox while the command runs, and \<open>alive\<close> whether this one
  lives to settle the command.
\<close>

definition process_next_command ::
  "queue_config \<Rightarrow> (string \<rightharpoonup> runner_config \<times> 'g graph_port) \<Rightarrow> seconds \<Rightarrow> command_clock \<Rightarrow>
   (nat \<Rightarrow> outbox \<Rightarrow> outbox) \<Rightarrow> (outbox \<Rightarrow> outbox) \<Rightarrow> bool \<Rightarrow> outbox \<Rightarrow> 'g flow_world \<Rightarrow>
   bool ran \<times> outbox \<times> 'g flow_world" where
  "process_next_command q runners busy ck race others alive db w =
     (case claim_command q race (ck_claim ck) db of
        (Inl e, db1) \<Rightarrow> (Raised e, db1, w)
      | (Inr None, db1) \<Rightarrow> (Finished False, db1, w)
      | (Inr (Some cl), db1) \<Rightarrow>
          let cmd = cc_command cl; n = cc_outbox_id cl;
              kind = (case thread_namespace (wc_thread_id cmd) of None \<Rightarrow> [] | Some k \<Rightarrow> k);
              (r, w') = (case runners kind of
                           None \<Rightarrow> (Raised (PY ''LookupError'' ''no runner is wired'' None), w)
                         | Some (c, p) \<Rightarrow>
                             run_workflow_command q c p (ck_acquire ck) (ck_release ck) cmd (redelivered cl) w);
              db2 = others db1
          in (case (if alive then r else Died) of
                Died \<Rightarrow> (Died, db2, w')
              | Raised e \<Rightarrow>
                  if isinstance e WorkflowLeaseUnavailable
                  then (Finished True, release_command (ck_settle ck) n (Some busy) db2, w')
                  else (case mark_failed n db2 of
                          Inl e' \<Rightarrow> (Raised e', db2, w')
                        | Inr db3 \<Rightarrow> (Raised e, db3, w'))
              | Finished _ \<Rightarrow>
                  (case mark_dispatched (ck_settle ck) n db2 of
                     Inl e \<Rightarrow> (Raised e, db2, w')
                   | Inr db3 \<Rightarrow> (Finished True, db3, w'))))"

section \<open>Rows keep what they were written with\<close>

type_synonym row_fact = "uuid \<times> string \<times> stored_payload \<times> string option \<times> datetime"

definition row_fact :: "outbox_row \<Rightarrow> row_fact" where
  "row_fact r = (ox_id r, ox_type r, ox_payload r, ox_dedupe_key r, ox_created_at r)"

definition facts :: "outbox \<Rightarrow> row_fact list" where
  "facts db = map row_fact (ob_rows db)"

definition keeps_fact :: "(outbox_row \<Rightarrow> outbox_row) \<Rightarrow> bool" where
  "keeps_fact f \<longleftrightarrow> (\<forall>r. row_fact (f r) = row_fact r)"

lemma keeps_fact_simps [simp]:
  "keeps_fact (stamp_claim now)"
  "keeps_fact (park_row c now st err linked)"
  "keeps_fact (back_off t err)"
  "keeps_fact (\<lambda>r. r\<lparr>ox_status := st, ox_dispatched_at := a\<rparr>)"
  "keeps_fact (\<lambda>r. r\<lparr>ox_status := st\<rparr>)"
  "keeps_fact (\<lambda>r. r\<lparr>ox_status := st, ox_available_at := g r\<rparr>)"
  "keeps_fact (\<lambda>r. r\<lparr>ox_status := st, ox_attempts := 0, ox_claimed_at := None,
     ox_available_at := None, ox_failed_at := None\<rparr>)"
  by (simp_all add: keeps_fact_def row_fact_def stamp_claim_def park_row_def back_off_def)

lemma facts_update [simp]:
  "keeps_fact f \<Longrightarrow> facts (db\<lparr>ob_rows := update_where p f (ob_rows db)\<rparr>) = facts db"
  "keeps_fact f \<Longrightarrow> facts (snd (update_claim n t f db)) = facts db"
  "keeps_fact f \<Longrightarrow> facts (set_row n f db) = facts db"
  by (simp_all add: facts_def update_where_def update_claim_def set_row_def update_by_def keeps_fact_def)

lemma facts_park [simp]: "facts (snd (park c now n t st err hint db)) = facts db"
  "facts (snd (park_claim c now d st err db)) = facts db"
  by (simp_all add: park_def park_claim_def)

lemma facts_claim_loop:
  "claim_next_loop n (\<lambda>_ db. db) ty ex period now db = (r, db') \<Longrightarrow> facts db' = facts db"
proof (induction n arbitrary: db)
  case (Suc n)
  then show ?case by (auto simp: Let_def split: option.splits if_splits dest!: Suc.IH)
qed simp

lemma facts_claim_next:
  "claim_next (\<lambda>_ db. db) ty ex period now db = (r, db') \<Longrightarrow> facts db' = facts db"
  unfolding claim_next_def by (rule facts_claim_loop)

lemma facts_outbox_claim_loop:
  "outbox_claim_loop n c (\<lambda>_ db. db) now db = (r, db') \<Longrightarrow> facts db' = facts db"
proof (induction n arbitrary: db)
  case (Suc n)
  obtain row db1 where cl: "claim_next (\<lambda>_ db. db) None (tc_exclude_types c)
      (Some (tc_visibility_timeout c)) now db = (row, db1)" by fastforce
  from facts_claim_next [OF cl] Suc.prems cl show ?case
    by (auto simp: Let_def split: option.splits sum.splits if_splits dest!: Suc.IH)
qed simp

lemma facts_create:
  "outbox_create c now n ty payload k db = ret (r, db') \<Longrightarrow>
     facts db' = facts db @ [(n, ty, oc_redact_payload c payload, k, now)]"
  by (auto simp: outbox_create_def Let_def facts_def row_fact_def split: if_splits)

lemma facts_nack: "facts (snd (outbox_nack c now u d e db)) = facts db"
proof (cases "classify_failure (tc_describe c) e (ce_attempt d) (tc_retry_policy c) u")
  case (Inl err)
  then show ?thesis by (simp add: outbox_nack_def)
next
  case (Inr plan)
  have "keeps_fact (nack_update c now d plan db)" by (simp add: nack_update_def Let_def)
  from facts_update(2) [OF this] show ?thesis
    by (simp add: outbox_nack_plan [OF Inr] split_beta)
qed

lemma facts_perform:
  assumes "perform (outbox_ops c) cmd db = (ds, db')"
  shows "set (facts db) \<subseteq> set (facts db')"
proof (cases cmd)
  case (Publish now e)
  with assms show ?thesis
    by (auto simp: outbox_ops_def outbox_publish_def stage_def dest: facts_create
        split: sum.splits option.splits)
next
  case (Claim now)
  obtain r db1 where "outbox_claim_loop PARK_LIMIT c (\<lambda>_ db. db) now db = (r, db1)" by fastforce
  with facts_outbox_claim_loop [OF this] assms Claim show ?thesis
    by (auto simp: outbox_ops_def outbox_claim_def split: option.splits)
next
  case (Nack now u d e)
  with assms facts_nack [of c now u d e db] show ?thesis by (auto simp: outbox_ops_def)
qed (use assms in \<open>auto simp: outbox_ops_def outbox_ack_def outbox_dead_letter_def
       outbox_requeue_def Let_def\<close>)

text \<open>Everything the processes of the system do to the queue, in any order.\<close>

datatype queue_move =
  QEnqueue datetime uuid workflow_command "string option"
| QClaim datetime
| QRelease datetime uuid "seconds option"
| QDone datetime uuid
| QFailed uuid
| QEvent "claimed_event command"

definition or_same :: "'a \<Rightarrow> exn + 'a \<Rightarrow> 'a" where
  "or_same d r = (case r of Inl _ \<Rightarrow> d | Inr x \<Rightarrow> x)"

fun queue_step :: "queue_config \<Rightarrow> queue_move \<Rightarrow> outbox \<Rightarrow> outbox" where
  "queue_step q (QEnqueue now n c k) db = snd (enqueue q now n c k db)"
| "queue_step q (QClaim now) db = snd (claim_command q (\<lambda>_ db. db) now db)"
| "queue_step q (QRelease now n d) db = release_command now n d db"
| "queue_step q (QDone now n) db = or_same db (mark_dispatched now n db)"
| "queue_step q (QFailed n) db = or_same db (mark_failed n db)"
| "queue_step q (QEvent cmd) db = snd (perform (outbox_ops (qc_outbox q)) cmd db)"

definition queue_run :: "queue_config \<Rightarrow> queue_move list \<Rightarrow> outbox \<Rightarrow> outbox" where
  "queue_run q steps db = fold (queue_step q) steps db"

lemma facts_release [simp]: "facts (release_command now n dly db) = facts db"
  by (simp add: release_command_def)

lemma facts_claim_command:
  "claim_command q (\<lambda>_ db. db) now db = (r, db') \<Longrightarrow> facts db' = facts db"
  by (auto simp: claim_command_def dest: facts_claim_next split: prod.splits option.splits sum.splits)

lemma facts_settle [simp]:
  "facts (or_same db (mark_dispatched now n db)) = facts db"
  "facts (or_same db (mark_failed n db)) = facts db"
  by (simp_all add: mark_dispatched_def mark_failed_def or_same_def)

lemma facts_enqueue:
  "enqueue q now n c k db = (r, db') \<Longrightarrow>
     (case r of Inl e \<Rightarrow> e = duplicate_command \<and> db' = db
      | Inr c' \<Rightarrow> c' = c \<and> facts db' = facts db @
          [(n, WORKFLOW_COMMAND_EVENT, oc_redact_payload (qc_outbox q) (Legacy (dump_command q c)),
            Some (command_key q c k), now)])"
  by (auto simp: enqueue_def dest: facts_create split: sum.splits)

lemma facts_queue_step: "set (facts db) \<subseteq> set (facts (queue_step q st db))"
proof (cases st)
  case (QEnqueue now n c k)
  obtain r db' where "enqueue q now n c k db = (r, db')" by fastforce
  with facts_enqueue [OF this] QEnqueue show ?thesis by (auto split: sum.splits)
next
  case (QClaim now)
  obtain r db' where "claim_command q (\<lambda>_ db. db) now db = (r, db')" by fastforce
  with facts_claim_command [OF this] QClaim show ?thesis by simp
next
  case (QEvent cmd)
  obtain ds db' where "perform (outbox_ops (qc_outbox q)) cmd db = (ds, db')" by fastforce
  with facts_perform [OF this] QEvent show ?thesis by simp
qed simp_all

lemma facts_queue_run: "set (facts db) \<subseteq> set (facts (queue_run q steps db))"
proof (induction steps arbitrary: db)
  case (Cons st steps)
  from subset_trans [OF facts_queue_step Cons.IH] show ?case by (simp add: queue_run_def)
qed (simp add: queue_run_def)

section \<open>One answer for each stop\<close>

lemma enqueue_taken:
  "(n', ty, p, Some (command_key q c k), t) \<in> set (facts db) \<Longrightarrow>
     enqueue q now n c k db = (raise duplicate_command, db)"
  by (force simp: enqueue_def outbox_create_def facts_def row_fact_def Let_def)

text \<open>What a successful answer is.\<close>

lemma resume_workflow_ret:
  assumes "resume_workflow q now n fresh threads w thread_id v actor corr db = (ret c, db')"
  obtains s th where "read_workflow q threads w db = ret (Some s)" "th \<in> set (sn_threads s)"
    "wc_thread_id c = th_thread_id th" "wc_kind c = RESUME" "wc_workflow_id c = w"
    "find_first (\<lambda>t. th_thread_id t = wc_thread_id c) (sn_threads s) = Some th"
    "th_thread_id th \<in> pi_thread_id ` set (pending_interrupts s)"
    "enqueue q now fresh c (th_checkpoint_id th) db = (ret c, db')"
    "wc_graph_input c = v"
    "wc_interrupt_ids c = named_interrupts (filter (\<lambda>i. pi_thread_id i = wc_thread_id c)
       (pending_interrupts s))"
proof -
  obtain s where s: "read_workflow q threads w db = ret (Some s)"
    using assms by (auto simp: resume_workflow_def split: sum.splits option.splits)
  define pending where "pending = filter (\<lambda>i. case thread_id of None \<Rightarrow> True | Some t \<Rightarrow> pi_thread_id i = t)
                          (pending_interrupts s)"
  obtain t where t: "sort (remdups (map pi_thread_id pending)) = [t]"
    using assms s by (auto simp: resume_workflow_def pending_def [symmetric] Let_def
        split: list.splits if_splits)
  obtain th where th: "find_first (\<lambda>x. th_thread_id x = t) (sn_threads s) = Some th"
    using assms s t by (auto simp: resume_workflow_def pending_def [symmetric] Let_def
        split: list.splits option.splits if_splits)
  define cmd where "cmd = \<lparr>wc_command_id = n, wc_kind = RESUME, wc_workflow_id = w,
         wc_thread_id = th_thread_id th, wc_actor_id = actor, wc_correlation_id = corr,
         wc_graph_input = v, wc_interrupt_ids = named_interrupts pending\<rparr>"
  have en: "enqueue q now fresh cmd (th_checkpoint_id th) db = (ret c, db')"
    using assms s t th by (simp add: resume_workflow_def pending_def [symmetric] cmd_def Let_def)
  then have c: "c = cmd" using facts_enqueue [OF en] by simp
  have ts: "set (sort (remdups (map pi_thread_id pending))) = {t}" unfolding t by simp
  then have "t \<in> pi_thread_id ` set (pending_interrupts s)" by (auto simp: pending_def)
  moreover have "pending = filter (\<lambda>i. pi_thread_id i = t) (pending_interrupts s)"
  proof -
    have "pi_thread_id ` set pending = {t}" using ts by simp
    then have "filter (\<lambda>i. pi_thread_id i = t) pending = pending" by (auto simp: filter_id_conv)
    moreover have "filter (\<lambda>i. pi_thread_id i = t) pending
        = filter (\<lambda>i. pi_thread_id i = t) (pending_interrupts s)"
      using \<open>pi_thread_id ` set pending = {t}\<close>
      by (auto simp: pending_def intro!: filter_cong split: option.splits)
    ultimately show ?thesis by simp
  qed
  moreover have "th \<in> set (sn_threads s)" "th_thread_id th = t" using find_first_Some [OF th] by auto
  ultimately show thesis
    using that [OF s] th en unfolding c by (simp add: cmd_def)
qed

definition stopped_at :: "thread_reader \<Rightarrow> uuid \<Rightarrow> string \<Rightarrow> string \<Rightarrow> bool" where
  "stopped_at threads w t k \<longleftrightarrow>
     (\<exists>ts th. threads w = Some ts \<and> find_first (\<lambda>x. th_thread_id x = t) ts = Some th
        \<and> th_checkpoint_id th = Some k)"

lemma read_workflow_ret:
  "read_workflow q threads w db = ret (Some s) \<longleftrightarrow>
     (\<exists>ts cs. threads w = Some ts \<and> queued_for q w db = ret cs
        \<and> s = \<lparr>sn_workflow_id = w, sn_threads = ts, sn_queued = cs\<rparr>)"
  by (auto simp: read_workflow_def split: option.splits sum.splits)


section \<open>Commands come back as they were queued\<close>

lemma like_self: "sql_like (p @ ''%'') (p @ r)"
proof (induction p)
  case Nil
  show ?case by (auto simp: list_ex_iff intro!: bexI [of _ "length r"])
next
  case (Cons c p)
  have one: "1 \<in> set [0..<Suc (length ((c # p) @ r))]" by (simp del: upt_Suc)
  show ?case
  proof (cases "c = CHR ''%''")
    case True
    have "\<exists>n \<in> set [0..<Suc (length ((c # p) @ r))]. sql_like (p @ ''%'') (drop n ((c # p) @ r))"
      by (rule bexI [OF _ one]) (use Cons in simp)
    with True show ?thesis by (simp add: list_ex_iff del: upt_Suc)
  qed (use Cons in simp)
qed

lemma like_prefix:
  "CHR ''%'' \<notin> set p \<Longrightarrow> CHR ''_'' \<notin> set p \<Longrightarrow> sql_like (p @ ''%'') s \<longleftrightarrow> prefix p s"
proof (induction p arbitrary: s)
  case Nil
  show ?case by (auto simp: list_ex_iff intro!: bexI [of _ "length s"])
next
  case (Cons c p)
  then show ?case by (cases s) auto
qed

lemma as_texts_map: "as_texts (map PStr ss) = Some ss"
  by (induction ss) (simp_all add: as_text_def)

lemma as_kind_value: "as_kind (PStr (command_kind_value k)) = Some k"
  by (cases k) (simp_all add: as_kind_def find_first_def)

text \<open>\<open>model_validate\<close> undoes \<open>model_dump\<close>, when parsing an id undoes rendering it.\<close>

lemma load_dump:
  assumes "\<And>n. qc_parse q (qc_show q n) = Some n"
  shows "load_command q (dump_command q c) = ret c"
  by (simp add: load_command_def dump_command_def dict_get_def as_id_def as_text_def as_texts_map
      as_kind_value assms)

definition stored_as_is :: "queue_config \<Rightarrow> workflow_command \<Rightarrow> bool" where
  "stored_as_is q c \<longleftrightarrow>
     oc_redact_payload (qc_outbox q) (Legacy (dump_command q c)) = Legacy (dump_command q c)"

lemma collect_ret: "collect rs = ret xs \<longleftrightarrow> rs = map Inr xs"
proof (induction rs arbitrary: xs)
  case (Cons r rs)
  have rest: "rs = map Inr ys \<longleftrightarrow> collect rs = ret ys" for ys using Cons by simp
  show ?case by (cases r; cases xs) (simp_all add: rest split: sum.splits)
qed auto

definition new_row :: "queue_config \<Rightarrow> datetime \<Rightarrow> uuid \<Rightarrow> workflow_command \<Rightarrow> string option \<Rightarrow> outbox_row" where
  "new_row q now n c k =
     \<lparr>ox_id = n, ox_type = WORKFLOW_COMMAND_EVENT,
      ox_payload = oc_redact_payload (qc_outbox q) (Legacy (dump_command q c)),
      ox_dedupe_key = Some (command_key q c k), ox_status = PENDING, ox_created_at = now,
      ox_claimed_at = None, ox_attempts = 0, ox_available_at = None, ox_last_error = None,
      ox_failed_at = None, ox_dispatched_at = None, ox_workflow_id = None\<rparr>"

lemma enqueue_rows:
  "enqueue q now n c k db = (ret c', db') \<Longrightarrow>
     c' = c \<and> db' = db\<lparr>ob_rows := ob_rows db @ [new_row q now n c k]\<rparr>"
  by (auto simp: enqueue_def outbox_create_def new_row_def Let_def split: sum.splits if_splits)

lemma row_command_new:
  assumes "\<And>n. qc_parse q (qc_show q n) = Some n" and "stored_as_is q c"
  shows "row_command q (new_row q now n c k) = ret c"
  using assms by (simp add: row_command_def new_row_def stored_as_is_def load_dump)

lemma queued_rows_new:
  "set (queued_rows q (wc_workflow_id c) (db\<lparr>ob_rows := ob_rows db @ [new_row q now n c k]\<rparr>))
     = insert (new_row q now n c k) (set (queued_rows q (wc_workflow_id c) db))"
  using like_self [of "key_prefix q (wc_workflow_id c)"]
  by (auto simp: queued_rows_def keyed_rows_def new_row_def unfinished_def command_key_def)

lemma queued_for_new:
  assumes "queued_for q (wc_workflow_id c) db = ret cs"
    and "\<And>n. qc_parse q (qc_show q n) = Some n" and "stored_as_is q c"
  obtains cs' where
    "queued_for q (wc_workflow_id c) (db\<lparr>ob_rows := ob_rows db @ [new_row q now n c k]\<rparr>) = ret cs'"
    "set cs' = insert c (set cs)"
proof -
  let ?db' = "db\<lparr>ob_rows := ob_rows db @ [new_row q now n c k]\<rparr>"
  let ?old = "queued_rows q (wc_workflow_id c) db" and ?new = "queued_rows q (wc_workflow_id c) ?db'"
  let ?read = "\<lambda>r. case row_command q r of Inl _ \<Rightarrow> c | Inr x \<Rightarrow> x"
  have old: "map (row_command q) ?old = map Inr cs"
    using assms(1) by (simp add: queued_for_def collect_ret)
  have ok: "row_command q r = Inr (?read r)" if "r \<in> set ?new" for r
  proof -
    have "r = new_row q now n c k \<or> r \<in> set ?old" using that unfolding queued_rows_new by blast
    moreover have "row_command q r \<in> set (map Inr cs)" if "r \<in> set ?old"
      using that unfolding old [symmetric] by simp
    ultimately show ?thesis using row_command_new [OF assms(2,3)] by auto
  qed
  have "map (row_command q) ?new = map Inr (map ?read ?new)" using ok by simp
  then have q': "queued_for q (wc_workflow_id c) ?db' = ret (map ?read ?new)"
    by (simp add: queued_for_def collect_ret)
  have "?read ` set ?old = set cs"
  proof -
    have "map ?read ?old = cs"
      using arg_cong [OF old, of "map (\<lambda>x. case x of Inl _ \<Rightarrow> c | Inr y \<Rightarrow> y)"] by (simp add: comp_def)
    then show ?thesis by (metis set_map)
  qed
  then have "set (map ?read ?new) = insert c (set cs)"
    using row_command_new [OF assms(2,3)] by (simp add: queued_rows_new)
  with q' show thesis by (rule that)
qed

text \<open>
  C31: a command comes back as it was queued. Where ids parse back and redaction leaves the
  payload alone, the next claim of a queue with nothing else to claim hands out the very
  command that was queued, under its row, as a first attempt.
\<close>

theorem a_queued_command_comes_back:
  assumes parse: "\<And>n. qc_parse q (qc_show q n) = Some n" and stored: "stored_as_is q c"
    and run: "enqueue q now n c dedupe db = (ret c', db1)"
    and none: "\<And>r. r \<in> set (ob_rows db) \<Longrightarrow>
      \<not> claimable (Some WORKFLOW_COMMAND_EVENT) [] (qc_reclaim_after q) later r"
  shows "\<exists>db2. claim_command q (\<lambda>_ db. db) later db1
    = (ret (Some \<lparr>cc_outbox_id = n, cc_command = c, cc_attempt = 1\<rparr>), db2)"
proof -
  let ?new = "new_row q now n c dedupe"
  have db1: "db1 = db\<lparr>ob_rows := ob_rows db @ [?new]\<rparr>" using enqueue_rows [OF run] by blast
  have fresh: "\<forall>r \<in> set (ob_rows db). ox_id r \<noteq> n"
    using run by (auto simp: enqueue_def outbox_create_def Let_def split: sum.splits if_splits)
  have id: "ox_id ?new = n" by (simp add: new_row_def)
  have "claimable (Some WORKFLOW_COMMAND_EVENT) [] (qc_reclaim_after q) later ?new"
    by (simp add: claimable_def new_row_def)
  then have "filter (claimable (Some WORKFLOW_COMMAND_EVENT) [] (qc_reclaim_after q) later) (ob_rows db1) = [?new]"
    using none by (auto simp: db1 filter_empty_conv)
  moreover have "filter (same_claim ?new) (ob_rows db1) = [?new]"
    using fresh id by (auto simp: db1 filter_empty_conv same_claim_def)
  moreover have "find_by ox_id n (update_where (same_claim ?new) (stamp_claim later) (ob_rows db1))
      = Some (stamp_claim later ?new)"
  proof -
    have up: "update_where (same_claim ?new) (stamp_claim later) (ob_rows db1)
        = update_where (same_claim ?new) (stamp_claim later) (ob_rows db) @ [stamp_claim later ?new]"
      by (simp add: db1 update_where_def same_claim_def)
    have "find_by ox_id n (update_where (same_claim ?new) (stamp_claim later) (ob_rows db)) = None"
      using fresh by (auto simp: find_by_None update_where_def stamp_claim_def)
    moreover have "ox_id (stamp_claim later ?new) = n" using id by (simp add: stamp_claim_def)
    ultimately show ?thesis unfolding up find_by_append by simp
  qed
  ultimately obtain db2 where
    "claim_next (\<lambda>_ db. db) (Some WORKFLOW_COMMAND_EVENT) [] (qc_reclaim_after q) later db1
       = (Some (stamp_claim later ?new), db2)"
    using id by (simp add: claim_next_def CLAIM_RACE_RETRIES_def eval_nat_numeral Let_def first_by_def)
  moreover have "row_command q (stamp_claim later ?new) = ret c"
    using row_command_new [OF parse stored] by (simp add: row_command_def stamp_claim_def)
  moreover have "ox_id (stamp_claim later ?new) = n" "ox_attempts (stamp_claim later ?new) = 1"
    by (simp_all add: stamp_claim_def new_row_def)
  ultimately show ?thesis by (simp add: claim_command_def)
qed

section \<open>What an answer closes\<close>

definition answers :: "workflow_command \<Rightarrow> pending_interrupt \<Rightarrow> bool" where
  "answers c i \<longleftrightarrow> wc_kind c = RESUME \<and>
     (if wc_interrupt_ids c = [] then pi_thread_id i = wc_thread_id c
      else case pi_interrupt_id i of None \<Rightarrow> False | Some n \<Rightarrow> n \<in> set (wc_interrupt_ids c))"

definition own_interrupts :: "workflow_snapshot \<Rightarrow> bool" where
  "own_interrupts s \<longleftrightarrow>
     (\<forall>t \<in> set (sn_threads s). \<forall>i \<in> set (th_interrupts t). pi_thread_id i = th_thread_id t)"

lemma answers_iff:
  "answers c i \<longleftrightarrow> wc_kind c = RESUME \<and>
     (wc_interrupt_ids c = [] \<and> pi_thread_id i = wc_thread_id c
      \<or> (\<exists>n. pi_interrupt_id i = Some n \<and> n \<in> set (wc_interrupt_ids c)))"
  by (auto simp: answers_def split: option.splits)

text \<open>The pending interrupts are those no queued resume answers.\<close>

lemma pending_interrupts_alt:
  assumes "own_interrupts s"
  shows "pending_interrupts s =
    filter (\<lambda>i. \<forall>c \<in> set (sn_queued s). \<not> answers c i) (concat (map th_interrupts (sn_threads s)))"
proof -
  define P where "P i \<longleftrightarrow> (\<forall>c \<in> set (sn_queued s). \<not> answers c i)" for i :: pending_interrupt
  define resumes where "resumes = filter (\<lambda>c. wc_kind c = RESUME) (sn_queued s)"
  define R where "R i \<longleftrightarrow> \<not> (case pi_interrupt_id i of None \<Rightarrow> False
      | Some n \<Rightarrow> n \<in> set (concat (map wc_interrupt_ids resumes)))" for i :: pending_interrupt
  define Q where "Q t \<longleftrightarrow> th_thread_id t
      \<notin> set (map wc_thread_id (filter (\<lambda>c. wc_interrupt_ids c = []) resumes))" for t :: thread_snapshot
  have R: "R i \<longleftrightarrow> (\<forall>c \<in> set resumes. \<forall>n. pi_interrupt_id i = Some n \<longrightarrow> n \<notin> set (wc_interrupt_ids c))" for i
    by (cases "pi_interrupt_id i") (auto simp: R_def)
  have Q: "Q t \<longleftrightarrow> (\<forall>c \<in> set resumes. wc_interrupt_ids c = [] \<longrightarrow> th_thread_id t \<noteq> wc_thread_id c)" for t
    by (auto simp: Q_def)
  have P: "P i \<longleftrightarrow> (\<forall>c \<in> set resumes. \<not> (wc_interrupt_ids c = [] \<and> pi_thread_id i = wc_thread_id c)
      \<and> (\<forall>n. pi_interrupt_id i = Some n \<longrightarrow> n \<notin> set (wc_interrupt_ids c)))" for i
    unfolding P_def answers_iff resumes_def by auto
  have one: "P i \<longleftrightarrow> Q t \<and> R i" if "pi_thread_id i = th_thread_id t" for i t
    unfolding P Q R that by blast
  have "concat (map (\<lambda>t. filter R (th_interrupts t)) (filter Q ts)) = filter P (concat (map th_interrupts ts))"
    if "\<forall>t \<in> set ts. \<forall>i \<in> set (th_interrupts t). pi_thread_id i = th_thread_id t" for ts
    using that
  proof (induction ts)
    case (Cons t ts)
    have "filter P (th_interrupts t) = (if Q t then filter R (th_interrupts t) else [])"
      using one [of _ t] Cons.prems by (auto simp: filter_empty_conv intro!: filter_cong)
    with Cons show ?case by simp
  qed simp
  then have "concat (map (\<lambda>t. filter R (th_interrupts t)) (filter Q (sn_threads s)))
      = filter P (concat (map th_interrupts (sn_threads s)))"
    using assms unfolding own_interrupts_def by blast
  then show ?thesis
    unfolding pending_interrupts_def Let_def resumes_def [symmetric] P_def R_def Q_def .
qed

text \<open>
  An answer closes its question and no other. Once an answer is queued, a fresh reading
  of the workflow reports as pending exactly the interrupts reported before that the answer
  does not name, and none on the thread it is addressed to; where no other thread waits, the
  workflow is not waiting any more.
\<close>

theorem an_answer_closes_its_question:
  assumes read: "read_workflow q threads w db = ret (Some s)"
    and run: "resume_workflow q now n fresh threads w t v actor corr db = (ret c, db1)"
    and own: "own_interrupts s"
    and ids: "\<And>i. i \<in> set (pending_interrupts s) \<Longrightarrow> truthy_text (pi_interrupt_id i)"
    and parse: "\<And>m. qc_parse q (qc_show q m) = Some m"
    and stored: "stored_as_is q c"
  shows "\<exists>s'. read_workflow q threads w db1 = ret (Some s')
    \<and> pending_interrupts s' = filter (\<lambda>i. \<not> answers c i) (pending_interrupts s)
    \<and> (\<forall>i \<in> set (pending_interrupts s'). pi_thread_id i \<noteq> wc_thread_id c)
    \<and> (status_of s' = WF_WAITING \<longleftrightarrow> (\<exists>i \<in> set (pending_interrupts s). \<not> answers c i))"
proof -
  obtain s0 and th :: thread_snapshot where c: "wc_kind c = RESUME" "wc_workflow_id c = w"
    "read_workflow q threads w db = ret (Some s0)"
    "enqueue q now fresh c (th_checkpoint_id th) db = (ret c, db1)"
    "wc_interrupt_ids c = named_interrupts (filter (\<lambda>i. pi_thread_id i = wc_thread_id c)
       (pending_interrupts s0))"
    by (rule resume_workflow_ret [OF run]) (rule that; assumption)
  have named: "wc_interrupt_ids c = named_interrupts (filter (\<lambda>i. pi_thread_id i = wc_thread_id c)
       (pending_interrupts s))" using c(3,5) read by simp
  obtain ts cs where s: "threads w = Some ts" "queued_for q w db = ret cs"
    "s = \<lparr>sn_workflow_id = w, sn_threads = ts, sn_queued = cs\<rparr>"
    using read by (auto simp: read_workflow_ret)
  have db1: "db1 = db\<lparr>ob_rows := ob_rows db @ [new_row q now fresh c (th_checkpoint_id th)]\<rparr>"
    using enqueue_rows [OF c(4)] by blast
  have q: "queued_for q (wc_workflow_id c) db = ret cs" using s(2) c(2) by simp
  obtain cs' where "queued_for q (wc_workflow_id c) db1 = ret cs'" and cs': "set cs' = insert c (set cs)"
    unfolding db1 by (rule queued_for_new [OF q parse stored])
  then have read': "read_workflow q threads w db1
      = ret (Some \<lparr>sn_workflow_id = w, sn_threads = ts, sn_queued = cs'\<rparr>)"
    using s(1) c(2) by (simp add: read_workflow_ret)
  let ?s' = "\<lparr>sn_workflow_id = w, sn_threads = ts, sn_queued = cs'\<rparr>"
  have own': "own_interrupts ?s'" using own s(3) by (simp add: own_interrupts_def)
  have pending: "pending_interrupts ?s' = filter (\<lambda>i. \<not> answers c i) (pending_interrupts s)"
    unfolding pending_interrupts_alt [OF own] pending_interrupts_alt [OF own'] using s(3) cs'
    by (simp add: conj_commute)
  have closed: "answers c i"
    if i: "i \<in> set (pending_interrupts s)" "pi_thread_id i = wc_thread_id c" for i
  proof -
    obtain m where m: "pi_interrupt_id i = Some m" "truthy_text (Some m)"
      using ids [OF i(1)] by (cases "pi_interrupt_id i") (auto simp: truthy_text_def)
    then have "m = the (pi_interrupt_id i)" "truthy_text (pi_interrupt_id i)" by simp_all
    then have "m \<in> set (wc_interrupt_ids c)" using i by (auto simp: named named_interrupts_def)
    with m(1) c(1) show ?thesis by (auto simp: answers_iff)
  qed
  have "\<forall>i \<in> set (pending_interrupts ?s'). pi_thread_id i \<noteq> wc_thread_id c"
    unfolding pending using closed by auto
  moreover have "status_of ?s' = WF_WAITING \<longleftrightarrow> (\<exists>i \<in> set (pending_interrupts s). \<not> answers c i)"
    by (simp add: status_of_def pending filter_empty_conv)
  ultimately show ?thesis using read' pending by blast
qed

section \<open>Runs under the lease\<close>

lemma acquire_alone:
  "acquire ttl n owner t now db =
     (if current_lease now n db \<noteq> None then (raise (lease_unavailable ''held''), db)
      else (ret (new_lease ttl n owner t now (lb_next_token db)),
            write_lease (new_lease ttl n owner t now (lb_next_token db)) db))"
  by (auto simp: acquire_def acquire_write_def current_lease_def Let_def split: option.splits)

lemma mark_status_frame [simp]:
  "fw_leases (mark_status t st w) = fw_leases w" "fw_graph (mark_status t st w) = fw_graph w"
  by (simp_all add: mark_status_def)

lemma invoke_leases [simp]: "fw_leases (snd (invoke p t inp cmd w)) = fw_leases w"
  by (simp add: invoke_def Let_def split: prod.split ran.split)

lemma under_lease_eq:
  assumes "\<And>w. fw_leases (snd (body w)) = fw_leases w"
  shows "under_lease c n t now later body w =
    (if current_lease now n (fw_leases w) \<noteq> None then (Raised (lease_unavailable ''held''), w)
     else let l = new_lease (rn_ttl c) n (rn_owner c) (Some t) now (lb_next_token (fw_leases w));
              ls = write_lease l (fw_leases w); rw = body (w\<lparr>fw_leases := ls\<rparr>)
          in (fst rw, if fst rw = Died then snd rw
                      else (snd rw)\<lparr>fw_leases := snd (release later l ls)\<rparr>))"
proof (cases "current_lease now n (fw_leases w)")
  case None
  let ?l = "new_lease (rn_ttl c) n (rn_owner c) (Some t) now (lb_next_token (fw_leases w))"
  obtain r w1 where b: "body (w\<lparr>fw_leases := write_lease ?l (fw_leases w)\<rparr>) = (r, w1)" by fastforce
  then have "fw_leases w1 = write_lease ?l (fw_leases w)"
    using assms [of "w\<lparr>fw_leases := write_lease ?l (fw_leases w)\<rparr>"] by simp
  with None b show ?thesis
    by (cases r) (simp_all add: under_lease_def acquire_alone Let_def)
qed (simp add: under_lease_def acquire_alone)

text \<open>Both ways into the runner, as one body under the lease.\<close>

definition start_body :: "'g graph_port \<Rightarrow> string \<Rightarrow> pyval \<Rightarrow> string \<Rightarrow> 'g flow_world \<Rightarrow> unit ran \<times> 'g flow_world" where
  "start_body p t v cmd = invoke p t (Fresh v) cmd"

definition resume_body :: "'g graph_port \<Rightarrow> string \<Rightarrow> graph_input \<Rightarrow> string \<Rightarrow> 'g flow_world \<Rightarrow> unit ran \<times> 'g flow_world" where
  "resume_body p t inp cmd w =
     (let s = gp_state p t (fw_graph w) in
      if gs_checkpoint_id s = None
      then (Raised (POS NothingToResume ''has to be started, not resumed'' None), w)
      else if gs_next s = [] then (Finished (), mark_status t ''completed'' w)
      else invoke p t inp cmd w)"

lemma body_leases [simp]:
  "fw_leases (snd (start_body p t v cmd w)) = fw_leases w"
  "fw_leases (snd (resume_body p t inp cmd w)) = fw_leases w"
  by (simp_all add: start_body_def resume_body_def Let_def)

definition command_body ::
  "queue_config \<Rightarrow> 'g graph_port \<Rightarrow> workflow_command \<Rightarrow> bool \<Rightarrow> 'g flow_world \<Rightarrow>
   'g flow_world \<Rightarrow> unit ran \<times> 'g flow_world" where
  "command_body q p cmd again w0 =
     (let t = wc_thread_id cmd; n = qc_show q (wc_command_id cmd) in
      if again \<and> already_under_way q p cmd w0 then resume_body p t Carry_on n
      else case wc_kind cmd of
        START \<Rightarrow> start_body p t (if truthy (wc_graph_input cmd) then wc_graph_input cmd else PDict []) n
      | RETRY \<Rightarrow> resume_body p t Carry_on n
      | RESUME \<Rightarrow> resume_body p t (Answered (wc_graph_input cmd)) n)"

lemma command_body_leases [simp]: "fw_leases (snd (command_body q p cmd again w0 w)) = fw_leases w"
  by (cases "wc_kind cmd") (simp_all add: command_body_def Let_def)

lemma run_command_body:
  "run_workflow_command q c p now later cmd again w =
     (case fw_runs w (wc_thread_id cmd) of
        None \<Rightarrow> (Raised unregistered, w)
      | Some (n, _) \<Rightarrow> under_lease c n (wc_thread_id cmd) now later (command_body q p cmd again w) w)"
proof -
  have start: "runner_start c p now later t v m w = (case fw_runs w t of
      None \<Rightarrow> (Raised unregistered, w)
    | Some (n, _) \<Rightarrow> under_lease c n t now later (start_body p t v m) w)" for t v m
    unfolding runner_start_def start_body_def ..
  have resume: "runner_resume c p now later t inp m w = (case fw_runs w t of
      None \<Rightarrow> (Raised unregistered, w)
    | Some (n, _) \<Rightarrow> under_lease c n t now later (resume_body p t inp m) w)" for t inp m
    unfolding runner_resume_def resume_body_def ..
  show ?thesis
    unfolding run_workflow_command_def command_body_def start resume Let_def
    by (cases "fw_runs w (wc_thread_id cmd)"; cases "wc_kind cmd") (simp_all add: split_beta)
qed

lemma process_next_run:
  assumes "process_next_command q runners busy ck race others alive db w = (r, db', w')"
  shows "w' = w \<or> (\<exists>cl db1 c p n st r'. claim_command q race (ck_claim ck) db = (ret (Some cl), db1)
    \<and> fw_runs w (wc_thread_id (cc_command cl)) = Some (n, st)
    \<and> (r', w') = under_lease c n (wc_thread_id (cc_command cl)) (ck_acquire ck) (ck_release ck)
         (command_body q p (cc_command cl) (redelivered cl) w) w
    \<and> (\<exists>k. runners k = Some (c, p)) \<and> (r' = Died \<longrightarrow> r = Died))"
proof -
  obtain res db1 where cl: "claim_command q race (ck_claim ck) db = (res, db1)" by fastforce
  consider "w' = w" | x where "res = ret (Some x)" using assms cl
    by (cases res) (auto simp: process_next_command_def split: option.splits)
  then show ?thesis
  proof cases
    case 2
    let ?k = "case thread_namespace (wc_thread_id (cc_command x)) of None \<Rightarrow> [] | Some k \<Rightarrow> k"
    define out where "out = (case runners ?k of
        None \<Rightarrow> (Raised (PY ''LookupError'' ''no runner is wired'' None), w)
      | Some (c, p) \<Rightarrow> run_workflow_command q c p (ck_acquire ck) (ck_release ck) (cc_command x) (redelivered x) w)"
    have w': "w' = snd out" and died: "fst out = Died \<longrightarrow> r = Died"
      using assms cl 2 unfolding process_next_command_def out_def [symmetric]
      by (cases out; auto simp: Let_def out_def [symmetric] split: ran.splits if_splits sum.splits)+
    show ?thesis
    proof (cases "runners ?k")
      case None
      with w' show ?thesis by (simp add: out_def)
    next
      case (Some cp)
      obtain c p where cp: "cp = (c, p)" by fastforce
      show ?thesis
      proof (cases "fw_runs w (wc_thread_id (cc_command x))")
        case None
        with w' Some cp show ?thesis by (simp add: out_def run_command_body)
      next
        case run: (Some nst)
        obtain n st where "nst = (n, st)" by fastforce
        with run Some cp have out: "out = under_lease c n (wc_thread_id (cc_command x)) (ck_acquire ck)
            (ck_release ck) (command_body q p (cc_command x) (redelivered x) w) w"
          by (simp add: out_def run_command_body)
        show ?thesis
          by (rule disjI2, rule exI [of _ x], rule exI [of _ db1], rule exI [of _ c], rule exI [of _ p],
              rule exI [of _ n], rule exI [of _ st], rule exI [of _ "fst out"], intro conjI)
            (use cl 2 run \<open>nst = (n, st)\<close> out w' died Some cp in \<open>auto simp: out [symmetric]\<close>)
      qed
    qed
  qed simp
qed

text \<open>
  C10: a graph runs under its workflow's lease and nowhere else. If processing a command changed
  the graph's state, the command was claimed, its thread belongs to a workflow on which no
  live lease stood when the run began, no other workflow's lease was touched, and the lease
  taken, under a fresh token, is released at the end or is left behind by a worker that died.
\<close>

theorem graphs_run_under_a_lease:
  assumes run: "process_next_command q runners busy ck race others alive db w = (r, db', w')"
    and moved: "fw_graph w' \<noteq> fw_graph w"
  shows "\<exists>cl db1 n st row. claim_command q race (ck_claim ck) db = (ret (Some cl), db1)
    \<and> fw_runs w (wc_thread_id (cc_command cl)) = Some (n, st)
    \<and> current_lease (ck_acquire ck) n (fw_leases w) = None
    \<and> (\<forall>m. m \<noteq> n \<longrightarrow> lb_row (fw_leases w') m = lb_row (fw_leases w) m)
    \<and> lb_row (fw_leases w') n = Some row
    \<and> wl_token (lr_lease row) = lb_next_token (fw_leases w)
    \<and> (lr_released_at row = Some (ck_release ck) \<or> r = Died \<and> lr_released_at row = None)"
proof -
  from process_next_run [OF run] moved obtain cl db1 c p n st r' where
    cl: "claim_command q race (ck_claim ck) db = (ret (Some cl), db1)"
      "fw_runs w (wc_thread_id (cc_command cl)) = Some (n, st)"
    and run': "(r', w') = under_lease c n (wc_thread_id (cc_command cl)) (ck_acquire ck) (ck_release ck)
         (command_body q p (cc_command cl) (redelivered cl) w) w"
    and died: "r' = Died \<longrightarrow> r = Died" by auto
  let ?body = "command_body q p (cc_command cl) (redelivered cl) w"
  let ?l = "new_lease (rn_ttl c) n (rn_owner c) (Some (wc_thread_id (cc_command cl))) (ck_acquire ck)
      (lb_next_token (fw_leases w))"
  let ?ls = "write_lease ?l (fw_leases w)"
  have free: "current_lease (ck_acquire ck) n (fw_leases w) = None"
    using run' moved by (auto simp: under_lease_eq split: if_splits)
  obtain r1 w1 where b: "?body (w\<lparr>fw_leases := ?ls\<rparr>) = (r1, w1)" by fastforce
  then have w1: "fw_leases w1 = ?ls"
    using command_body_leases [of q p "cc_command cl" "redelivered cl" w "w\<lparr>fw_leases := ?ls\<rparr>"] by simp
  have out: "r' = r1" "fw_leases w' = (if r1 = Died then ?ls else snd (release (ck_release ck) ?l ?ls))"
    using run' free b w1 by (simp_all add: under_lease_eq Let_def)
  have row: "lb_row ?ls n = Some \<lparr>lr_lease = ?l, lr_released_at = None\<rparr>"
    "wl_token ?l = lb_next_token (fw_leases w)" "\<And>m. m \<noteq> n \<Longrightarrow> lb_row ?ls m = lb_row (fw_leases w) m"
    by (simp_all add: write_lease_def new_lease_def)
  have rel: "lb_row (snd (release (ck_release ck) ?l ?ls)) m =
      (if m = n then Some \<lparr>lr_lease = ?l, lr_released_at = Some (ck_release ck)\<rparr> else lb_row ?ls m)" for m
    by (simp add: release_def current_holder_def set_lease_def new_lease_def write_lease_def)
  define final where "final = \<lparr>lr_lease = ?l, lr_released_at = (if r1 = Died then None else Some (ck_release ck))\<rparr>"
  have "lb_row (fw_leases w') n = Some final" using out(2) row(1) rel by (simp add: final_def)
  moreover have "\<forall>m. m \<noteq> n \<longrightarrow> lb_row (fw_leases w') m = lb_row (fw_leases w) m"
    using out(2) row(3) rel by auto
  moreover have "lr_released_at final = Some (ck_release ck) \<or> r = Died \<and> lr_released_at final = None"
    using died out(1) by (simp add: final_def)
  moreover have "wl_token (lr_lease final) = lb_next_token (fw_leases w)"
    using row(2) by (simp add: final_def)
  ultimately show ?thesis using cl free by blast
qed

text \<open>A graph that refuses anything but to carry on.\<close>

definition only_carry_on :: "'g graph_port \<Rightarrow> 'g graph_port" where
  "only_carry_on p = p\<lparr>gp_run := (\<lambda>t inp m g.
     if inp = Carry_on then gp_run p t inp m g
     else (Raised (PY ''AssertionError'' ''given input'' None), g))\<rparr>"


section \<open>An answer given twice\<close>

definition ex_queue_outbox :: outbox_config where
  "ex_queue_outbox = \<lparr>tc_exclude_types = [], tc_visibility_timeout = 300,
     tc_retry_policy = EVENT_DELIVERY, tc_describe = (\<lambda>_. ''error''), tc_redact_text = (\<lambda>t. t),
     tc_lapsed = (\<lambda>_. ''lapsed''), oc_redact_payload = (\<lambda>p. p), oc_as_uuid = (\<lambda>_. None),
     oc_redact = (\<lambda>d. d), oc_byte_count = (\<lambda>_. 0), oc_describe_int = (\<lambda>_. ''1'')\<rparr>"

definition ex_queue :: queue_config where
  "ex_queue = \<lparr>qc_show = (\<lambda>n. replicate n CHR ''i''), qc_parse = (\<lambda>s. Some (length s)),
     qc_outbox = ex_queue_outbox, qc_reclaim_after = Some 300\<rparr>"

text \<open>
  A graph that asks one question after another and keeps the answers: the number of the
  question it stands at, the command that brought it there, and the answers so far.
\<close>

definition ex_graph :: "(nat \<times> string option \<times> (nat \<times> pyval) list) graph_port" where
  "ex_graph = \<lparr>gp_state = (\<lambda>_ (n, m, _).
       \<lparr>gs_checkpoint_id = Some (replicate n CHR ''c''), gs_next = [''ask''], gs_command_id = m\<rparr>),
     gp_run = (\<lambda>_ inp m (n, _, log).
       case inp of Answered v \<Rightarrow> (Finished (), Suc n, Some m, log @ [(n, v)])
       | _ \<Rightarrow> (Finished (), n, Some m, log))\<rparr>"

definition ex_runners :: "string \<Rightarrow> (runner_config \<times> (nat \<times> string option \<times> (nat \<times> pyval) list) graph_port) option" where
  "ex_runners k = (if k = ''job'' then Some (\<lparr>rn_ttl = 300, rn_owner = ''w''\<rparr>, ex_graph) else None)"

definition ex_flow :: "(nat \<times> string option \<times> (nat \<times> pyval) list) flow_world" where
  "ex_flow = \<lparr>fw_leases = \<lparr>lb_row = Map.empty, lb_next_token = 1\<rparr>,
     fw_runs = [''job:x'' \<mapsto> (7, ''running'')], fw_graph = (1, None, [])\<rparr>"

definition ex_answer :: "uuid \<Rightarrow> string \<Rightarrow> workflow_command" where
  "ex_answer n v = \<lparr>wc_command_id = n, wc_kind = RESUME, wc_workflow_id = 7,
     wc_thread_id = ''job:x'', wc_actor_id = ''user'', wc_correlation_id = 3,
     wc_graph_input = PStr v, wc_interrupt_ids = [v]\<rparr>"

definition ex_clock :: "datetime \<Rightarrow> command_clock" where
  "ex_clock t = \<lparr>ck_claim = t, ck_acquire = t, ck_release = t + 1, ck_settle = t + 1\<rparr>"

definition ex_turn ::
  "datetime \<Rightarrow> bool \<Rightarrow> outbox \<times> (nat \<times> string option \<times> (nat \<times> pyval) list) flow_world \<Rightarrow>
   outbox \<times> (nat \<times> string option \<times> (nat \<times> pyval) list) flow_world" where
  "ex_turn t alive s =
     snd (process_next_command ex_queue ex_runners DEFAULT_LEASE_BUSY_DELAY (ex_clock t)
            (\<lambda>_ db. db) (\<lambda>db. db) alive (fst s) (snd s))"

definition ex_ask :: "datetime \<Rightarrow> uuid \<Rightarrow> string \<Rightarrow> string \<Rightarrow> outbox \<times> 'w \<Rightarrow> outbox \<times> 'w" where
  "ex_ask t n v k s = (snd (enqueue ex_queue t n (ex_answer n v) (Some k) (fst s)), snd s)"

text \<open>
  An old answer can reach a new question. The worker that ran the first answer dies before
  it settles it; the second answer is run by another worker; then the first one, delivered
  again, is not recognised as carried out, since the latest checkpoint names the second, and
  is given to the third question.
\<close>

theorem an_old_answer_reaches_a_new_question:
  "snd (snd (fw_graph (snd
     (ex_turn 400 True (ex_turn 20 True (ex_ask 10 2 ''no'' ''cc''
       (ex_turn 5 False (ex_ask 0 1 ''yes'' ''c''
         (\<lparr>ob_rows = [], ob_workflows = [7], ob_runs = []\<rparr>, ex_flow)))))))))
   = [(1, PStr ''yes''), (2, PStr ''no''), (3, PStr ''yes'')]"
  by code_simp

section \<open>Witnesses\<close>

definition ex_interrupt :: "string \<Rightarrow> pending_interrupt" where
  "ex_interrupt n = \<lparr>pi_thread_id = ''job:x'', pi_step = Some ''ask'', pi_interrupt_id = Some n,
     pi_value = PNone\<rparr>"

definition ex_thread :: thread_snapshot where
  "ex_thread = \<lparr>th_thread_id = ''job:x'', th_run_status = ''running'', th_checkpoint_id = Some ''c'',
     th_completed_steps = [], th_next_steps = [''ask''], th_interrupts = [ex_interrupt ''yes''],
     th_failures = [], th_actor_id = None, th_correlation_id = None, th_updated_at = None\<rparr>"

definition ex_threads :: thread_reader where
  "ex_threads w = (if w = 7 then Some [ex_thread] else None)"

definition ex_empty :: outbox where
  "ex_empty = \<lparr>ob_rows = [], ob_workflows = [7], ob_runs = []\<rparr>"

lemma ex_parse: "qc_parse ex_queue (qc_show ex_queue n) = Some n"
  by (simp add: ex_queue_def)

lemma ex_stored: "stored_as_is ex_queue c"
  by (simp add: stored_as_is_def ex_queue_def ex_queue_outbox_def)

lemma ex_resume:
  "\<exists>db. resume_workflow ex_queue 0 1 1 ex_threads 7 None (PStr ''yes'') ''user'' 3 ex_empty
     = (ret (ex_answer 1 ''yes''), db)"
proof -
  have "fst (resume_workflow ex_queue 0 1 1 ex_threads 7 None (PStr ''yes'') ''user'' 3 ex_empty)
      = ret (ex_answer 1 ''yes'')"
    by code_simp
  then show ?thesis by (metis prod.collapse)
qed

lemma ex_stopped: "stopped_at ex_threads 7 ''job:x'' ''c''"
  by (simp add: stopped_at_def ex_threads_def ex_thread_def find_first_def)


theorem a_queued_command_comes_back_witness:
  "\<exists>db1 db2. enqueue ex_queue 0 1 (ex_answer 1 ''yes'') (Some ''c'') ex_empty
       = (ret (ex_answer 1 ''yes''), db1)
     \<and> claim_command ex_queue (\<lambda>_ db. db) 5 db1
       = (ret (Some \<lparr>cc_outbox_id = 1, cc_command = ex_answer 1 ''yes'', cc_attempt = 1\<rparr>), db2)"
proof -
  obtain r db1 where run: "enqueue ex_queue 0 1 (ex_answer 1 ''yes'') (Some ''c'') ex_empty = (r, db1)"
    by fastforce
  then have r: "r = ret (ex_answer 1 ''yes'')"
    by (auto simp: enqueue_def outbox_create_def ex_empty_def Let_def)
  have none: "\<not> claimable (Some WORKFLOW_COMMAND_EVENT) [] (qc_reclaim_after ex_queue) 5 x"
    if "x \<in> set (ob_rows ex_empty)" for x using that by (simp add: ex_empty_def)
  from a_queued_command_comes_back [OF ex_parse ex_stored run [unfolded r] none] run r
  show ?thesis by blast
qed

lemma ex_pending:
  "\<exists>s. read_workflow ex_queue ex_threads 7 ex_empty = ret (Some s)
     \<and> pending_interrupts s = [ex_interrupt ''yes''] \<and> sn_threads s = [ex_thread]"
  by (simp add: read_workflow_def ex_threads_def queued_for_def queued_rows_def keyed_rows_def
      ex_empty_def pending_interrupts_def ex_thread_def ex_interrupt_def)

theorem an_answer_closes_its_question_witness:
  "\<exists>db1 s'. resume_workflow ex_queue 0 1 1 ex_threads 7 None (PStr ''yes'') ''user'' 3 ex_empty
       = (ret (ex_answer 1 ''yes''), db1)
     \<and> read_workflow ex_queue ex_threads 7 db1 = ret (Some s')
     \<and> pending_interrupts s' = [] \<and> status_of s' \<noteq> WF_WAITING"
proof -
  obtain db1 where one: "resume_workflow ex_queue 0 1 1 ex_threads 7 None (PStr ''yes'') ''user'' 3 ex_empty
      = (ret (ex_answer 1 ''yes''), db1)" using ex_resume by blast
  obtain s where s: "read_workflow ex_queue ex_threads 7 ex_empty = ret (Some s)"
    "pending_interrupts s = [ex_interrupt ''yes'']" "sn_threads s = [ex_thread]" using ex_pending by blast
  have own: "own_interrupts s" by (simp add: own_interrupts_def s ex_thread_def ex_interrupt_def)
  have ids: "truthy_text (pi_interrupt_id i)" if "i \<in> set (pending_interrupts s)" for i
    using that by (simp add: s ex_interrupt_def truthy_text_def)
  have "answers (ex_answer 1 ''yes'') (ex_interrupt ''yes'')"
    by (simp add: answers_def ex_answer_def ex_interrupt_def)
  with an_answer_closes_its_question [OF s(1) one own ids ex_parse ex_stored] one
  show ?thesis by (auto simp: s)
qed

text \<open>The first command's turn, the worker alive, and the redelivery of one whose worker died.\<close>

definition ex_asked :: outbox where
  "ex_asked = snd (enqueue ex_queue 0 1 (ex_answer 1 ''yes'') (Some ''c'') ex_empty)"

definition ex_unsettled :: "outbox \<times> (nat \<times> string option \<times> (nat \<times> pyval) list) flow_world" where
  "ex_unsettled = ex_turn 5 False (ex_asked, ex_flow)"

theorem graphs_run_under_a_lease_witness:
  "\<exists>db' w'. process_next_command ex_queue ex_runners 5 (ex_clock 5) (\<lambda>_ db. db) (\<lambda>db. db) True
       ex_asked ex_flow = (Finished True, db', w')
     \<and> (\<exists>row. lb_row (fw_leases w') 7 = Some row \<and> lr_released_at row = Some 6)"
proof -
  let ?out = "process_next_command ex_queue ex_runners 5 (ex_clock 5) (\<lambda>_ db. db) (\<lambda>db. db) True
       ex_asked ex_flow"
  obtain r db' w' where run: "?out = (r, db', w')" by (metis prod.collapse)
  have "fst ?out = Finished True" by code_simp
  with run have r: "r = Finished True" by simp
  have "fst (fw_graph (snd (snd ?out))) = 2" by code_simp
  with run have "fw_graph w' \<noteq> fw_graph ex_flow" by (auto simp: ex_flow_def)
  from graphs_run_under_a_lease [OF run this] obtain cl :: claimed_command and n st row where
    cl: "fw_runs ex_flow (wc_thread_id (cc_command cl)) = Some (n, st)"
    and row: "lb_row (fw_leases w') n = Some row"
      "lr_released_at row = Some (ck_release (ex_clock 5))" unfolding r by auto
  have "n = 7" using cl by (auto simp: ex_flow_def split: if_splits)
  with run r row show ?thesis by (auto simp: ex_clock_def)
qed


end
