(* ===== verification/Dispatcher.thy ===== *)
theory Dispatcher
  imports Workflows Inbox Lifecycle
begin

text \<open>
  The worker half of event delivery: the router that turns an event into a workflow command and
  the consumer that applies a requested status change (\<open>apps/worker/event_routing.py\<close>), and
  the dispatcher that claims, delivers and settles events
  (\<open>apps/worker/outbox_dispatcher.py\<close>). The digest of an event's key and the registration of a
  new run's thread are parameters.
\<close>

section \<open>Routing\<close>

datatype route_kind = RESUMED | STARTED | ALREADY_ROUTED | UNROUTED

record routed_event =
  ro_kind :: route_kind
  ro_workflow_id :: "uuid option"
  ro_thread_id :: "string option"

definition resume_value :: "(event_envelope \<Rightarrow> pydict) \<Rightarrow> event_envelope \<Rightarrow> pyval" where
  "resume_value dump e = PDict [(''event'', PDict (dump e))]"

text \<open>\<open>er_digest\<close>: the first 32 hex digits of the SHA-256 of the event's type and key.\<close>

record router =
  er_queue :: queue_config
  er_threads :: thread_reader
  er_starter :: "event_envelope \<Rightarrow> exn + uuid \<times> string"
  er_start_types :: "string list option"
  er_digest :: "string \<Rightarrow> string \<Rightarrow> string"
  er_dump :: "event_envelope \<Rightarrow> pydict"

definition command_dedupe :: "router \<Rightarrow> event_envelope \<Rightarrow> string" where
  "command_dedupe r e = ''event:'' @ er_digest r (ev_type e) (ev_dedupe_key e)"

definition enqueue_routed ::
  "router \<Rightarrow> datetime \<Rightarrow> uuid \<Rightarrow> workflow_command \<Rightarrow> event_envelope \<Rightarrow> route_kind \<Rightarrow> outbox \<Rightarrow>
   routed_event \<times> outbox" where
  "enqueue_routed r now fresh c e kind db =
     (case enqueue (er_queue r) now fresh c (Some (command_dedupe r e)) db of
        (Inl _, db') \<Rightarrow> (\<lparr>ro_kind = ALREADY_ROUTED, ro_workflow_id = Some (wc_workflow_id c),
                          ro_thread_id = Some (wc_thread_id c)\<rparr>, db')
      | (Inr _, db') \<Rightarrow> (\<lparr>ro_kind = kind, ro_workflow_id = Some (wc_workflow_id c),
                          ro_thread_id = Some (wc_thread_id c)\<rparr>, db'))"

text \<open>\<open>EventRouter.__call__\<close>; \<open>n\<close> and \<open>fresh\<close> are the ids it draws.\<close>

definition route ::
  "router \<Rightarrow> datetime \<Rightarrow> uuid \<Rightarrow> uuid \<Rightarrow> event_envelope \<Rightarrow> outbox \<Rightarrow> (exn + routed_event) \<times> outbox" where
  "route r now n fresh e db =
     (case (case ev_correlation_id e of None \<Rightarrow> ret None
            | Some k \<Rightarrow> waiting_for (er_queue r) (er_threads r) k db) of
        Inl err \<Rightarrow> (raise err, db)
      | Inr (Some wt) \<Rightarrow>
          (case enqueue_routed r now fresh
                  \<lparr>wc_command_id = n, wc_kind = RESUME, wc_workflow_id = wt_workflow_id wt,
                   wc_thread_id = wt_thread_id wt, wc_actor_id = wt_actor_id wt,
                   wc_correlation_id = (case ev_correlation_id e of None \<Rightarrow> 0 | Some k \<Rightarrow> k),
                   wc_graph_input = resume_value (er_dump r) e,
                   wc_interrupt_ids = wt_interrupt_ids wt\<rparr> e RESUMED db of
             (o1, db') \<Rightarrow> (ret o1, db'))
      | Inr None \<Rightarrow>
          if (case er_start_types r of None \<Rightarrow> False | Some ts \<Rightarrow> ev_type e \<notin> set ts)
          then (ret \<lparr>ro_kind = UNROUTED, ro_workflow_id = None, ro_thread_id = None\<rparr>, db)
          else (case er_starter r e of
                  Inl err \<Rightarrow> (raise err, db)
                | Inr (w, t) \<Rightarrow>
                    (case enqueue_routed r now fresh
                            \<lparr>wc_command_id = n, wc_kind = START, wc_workflow_id = w, wc_thread_id = t,
                             wc_actor_id = ''event:'' @ ev_source e,
                             wc_correlation_id = (case ev_correlation_id e of None \<Rightarrow> ev_id e | Some k \<Rightarrow> k),
                             wc_graph_input = resume_value (er_dump r) e,
                             wc_interrupt_ids = []\<rparr> e STARTED db of
                       (o1, db') \<Rightarrow> (ret o1, db'))))"

section \<open>Requested status changes\<close>

definition APPLICATION_TRANSITION_CONSUMER :: string where
  "APPLICATION_TRANSITION_CONSUMER = ''application_transitions''"

definition APPLICATION_TRANSITION_REQUESTED :: string where
  "APPLICATION_TRANSITION_REQUESTED = ''application.transition_requested''"

text \<open>\<open>py_str\<close> is \<open>str(value)\<close> and \<open>parse\<close> reads an id.\<close>

record transition_port =
  tp_str :: "pyval \<Rightarrow> string"
  tp_parse :: "string \<Rightarrow> uuid option"

definition invalid_request :: exn where
  "invalid_request = POS InvalidEventEnvelope ''needs an application_id and a valid status'' None"

definition transition_request ::
  "transition_port \<Rightarrow> event_envelope \<Rightarrow> exn + (uuid \<times> application_status \<times> string option)" where
  "transition_request p e =
     (let named = dict_get (ev_payload e) ''application_id'';
          n = tp_parse p (if truthy named then tp_str p named
                          else case subject e ''application'' of None \<Rightarrow> tp_str p PNone | Some s \<Rightarrow> s);
          status = (case dict_get (ev_payload e) ''status'' of PStr s \<Rightarrow> application_status_of s | _ \<Rightarrow> None)
      in case (n, status) of
        (Some n, Some s) \<Rightarrow>
          ret (n, s, case dict_get (ev_payload e) ''reason'' of PNone \<Rightarrow> None | v \<Rightarrow> Some (tp_str p v))
      | _ \<Rightarrow> raise invalid_request)"

text \<open>
  The effect, read on \<open>d\<close> and written on what the database holds when it commits; \<open>later\<close> is
  that database as the guarded update sees it.
\<close>

definition apply_transition ::
  "uuid \<Rightarrow> application_status \<Rightarrow> string option \<Rightarrow> datetime \<Rightarrow> (lifecycle_db \<Rightarrow> lifecycle_db) \<Rightarrow>
   (lifecycle_db, application_status option) effect" where
  "apply_transition n st why now later e d =
     (let actor = ''event:'' @ ev_source e in
      case update_status later n st why actor now None d of
        (Inl x, _) \<Rightarrow>
          if isinstance x InvalidApplicationTransition then ret (None, \<lambda>d. d) else raise x
      | (Inr _, _) \<Rightarrow> ret (Some st, \<lambda>d'. snd (update_status (\<lambda>_. d') n st why actor now None d)))"

definition handle_transition ::
  "transition_port \<Rightarrow> datetime \<Rightarrow> (lifecycle_db inbox \<Rightarrow> lifecycle_db inbox) \<Rightarrow> event_envelope \<Rightarrow>
   lifecycle_db inbox \<Rightarrow> (exn + application_status option consumption) \<times> lifecycle_db inbox" where
  "handle_transition p now race e s =
     (case transition_request p e of
        Inl err \<Rightarrow> (raise err, s)
      | Inr (n, st, why) \<Rightarrow>
          consume APPLICATION_TRANSITION_CONSUMER race e
            (apply_transition n st why now (\<lambda>_. ib_domain (race s))) s)"

section \<open>The dispatcher\<close>

text \<open>
  A handler works on everything the processes share, the transport included, and what others
  do meanwhile is part of what it does to it. A dispatcher that dies settles nothing.
\<close>

type_synonym 'x handler = "event_envelope \<Rightarrow> 'x \<Rightarrow> unit ran \<times> 'x"

record dispatch_clock =
  dc_claim :: datetime
  dc_settle :: datetime
  dc_jitter :: rat

definition process_next_event ::
  "('s, 'd) transport_ops \<Rightarrow> ('d \<Rightarrow> event_envelope) \<Rightarrow> (string \<rightharpoonup> ('s \<times> 'w) handler) \<Rightarrow>
   ('s \<times> 'w) handler option \<Rightarrow> dispatch_clock \<Rightarrow> 's \<times> 'w \<Rightarrow> bool ran \<times> 's \<times> 'w" where
  "process_next_event ops envelope handlers other ck x =
     (case tr_claim ops (dc_claim ck) (fst x) of
        (None, s1) \<Rightarrow> (Finished False, s1, snd x)
      | (Some d, s1) \<Rightarrow>
          let e = envelope d;
              handler = (case handlers (ev_type e) of Some h \<Rightarrow> Some h | None \<Rightarrow> other)
          in (case (case handler of None \<Rightarrow> (Finished (), s1, snd x) | Some h \<Rightarrow> h e (s1, snd x)) of
                (Finished _, s2, w) \<Rightarrow> (Finished True, snd (tr_ack ops (dc_settle ck) d s2), w)
              | (Raised err, s2, w) \<Rightarrow>
                  (case tr_nack ops (dc_settle ck) (dc_jitter ck) d err s2 of
                     (Inl err', s3) \<Rightarrow> (Raised err', s3, w)
                   | (Inr _, s3) \<Rightarrow> (Finished True, s3, w))
              | (Died, s2, w) \<Rightarrow> (Died, s2, w)))"

text \<open>\<open>drain\<close>; \<open>ck i\<close> is the clock during the i-th delivery.\<close>

partial_function (option) drain ::
  "('s, 'd) transport_ops \<Rightarrow> ('d \<Rightarrow> event_envelope) \<Rightarrow> (string \<rightharpoonup> ('s \<times> 'w) handler) \<Rightarrow>
   ('s \<times> 'w) handler option \<Rightarrow> (nat \<Rightarrow> dispatch_clock) \<Rightarrow> nat option \<Rightarrow> nat \<Rightarrow> 's \<times> 'w \<Rightarrow>
   (nat ran \<times> 's \<times> 'w) option" where
  "drain ops envelope handlers other ck limit i x =
     (if (case limit of None \<Rightarrow> False | Some n \<Rightarrow> i \<ge> n) then Some (Finished i, x)
      else case process_next_event ops envelope handlers other (ck i) x of
        (Finished got, x') \<Rightarrow>
          if got then drain ops envelope handlers other ck limit (Suc i) x' else Some (Finished i, x')
      | (Raised e, x') \<Rightarrow> Some (Raised e, x')
      | (Died, x') \<Rightarrow> Some (Died, x'))"

section \<open>The dispatchers of a deployment\<close>

record dispatch_config =
  dp_outbox :: outbox_config
  dp_router :: router
  dp_port :: transition_port

type_synonym desk = "outbox \<times> lifecycle_db inbox"

text \<open>
  \<open>ApplicationTransitionHandler\<close> and \<open>EventRouter\<close> as handlers: \<open>others\<close> is what the other
  processes do, for the former between its look at the inbox and its commit.
\<close>

definition outcome :: "exn + 'a \<Rightarrow> unit ran" where
  "outcome r = (case r of Inl e \<Rightarrow> Raised e | Inr _ \<Rightarrow> Finished ())"

definition transition_handler ::
  "transition_port \<Rightarrow> datetime \<Rightarrow> (desk \<Rightarrow> desk) \<Rightarrow> desk handler" where
  "transition_handler p now others e x =
     (case handle_transition p now (\<lambda>ib. snd (others (fst x, ib))) e (snd x) of
        (res, ib) \<Rightarrow>
          (outcome res,
           (if is_ret (transition_request p e)
               \<and> \<not> seen APPLICATION_TRANSITION_CONSUMER (ev_dedupe_key e) (snd x)
            then fst (others x) else fst x),
           ib))"

definition router_handler :: "router \<Rightarrow> datetime \<Rightarrow> uuid \<Rightarrow> uuid \<Rightarrow> (desk \<Rightarrow> desk) \<Rightarrow> desk handler" where
  "router_handler r now n fresh others e x =
     (case others x of (db, ib) \<Rightarrow>
        (case route r now n fresh e db of (res, db') \<Rightarrow> (outcome res, db', ib)))"

datatype fate = Lives | Dies_before | Dies_after

definition fated :: "fate \<Rightarrow> 'x handler \<Rightarrow> 'x handler" where
  "fated f h e x = (case f of Lives \<Rightarrow> h e x | Dies_before \<Rightarrow> (Died, x) | Dies_after \<Rightarrow> (Died, snd (h e x)))"

text \<open>
  One delivery by a dispatcher, with the moves other processes make while its handler works;
  the publications and the operators' requeues in between.
\<close>

datatype process_move =
  Deliver_event dispatch_clock uuid uuid fate "process_move list"
| Publish_event datetime event_envelope
| Requeue_event uuid

fun perform_move :: "dispatch_config \<Rightarrow> process_move \<Rightarrow> desk \<Rightarrow> desk"
  and perform_moves :: "dispatch_config \<Rightarrow> process_move list \<Rightarrow> desk \<Rightarrow> desk" where
  "perform_move c (Deliver_event ck n fresh f others) x =
     snd (process_next_event (outbox_ops (dp_outbox c)) ce_envelope
       [APPLICATION_TRANSITION_REQUESTED \<mapsto>
          fated f (transition_handler (dp_port c) (dc_settle ck) (perform_moves c others))]
       (Some (fated f (router_handler (dp_router c) (dc_settle ck) n fresh (perform_moves c others))))
       ck x)"
| "perform_move c (Publish_event now e) x = (snd (outbox_publish (dp_outbox c) now e (fst x)), snd x)"
| "perform_move c (Requeue_event n) x = (snd (outbox_requeue n (fst x)), snd x)"
| "perform_moves c [] x = x"
| "perform_moves c (m # ms) x = perform_moves c ms (perform_move c m x)"

section \<open>Exactly once\<close>

text \<open>The event a row holds depends on what the row was written with.\<close>

lemma envelope_fact: "row_fact r = row_fact r' \<Longrightarrow> envelope_from_row c r = envelope_from_row c r'"
proof -
  assume "row_fact r = row_fact r'"
  then have eqs: "ox_id r = ox_id r'" "ox_type r = ox_type r'" "ox_payload r = ox_payload r'"
    "ox_dedupe_key r = ox_dedupe_key r'" "ox_created_at r = ox_created_at r'"
    by (simp_all add: row_fact_def)
  show ?thesis unfolding envelope_from_row_def eqs ..
qed

definition event_of :: "outbox_config \<Rightarrow> uuid \<Rightarrow> event_envelope \<Rightarrow> outbox \<Rightarrow> bool" where
  "event_of c n e db \<longleftrightarrow> (\<exists>r \<in> set (ob_rows db). ox_id r = n \<and> envelope_from_row c r = ret e)"

lemma event_of_mono:
  assumes "set (facts db) \<subseteq> set (facts db')" and "event_of c n e db"
  shows "event_of c n e db'"
proof -
  obtain r where r: "r \<in> set (ob_rows db)" "ox_id r = n" "envelope_from_row c r = ret e"
    using assms(2) by (auto simp: event_of_def)
  then have "row_fact r \<in> set (facts db')" using assms(1) by (auto simp: facts_def)
  then obtain r' where r': "r' \<in> set (ob_rows db')" "row_fact r' = row_fact r" by (auto simp: facts_def)
  then have "ox_id r' = n" using r(2) by (simp add: row_fact_def)
  with r' r(3) envelope_fact [OF r'(2)] show ?thesis by (auto simp: event_of_def)
qed

lemma event_of_unique:
  assumes "outbox_ok db" and "event_of c n e db" and "event_of c n e' db"
  shows "e = e'"
proof -
  obtain r r' where r: "r \<in> set (ob_rows db)" "ox_id r = n" "envelope_from_row c r = ret e"
    "r' \<in> set (ob_rows db)" "ox_id r' = n" "envelope_from_row c r' = ret e'"
    using assms(2,3) by (auto simp: event_of_def)
  have "inj_on ox_id (set (ob_rows db))" using assms(1) by (simp add: outbox_ok_def distinct_map)
  then have "r = r'" using r(1,2,4,5) by (auto dest: inj_onD)
  with r(3,6) show ?thesis by simp
qed

lemma life_row: "outbox_ok db \<Longrightarrow> r \<in> set (ob_rows db) \<Longrightarrow>
  outbox_life db (ox_id r) = Some (ox_status r, ox_attempts r)"
  using find_by_distinct [of ox_id "ob_rows db" r] by (simp add: outbox_life_def outbox_ok_def)

lemma claim_event_of:
  "outbox_ok db \<Longrightarrow> outbox_claim_loop n c (\<lambda>_ db. db) now db = (Some d, db') \<Longrightarrow>
     event_of c (ce_outbox_id d) (ce_envelope d) db'"
proof (induction n arbitrary: db)
  case (Suc n)
  obtain row db1 where cl: "claim_next (\<lambda>_ db. db) None (tc_exclude_types c)
      (Some (tc_visibility_timeout c)) now db = (row, db1)" by fastforce
  note alone = claim_next_alone [OF Suc.prems(1) cl]
  show ?case
  proof (cases row)
    case None
    with cl Suc.prems(2) show ?thesis by simp
  next
    case (Some r)
    with alone have r: "find_by ox_id (ox_id r) (ob_rows db1) = Some r" and ok1: "outbox_ok db1" by auto
    have ok: "outbox_ok (snd (park c now (ox_id r) now st err hint db1))" for st err hint
      unfolding park_def update_claim_def by (simp add: update_where_ok ok1)
    show ?thesis
    proof (cases "envelope_from_row c r")
      case (Inl err)
      show ?thesis by (rule Suc.IH [OF ok]) (use Suc.prems(2) cl Some Inl in simp)
    next
      case (Inr e)
      have in1: "event_of c (ox_id r) e db1"
        using find_by_in [OF r] Inr by (auto simp: event_of_def)
      show ?thesis
      proof (cases "ox_attempts r > tc_max_attempts c")
        case True
        let ?d = "\<lparr>ce_outbox_id = ox_id r, ce_envelope = e, ce_attempt = ox_attempts r, ce_claimed_at = now\<rparr>"
        have "outbox_ok (snd (park_claim c now ?d DEAD_LETTER (tc_lapsed c (ox_attempts r)) db1))"
          using ok by (simp add: park_claim_def)
        from Suc.IH [OF this] show ?thesis using Suc.prems(2) cl Some Inr True by (simp add: Let_def)
      next
        case False
        with Suc.prems(2) cl Some Inr in1 show ?thesis by (auto simp: Let_def)
      qed
    qed
  qed
qed simp

text \<open>The invariant of the table, the inbox and the applications.\<close>

abbreviation applied_key :: "string \<Rightarrow> lifecycle_db inbox \<Rightarrow> bool" where
  "applied_key k ib \<equiv> has_consumed APPLICATION_TRANSITION_CONSUMER k ib"

definition nothing_lost :: "outbox_config \<Rightarrow> desk \<Rightarrow> bool" where
  "nothing_lost c x \<longleftrightarrow>
     (\<forall>n e m. outbox_life (fst x) n = Some (DISPATCHED, m) \<longrightarrow> event_of c n e (fst x) \<longrightarrow>
        ev_type e = APPLICATION_TRANSITION_REQUESTED \<longrightarrow> applied_key (ev_dedupe_key e) (snd x))"

definition nothing_doubled :: "nat \<Rightarrow> lifecycle_db inbox \<Rightarrow> bool" where
  "nothing_doubled m ib \<longleftrightarrow>
     finite {k. applied_key k ib} \<and> length (lf_log (ib_domain ib)) \<le> m + card {k. applied_key k ib}"

definition desk_inv :: "outbox_config \<Rightarrow> nat \<Rightarrow> desk \<Rightarrow> bool" where
  "desk_inv c m x \<longleftrightarrow> outbox_ok (fst x) \<and> nothing_lost c x \<and> nothing_doubled m (snd x)"

definition grows :: "desk \<Rightarrow> desk \<Rightarrow> bool" where
  "grows x y \<longleftrightarrow> set (facts (fst x)) \<subseteq> set (facts (fst y))
     \<and> (\<forall>k. applied_key k (snd x) \<longrightarrow> applied_key k (snd y))"

lemma grows_refl [simp]: "grows x x" by (simp add: grows_def)

lemma grows_trans: "grows x y \<Longrightarrow> grows y z \<Longrightarrow> grows x z"
  by (auto simp: grows_def)

text \<open>A change of the table that dispatches nothing new and rewrites no row.\<close>

lemma quiet_table:
  assumes inv: "desk_inv c m (db, ib)" and ok: "outbox_ok db'"
    and facts: "set (facts db) \<subseteq> set (facts db')"
    and quiet: "\<And>n k. outbox_life db' n = Some (DISPATCHED, k) \<Longrightarrow> outbox_life db n = Some (DISPATCHED, k)"
  shows "desk_inv c m (db', ib)"
proof -
  have "nothing_lost c (db', ib)"
    unfolding nothing_lost_def
  proof (intro allI impI)
    fix n e k assume d: "outbox_life (fst (db', ib)) n = Some (DISPATCHED, k)"
      and e: "event_of c n e (fst (db', ib))" and ty: "ev_type e = APPLICATION_TRANSITION_REQUESTED"
    from d have d0: "outbox_life db n = Some (DISPATCHED, k)" by (auto intro: quiet)
    then obtain r where "r \<in> set (ob_rows db)" "ox_id r = n"
      by (auto simp: outbox_life_def dest: find_by_in)
    then have "row_fact r \<in> set (facts db')" using facts by (auto simp: facts_def)
    then obtain r' where r': "r' \<in> set (ob_rows db')" "row_fact r' = row_fact r" by (auto simp: facts_def)
    obtain r2 where r2: "r2 \<in> set (ob_rows db')" "ox_id r2 = n" "envelope_from_row c r2 = ret e"
      using e by (auto simp: event_of_def)
    have "inj_on ox_id (set (ob_rows db'))" using ok by (simp add: outbox_ok_def distinct_map)
    moreover have "ox_id r' = n" using r'(2) \<open>ox_id r = n\<close> by (simp add: row_fact_def)
    ultimately have "r' = r2" using r'(1) r2(1,2) by (auto dest: inj_onD)
    with r2(3) envelope_fact [OF r'(2)] have "envelope_from_row c r = ret e" by simp
    with \<open>r \<in> set (ob_rows db)\<close> \<open>ox_id r = n\<close> have "event_of c n e db" by (auto simp: event_of_def)
    with inv d0 ty show "applied_key (ev_dedupe_key e) (snd (db', ib))"
      by (auto simp: desk_inv_def nothing_lost_def)
  qed
  with inv ok show ?thesis by (simp add: desk_inv_def)
qed

lemma consume_seen:
  "consume c race e eff s = (ret v, s') \<Longrightarrow> has_consumed c (ev_dedupe_key e) s'"
  by (auto simp: consume_def has_consumed_def seen_def duplicate_def Let_def
      split: if_splits sum.splits prod.splits)

lemma update_status_log:
  "update_status later n st why actor now q d = (ret a, d1) \<Longrightarrow> later d = d' \<Longrightarrow>
     length (lf_log (snd (update_status (\<lambda>_. d') n st why actor now q d))) \<le> Suc (length (lf_log d'))"
proof -
  assume run: "update_status later n st why actor now q d = (ret a, d1)" and d': "later d = d'"
  then obtain a0 where a0: "lf_applications d n = Some a0"
    by (cases "lf_applications d n") (auto simp: update_status_missing)
  with run d' have "update_status_write n st why actor now q a0 d' = (ret a, d1)"
    by (auto simp: update_status_read split: if_splits)
  with update_status_write_ret(2) [OF this] run a0 d' show ?thesis
    by (auto simp: update_status_read moves_def split: if_splits)
qed

text \<open>One call of the transition handler.\<close>

lemma handle_transition_inv:
  assumes here: "nothing_doubled m ib" and there: "nothing_doubled m (race ib)"
    and run: "handle_transition p now race e ib = (res, ib')"
  shows "nothing_doubled m ib'"
proof (cases "transition_request p e")
  case (Inl err)
  with run here show ?thesis by (simp add: handle_transition_def)
next
  case (Inr req)
  obtain n st why where req: "req = (n, st, why)" by (cases req)
  let ?C = "APPLICATION_TRANSITION_CONSUMER" and ?k = "ev_dedupe_key e"
  let ?eff = "apply_transition n st why now (\<lambda>_. ib_domain (race ib))"
  have c: "consume ?C race e ?eff ib = (res, ib')" using run Inr req by (simp add: handle_transition_def)
  show ?thesis
  proof (cases "seen ?C ?k ib \<or> seen ?C ?k (race ib) \<or> (\<exists>err. ?eff e (ib_domain ib) = raise err)")
    case True
    then have "ib' = ib \<or> ib' = race ib" using c
      by (auto simp: consume_def Let_def split: if_splits sum.splits prod.splits)
    with here there show ?thesis by blast
  next
    case False
    then obtain v change where eff: "?eff e (ib_domain ib) = ret (v, change)"
      by (cases "?eff e (ib_domain ib)") auto
    have ib': "ib' = (race ib)\<lparr>ib_consumed := insert (?C, ?k) (ib_consumed (race ib)),
        ib_domain := change (ib_domain (race ib))\<rparr>"
      using c False eff by (auto simp: consume_def Let_def split: if_splits)
    have new: "{k. applied_key k ib'} = insert ?k {k. applied_key k (race ib)}"
      "?k \<notin> {k. applied_key k (race ib)}"
      using False by (auto simp: ib' has_consumed_def seen_def)
    have "length (lf_log (change (ib_domain (race ib)))) \<le> Suc (length (lf_log (ib_domain (race ib))))"
      using eff by (auto simp: apply_transition_def Let_def dest!: update_status_log
          split: sum.splits prod.splits if_splits)
    with there new show ?thesis by (simp add: nothing_doubled_def) (simp add: ib')
  qed
qed

text \<open>Each move.\<close>

lemma route_table:
  assumes "route r now n fresh e db = (res, db')"
  shows "db' = db \<or> (\<exists>x cmd. enqueue (er_queue r) now fresh cmd x db = (ret cmd, db'))"
proof -
  have enq: "d' = db \<or> enqueue (er_queue r) now fresh cmd (Some (command_dedupe r e)) db = (ret cmd, d')"
    if "enqueue_routed r now fresh cmd e kind db = (x, d')" for cmd kind x d'
  proof -
    obtain v d where "enqueue (er_queue r) now fresh cmd (Some (command_dedupe r e)) db = (v, d)" by fastforce
    with facts_enqueue [OF this] that show ?thesis
      by (cases v) (auto simp: enqueue_routed_def)
  qed
  show ?thesis using assms
    by (auto simp: route_def split: sum.splits option.splits prod.splits if_splits dest!: enq)
qed

lemma append_row:
  assumes ok: "outbox_ok db" and run: "outbox_create oc now fresh ty p k db = ret (row, db')"
  shows "outbox_ok db'" "set (facts db) \<subseteq> set (facts db')"
    "\<And>n j. outbox_life db' n = Some (DISPATCHED, j) \<Longrightarrow> outbox_life db n = Some (DISPATCHED, j)"
  using outbox_create_ok [OF ok run] facts_create [OF run] by (auto split: if_splits)

lemma enqueue_inv:
  assumes inv: "desk_inv c m (db, ib)" and run: "enqueue q now fresh cmd k db = (ret cmd', db')"
  shows "desk_inv c m (db', ib) \<and> grows (db, ib) (db', ib)"
proof -
  obtain row where cr: "outbox_create (qc_outbox q) now fresh WORKFLOW_COMMAND_EVENT
      (Legacy (dump_command q cmd)) (Some (command_key q cmd k)) db = ret (row, db')"
    using run by (auto simp: enqueue_def split: sum.splits)
  have ok: "outbox_ok db" using inv by (simp add: desk_inv_def)
  from quiet_table [OF inv append_row [OF ok cr]] append_row(2) [OF ok cr]
  show ?thesis by (simp add: grows_def)
qed

lemma publish_inv:
  assumes inv: "desk_inv c m (db, ib)" and run: "outbox_publish oc now e db = (res, db')"
  shows "desk_inv c m (db', ib) \<and> grows (db, ib) (db', ib)"
proof (cases "db' = db")
  case False
  then obtain row p where cr: "outbox_create oc now (ev_id e) (ev_type e) p (Some (ev_dedupe_key e)) db = ret (row, db')"
    using run by (auto simp: outbox_publish_def stage_def split: sum.splits option.splits)
  have ok: "outbox_ok db" using inv by (simp add: desk_inv_def)
  from quiet_table [OF inv append_row [OF ok cr]] append_row(2) [OF ok cr]
  show ?thesis by (simp add: grows_def)
qed (use inv in simp)

lemma requeue_inv:
  assumes inv: "desk_inv c m (db, ib)" and run: "outbox_requeue n db = (b, db')"
  shows "desk_inv c m (db', ib) \<and> grows (db, ib) (db', ib)"
proof -
  have ok: "outbox_ok db" using inv by (simp add: desk_inv_def)
  have run': "tr_requeue (outbox_ops c) n db = (b, db')" using run by (simp add: outbox_ops_def)
  have facts: "facts db' = facts db"
    using run by (auto simp: outbox_requeue_def Let_def)
  have "desk_inv c m (db', ib)"
  proof (rule quiet_table [OF inv])
    show "outbox_ok db'" using outbox_transport.requeue_law [OF ok run'] by blast
    show "set (facts db) \<subseteq> set (facts db')" by (simp add: facts)
    show "outbox_life db k = Some (DISPATCHED, j)" if "outbox_life db' k = Some (DISPATCHED, j)" for k j
      using outbox_transport.requeue_law [OF ok run'] that by (auto split: if_splits)
  qed
  then show ?thesis by (simp add: grows_def facts)
qed

lemma claim_inv:
  assumes inv: "desk_inv c m (db, ib)" and run: "tr_claim (outbox_ops c) now db = (d, db')"
  shows "desk_inv c m (db', ib) \<and> grows (db, ib) (db', ib)
    \<and> (case d of None \<Rightarrow> True | Some x \<Rightarrow> event_of c (ce_outbox_id x) (ce_envelope x) db')"
proof -
  have ok: "outbox_ok db" using inv by (simp add: desk_inv_def)
  have loop: "outbox_claim_loop PARK_LIMIT c (\<lambda>_ db. db) now db = (d, db')"
    using run by (simp add: outbox_ops_def outbox_claim_def)
  note law = outbox_transport.claim_law [OF ok run]
  have facts: "facts db' = facts db" by (rule facts_outbox_claim_loop [OF loop])
  have parked: "passed_over l l' \<Longrightarrow> l' = Some (DISPATCHED, j) \<Longrightarrow> l = Some (DISPATCHED, j)" for l l' j
    by (auto simp: passed_over_def)
  have "desk_inv c m (db', ib)"
  proof (rule quiet_table [OF inv])
    show "outbox_ok db'" using law by blast
    show "set (facts db) \<subseteq> set (facts db')" by (simp add: facts)
    show "outbox_life db k = Some (DISPATCHED, j)" if life: "outbox_life db' k = Some (DISPATCHED, j)" for k j
    proof (cases d)
      case None
      with law have "passed_over (outbox_life db k) (outbox_life db' k)" by simp
      with life show ?thesis using parked by blast
    next
      case (Some x)
      with law life have "k \<noteq> ce_outbox_id x" by auto
      with law Some have "passed_over (outbox_life db k) (outbox_life db' k)" by simp
      with life show ?thesis using parked by blast
    qed
  qed
  moreover have "case d of None \<Rightarrow> True | Some x \<Rightarrow> event_of c (ce_outbox_id x) (ce_envelope x) db'"
    using claim_event_of [OF ok] loop by (cases d) auto
  ultimately show ?thesis by (simp add: grows_def facts)
qed

lemma nack_inv:
  assumes inv: "desk_inv c m (db, ib)" and run: "tr_nack (outbox_ops c) now u d err db = (rn, db')"
  shows "desk_inv c m (db', ib) \<and> grows (db, ib) (db', ib)"
proof -
  have ok: "outbox_ok db" using inv by (simp add: desk_inv_def)
  have facts: "facts db' = facts db"
    using run facts_nack [of c now u d err db] by (simp add: outbox_ops_def)
  note law = outbox_transport.nack_law [OF ok run]
  have "desk_inv c m (db', ib)"
  proof (rule quiet_table [OF inv])
    show "outbox_ok db'" using law by blast
    show "set (facts db) \<subseteq> set (facts db')" by (simp add: facts)
    show "outbox_life db k = Some (DISPATCHED, j)" if "outbox_life db' k = Some (DISPATCHED, j)" for k j
      using law that by (auto split: if_splits)
  qed
  then show ?thesis by (simp add: grows_def facts)
qed

text \<open>An ack needs the event applied.\<close>

lemma ack_inv:
  assumes inv: "desk_inv c m (db, ib)" and run: "tr_ack (outbox_ops c) now d db = (b, db')"
    and ev: "event_of c (ce_outbox_id d) (ce_envelope d) db"
    and applied: "ev_type (ce_envelope d) = APPLICATION_TRANSITION_REQUESTED \<Longrightarrow>
      applied_key (ev_dedupe_key (ce_envelope d)) ib"
  shows "desk_inv c m (db', ib) \<and> grows (db, ib) (db', ib)"
proof -
  have ok: "outbox_ok db" using inv by (simp add: desk_inv_def)
  note law = outbox_transport.ack_law [OF ok run]
  have facts: "facts db' = facts db"
    using run by (auto simp: outbox_ops_def outbox_ack_def)
      (metis facts_update(2) keeps_fact_simps(4) snd_conv)
  have same: "event_of c n e db' \<longleftrightarrow> event_of c n e db" for n e
    using event_of_mono [of db db' c n e] event_of_mono [of db' db c n e] facts by auto
  have lost: "nothing_lost c (db, ib)" using inv by (simp add: desk_inv_def)
  have "nothing_lost c (db', ib)"
    unfolding nothing_lost_def
  proof (intro allI impI)
    fix n e k assume life: "outbox_life (fst (db', ib)) n = Some (DISPATCHED, k)"
      and e: "event_of c n e (fst (db', ib))" and ty: "ev_type e = APPLICATION_TRANSITION_REQUESTED"
    have e0: "event_of c n e db" using e same by simp
    show "applied_key (ev_dedupe_key e) (snd (db', ib))"
    proof (cases "outbox_life db n = Some (DISPATCHED, k)")
      case True
      with lost e0 ty show ?thesis by (auto simp: nothing_lost_def)
    next
      case False
      with law life have "n = ce_outbox_id d" by (auto split: if_splits)
      with event_of_unique [OF ok e0] ev have "e = ce_envelope d" by blast
      with applied ty show ?thesis by simp
    qed
  qed
  with inv law show ?thesis by (simp add: desk_inv_def grows_def facts)
qed

lemma inbox_inv_step:
  assumes "desk_inv c m (db, ib)" and "nothing_doubled m ib'"
    and "\<And>k. applied_key k ib \<Longrightarrow> applied_key k ib'"
  shows "desk_inv c m (db, ib')"
proof -
  have "nothing_lost c (db, ib)" using assms(1) by (simp add: desk_inv_def)
  then have "nothing_lost c (db, ib')" unfolding nothing_lost_def fst_conv snd_conv using assms(3) by blast
  with assms(1,2) show ?thesis by (simp add: desk_inv_def)
qed

lemma transition_handler_inv:
  assumes inv: "desk_inv c m (db, ib)"
    and others: "\<And>y. desk_inv c m y \<Longrightarrow> desk_inv c m (others y) \<and> grows y (others y)"
    and run: "transition_handler p now others e (db, ib) = (res, y)"
  shows "desk_inv c m y \<and> grows (db, ib) y
    \<and> (res = Finished () \<longrightarrow> applied_key (ev_dedupe_key e) (snd y))"
proof -
  let ?race = "\<lambda>ib. snd (others (db, ib))"
  obtain v ib' where h: "handle_transition p now ?race e ib = (v, ib')" by fastforce
  let ?live = "is_ret (transition_request p e) \<and> \<not> seen APPLICATION_TRANSITION_CONSUMER (ev_dedupe_key e) ib"
  have y: "y = (if ?live then fst (others (db, ib)) else db, ib')" and res: "res = outcome v"
    using run h by (auto simp: transition_handler_def)
  obtain db2 ib2 where o: "others (db, ib) = (db2, ib2)" by fastforce
  have inv2: "desk_inv c m (db2, ib2)" and g2: "grows (db, ib) (db2, ib2)" using others [OF inv] o by simp_all
  have doubled: "nothing_doubled m ib'"
    by (rule handle_transition_inv [OF _ _ h]) (use inv inv2 o in \<open>simp_all add: desk_inv_def\<close>)
  have keys: "applied_key k (if ?live then ib2 else ib) \<Longrightarrow> applied_key k ib'" for k
    using h o by (cases "transition_request p e")
      (auto simp: handle_transition_def consume_def has_consumed_def seen_def Let_def
        split: if_splits sum.splits prod.splits)
  have "desk_inv c m y"
  proof (cases ?live)
    case True
    with keys have "applied_key k ib2 \<Longrightarrow> applied_key k ib'" for k by auto
    with inbox_inv_step [OF inv2 doubled] True y o show ?thesis by simp
  next
    case False
    with keys have k: "applied_key k ib \<Longrightarrow> applied_key k ib'" for k by auto
    have "y = (db, ib')" using y False by (simp only: if_False)
    with inbox_inv_step [OF inv doubled k] show ?thesis by simp
  qed
  moreover have "grows (db, ib) y"
    using g2 keys o y unfolding grows_def by auto
  moreover have "res = Finished () \<longrightarrow> applied_key (ev_dedupe_key e) (snd y)"
    using res h y by (cases v; cases "transition_request p e")
      (auto simp: outcome_def handle_transition_def intro: consume_seen split: prod.splits)
  ultimately show ?thesis by blast
qed

lemma router_handler_inv:
  assumes inv: "desk_inv c m x"
    and others: "\<And>y. desk_inv c m y \<Longrightarrow> desk_inv c m (others y) \<and> grows y (others y)"
    and run: "router_handler r now n fresh others e x = (res, y)"
  shows "desk_inv c m y \<and> grows x y"
proof -
  obtain db ib where o: "others x = (db, ib)" by fastforce
  obtain v db' where r: "route r now n fresh e db = (v, db')" by fastforce
  have y: "y = (db', ib)" using run o r by (simp add: router_handler_def)
  have "desk_inv c m (db, ib)" "grows x (db, ib)" using others [OF inv] o by simp_all
  with route_table [OF r] show ?thesis
    unfolding y by (auto dest: enqueue_inv intro: grows_trans)
qed

lemma fated_inv:
  assumes inv: "desk_inv c m x" and run: "fated f h e x = (res, y)"
    and h: "\<And>res y. h e x = (res, y) \<Longrightarrow> desk_inv c m y \<and> grows x y \<and> (res = Finished () \<longrightarrow> P y)"
  shows "desk_inv c m y \<and> grows x y \<and> (res = Finished () \<longrightarrow> P y)"
proof -
  obtain res' y' where "h e x = (res', y')" by (cases "h e x")
  with h [OF this] run inv show ?thesis by (cases f) (auto simp: fated_def)
qed

lemma delivered_inv:
  assumes inv: "desk_inv c m x"
    and h: "\<And>e y res z. desk_inv c m y \<Longrightarrow> h e y = (res, z) \<Longrightarrow>
      desk_inv c m z \<and> grows y z \<and> (res = Finished () \<longrightarrow> applied_key (ev_dedupe_key e) (snd z))"
    and g: "\<And>e y res z. desk_inv c m y \<Longrightarrow> g e y = (res, z) \<Longrightarrow> desk_inv c m z \<and> grows y z"
    and run: "process_next_event (outbox_ops c) ce_envelope
       [APPLICATION_TRANSITION_REQUESTED \<mapsto> h] (Some g) ck x = (b, z)"
  shows "desk_inv c m z \<and> grows x z"
proof -
  obtain db ib where x: "x = (db, ib)" by fastforce
  obtain d db1 where cl: "tr_claim (outbox_ops c) (dc_claim ck) db = (d, db1)" by fastforce
  note claim = claim_inv [OF inv [unfolded x] cl]
  show ?thesis
  proof (cases d)
    case None
    with run cl claim show ?thesis by (simp add: process_next_event_def x)
  next
    case (Some a)
    let ?e = "ce_envelope a"
    let ?h = "if ev_type ?e = APPLICATION_TRANSITION_REQUESTED then h else g"
    obtain r s2 w where hr: "?h ?e (db1, ib) = (r, s2, w)" by (metis prod.collapse)
    have inv1: "desk_inv c m (db1, ib)" and g1: "grows (db, ib) (db1, ib)" using claim by simp_all
    have step: "desk_inv c m (s2, w)" "grows (db1, ib) (s2, w)"
      "r = Finished () \<Longrightarrow> ev_type ?e = APPLICATION_TRANSITION_REQUESTED \<Longrightarrow> applied_key (ev_dedupe_key ?e) w"
      using h [OF inv1, of ?e r "(s2, w)"] g [OF inv1, of ?e r "(s2, w)"] hr by (auto split: if_splits)
    have ev: "event_of c (ce_outbox_id a) ?e s2"
      using claim Some step(2) event_of_mono [of db1 s2] by (simp add: grows_def)
    have out: "process_next_event (outbox_ops c) ce_envelope
        [APPLICATION_TRANSITION_REQUESTED \<mapsto> h] (Some g) ck x
      = (case r of
           Finished _ \<Rightarrow> (Finished True, snd (tr_ack (outbox_ops c) (dc_settle ck) a s2), w)
         | Raised err \<Rightarrow> (case tr_nack (outbox_ops c) (dc_settle ck) (dc_jitter ck) a err s2 of
               (Inl err', s3) \<Rightarrow> (Raised err', s3, w) | (Inr _, s3) \<Rightarrow> (Finished True, s3, w))
         | Died \<Rightarrow> (Died, s2, w))"
      using cl Some hr by (auto simp: process_next_event_def x Let_def)
    have far: "grows (db, ib) y" if "grows (s2, w) y" for y
      using that grows_trans [OF grows_trans [OF g1 step(2)]] by blast
    show ?thesis
    proof (cases r)
      case (Finished u)
      then have fin: "r = Finished ()" by simp
      obtain b' s3 where ack: "tr_ack (outbox_ops c) (dc_settle ck) a s2 = (b', s3)" by fastforce
      from ack_inv [OF step(1) ack ev step(3) [OF fin]] out run ack fin far show ?thesis
        by (simp add: x)
    next
      case (Raised err)
      obtain rn s3 where nack: "tr_nack (outbox_ops c) (dc_settle ck) (dc_jitter ck) a err s2 = (rn, s3)" by fastforce
      from nack_inv [OF step(1) nack] out run nack Raised far show ?thesis
        by (cases rn) (simp_all add: x)
    next
      case Died
      with out run step far show ?thesis by (simp add: x)
    qed
  qed
qed

lemma perform_move_inv:
  "desk_inv (dp_outbox c) m x \<Longrightarrow> desk_inv (dp_outbox c) m (perform_move c mv x) \<and> grows x (perform_move c mv x)"
  "desk_inv (dp_outbox c) m x \<Longrightarrow> desk_inv (dp_outbox c) m (perform_moves c mvs x) \<and> grows x (perform_moves c mvs x)"
proof (induction c mv x and c mvs x rule: perform_move_perform_moves.induct)
  case (1 c ck n fresh f others x)
  have others: "\<And>y. desk_inv (dp_outbox c) m y \<Longrightarrow>
    desk_inv (dp_outbox c) m (perform_moves c others y) \<and> grows y (perform_moves c others y)"
    using "1.IH" by blast
  let ?h = "fated f (transition_handler (dp_port c) (dc_settle ck) (perform_moves c others))"
  let ?g = "fated f (router_handler (dp_router c) (dc_settle ck) n fresh (perform_moves c others))"
  obtain b z where run: "process_next_event (outbox_ops (dp_outbox c)) ce_envelope
       [APPLICATION_TRANSITION_REQUESTED \<mapsto> ?h] (Some ?g) ck x = (b, z)" by (metis prod.collapse)
  have "desk_inv (dp_outbox c) m z \<and> grows x z"
  proof (rule delivered_inv [OF "1.prems" _ _ run])
    fix e y res z'
    assume y: "desk_inv (dp_outbox c) m y"
    show "desk_inv (dp_outbox c) m z' \<and> grows y z' \<and> (res = Finished () \<longrightarrow> applied_key (ev_dedupe_key e) (snd z'))"
      if "?h e y = (res, z')"
      by (rule fated_inv [OF y that]) (cases y, simp, rule transition_handler_inv [of _ m], use y others in auto)
    show "desk_inv (dp_outbox c) m z' \<and> grows y z'" if "?g e y = (res, z')"
    proof -
      have "desk_inv (dp_outbox c) m z' \<and> grows y z' \<and> (res = Finished () \<longrightarrow> True)"
        by (rule fated_inv [OF y that]) (use router_handler_inv [OF y others] in blast)
      then show ?thesis by blast
    qed
  qed
  with run show ?case by simp
next
  case (5 c mv mvs x)
  then show ?case by (auto intro: grows_trans)
qed (auto dest: publish_inv requeue_inv simp: prod_eq_iff)

lemma desk_inv_start:
  "desk_inv c (length (lf_log d)) (\<lparr>ob_rows = [], ob_workflows = ws, ob_runs = rs\<rparr>, \<lparr>ib_consumed = {}, ib_domain = d\<rparr>)"
  by (simp add: desk_inv_def outbox_ok_def dedupe_keys_def List.map_filter_def nothing_lost_def
      nothing_doubled_def outbox_life_def find_by_def has_consumed_def seen_def)

lemma reachable_inv:
  assumes "perform_moves c ms (\<lparr>ob_rows = [], ob_workflows = ws, ob_runs = rs\<rparr>,
      \<lparr>ib_consumed = {}, ib_domain = d\<rparr>) = (db, ib)"
  shows "desk_inv (dp_outbox c) (length (lf_log d)) (db, ib)"
  by (metis perform_move_inv(2) [OF desk_inv_start] assms)

text \<open>
  C5: a requested status change is applied exactly once. Whatever dispatchers, publishers and
  operators do, deliveries overlapping and dispatchers dying before or after their handler
  included, an event the outbox counts as delivered has been applied, and the applications have
  moved at most once for each applied event.
\<close>

theorem requested_changes_apply_exactly_once:
  assumes run: "perform_moves c ms (\<lparr>ob_rows = [], ob_workflows = ws, ob_runs = rs\<rparr>,
      \<lparr>ib_consumed = {}, ib_domain = d\<rparr>) = (db, ib)"
    and row: "r \<in> set (ob_rows db)" "ox_status r = DISPATCHED"
    and event: "envelope_from_row (dp_outbox c) r = ret e" "ev_type e = APPLICATION_TRANSITION_REQUESTED"
  shows "has_consumed APPLICATION_TRANSITION_CONSUMER (ev_dedupe_key e) ib
    \<and> length (lf_log (ib_domain ib))
        \<le> length (lf_log d) + card {k. has_consumed APPLICATION_TRANSITION_CONSUMER k ib}"
proof -
  note inv = reachable_inv [OF run]
  then have "outbox_life db (ox_id r) = Some (DISPATCHED, ox_attempts r)"
    using life_row [of db r] row by (simp add: desk_inv_def)
  moreover have "event_of (dp_outbox c) (ox_id r) e db" using row(1) event(1) by (auto simp: event_of_def)
  ultimately have "has_consumed APPLICATION_TRANSITION_CONSUMER (ev_dedupe_key e) ib"
    using inv event(2) by (auto simp: desk_inv_def nothing_lost_def)
  with inv show ?thesis by (simp add: desk_inv_def nothing_doubled_def)
qed

section \<open>One command for each event and workflow\<close>

lemma route_ret:
  assumes run: "route r now n fresh e db = (ret o1, db')" and kind: "ro_kind o1 \<in> {RESUMED, STARTED}"
  obtains cmd where "enqueue (er_queue r) now fresh cmd (Some (command_dedupe r e)) db = (ret cmd, db')"
    "wc_kind cmd = (if ro_kind o1 = RESUMED then RESUME else START)"
    "ro_workflow_id o1 = Some (wc_workflow_id cmd)"
proof -
  have enq: "enqueue (er_queue r) now fresh cmd (Some (command_dedupe r e)) db = (ret cmd, d')
      \<and> ro_kind x = k \<and> ro_workflow_id x = Some (wc_workflow_id cmd)"
    if "enqueue_routed r now fresh cmd e k db = (x, d')" "ro_kind x \<in> {RESUMED, STARTED}" for cmd k x d'
  proof -
    obtain v d where "enqueue (er_queue r) now fresh cmd (Some (command_dedupe r e)) db = (v, d)" by fastforce
    with facts_enqueue [OF this] that show ?thesis by (cases v) (auto simp: enqueue_routed_def)
  qed
  show thesis using run kind
    by (auto simp: route_def split: sum.splits option.splits prod.splits if_splits
        dest!: enq intro: that)
qed

text \<open>
  An event is routed to a workflow once in each way. Whatever dispatchers, publishers and
  operators do after an event resumed or started a workflow, routing the event again, or
  another of the same type and dedupe key, does not do the same to that workflow.
\<close>

theorem routed_once_per_workflow:
  assumes before: "perform_moves c ms0 (\<lparr>ob_rows = [], ob_workflows = ws, ob_runs = rs\<rparr>,
      \<lparr>ib_consumed = {}, ib_domain = d\<rparr>) = (db, ib)"
    and first: "route r now n fresh e db = (ret o1, db1)" and kind: "ro_kind o1 \<in> {RESUMED, STARTED}"
    and moves: "perform_moves c ms (db1, ib) = (db2, ib2)"
    and again: "route (r\<lparr>er_threads := ts, er_starter := st\<rparr>) now' n' fresh' e' db2 = (ret o2, db3)"
    and same: "ev_type e' = ev_type e" "ev_dedupe_key e' = ev_dedupe_key e" "ro_kind o2 = ro_kind o1"
  shows "ro_workflow_id o2 \<noteq> ro_workflow_id o1"
proof
  assume w: "ro_workflow_id o2 = ro_workflow_id o1"
  let ?r = "r\<lparr>er_threads := ts, er_starter := st\<rparr>" and ?q = "er_queue r"
  obtain c1 where c1: "enqueue ?q now fresh c1 (Some (command_dedupe r e)) db = (ret c1, db1)"
    "wc_kind c1 = (if ro_kind o1 = RESUMED then RESUME else START)"
    "ro_workflow_id o1 = Some (wc_workflow_id c1)"
    by (rule route_ret [OF first kind]) (rule that; assumption)
  have kind': "ro_kind o2 \<in> {RESUMED, STARTED}" using kind same(3) by simp
  obtain c2 where c2: "enqueue (er_queue ?r) now' fresh' c2 (Some (command_dedupe ?r e')) db2 = (ret c2, db3)"
    "wc_kind c2 = (if ro_kind o2 = RESUMED then RESUME else START)"
    "ro_workflow_id o2 = Some (wc_workflow_id c2)"
    by (rule route_ret [OF again kind']) (rule that; assumption)
  from reachable_inv [OF before] enqueue_inv c1(1) have "desk_inv (dp_outbox c) (length (lf_log d)) (db1, ib)" by blast
  from perform_move_inv(2) [where mvs = ms, OF this] moves have keep: "set (facts db1) \<subseteq> set (facts db2)"
    by (simp add: grows_def)
  have d: "command_dedupe ?r e' = command_dedupe r e" by (simp add: command_dedupe_def same)
  have key: "command_key ?q c2 (Some (command_dedupe r e)) = command_key ?q c1 (Some (command_dedupe r e))"
    using c1(2,3) c2(2,3) w same(3) by (simp add: command_key_def command_dedupe_def)
  from facts_enqueue [OF c1(1)] obtain p where
    "(fresh, WORKFLOW_COMMAND_EVENT, p, Some (command_key ?q c1 (Some (command_dedupe r e))), now) \<in> set (facts db1)"
    by auto
  with keep have "(fresh, WORKFLOW_COMMAND_EVENT, p, Some (command_key ?q c2 (Some (command_dedupe r e))), now)
      \<in> set (facts db2)" unfolding key by blast
  from enqueue_taken [OF this] c2(1) show False by (simp add: d)
qed

end
