(* ===== verification/Drain.thy ===== *)
theory Drain
  imports Dispatcher
begin

text \<open>
  Draining the outbox (\<open>OutboxDispatcher.drain\<close>): the loop ends. Each delivery uses up one of the
  attempts the table's rows have left, and neither settling an event nor handling it gives any
  back, since the commands the router queues are rows the dispatcher's claim passes over.
\<close>

section \<open>Draining\<close>

text \<open>
  The deliveries a table can still make: what is left of the attempts of its live rows, but for
  the rows the dispatcher is kept off.
\<close>

definition deliverable :: "outbox_config \<Rightarrow> outbox \<Rightarrow> uuid \<Rightarrow> nat" where
  "deliverable c db n =
     (case (outbox_life db n, find_by ox_id n (ob_rows db)) of
        (Some (st, k), Some r) \<Rightarrow>
          if live st \<and> ox_type r \<notin> set (tc_exclude_types c) then nat (tc_max_attempts c - k) else 0
      | _ \<Rightarrow> 0)"

definition left_over :: "outbox_config \<Rightarrow> outbox \<Rightarrow> nat" where
  "left_over c db = (\<Sum>n \<in> ox_id ` set (ob_rows db). deliverable c db n)"

lemma facts_type:
  assumes "facts db' = facts db"
  shows "ox_id ` set (ob_rows db') = ox_id ` set (ob_rows db)"
    "map_option ox_type (find_by ox_id n (ob_rows db')) = map_option ox_type (find_by ox_id n (ob_rows db))"
proof -
  have m: "map row_fact (ob_rows db') = map row_fact (ob_rows db)" using assms by (simp add: facts_def)
  have "ox_id ` set rs = set (map fst (map row_fact rs))" for rs
    by (simp add: image_image row_fact_def)
  then show "ox_id ` set (ob_rows db') = ox_id ` set (ob_rows db)" by (simp only: m)
  have "map_option ox_type (find_by ox_id n rs') = map_option ox_type (find_by ox_id n rs)"
    if "map row_fact rs' = map row_fact rs" for rs rs'
    using that
  proof (induction rs' arbitrary: rs)
    case (Cons r' rs')
    then obtain r rs0 where rs: "rs = r # rs0" and "row_fact r' = row_fact r \<and> map row_fact rs' = map row_fact rs0"
      by (cases rs) simp_all
    then have r: "ox_id r' = ox_id r" "ox_type r' = ox_type r" and m: "map row_fact rs' = map row_fact rs0"
      by (simp_all add: row_fact_def)
    from Cons.IH [OF m] show ?case unfolding rs by (simp add: find_by_def r)
  qed (simp add: find_by_def)
  with m show "map_option ox_type (find_by ox_id n (ob_rows db'))
      = map_option ox_type (find_by ox_id n (ob_rows db))" by blast
qed

lemma deliverable_le:
  assumes facts: "facts db' = facts db"
    and life: "outbox_life db' n = outbox_life db n \<or> (\<exists>st k. outbox_life db' n = Some (st, k) \<and> \<not> live st)
      \<or> (\<exists>st st' k. outbox_life db n = Some (st, k) \<and> live st \<and> outbox_life db' n = Some (st', k))"
  shows "deliverable c db' n \<le> deliverable c db n"
  using facts_type(2) [OF facts, of n] life
  by (auto simp: deliverable_def outbox_life_def split: option.splits)

lemma left_over_le:
  assumes "facts db' = facts db" and "\<And>n. deliverable c db' n \<le> deliverable c db n"
  shows "left_over c db' \<le> left_over c db"
  unfolding left_over_def facts_type(1) [OF assms(1)] by (rule sum_mono) (rule assms(2))

lemma left_over_less:
  assumes "facts db' = facts db" and "\<And>n. deliverable c db' n \<le> deliverable c db n"
    and "deliverable c db' m < deliverable c db m"
  shows "left_over c db' < left_over c db"
  unfolding left_over_def facts_type(1) [OF assms(1)]
proof (rule sum_strict_mono_ex1)
  have "m \<in> ox_id ` set (ob_rows db)"
    using assms(3) by (cases "find_by ox_id m (ob_rows db)")
      (auto simp: deliverable_def dest: find_by_in split: option.splits)
  with assms(3) show "\<exists>n \<in> ox_id ` set (ob_rows db). deliverable c db' n < deliverable c db n" by blast
qed (use assms(2) in simp_all)

text \<open>A claim is of a row the dispatcher is not kept off.\<close>

lemma claim_next_type:
  assumes "outbox_ok db" and "claim_next (\<lambda>_ db. db) ty ex period now db = (Some r, db')"
  shows "ox_type r \<notin> set ex"
proof -
  have "ox_type r \<notin> set ex" if "claim_next_loop k (\<lambda>_ db. db) ty ex period now db = (Some r, db')"
      "outbox_ok db" for k db
    using that
  proof (induction k arbitrary: db)
    case (Suc k)
    let ?sel = "first_by (\<lambda>r. (ox_created_at r, ox_id r)) (filter (claimable ty ex period now) (ob_rows db))"
    obtain cand where sel: "?sel = Some cand" using Suc.prems(1) by (cases ?sel) auto
    then have c: "cand \<in> set (ob_rows db)" "claimable ty ex period now cand" using first_by_in by force+
    let ?db2 = "db\<lparr>ob_rows := update_where (same_claim cand) (stamp_claim now) (ob_rows db)\<rparr>"
    show ?case
    proof (cases "length (filter (same_claim cand) (ob_rows db)) = 1")
      case True
      then have f: "find_by ox_id (ox_id cand) (ob_rows ?db2) = Some r"
        using Suc.prems(1) sel by (auto simp: Let_def)
      have "facts ?db2 = facts db" by (rule facts_update(1)) simp
      from facts_type(2) [OF this, of "ox_id cand"] f
      have "Some (ox_type r) = map_option ox_type (find_by ox_id (ox_id cand) (ob_rows db))" by simp
      moreover have "find_by ox_id (ox_id cand) (ob_rows db) = Some cand"
        using find_by_distinct [of ox_id "ob_rows db" cand] Suc.prems(2) c(1) by (simp add: outbox_ok_def)
      ultimately show ?thesis using c(2) by (simp add: claimable_def)
    next
      case False
      have "outbox_ok ?db2" by (rule update_where_ok) (use Suc.prems(2) in \<open>simp_all add: stamp_claim_def\<close>)
      with Suc.IH Suc.prems(1) sel False show ?thesis by (simp add: Let_def)
    qed
  qed simp
  from this [OF assms(2) [unfolded claim_next_def] assms(1)] show ?thesis .
qed

lemma claim_type:
  "outbox_ok db \<Longrightarrow> outbox_claim_loop n c (\<lambda>_ db. db) now db = (Some d, db') \<Longrightarrow>
     \<exists>r. find_by ox_id (ce_outbox_id d) (ob_rows db') = Some r \<and> ox_type r \<notin> set (tc_exclude_types c)"
proof (induction n arbitrary: db)
  case (Suc n)
  obtain row db1 where cl: "claim_next (\<lambda>_ db. db) None (tc_exclude_types c)
      (Some (tc_visibility_timeout c)) now db = (row, db1)" by fastforce
  note alone = claim_next_alone [OF Suc.prems(1) cl]
  show ?case
  proof (cases row)
    case None
    with cl Suc.prems(2) show ?thesis by simp
  next
    case (Some r)
    with alone have r: "find_by ox_id (ox_id r) (ob_rows db1) = Some r" and ok1: "outbox_ok db1" by auto
    have ty: "ox_type r \<notin> set (tc_exclude_types c)"
      by (rule claim_next_type [OF Suc.prems(1) cl [unfolded Some]])
    have ok: "outbox_ok (snd (park c now (ox_id r) now st err hint db1))" for st err hint
      unfolding park_def update_claim_def by (simp add: update_where_ok ok1)
    show ?thesis
    proof (cases "envelope_from_row c r")
      case (Inl err)
      show ?thesis by (rule Suc.IH [OF ok]) (use Suc.prems(2) cl Some Inl in simp)
    next
      case (Inr e)
      show ?thesis
      proof (cases "ox_attempts r > tc_max_attempts c")
        case True
        let ?d = "\<lparr>ce_outbox_id = ox_id r, ce_envelope = e, ce_attempt = ox_attempts r, ce_claimed_at = now\<rparr>"
        have "outbox_ok (snd (park_claim c now ?d DEAD_LETTER (tc_lapsed c (ox_attempts r)) db1))"
          using ok by (simp add: park_claim_def)
        from Suc.IH [OF this] show ?thesis using Suc.prems(2) cl Some Inr True by (simp add: Let_def)
      next
        case False
        with Suc.prems(2) cl Some Inr r ty show ?thesis by (auto simp: Let_def)
      qed
    qed
  qed
qed simp

text \<open>What each operation does to the deliveries left.\<close>

lemma claim_uses_one:
  assumes ok: "outbox_ok db" and run: "tr_claim (outbox_ops c) now db = (d, db')"
  shows "outbox_ok db' \<and> (case d of None \<Rightarrow> left_over c db' \<le> left_over c db
      | Some _ \<Rightarrow> left_over c db' < left_over c db)"
proof -
  have loop: "outbox_claim_loop PARK_LIMIT c (\<lambda>_ db. db) now db = (d, db')"
    using run by (simp add: outbox_ops_def outbox_claim_def)
  note law = outbox_transport.claim_law [OF ok run] and facts = facts_outbox_claim_loop [OF loop]
  have over: "deliverable c db' n \<le> deliverable c db n" if "passed_over (outbox_life db n) (outbox_life db' n)" for n
    by (rule deliverable_le [OF facts]) (use that in \<open>auto simp: passed_over_def\<close>)
  show ?thesis
  proof (cases d)
    case None
    with law left_over_le [OF facts over] show ?thesis by simp
  next
    case (Some x)
    let ?n = "ce_outbox_id x"
    obtain st where st: "live st" "outbox_life db ?n = Some (st, ce_attempt x - 1)"
      and now: "outbox_life db' ?n = Some (IN_PROGRESS, ce_attempt x)" "ce_attempt x \<le> tc_max_attempts c"
      using law Some by auto
    obtain r where r: "find_by ox_id ?n (ob_rows db') = Some r" "ox_type r \<notin> set (tc_exclude_types c)"
      using claim_type [OF ok loop [unfolded Some]] by blast
    from facts_type(2) [OF facts, of ?n] r obtain r0 where
      "find_by ox_id ?n (ob_rows db) = Some r0" "ox_type r0 = ox_type r" by (cases "find_by ox_id ?n (ob_rows db)") auto
    with r st now have less: "deliverable c db' ?n < deliverable c db ?n"
      by (simp add: deliverable_def)
    have "deliverable c db' n \<le> deliverable c db n" for n
      using law Some over less by (cases "n = ?n") auto
    with left_over_less [OF facts _ less] law Some show ?thesis by simp
  qed
qed

lemma ack_gives_nothing_back:
  assumes ok: "outbox_ok db" and run: "tr_ack (outbox_ops c) now d db = (b, db')"
  shows "outbox_ok db' \<and> left_over c db' \<le> left_over c db"
proof -
  have facts: "facts db' = facts db"
    using run by (auto simp: outbox_ops_def outbox_ack_def)
      (metis facts_update(2) keeps_fact_simps(4) snd_conv)
  note law = outbox_transport.ack_law [OF ok run]
  have "deliverable c db' n \<le> deliverable c db n" for n
    by (rule deliverable_le [OF facts]) (use law in \<open>auto split: if_splits\<close>)
  with left_over_le [OF facts] law show ?thesis by blast
qed

lemma nack_gives_nothing_back:
  assumes ok: "outbox_ok db" and run: "tr_nack (outbox_ops c) now u d err db = (rn, db')"
  shows "outbox_ok db' \<and> left_over c db' \<le> left_over c db"
proof -
  have facts: "facts db' = facts db"
    using run facts_nack [of c now u d err db] by (simp add: outbox_ops_def)
  note law = outbox_transport.nack_law [OF ok run]
  have "deliverable c db' n \<le> deliverable c db n" for n
    by (rule deliverable_le [OF facts]) (use law in \<open>auto\<close>)
  with left_over_le [OF facts] law show ?thesis by blast
qed

lemma enqueue_gives_nothing_back:
  assumes ok: "outbox_ok db" and ex: "WORKFLOW_COMMAND_EVENT \<in> set (tc_exclude_types c)"
    and run: "enqueue q now fresh cmd k db = (ret cmd', db')"
  shows "outbox_ok db' \<and> left_over c db' = left_over c db"
proof -
  obtain row where cr: "outbox_create (qc_outbox q) now fresh WORKFLOW_COMMAND_EVENT
      (Legacy (dump_command q cmd)) (Some (command_key q cmd k)) db = ret (row, db')"
    using run by (auto simp: enqueue_def split: sum.splits)
  from cr have rows: "ob_rows db' = ob_rows db @ [row]" "ox_id row = fresh"
    "ox_type row = WORKFLOW_COMMAND_EVENT" "fresh \<notin> ox_id ` set (ob_rows db)"
    by (auto simp: outbox_create_def Let_def split: if_splits)
  have old: "find_by ox_id n (ob_rows db') = find_by ox_id n (ob_rows db)" if "n \<noteq> fresh" for n
    using that rows(2) unfolding rows(1) find_by_append by (simp add: find_by_def split: option.split)
  have same: "deliverable c db' n = deliverable c db n" if "n \<noteq> fresh" for n
    using old [OF that] by (simp add: deliverable_def outbox_life_def)
  have none: "find_by ox_id fresh (ob_rows db) = None"
    using rows(4) unfolding find_by_def find_None_iff by blast
  have new: "find_by ox_id fresh (ob_rows db') = Some row"
    using rows(2) unfolding rows(1) find_by_append none by (simp add: find_by_def)
  have zero: "deliverable c db' fresh = 0"
    using new rows(3) ex by (simp add: deliverable_def outbox_life_def)
  have "left_over c db' = (\<Sum>n \<in> insert fresh (ox_id ` set (ob_rows db)). deliverable c db' n)"
    by (simp add: left_over_def rows)
  also have "\<dots> = deliverable c db' fresh + (\<Sum>n \<in> ox_id ` set (ob_rows db). deliverable c db' n)"
    by (rule sum.insert) (use rows(4) in simp_all)
  also have "(\<Sum>n \<in> ox_id ` set (ob_rows db). deliverable c db' n) = left_over c db"
    unfolding left_over_def by (rule sum.cong [OF refl]) (metis rows(4) same)
  finally show ?thesis using append_row(1) [OF ok cr] zero by simp
qed

text \<open>A handler that gives nothing back, and the two handlers of a deployment.\<close>

definition frugal :: "outbox_config \<Rightarrow> (outbox \<times> 'w) handler \<Rightarrow> bool" where
  "frugal c h \<longleftrightarrow> (\<forall>e x r y. outbox_ok (fst x) \<longrightarrow> h e x = (r, y) \<longrightarrow>
     outbox_ok (fst y) \<and> left_over c (fst y) \<le> left_over c (fst x))"

lemma transition_handler_frugal: "frugal c (\<lambda>e x. transition_handler p (now e x) id e x)"
  by (auto simp: frugal_def transition_handler_def split: prod.splits)

lemma router_handler_frugal:
  assumes "WORKFLOW_COMMAND_EVENT \<in> set (tc_exclude_types c)"
  shows "frugal c (\<lambda>e x. router_handler (r e x) (now e x) (n e x) (fresh e x) id e x)"
  unfolding frugal_def
proof (intro allI impI)
  fix e :: event_envelope and x y :: desk and res
  assume ok: "outbox_ok (fst x)"
    and run: "router_handler (r e x) (now e x) (n e x) (fresh e x) id e x = (res, y)"
  obtain v db' where rt: "route (r e x) (now e x) (n e x) (fresh e x) e (fst x) = (v, db')" by fastforce
  have y: "fst y = db'" using run rt by (cases x) (auto simp: router_handler_def)
  from route_table [OF rt] enqueue_gives_nothing_back [OF ok assms]
  show "outbox_ok (fst y) \<and> left_over c (fst y) \<le> left_over c (fst x)"
    using ok unfolding y by (metis order_refl)
qed

lemma delivery_uses_one:
  assumes ok: "outbox_ok (fst x)"
    and hs: "\<And>h. h \<in> ran handlers \<Longrightarrow> frugal c h" "\<And>h. other = Some h \<Longrightarrow> frugal c h"
    and run: "process_next_event (outbox_ops c) ce_envelope handlers other ck x = (b, y)"
  shows "outbox_ok (fst y) \<and> left_over c (fst y) \<le> left_over c (fst x)
    \<and> (b = Finished True \<longrightarrow> left_over c (fst y) < left_over c (fst x))"
proof -
  obtain d db1 where cl: "tr_claim (outbox_ops c) (dc_claim ck) (fst x) = (d, db1)" by fastforce
  note claim = claim_uses_one [OF ok cl]
  show ?thesis
  proof (cases d)
    case None
    with run cl claim show ?thesis by (auto simp: process_next_event_def)
  next
    case (Some a)
    let ?e = "ce_envelope a"
    let ?h = "case handlers (ev_type ?e) of Some h \<Rightarrow> Some h | None \<Rightarrow> other"
    let ?run = "case ?h of None \<Rightarrow> (Finished (), db1, snd x) | Some h \<Rightarrow> h ?e (db1, snd x)"
    obtain r s2 w where hr: "?run = (r, s2, w)" by (metis prod.collapse)
    have fr: "frugal c h" if "?h = Some h" for h
      using that hs by (auto simp: ran_def split: option.splits)
    have step: "outbox_ok s2" "left_over c s2 \<le> left_over c db1"
      using hr fr claim Some unfolding frugal_def by (force split: option.splits)+
    have out: "process_next_event (outbox_ops c) ce_envelope handlers other ck x
      = (case r of
           Finished _ \<Rightarrow> (Finished True, snd (tr_ack (outbox_ops c) (dc_settle ck) a s2), w)
         | Raised err \<Rightarrow> (case tr_nack (outbox_ops c) (dc_settle ck) (dc_jitter ck) a err s2 of
               (Inl err', s3) \<Rightarrow> (Raised err', s3, w) | (Inr _, s3) \<Rightarrow> (Finished True, s3, w))
         | Died \<Rightarrow> (Died, s2, w))"
      unfolding process_next_event_def cl Some by (simp add: Let_def hr split: ran.split)
    have less: "left_over c db1 < left_over c (fst x)" using claim Some by simp
    show ?thesis
    proof (cases r)
      case (Finished u)
      obtain b' s3 where ack: "tr_ack (outbox_ops c) (dc_settle ck) a s2 = (b', s3)" by fastforce
      from ack_gives_nothing_back [OF step(1) ack] step less out run Finished ack show ?thesis by auto
    next
      case (Raised err)
      obtain rn s3 where nack: "tr_nack (outbox_ops c) (dc_settle ck) (dc_jitter ck) a err s2 = (rn, s3)" by fastforce
      from nack_gives_nothing_back [OF step(1) nack] step less out run Raised nack show ?thesis
        by (cases rn) auto
    next
      case Died
      with out run step less show ?thesis by auto
    qed
  qed
qed

text \<open>The loop, with a measure that every delivery lowers.\<close>

lemma drain_ends:
  assumes hs: "\<And>h. h \<in> ran handlers \<Longrightarrow> frugal c h" "\<And>h. other = Some h \<Longrightarrow> frugal c h"
  shows "outbox_ok (fst x) \<Longrightarrow> \<exists>r y. drain (outbox_ops c) ce_envelope handlers other ck limit i x = Some (r, y)
    \<and> (\<forall>n. r = Finished n \<longrightarrow> n \<le> i + left_over c (fst x)
        \<and> (case limit of None \<Rightarrow> \<exists>z. process_next_event (outbox_ops c) ce_envelope handlers other (ck n) z = (Finished False, y)
           | Some m \<Rightarrow> n \<le> max i m))"
proof (induction "left_over c (fst x)" arbitrary: x i rule: less_induct)
  case less
  let ?stop = "case limit of None \<Rightarrow> False | Some n \<Rightarrow> i \<ge> n"
  obtain b y where step: "process_next_event (outbox_ops c) ce_envelope handlers other (ck i) x = (b, y)"
    by (metis prod.collapse)
  note uses = delivery_uses_one [OF less.prems hs step]
  note unfolded = drain.simps [of "outbox_ops c" ce_envelope handlers other ck limit i x]
  consider (stop) "?stop" | (go) "\<not> ?stop" "b = Finished True" | (empty) "\<not> ?stop" "b = Finished False"
    | (raised) e where "\<not> ?stop" "b = Raised e" | (died) "\<not> ?stop" "b = Died"
    by (cases b) auto
  then show ?case
  proof cases
    case stop
    then show ?thesis unfolding unfolded by (auto split: option.splits)
  next
    case go
    with uses have small: "left_over c (fst y) < left_over c (fst x)" "outbox_ok (fst y)" by simp_all
    from less.hyps [OF this, of "Suc i"] go step small(1) show ?thesis
      unfolding unfolded by (force split: option.splits)
  next
    case empty
    have "\<exists>z. process_next_event (outbox_ops c) ce_envelope handlers other (ck i) z = (Finished False, y)"
      using step empty by blast
    with empty step show ?thesis unfolding unfolded by (auto simp del: split_paired_Ex split: option.splits)
  next
    case raised
    with step show ?thesis unfolding unfolded by simp
  next
    case died
    with step show ?thesis unfolding unfolded by simp
  qed
qed


section \<open>A message to itself\<close>

definition ex_router :: "thread_reader \<Rightarrow> router" where
  "ex_router threads = \<lparr>er_queue = ex_queue, er_threads = threads, er_starter = (\<lambda>_. ret (7, ''job:x'')),
     er_start_types = None, er_digest = (\<lambda>t k. t @ k),
     er_dump = (\<lambda>e. [(''dedupe_key'', PStr (ev_dedupe_key e))])\<rparr>"

definition ex_news :: event_envelope where
  "ex_news = \<lparr>ev_id = 1, ev_type = ''mail'', ev_source = ''inbox'', ev_occurred_at = 0,
     ev_subject_ref = None, ev_correlation_id = Some 3, ev_dedupe_key = ''m1'', ev_payload = []\<rparr>"

text \<open>\<open>ex_table\<close>: the run of correlation 3 that an event's start registers.\<close>

definition ex_table :: outbox where
  "ex_table = \<lparr>ob_rows = [], ob_workflows = [7], ob_runs = [(3, 7)]\<rparr>"

definition ex_started :: outbox where
  "ex_started = queue_run ex_queue [QClaim 5, QDone 6 1] (snd (route (ex_router (\<lambda>_. None)) 0 1 1 ex_news ex_table))"

text \<open>
  A redelivered event can queue something new. The event starts a run, registered under
  the event's own correlation; the run stops at a question; the event delivered once more is
  then queued as the answer to it, under a key of its own.
\<close>

theorem an_event_answers_the_run_it_started:
  "fst (route (ex_router (\<lambda>_. None)) 0 1 1 ex_news ex_table)
     = ret \<lparr>ro_kind = STARTED, ro_workflow_id = Some 7, ro_thread_id = Some ''job:x''\<rparr>
   \<and> fst (route (ex_router ex_threads) 400 2 2 ex_news ex_started)
     = ret \<lparr>ro_kind = RESUMED, ro_workflow_id = Some 7, ro_thread_id = Some ''job:x''\<rparr>
   \<and> map ox_dedupe_key (ob_rows (snd (route (ex_router ex_threads) 400 2 2 ex_news ex_started)))
     = [Some (key_prefix ex_queue 7 @ ''start:event:mailm1''),
        Some (key_prefix ex_queue 7 @ ''resume:event:mailm1'')]"
  by code_simp

section \<open>Witnesses\<close>

definition ex_desk :: dispatch_config where
  "ex_desk = \<lparr>dp_outbox = ex_queue_outbox\<lparr>tc_exclude_types := [WORKFLOW_COMMAND_EVENT]\<rparr>,
     dp_router = ex_router (\<lambda>_. None),
     dp_port = \<lparr>tp_str = (\<lambda>v. case v of PStr s \<Rightarrow> s | _ \<Rightarrow> ''None''), tp_parse = (\<lambda>s. Some (length s))\<rparr>\<rparr>"

definition ex_request :: event_envelope where
  "ex_request = \<lparr>ev_id = 8, ev_type = APPLICATION_TRANSITION_REQUESTED, ev_source = ''board'',
     ev_occurred_at = 0, ev_subject_ref = None, ev_correlation_id = None, ev_dedupe_key = ''move'',
     ev_payload = [(''application_id'', PStr ''a''), (''status'', PStr ''saved'')]\<rparr>"

definition ex_dispatch_clock :: "datetime \<Rightarrow> dispatch_clock" where
  "ex_dispatch_clock t = \<lparr>dc_claim = t, dc_settle = t + 1, dc_jitter = 0\<rparr>"

text \<open>The first dispatcher dies after the change is applied; the second finds it applied.\<close>

definition ex_moves :: "process_move list" where
  "ex_moves = [Publish_event 0 ex_request, Deliver_event (ex_dispatch_clock 5) 9 9 Dies_after [],
     Deliver_event (ex_dispatch_clock 400) 9 9 Lives []]"

definition ex_desk_start :: desk where
  "ex_desk_start = (\<lparr>ob_rows = [], ob_workflows = [7], ob_runs = [(3, 7)]\<rparr>,
     \<lparr>ib_consumed = {}, ib_domain = ex_applied\<rparr>)"

theorem requested_changes_apply_exactly_once_witness:
  "\<exists>db ib. perform_moves ex_desk ex_moves ex_desk_start = (db, ib)
     \<and> map ox_status (ob_rows db) = [DISPATCHED] \<and> length (lf_log (ib_domain ib)) = 1
     \<and> has_consumed APPLICATION_TRANSITION_CONSUMER ''move'' ib"
proof -
  let ?x = "perform_moves ex_desk ex_moves ex_desk_start"
  obtain db ib where run: "?x = (db, ib)" by fastforce
  have "map ox_status (ob_rows (fst ?x)) = [DISPATCHED]" by code_simp
  with run have status: "map ox_status (ob_rows db) = [DISPATCHED]" by simp
  have "map (envelope_from_row (dp_outbox ex_desk)) (ob_rows (fst ?x)) = [ret ex_request]" by code_simp
  with run have event: "map (envelope_from_row (dp_outbox ex_desk)) (ob_rows db) = [ret ex_request]" by simp
  have "length (lf_log (ib_domain (snd ?x))) = 1" by code_simp
  with run have moved: "length (lf_log (ib_domain ib)) = 1" by simp
  obtain r where rows: "ob_rows db = [r]" using status by (cases "ob_rows db") auto
  have "r \<in> set (ob_rows db)" "ox_status r = DISPATCHED"
    "envelope_from_row (dp_outbox ex_desk) r = ret ex_request"
    "ev_type ex_request = APPLICATION_TRANSITION_REQUESTED"
    using rows status event by (simp_all add: ex_request_def)
  from requested_changes_apply_exactly_once [OF run [unfolded ex_desk_start_def] this]
  show ?thesis using run status moved by (simp add: ex_request_def)
qed

theorem routed_once_per_workflow_witness:
  "\<exists>db1 res. route (ex_router (\<lambda>_. None)) 0 1 1 ex_news ex_table
      = (ret \<lparr>ro_kind = STARTED, ro_workflow_id = Some 7, ro_thread_id = Some ''job:x''\<rparr>, db1)
    \<and> route (ex_router (\<lambda>_. None)) 9 2 2 ex_news db1 = (ret res, db1)
    \<and> \<not> (ro_kind res = STARTED \<and> ro_workflow_id res = Some 7)"
proof -
  let ?r = "ex_router (\<lambda>_. None)"
  let ?o = "\<lparr>ro_kind = STARTED, ro_workflow_id = Some 7, ro_thread_id = Some ''job:x''\<rparr>"
  have "fst (route ?r 0 1 1 ex_news ex_table) = ret ?o" by code_simp
  then obtain db1 where one: "route ?r 0 1 1 ex_news ex_table = (ret ?o, db1)" by (metis prod.collapse)
  have "fst (route ?r 9 2 2 ex_news (snd (route ?r 0 1 1 ex_news ex_table)))
      = ret \<lparr>ro_kind = ALREADY_ROUTED, ro_workflow_id = Some 7, ro_thread_id = Some ''job:x''\<rparr>
    \<and> snd (route ?r 9 2 2 ex_news (snd (route ?r 0 1 1 ex_news ex_table)))
      = snd (route ?r 0 1 1 ex_news ex_table)"
    by code_simp
  with one have two: "route ?r 9 2 2 ex_news db1
      = (ret \<lparr>ro_kind = ALREADY_ROUTED, ro_workflow_id = Some 7, ro_thread_id = Some ''job:x''\<rparr>, db1)"
    by (metis prod.collapse snd_conv)
  have before: "perform_moves ex_desk [] (\<lparr>ob_rows = [], ob_workflows = [7], ob_runs = [(3, 7)]\<rparr>,
      \<lparr>ib_consumed = {}, ib_domain = ex_applied\<rparr>) = (ex_table, \<lparr>ib_consumed = {}, ib_domain = ex_applied\<rparr>)"
    by (simp add: ex_table_def)
  have same: "?r\<lparr>er_threads := er_threads ?r, er_starter := er_starter ?r\<rparr> = ?r" by simp
  have kind: "ro_kind ?o \<in> {RESUMED, STARTED}" by simp
  have moves: "perform_moves ex_desk [] (db1, \<lparr>ib_consumed = {}, ib_domain = ex_applied\<rparr>)
      = (db1, \<lparr>ib_consumed = {}, ib_domain = ex_applied\<rparr>)" by simp
  have "\<not> ro_kind res = ro_kind ?o" if "res = \<lparr>ro_kind = ALREADY_ROUTED, ro_workflow_id = Some 7,
      ro_thread_id = Some ''job:x''\<rparr>" for res using that by simp
  note once = routed_once_per_workflow [where ts = "er_threads ?r" and st = "er_starter ?r",
      OF before one kind moves, unfolded same, OF two refl refl]
  show ?thesis using one two once by auto
qed

definition ex_published :: outbox where
  "ex_published = fst (perform_move ex_desk (Publish_event 0 ex_request) ex_desk_start)"


end
