(* ===== verification/StoredErrors.thy ===== *)
theory StoredErrors
  imports ToolExecutor "HOL-Library.Sublist"
begin

text \<open>
  How a failure survives a checkpoint. LangGraph stores a failed step's exception as its
  \<open>repr()\<close>; \<open>PersonalOSError.__repr__\<close> (\<open>personalos/domain/errors.py\<close>) writes what recovery
  needs into it, and \<open>parse_stored_error\<close> and \<open>classify\<close> (\<open>personalos/domain/failures.py\<close>) read it
  back with regular expressions. The expressions are written out as matchers, with \<open>repr()\<close> of a
  string and \<open>ast.literal_eval\<close> of a string literal. Text is ASCII; characters past it are what
  the port makes of a code point or of a Unicode name.
\<close>

section \<open>Writing\<close>

primrec err_name :: "err_class \<Rightarrow> string" where
  "err_name PersonalOSError = ''PersonalOSError''"
| "err_name ValidationFailed = ''ValidationFailed''"
| "err_name NotFound = ''NotFound''"
| "err_name PolicyDeniedError = ''PolicyDeniedError''"
| "err_name ApprovalRequiredError = ''ApprovalRequiredError''"
| "err_name IdempotencyConflict = ''IdempotencyConflict''"
| "err_name Conflict = ''Conflict''"
| "err_name ToolFailure = ''ToolFailure''"
| "err_name RetryableFailure = ''RetryableFailure''"
| "err_name ModelTransientFailure = ''ModelTransientFailure''"
| "err_name ModelSemanticFailure = ''ModelSemanticFailure''"
| "err_name ProviderPermanentFailure = ''ProviderPermanentFailure''"
| "err_name PartialSideEffect = ''PartialSideEffect''"
| "err_name PortNotConfigured = ''PortNotConfigured''"
| "err_name HumanTimeout = ''HumanTimeout''"
| "err_name InternalError = ''InternalError''"
| "err_name PolicyError = ''PolicyError''"
| "err_name PolicyDenied = ''PolicyDenied''"
| "err_name ApprovalRequired = ''ApprovalRequired''"
| "err_name PolicyViolation = ''PolicyViolation''"
| "err_name InvalidApproval = ''InvalidApproval''"
| "err_name ToolExecutionError = ''ToolExecutionError''"
| "err_name IdempotencyError = ''IdempotencyError''"
| "err_name IdempotencyKeyReused = ''IdempotencyKeyReused''"
| "err_name OperationInProgress = ''OperationInProgress''"
| "err_name InvalidIdempotencyKey = ''InvalidIdempotencyKey''"
| "err_name WorkflowLeaseUnavailable = ''WorkflowLeaseUnavailable''"
| "err_name WorkflowLeaseLost = ''WorkflowLeaseLost''"
| "err_name InvalidApplicationTransition = ''InvalidApplicationTransition''"
| "err_name ApplicationTransitionConflict = ''ApplicationTransitionConflict''"
| "err_name PathNotAllowed = ''PathNotAllowed''"
| "err_name StaleWrite = ''StaleWrite''"
| "err_name UnregisteredWorkflowThread = ''UnregisteredWorkflowThread''"
| "err_name ApprovalHashMismatch = ''ApprovalHashMismatch''"
| "err_name ApprovalExpired = ''ApprovalExpired''"
| "err_name ApprovalAlreadyDecided = ''ApprovalAlreadyDecided''"
| "err_name DuplicateWorkflowCommand = ''DuplicateWorkflowCommand''"
| "err_name DocumentReadRefused = ''DocumentReadRefused''"
| "err_name UnsupportedRouteDomain = ''UnsupportedRouteDomain''"
| "err_name TransitionEffectMismatch = ''TransitionEffectMismatch''"
| "err_name InvalidEventCursor = ''InvalidEventCursor''"
| "err_name InvalidWorkflowIdentity = ''InvalidWorkflowIdentity''"
| "err_name InvalidCredentialRef = ''InvalidCredentialRef''"
| "err_name CredentialNotFound = ''CredentialNotFound''"
| "err_name CredentialExchangeFailed = ''CredentialExchangeFailed''"
| "err_name CredentialRevoked = ''CredentialRevoked''"
| "err_name InvalidEvidenceLinkage = ''InvalidEvidenceLinkage''"
| "err_name InvalidEventEnvelope = ''InvalidEventEnvelope''"
| "err_name JobSearchContractError = ''JobSearchContractError''"
| "err_name CheckpointContractError = ''CheckpointContractError''"
| "err_name InvalidTaskDAG = ''InvalidTaskDAG''"
| "err_name ProviderUnavailable = ''ProviderUnavailable''"
| "err_name NothingToResume = ''NothingToResume''"
| "err_name AmbiguousWorkflowResume = ''AmbiguousWorkflowResume''"

definition printable :: "char \<Rightarrow> bool" where
  "printable c \<longleftrightarrow> (let n = of_char c :: nat in 32 \<le> n \<and> n < 127 \<or> 161 \<le> n \<and> n \<noteq> 173)"

definition hex_digits :: string where "hex_digits = ''0123456789abcdef''"

definition BACKSLASH :: char where "BACKSLASH = CHR 0x5C"
definition SINGLE :: char where "SINGLE = CHR 0x27"
definition DOUBLE :: char where "DOUBLE = CHR 0x22"

definition escaped :: "char \<Rightarrow> char \<Rightarrow> string" where
  "escaped q c =
     (if c = q \<or> c = BACKSLASH then [BACKSLASH, c]
      else if c = CHR 0x0A then [BACKSLASH, CHR ''n'']
      else if c = CHR 0x0D then [BACKSLASH, CHR ''r'']
      else if c = CHR 0x09 then [BACKSLASH, CHR ''t'']
      else if printable c then [c]
      else [BACKSLASH, CHR ''x'', hex_digits ! (of_char c div 16), hex_digits ! (of_char c mod 16)])"

definition quote_for :: "string \<Rightarrow> char" where
  "quote_for s = (if SINGLE \<in> set s \<and> DOUBLE \<notin> set s then DOUBLE else SINGLE)"

text \<open>\<open>repr()\<close> of a string.\<close>

definition py_repr :: "string \<Rightarrow> string" where
  "py_repr s = (let q = quote_for s in q # concat (map (escaped q) s) @ [q])"

text \<open>\<open>repr_fields\<close>; the first text is the error's \<open>provider\<close> or \<open>port\<close>, the second its \<open>reason\<close>.\<close>

definition repr_fields :: "err_class \<Rightarrow> string \<Rightarrow> string \<Rightarrow> (string \<times> string) list" where
  "repr_fields c a b =
     (if c = ProviderPermanentFailure then [(''provider'', a), (''reason'', b)]
      else if c = PortNotConfigured then [(''port'', a)] else [])"

definition error_fields :: "err_class \<Rightarrow> string \<Rightarrow> string \<Rightarrow> (string \<times> string) list" where
  "error_fields c a b =
     (''code'', error_code_value (code_of c))
     # (case failure_class_of c of None \<Rightarrow> [] | Some f \<Rightarrow> [(''failure_class'', failure_class_value f)])
     @ repr_fields c a b"

definition rendered :: "string \<times> string \<Rightarrow> string" where
  "rendered f = fst f @ ''='' @ py_repr (snd f) @ '', ''"

text \<open>\<open>PersonalOSError.__repr__\<close>; \<open>cid\<close> is the error's \<open>context_id\<close> as text.\<close>

definition error_repr :: "err_class \<Rightarrow> string \<Rightarrow> string \<Rightarrow> string \<Rightarrow> string \<Rightarrow> string" where
  "error_repr c a b cid msg =
     err_name c @ ''('' @ concat (map rendered (error_fields c a b))
     @ ''context_id='' @ cid @ '', message='' @ py_repr msg @ '')''"

section \<open>Reading\<close>

record stored_error =
  se_type :: "string option"
  se_class :: "failure_class option"
  se_code :: "string option"
  se_provider :: "string option"
  se_reason :: "string option"
  se_message :: string

definition plain_message :: "string option \<Rightarrow> string \<Rightarrow> stored_error" where
  "plain_message t msg = \<lparr>se_type = t, se_class = None, se_code = None, se_provider = None,
     se_reason = None, se_message = msg\<rparr>"

definition word_start :: "char \<Rightarrow> bool" where
  "word_start c \<longleftrightarrow> CHR ''A'' \<le> c \<and> c \<le> CHR ''Z'' \<or> CHR ''a'' \<le> c \<and> c \<le> CHR ''z'' \<or> c = CHR ''_''"

definition word_char :: "char \<Rightarrow> bool" where
  "word_char c \<longleftrightarrow> word_start c \<or> CHR ''0'' \<le> c \<and> c \<le> CHR ''9''"

text \<open>\<open>_REPR\<close>: the type and the body.\<close>

definition match_repr :: "string \<Rightarrow> (string \<times> string) option" where
  "match_repr s =
     (let s1 = dropWhile is_space s;
          ty = takeWhile (\<lambda>c. word_char c \<or> c = CHR ''.'') s1;
          s2 = drop (length ty) s1
      in case (ty, s2) of
        (t # _, p # s3) \<Rightarrow>
          if word_start t \<and> p = CHR ''(''
          then (case dropWhile is_space (rev s3) of
                  [] \<Rightarrow> None
                | c # b \<Rightarrow> if c = CHR '')'' then Some (ty, rev b) else None)
          else None
      | _ \<Rightarrow> None)"

text \<open>\<open>_CONTEXT_ID\<close>: what precedes the first match; \<open>w\<close> says whether a word character came last.\<close>

fun before_context :: "bool \<Rightarrow> string \<Rightarrow> string option" where
  "before_context w [] = None"
| "before_context w (c # cs) =
     (if \<not> w \<and> prefix ''context_id='' (c # cs) then Some []
      else map_option ((#) c) (before_context (word_char c) cs))"

text \<open>
  A quoted literal, with its quotes, and what follows it; \<open>all\<close> is the \<open>DOTALL\<close> flag.
\<close>

fun scan_quoted :: "bool \<Rightarrow> char \<Rightarrow> string \<Rightarrow> (string \<times> string) option" where
  "scan_quoted all q [] = None"
| "scan_quoted all q (c # cs) =
     (if c = q then Some ([c], cs)
      else if c = BACKSLASH
      then (case cs of
              [] \<Rightarrow> None
            | d # ds \<Rightarrow> if d = CHR 0x0A \<and> \<not> all then None
                        else map_option (\<lambda>(l, r). (c # d # l, r)) (scan_quoted all q ds))
      else map_option (\<lambda>(l, r). (c # l, r)) (scan_quoted all q cs))"

definition match_quoted :: "bool \<Rightarrow> string \<Rightarrow> (string \<times> string) option" where
  "match_quoted all s =
     (case s of
        [] \<Rightarrow> None
      | q # cs \<Rightarrow> if q = SINGLE \<or> q = DOUBLE
                  then map_option (\<lambda>(l, r). (q # l, r)) (scan_quoted all q cs) else None)"

definition match_field :: "string \<Rightarrow> (string \<times> string \<times> string) option" where
  "match_field s =
     (let k = takeWhile word_char s in
      case drop (length k) s of
        [] \<Rightarrow> None
      | c # cs \<Rightarrow> if k \<noteq> [] \<and> c = CHR ''=''
                  then map_option (\<lambda>(v, r). (k, v, r)) (match_quoted False cs) else None)"

lemma scan_quoted_length: "scan_quoted a q s = Some (l, r) \<Longrightarrow> length r < length s"
  by (induction a q s arbitrary: l r rule: scan_quoted.induct)
    (fastforce split: if_splits list.splits)+

lemma match_field_length: "match_field s = Some (k, v, r) \<Longrightarrow> length r < length s"
proof -
  assume "match_field s = Some (k, v, r)"
  then obtain c cs where d: "drop (length (takeWhile word_char s)) s = c # cs"
    and q: "match_quoted False cs = Some (v, r)"
    by (auto simp: match_field_def Let_def split: list.splits if_splits)
  from q have "length r < length cs"
    by (auto simp: match_quoted_def split: list.splits if_splits dest!: scan_quoted_length)
  moreover have "length (c # cs) \<le> length s" unfolding d [symmetric] by simp
  ultimately show ?thesis by simp
qed

text \<open>\<open>_FIELD.findall\<close>.\<close>

function find_fields :: "string \<Rightarrow> (string \<times> string) list" where
  "find_fields s =
     (case match_field s of
        Some (k, v, r) \<Rightarrow> (k, v) # find_fields r
      | None \<Rightarrow> (case s of [] \<Rightarrow> [] | c # cs \<Rightarrow> find_fields cs))"
  by pat_completeness auto
termination
  by (relation "measure length") (auto dest: match_field_length)

declare find_fields.simps [simp del]

text \<open>\<open>_MESSAGE.search\<close>: the literal.\<close>

fun find_message :: "string \<Rightarrow> string option" where
  "find_message [] = None"
| "find_message (c # cs) =
     (case (if prefix ''message='' (c # cs) then match_quoted True (drop 8 (c # cs)) else None) of
        Some (v, r) \<Rightarrow> if list_all is_space r then Some v else find_message cs
      | None \<Rightarrow> find_message cs)"

text \<open>
  \<open>tp_wide\<close> is what a code point past ASCII is, \<open>tp_named\<close> the character of a Unicode name, and
  \<open>tp_args\<close> what \<open>literal_eval\<close> makes of a builtin's arguments, each as text.
\<close>

record text_port =
  xp_wide :: "nat \<Rightarrow> string"
  xp_named :: "string \<Rightarrow> string option"
  xp_args :: "string \<Rightarrow> string list option"

definition hex_value :: "char \<Rightarrow> nat option" where
  "hex_value c =
     (let n = of_char c :: nat in
      if 48 \<le> n \<and> n \<le> 57 then Some (n - 48)
      else if 97 \<le> n \<and> n \<le> 102 then Some (n - 87)
      else if 65 \<le> n \<and> n \<le> 70 then Some (n - 55) else None)"

fun digits_value :: "nat \<Rightarrow> nat \<Rightarrow> string \<Rightarrow> nat option" where
  "digits_value base acc [] = Some acc"
| "digits_value base acc (c # cs) =
     (case hex_value c of None \<Rightarrow> None
      | Some d \<Rightarrow> if d < base then digits_value base (acc * base + d) cs else None)"

definition code_point :: "text_port \<Rightarrow> nat \<Rightarrow> string" where
  "code_point tp n = (if n < 256 then [char_of n] else xp_wide tp n)"

definition octal :: "char \<Rightarrow> bool" where
  "octal c \<longleftrightarrow> CHR ''0'' \<le> c \<and> c \<le> CHR ''7''"

text \<open>The inside of a string literal; \<open>None\<close> is a \<open>SyntaxError\<close>.\<close>

definition simple_escape :: "char \<Rightarrow> char option" where
  "simple_escape d =
     (if d = BACKSLASH \<or> d = SINGLE \<or> d = DOUBLE then Some d
      else map_of [(CHR ''a'', CHR 0x07), (CHR ''b'', CHR 0x08), (CHR ''f'', CHR 0x0C),
                   (CHR ''n'', CHR 0x0A), (CHR ''r'', CHR 0x0D), (CHR ''t'', CHR 0x09),
                   (CHR ''v'', CHR 0x0B)] d)"

text \<open>How many hexadecimal digits follow \<open>x\<close>, \<open>u\<close> and \<open>U\<close>.\<close>

definition hex_width :: "char \<Rightarrow> nat option" where
  "hex_width d = map_of [(CHR ''x'', 2), (CHR ''u'', 4), (CHR ''U'', 8)] d"

definition take_hex :: "text_port \<Rightarrow> nat \<Rightarrow> string \<Rightarrow> string option" where
  "take_hex tp n s =
     (if length s < n then None
      else case digits_value 16 0 (take n s) of
        None \<Rightarrow> None | Some v \<Rightarrow> if v < 0x110000 then Some (code_point tp v) else None)"

lemma tl_dropWhile_length: "length (dropWhile p es) - Suc 0 \<le> Suc (Suc (length es))"
  using length_dropWhile_le [of p es] by simp

function unescape :: "text_port \<Rightarrow> string \<Rightarrow> string option" where
  "unescape tp [] = Some []"
| "unescape tp (c # cs) =
     (if c = CHR 0x0A \<or> c = CHR 0x0D \<or> c = CHR 0x00 then None
      else if c \<noteq> BACKSLASH then map_option ((#) c) (unescape tp cs)
      else case cs of
        [] \<Rightarrow> None
      | d # ds \<Rightarrow>
          (case simple_escape d of
             Some e \<Rightarrow> map_option ((#) e) (unescape tp ds)
           | None \<Rightarrow>
              (case hex_width d of
                 Some n \<Rightarrow>
                   (case take_hex tp n ds of None \<Rightarrow> None
                    | Some t \<Rightarrow> map_option ((@) t) (unescape tp (drop n ds)))
               | None \<Rightarrow>
                   if d = CHR 0x0A then unescape tp ds
                   else if d = CHR 0x0D then unescape tp (case ds of e # es \<Rightarrow> if e = CHR 0x0A then es else ds | [] \<Rightarrow> [])
                   else if octal d then
                     let o3 = d # takeWhile octal (take 2 ds) in
                     (case digits_value 8 0 o3 of None \<Rightarrow> None
                      | Some v \<Rightarrow> map_option ((@) (code_point tp v)) (unescape tp (drop (length o3 - 1) ds)))
                   else if d = CHR ''N'' then
                     (case ds of
                        p # es \<Rightarrow>
                          if p = CHR ''{'' \<and> CHR ''}'' \<in> set es then
                            (case xp_named tp (takeWhile (\<lambda>x. x \<noteq> CHR ''}'') es) of None \<Rightarrow> None
                             | Some t \<Rightarrow> map_option ((@) t) (unescape tp (tl (dropWhile (\<lambda>x. x \<noteq> CHR ''}'') es))))
                          else None
                      | [] \<Rightarrow> None)
                   else map_option (\<lambda>r. c # d # r) (unescape tp ds))))"
  by pat_completeness auto
termination
  by (relation "measure (\<lambda>(tp, s). length s)")
    (auto simp: tl_dropWhile_length less_Suc_eq_le intro: le_SucI split: list.splits)

declare unescape.simps [simp del]

text \<open>\<open>_literal\<close>.\<close>

definition read_literal :: "text_port \<Rightarrow> string \<Rightarrow> string" where
  "read_literal tp s =
     (case unescape tp (butlast (tl s)) of
        Some t \<Rightarrow> t
      | None \<Rightarrow> rev (dropWhile (\<lambda>c. c = SINGLE \<or> c = DOUBLE)
                  (rev (dropWhile (\<lambda>c. c = SINGLE \<or> c = DOUBLE) s))))"

definition all_failure_classes :: "failure_class list" where
  "all_failure_classes = [MODEL_TRANSIENT, MODEL_SEMANTIC, PROVIDER_TRANSIENT, PROVIDER_PERMANENT,
     CONCURRENCY, PARTIAL_SIDE_EFFECT, POLICY_DENIAL, HUMAN_TIMEOUT, UNCLASSIFIED]"

text \<open>\<open>_failure_class\<close>.\<close>

definition read_class :: "string option \<Rightarrow> failure_class option" where
  "read_class v =
     (case v of None \<Rightarrow> None
      | Some v \<Rightarrow> find_first (\<lambda>f. failure_class_value f = v) all_failure_classes)"

fun join :: "string \<Rightarrow> string list \<Rightarrow> string" where
  "join sep [] = []"
| "join sep [s] = s"
| "join sep (s # ss) = s @ sep @ join sep ss"

definition parse_stored_error :: "text_port \<Rightarrow> string \<Rightarrow> stored_error" where
  "parse_stored_error tp text =
     (case match_repr text of
        None \<Rightarrow> plain_message None text
      | Some (ty, body) \<Rightarrow>
          (case before_context False body of
             Some head \<Rightarrow>
               let field = map_of (rev (map (\<lambda>(k, v). (k, read_literal tp v)) (find_fields head)))
               in \<lparr>se_type = Some ty, se_class = read_class (field ''failure_class''),
                   se_code = field ''code'', se_provider = field ''provider'',
                   se_reason = field ''reason'',
                   se_message = (case find_message body of Some v \<Rightarrow> read_literal tp v | None \<Rightarrow> body)\<rparr>
           | None \<Rightarrow>
               plain_message (Some ty)
                 (if strip body = [] then []
                  else case xp_args tp body of Some args \<Rightarrow> join ''; '' args | None \<Rightarrow> body)))"

section \<open>Classification\<close>

definition error_codes :: "error_code list" where
  "error_codes = [VALIDATION, NOT_FOUND, POLICY_DENIED, APPROVAL_REQUIRED, IDEMPOTENCY_CONFLICT,
     CONFLICT, TOOL_FAILURE, RETRYABLE, INTERNAL]"

fun class_by_code :: "error_code \<Rightarrow> failure_class option" where
  "class_by_code POLICY_DENIED = Some POLICY_DENIAL"
| "class_by_code APPROVAL_REQUIRED = Some POLICY_DENIAL"
| "class_by_code CONFLICT = Some CONCURRENCY"
| "class_by_code IDEMPOTENCY_CONFLICT = Some CONCURRENCY"
| "class_by_code TOOL_FAILURE = Some PROVIDER_TRANSIENT"
| "class_by_code RETRYABLE = Some PROVIDER_TRANSIENT"
| "class_by_code _ = None"

definition CLASS_BY_CODE :: "string \<Rightarrow> failure_class option" where
  "CLASS_BY_CODE s =
     (case find_first (\<lambda>k. error_code_value k = s) error_codes of None \<Rightarrow> None | Some k \<Rightarrow> class_by_code k)"

definition TRANSIENT_BUILTINS :: "string list" where
  "TRANSIENT_BUILTINS = [''TimeoutError'', ''ConnectionError'', ''ConnectionResetError'',
     ''ConnectionRefusedError'', ''ConnectionAbortedError'', ''BrokenPipeError'']"

definition last_name :: "string \<Rightarrow> string" where
  "last_name s = rev (takeWhile (\<lambda>c. c \<noteq> CHR ''.'') (rev s))"

definition classify_stored :: "stored_error \<Rightarrow> failure_class" where
  "classify_stored e =
     (case se_class e of
        Some f \<Rightarrow> f
      | None \<Rightarrow>
          (case (case se_code e of None \<Rightarrow> None | Some k \<Rightarrow> CLASS_BY_CODE k) of
             Some f \<Rightarrow> f
           | None \<Rightarrow>
               if (case se_type e of None \<Rightarrow> False | Some t \<Rightarrow> last_name t \<in> set TRANSIENT_BUILTINS)
               then PROVIDER_TRANSIENT else UNCLASSIFIED))"

section \<open>A literal is read back as it was written\<close>

lemma unescape_plain:
  "c \<noteq> BACKSLASH \<Longrightarrow> c \<notin> {CHR 0x0A, CHR 0x0D, CHR 0x00} \<Longrightarrow>
     unescape tp (c # cs) = map_option ((#) c) (unescape tp cs)"
  by (simp add: unescape.simps(2))

lemma unescape_simple:
  "simple_escape d = Some e \<Longrightarrow>
     unescape tp (BACKSLASH # d # ds) = map_option ((#) e) (unescape tp ds)"
  by (simp add: unescape.simps(2) BACKSLASH_def)

lemma hex_digit:
  assumes "n < 16"
  shows "hex_value (hex_digits ! n) = Some n" "hex_digits ! n \<notin> {BACKSLASH, SINGLE, DOUBLE}"
proof -
  have "list_all (\<lambda>n. hex_value (hex_digits ! n) = Some n \<and> hex_digits ! n \<notin> {BACKSLASH, SINGLE, DOUBLE}) [0..<16]"
    by code_simp
  with assms show "hex_value (hex_digits ! n) = Some n" "hex_digits ! n \<notin> {BACKSLASH, SINGLE, DOUBLE}"
    by (simp_all add: list_all_iff)
qed

lemma char_nibbles:
  fixes c :: char
  shows "of_char c div 16 < (16::nat)" "of_char c mod 16 < (16::nat)" "of_char c < (0x110000::nat)"
proof -
  have n: "of_char c < (16 * 16::nat)" using nat_of_char_less_256 [of c] by simp
  show "of_char c div 16 < (16::nat)" by (rule less_mult_imp_div_less [OF n])
  show "of_char c < (0x110000::nat)" by (rule less_trans [OF nat_of_char_less_256]) simp
  show "of_char c mod 16 < (16::nat)" by simp
qed

lemma hex_pair:
  "digits_value 16 0 [hex_digits ! (of_char c div 16), hex_digits ! (of_char c mod 16)] = Some (of_char c)"
  using hex_digit(1) [OF char_nibbles(1), of c] hex_digit(1) [OF char_nibbles(2), of c] char_nibbles [of c] by simp

lemma unescape_hex:
  "unescape tp (BACKSLASH # CHR ''x'' # hex_digits ! (of_char c div 16) # hex_digits ! (of_char c mod 16) # ds)
     = map_option ((#) c) (unescape tp ds)"
proof -
  have "take_hex tp 2 (hex_digits ! (of_char c div 16) # hex_digits ! (of_char c mod 16) # ds) = Some [c]"
    using hex_pair [of c] char_nibbles(3) [of c]
    by (simp add: take_hex_def code_point_def numeral_2_eq_2 del: digits_value.simps)
  moreover have "(@) [c] = (#) c" by (rule ext) simp
  ultimately show ?thesis
    by (simp add: unescape.simps(2) BACKSLASH_def simple_escape_def SINGLE_def DOUBLE_def hex_width_def)
qed

lemma escaped_cases:
  assumes "q = SINGLE \<or> q = DOUBLE"
  obtains (letter) d where "escaped q c = [BACKSLASH, d]" "simple_escape d = Some c" "d \<noteq> CHR 0x0A"
  | (plain) "escaped q c = [c]" "c \<noteq> q" "c \<noteq> BACKSLASH" "c \<notin> {CHR 0x0A, CHR 0x0D, CHR 0x00}"
  | (hex) "escaped q c = [BACKSLASH, CHR ''x'', hex_digits ! (of_char c div 16), hex_digits ! (of_char c mod 16)]"
proof -
  note d = BACKSLASH_def SINGLE_def DOUBLE_def
  consider "c = q \<or> c = BACKSLASH" | "c = CHR 0x0A" | "c = CHR 0x0D" | "c = CHR 0x09"
    | "c \<noteq> q" "c \<noteq> BACKSLASH" "c \<noteq> CHR 0x0A" "c \<noteq> CHR 0x0D" "c \<noteq> CHR 0x09" by blast
  then show thesis
  proof cases
    case 1
    show ?thesis by (rule letter [of c]) (use 1 assms in \<open>auto simp: escaped_def simple_escape_def d\<close>)
  next
    case 2
    show ?thesis by (rule letter [of "CHR ''n''"]) (use 2 assms in \<open>auto simp: escaped_def simple_escape_def d\<close>)
  next
    case 3
    show ?thesis by (rule letter [of "CHR ''r''"]) (use 3 assms in \<open>auto simp: escaped_def simple_escape_def d\<close>)
  next
    case 4
    show ?thesis by (rule letter [of "CHR ''t''"]) (use 4 assms in \<open>auto simp: escaped_def simple_escape_def d\<close>)
  next
    case 5
    show ?thesis
    proof (cases "printable c")
      case True
      then have "c \<noteq> CHR 0x00" by (auto simp: printable_def)
      with 5 True show ?thesis by (intro plain) (simp_all add: escaped_def)
    next
      case False
      with 5 show ?thesis by (intro hex) (simp add: escaped_def)
    qed
  qed
qed

lemma unescape_escaped:
  assumes "q = SINGLE \<or> q = DOUBLE"
  shows "unescape tp (escaped q c @ ds) = map_option ((#) c) (unescape tp ds)"
  using assms
  by (cases rule: escaped_cases [where c = c]) (simp_all add: unescape_hex unescape_plain unescape_simple)

lemma unescape_repr:
  "q = SINGLE \<or> q = DOUBLE \<Longrightarrow> unescape tp (concat (map (escaped q) s)) = Some s"
  by (induction s) (simp_all add: unescape_escaped unescape.simps(1))

lemma quote_for_cases: "quote_for s = SINGLE \<or> quote_for s = DOUBLE"
  by (simp add: quote_for_def)

lemma read_repr: "read_literal tp (py_repr s) = s"
  using unescape_repr [OF quote_for_cases] by (simp add: read_literal_def py_repr_def Let_def)

text \<open>The matcher takes exactly the literal.\<close>

lemma scan_escaped:
  assumes q: "q = SINGLE \<or> q = DOUBLE"
  shows "scan_quoted a q (escaped q c @ s) = map_option (\<lambda>(l, r). (escaped q c @ l, r)) (scan_quoted a q s)"
  using q
proof (cases rule: escaped_cases [where c = c])
  case (letter d)
  have "BACKSLASH \<noteq> q" using q by (auto simp: BACKSLASH_def SINGLE_def DOUBLE_def)
  with letter show ?thesis by simp
next
  case plain
  then show ?thesis by simp
next
  case hex
  have "BACKSLASH \<noteq> q" using q by (auto simp: BACKSLASH_def SINGLE_def DOUBLE_def)
  moreover have "hex_digits ! (of_char c div 16) \<notin> {q, BACKSLASH}" "hex_digits ! (of_char c mod 16) \<notin> {q, BACKSLASH}"
    using hex_digit(2) [OF char_nibbles(1), of c] hex_digit(2) [OF char_nibbles(2), of c] q by auto
  ultimately show ?thesis unfolding hex by (cases "scan_quoted a q s") auto
qed

lemma scan_repr:
  assumes "q = SINGLE \<or> q = DOUBLE"
  shows "scan_quoted a q (concat (map (escaped q) s) @ q # r) = Some (concat (map (escaped q) s) @ [q], r)"
  by (induction s) (simp_all add: scan_escaped [OF assms])

lemma match_quoted_repr: "match_quoted a (py_repr s @ r) = Some (py_repr s, r)"
  using scan_repr [OF quote_for_cases] quote_for_cases [of s]
  by (simp add: match_quoted_def py_repr_def Let_def)

section \<open>A stored error is read back as it was raised\<close>

text \<open>Text without quotes, backslashes, equals signs or control characters, such as a name or an id.\<close>

definition plain :: "string \<Rightarrow> bool" where
  "plain v \<longleftrightarrow> (\<forall>c \<in> set v. printable c \<and> c \<notin> {BACKSLASH, SINGLE, DOUBLE, CHR ''=''})"

lemma repr_plain: "plain v \<Longrightarrow> py_repr v = SINGLE # v @ [SINGLE]"
proof -
  assume v: "plain v"
  then have q: "quote_for v = SINGLE" by (auto simp: plain_def quote_for_def)
  have "escaped SINGLE c = [c]" if "c \<in> set v" for c
  proof -
    have c: "printable c" "c \<notin> {BACKSLASH, SINGLE}" using v that by (auto simp: plain_def)
    then have "c \<noteq> CHR 0x0A" "c \<noteq> CHR 0x0D" "c \<noteq> CHR 0x09" by (auto simp: printable_def)
    with c show ?thesis by (simp add: escaped_def)
  qed
  then have "concat (map (escaped SINGLE) v) = v" by (induction v) simp_all
  then show ?thesis by (simp add: py_repr_def q)
qed

text \<open>No match of \<open>pat\<close> starts in \<open>u\<close> when \<open>r\<close> follows it.\<close>

fun clear :: "string \<Rightarrow> string \<Rightarrow> string \<Rightarrow> bool" where
  "clear pat [] r = True"
| "clear pat (c # cs) r = (\<not> prefix pat (c # cs @ r) \<and> clear pat cs r)"

lemma clear_append: "clear pat (u @ v) r \<longleftrightarrow> clear pat u (v @ r) \<and> clear pat v r"
  by (induction u) auto

lemma clear_without:
  assumes "e \<in> set pat" and "e \<notin> set v" and "q \<notin> set pat"
  shows "clear pat v (q # r)"
  using assms(2)
proof (induction v)
  case (Cons c cs)
  have "\<not> prefix pat (us @ q # r)" if "e \<notin> set us" for us
  proof
    assume p: "prefix pat (us @ q # r)"
    show False
    proof (cases "length pat \<le> length us")
      case True
      with p have "prefix pat us" by (metis append_eq_append_conv_if prefix_def append_take_drop_id take_all_iff)
      with assms(1) that show False by (auto simp: prefix_def)
    next
      case False
      with p have "prefix (us @ [q]) pat"
        by (metis (no_types, lifting) Suc_leI append_Cons append_Nil append_assoc length_append_singleton
            not_le_imp_less prefixI prefix_length_prefix)
      with assms(3) show False by (auto simp: prefix_def)
    qed
  qed
  from this [of "c # cs"] Cons show ?case by auto
qed simp

lemma before_context_skip:
  "u \<noteq> [] \<Longrightarrow> clear ''context_id='' u r \<Longrightarrow>
     before_context w (u @ r) = map_option ((@) u) (before_context (word_char (last u)) r)"
proof (induction u arbitrary: w)
  case (Cons c cs)
  show ?case
  proof (cases "cs = []")
    case True
    have "(@) [c] = (#) c" by (rule ext) simp
    with True Cons.prems show ?thesis by auto
  next
    case False
    with Cons.IH [of "word_char c"] Cons.prems show ?thesis
      by (auto simp: option.map_comp comp_def)
  qed
qed simp

lemma find_message_skip: "clear ''message='' u r \<Longrightarrow> find_message (u @ r) = find_message r"
  by (induction u) auto

lemma find_message_here: "find_message (''message='' @ py_repr msg) = Some (py_repr msg)"
  using match_quoted_repr [of True msg "[]"] by simp

abbreviation known_keys :: "string set" where
  "known_keys \<equiv> {''code'', ''failure_class'', ''provider'', ''reason'', ''port''}"

lemma rendered_clear:
  assumes k: "k \<in> known_keys" and v: "plain v"
  shows "clear ''context_id='' (rendered (k, v)) r" "clear ''message='' (rendered (k, v)) r"
proof -
  have e: "CHR ''='' \<notin> set v" using v by (auto simp: plain_def)
  have shape: "rendered (k, v) = k @ ''='' @ [SINGLE] @ v @ SINGLE # '', ''"
    by (simp add: rendered_def repr_plain [OF v])
  have inner: "clear ''context_id='' v (SINGLE # s)" "clear ''message='' v (SINGLE # s)" for s
    by (rule clear_without [where e = "CHR ''=''"]; use e in \<open>simp add: SINGLE_def\<close>)+
  show "clear ''context_id='' (rendered (k, v)) r" "clear ''message='' (rendered (k, v)) r"
    unfolding shape clear_append using k inner by (auto simp: SINGLE_def)
qed

lemma rendered_last: "last (rendered f) = CHR '' ''" "rendered f \<noteq> []"
  by (simp_all add: rendered_def)

lemma fields_clear:
  assumes "\<forall>f \<in> set fs. fst f \<in> known_keys \<and> plain (snd f)"
  shows "before_context False (concat (map rendered fs) @ ''context_id='' @ r) = Some (concat (map rendered fs))
    \<and> clear ''message='' (concat (map rendered fs)) t"
  using assms
proof (induction fs)
  case (Cons f fs)
  have f: "fst f \<in> known_keys" "plain (snd f)" using Cons.prems by auto
  have c: "clear ''context_id='' (rendered f) t" "clear ''message='' (rendered f) t" for t
    using rendered_clear [OF f, of t] by simp_all
  have "\<not> word_char (last (rendered f))" by (simp add: rendered_last word_char_def word_start_def)
  with Cons.IH Cons.prems before_context_skip [OF rendered_last(2) c(1)] c(2) show ?case
    by (simp add: clear_append)
qed simp

lemma find_fields_rendered:
  assumes "k \<noteq> []" and "list_all word_char k"
  shows "find_fields (rendered (k, v) @ r) = (k, py_repr v) # find_fields r"
proof -
  have tw: "takeWhile word_char (k @ CHR ''='' # s) = k" for s
    using assms(2) by (simp add: takeWhile_append2 list_all_iff word_char_def word_start_def)
  have "match_field (rendered (k, v) @ r) = Some (k, py_repr v, '', '' @ r)"
    using assms(1) match_quoted_repr [of False v "'', '' @ r"]
    by (simp add: match_field_def rendered_def tw Let_def)
  moreover have "find_fields (CHR '','' # s) = find_fields s" "find_fields (CHR '' '' # s) = find_fields s" for s
    by (subst find_fields.simps; simp add: match_field_def word_char_def word_start_def Let_def)+
  ultimately show ?thesis by (subst find_fields.simps) simp
qed

lemma known_keys_words: "k \<in> known_keys \<Longrightarrow> k \<noteq> [] \<and> list_all word_char k"
  by (auto simp: word_char_def word_start_def)

lemma find_fields_all:
  "\<forall>f \<in> set fs. fst f \<in> known_keys \<Longrightarrow>
     map (\<lambda>(k, v). (k, read_literal tp v)) (find_fields (concat (map rendered fs))) = fs"
proof (induction fs)
  case Nil
  show ?case by (simp add: find_fields.simps match_field_def)
next
  case (Cons f fs)
  obtain k v where f: "f = (k, v)" by fastforce
  with Cons known_keys_words [of k] show ?case
    by (simp add: find_fields_rendered read_repr)
qed

definition err_classes :: "err_class list" where
  "err_classes = [
     PersonalOSError, ValidationFailed, NotFound, PolicyDeniedError, ApprovalRequiredError,
     IdempotencyConflict, Conflict, ToolFailure, RetryableFailure, ModelTransientFailure,
     ModelSemanticFailure, ProviderPermanentFailure, PartialSideEffect, PortNotConfigured,
     HumanTimeout, InternalError, PolicyError, PolicyDenied, ApprovalRequired,
     PolicyViolation, InvalidApproval, ToolExecutionError, IdempotencyError,
     IdempotencyKeyReused, OperationInProgress, InvalidIdempotencyKey,
     WorkflowLeaseUnavailable, WorkflowLeaseLost, InvalidApplicationTransition,
     ApplicationTransitionConflict, PathNotAllowed, StaleWrite, UnregisteredWorkflowThread,
     ApprovalHashMismatch, ApprovalExpired, ApprovalAlreadyDecided,
     DuplicateWorkflowCommand, DocumentReadRefused, UnsupportedRouteDomain,
     TransitionEffectMismatch, InvalidEventCursor, InvalidWorkflowIdentity,
     InvalidCredentialRef, CredentialNotFound, CredentialExchangeFailed, CredentialRevoked,
     InvalidEvidenceLinkage, InvalidEventEnvelope, JobSearchContractError,
     CheckpointContractError, InvalidTaskDAG, ProviderUnavailable, NothingToResume,
     AmbiguousWorkflowResume]"

lemma err_classes_all: "c \<in> set err_classes"
  by (cases c) (simp_all add: err_classes_def)

lemma enumerated: "list_all P xs \<Longrightarrow> x \<in> set xs \<Longrightarrow> P x"
  by (simp add: list_all_iff)

lemma err_name_word: "err_name c \<noteq> [] \<and> list_all word_start (err_name c)"
proof -
  have "list_all (\<lambda>c. err_name c \<noteq> [] \<and> list_all word_start (err_name c)) err_classes" by code_simp
  from enumerated [OF this err_classes_all] show ?thesis .
qed

lemma word_start_not_space: "word_start c \<Longrightarrow> \<not> is_space c"
  by (auto simp: word_start_def is_space_def)

lemma match_repr_error:
  "match_repr (err_name c @ ''('' @ body @ '')'') = Some (err_name c, body)"
proof -
  obtain h t where n: "err_name c = h # t" using err_name_word [of c] by (cases "err_name c") auto
  have w: "\<forall>x \<in> set (err_name c). word_start x" using err_name_word [of c] by (simp add: list_all_iff)
  have drop: "dropWhile is_space (err_name c @ s) = err_name c @ s" for s
    using w word_start_not_space unfolding n by auto
  have tw: "takeWhile (\<lambda>c. word_char c \<or> c = CHR ''.'') (err_name c @ CHR ''('' # s) = err_name c" for s
  proof -
    have "takeWhile (\<lambda>c. word_char c \<or> c = CHR ''.'') (err_name c @ CHR ''('' # s)
        = err_name c @ takeWhile (\<lambda>c. word_char c \<or> c = CHR ''.'') (CHR ''('' # s)"
      by (rule takeWhile_append2) (use w in \<open>simp add: word_char_def\<close>)
    then show ?thesis by (simp add: word_char_def word_start_def)
  qed
  have "word_start h" using w n by simp
  with n drop tw show ?thesis
    by (simp add: match_repr_def Let_def is_space_def)
qed

lemma error_codes_all: "k \<in> set error_codes"
  by (cases k) (simp_all add: error_codes_def)

lemma failure_classes_all: "f \<in> set all_failure_classes"
  by (cases f) (simp_all add: all_failure_classes_def)

lemma values_plain: "plain (error_code_value k)" "plain (failure_class_value f)"
proof -
  have "list_all (\<lambda>k. plain (error_code_value k)) error_codes"
    "list_all (\<lambda>f. plain (failure_class_value f)) all_failure_classes" by code_simp+
  then show "plain (error_code_value k)" "plain (failure_class_value f)"
    using error_codes_all failure_classes_all by (simp_all only: list_all_iff)
qed

lemma error_fields_known:
  assumes "plain a" and "plain b"
  shows "\<forall>f \<in> set (error_fields c a b). fst f \<in> known_keys \<and> plain (snd f)"
proof -
  have "\<forall>f \<in> set (repr_fields c a b). fst f \<in> known_keys \<and> plain (snd f)"
    using assms by (simp add: repr_fields_def)
  then show ?thesis by (auto simp: error_fields_def values_plain split: option.splits)
qed

lemma read_class_value: "read_class (Some (failure_class_value f)) = Some f"
proof -
  have "list_all (\<lambda>f. read_class (Some (failure_class_value f)) = Some f) all_failure_classes" by code_simp
  from enumerated [OF this failure_classes_all] show ?thesis .
qed

definition provider_of :: "err_class \<Rightarrow> string \<Rightarrow> string option" where
  "provider_of c a = (if c = ProviderPermanentFailure then Some a else None)"

definition reason_of :: "err_class \<Rightarrow> string \<Rightarrow> string option" where
  "reason_of c b = (if c = ProviderPermanentFailure then Some b else None)"

lemma error_fields_read:
  "map_of (rev (error_fields c a b)) ''code'' = Some (error_code_value (code_of c))"
  "map_of (rev (error_fields c a b)) ''failure_class'' = map_option failure_class_value (failure_class_of c)"
  "map_of (rev (error_fields c a b)) ''provider'' = provider_of c a"
  "map_of (rev (error_fields c a b)) ''reason'' = reason_of c b"
  by (simp_all add: error_fields_def repr_fields_def provider_of_def reason_of_def split: option.split)

lemma builtins_apart: "last_name (err_name c) \<notin> set TRANSIENT_BUILTINS"
proof -
  have "list_all (\<lambda>c. last_name (err_name c) \<notin> set TRANSIENT_BUILTINS) err_classes" by code_simp
  from enumerated [OF this err_classes_all] show ?thesis .
qed

lemma class_by_code_value: "CLASS_BY_CODE (error_code_value k) = class_by_code k"
proof -
  have "list_all (\<lambda>k. CLASS_BY_CODE (error_code_value k) = class_by_code k) error_codes" by code_simp
  from enumerated [OF this error_codes_all] show ?thesis .
qed

lemma parse_stored_parsed:
  assumes "plain a" and "plain b" and "plain cid"
  shows "parse_stored_error tp (error_repr c a b cid msg)
      = \<lparr>se_type = Some (err_name c), se_class = failure_class_of c,
         se_code = Some (error_code_value (code_of c)), se_provider = provider_of c a,
         se_reason = reason_of c b, se_message = msg\<rparr>"
proof -
  let ?fs = "error_fields c a b"
  let ?head = "concat (map rendered ?fs)"
  let ?tail = "cid @ '', message='' @ py_repr msg"
  have known: "\<forall>f \<in> set ?fs. fst f \<in> known_keys \<and> plain (snd f)"
    by (rule error_fields_known [OF assms(1,2)])
  have body: "match_repr (error_repr c a b cid msg) = Some (err_name c, ?head @ ''context_id='' @ ?tail)"
    using match_repr_error [of c "?head @ ''context_id='' @ ?tail"] by (simp add: error_repr_def)
  have head: "before_context False (?head @ ''context_id='' @ ?tail) = Some ?head"
    and clear: "clear ''message='' ?head t" for t
    using fields_clear [OF known] by blast+
  have cid: "clear ''message='' cid (CHR '','' # t)" for t
    by (rule clear_without [where e = "CHR ''=''"]) (use assms(3) in \<open>auto simp: plain_def\<close>)
  have "find_message (?head @ ''context_id='' @ ?tail) = find_message (''context_id='' @ ?tail)"
    by (rule find_message_skip [OF clear])
  also have "\<dots> = find_message ?tail" by (rule find_message_skip) simp
  also have "\<dots> = find_message ('', '' @ ''message='' @ py_repr msg)"
    using find_message_skip [OF cid, of "'' message='' @ py_repr msg"] by simp
  also have "\<dots> = Some (py_repr msg)"
    using find_message_skip [of "'', ''" "''message='' @ py_repr msg"] find_message_here by simp
  finally have msg: "find_message (?head @ ''context_id='' @ ?tail) = Some (py_repr msg)" .
  have fields: "map (\<lambda>(k, v). (k, read_literal tp v)) (find_fields ?head) = ?fs"
    by (rule find_fields_all) (use known in blast)
  have "read_class (map_option failure_class_value (failure_class_of c)) = failure_class_of c"
    by (cases "failure_class_of c") (simp_all add: read_class_value, simp add: read_class_def)
  then show ?thesis
    unfolding parse_stored_error_def body option.case prod.case head fields Let_def msg error_fields_read
    by (simp add: read_repr)
qed

lemma classify_stored_parsed:
  assumes "plain a" and "plain b" and "plain cid"
  shows "classify_stored (parse_stored_error tp (error_repr c a b cid msg))
      = (case failure_class_of c of Some f \<Rightarrow> f
         | None \<Rightarrow> (case class_by_code (code_of c) of Some f \<Rightarrow> f | None \<Rightarrow> UNCLASSIFIED))"
  unfolding parse_stored_parsed [OF assms]
  by (simp add: classify_stored_def class_by_code_value builtins_apart split: option.split)

text \<open>
  C26: a failure survives its checkpoint. The stored \<open>repr()\<close> of an error of the taxonomy, whatever
  its message says (quotes, line breaks, text that looks like the fields themselves), is read
  back to its class name, code, failure class, message and, for a permanent provider failure,
  provider and reason; and it is classified as what its class declares, or else by its code.
\<close>

theorem stored_errors_survive:
  assumes "plain a" and "plain b" and "plain cid"
  shows "parse_stored_error tp (error_repr c a b cid msg)
      = \<lparr>se_type = Some (err_name c), se_class = failure_class_of c,
         se_code = Some (error_code_value (code_of c)), se_provider = provider_of c a,
         se_reason = reason_of c b, se_message = msg\<rparr>
    \<and> classify_stored (parse_stored_error tp (error_repr c a b cid msg))
      = (case failure_class_of c of Some f \<Rightarrow> f
         | None \<Rightarrow> (case class_by_code (code_of c) of Some f \<Rightarrow> f | None \<Rightarrow> UNCLASSIFIED))"
  using parse_stored_parsed [OF assms] classify_stored_parsed [OF assms] by blast

section \<open>Witness\<close>

definition ex_text_port :: text_port where
  "ex_text_port = \<lparr>xp_wide = (\<lambda>_. ''?''), xp_named = (\<lambda>_. None), xp_args = (\<lambda>_. None)\<rparr>"

theorem stored_errors_survive_witness:
  "classify_stored (parse_stored_error ex_text_port
      (error_repr ProviderPermanentFailure ''gmail'' ''revoked_auth'' ''ab-1''
        ''context_id=1, failure_class='' )) = PROVIDER_PERMANENT
   \<and> se_provider (parse_stored_error ex_text_port
      (error_repr ProviderPermanentFailure ''gmail'' ''revoked_auth'' ''ab-1''
        ''context_id=1, failure_class='')) = Some ''gmail''"
proof -
  let ?text = "error_repr ProviderPermanentFailure ''gmail'' ''revoked_auth'' ''ab-1'' ''context_id=1, failure_class=''"
  have "plain ''gmail''" "plain ''revoked_auth''" "plain ''ab-1''" by code_simp+
  note read = stored_errors_survive [OF this, of ex_text_port ProviderPermanentFailure "''context_id=1, failure_class=''"]
  have f: "failure_class_of ProviderPermanentFailure = Some PROVIDER_PERMANENT" by (simp add: failure_class_of_def)
  from read [THEN conjunct1] have "se_provider (parse_stored_error ex_text_port ?text)
      = provider_of ProviderPermanentFailure ''gmail''" by (simp only: stored_error.select_convs)
  moreover from read [THEN conjunct2] have "classify_stored (parse_stored_error ex_text_port ?text) = PROVIDER_PERMANENT"
    by (simp only: f option.case)
  ultimately show ?thesis by (simp only: provider_of_def if_True refl simp_thms)
qed

end
