(* ===== verification/Failures.thy ===== *)
theory Failures
  imports Workflows StoredErrors
begin

text \<open>
  Failed workflow steps and what a user may do about them (\<open>personalos/domain/failures.py\<close>,
  \<open>personalos/persistence/workflow_failures.py\<close>, \<open>apps/api/routes/failures.py\<close>): the assessment of
  a stored failure, the store that gathers what it is assessed from, and the endpoints that
  retry or dismiss one, with what other processes commit between an endpoint's reads and its
  write. The digest behind a failure's id, redaction and the rendering of numbers are parameters.
\<close>

section \<open>The policy\<close>

definition MAX_FAILURE_ATTEMPTS :: int where "MAX_FAILURE_ATTEMPTS = 5"
definition MAX_ERROR_LENGTH :: nat where "MAX_ERROR_LENGTH = 500"

datatype failure_status = FS_FAILED | FS_DENIED | FS_RETRY_QUEUED | FS_DISMISSED

datatype recovery_action = RA_RETRY | RA_DISMISS | RA_RECONNECT

datatype operation_recovery = REPLAY_STORED_RECEIPT | RECONCILE_BEFORE_SEND

record failed_operation =
  fo_operation_id :: uuid
  fo_tool_name :: string
  fo_idempotency_key :: string
  fo_status :: execution_status
  fo_attempts :: int
  fo_recovery :: operation_recovery
  fo_receipt :: "action_receipt option"
  fo_error :: "string option"

record integration_health =
  ih_provider :: string
  ih_status :: string
  ih_reason :: "string option"
  ih_reconnect_required :: bool

record workflow_failure =
  wf_failure_id :: uuid
  wf_workflow_id :: uuid
  wf_thread_id :: string
  wf_step :: "string option"
  wf_class :: failure_class
  wf_cause_class :: "failure_class option"
  wf_status :: failure_status
  wf_retryable :: bool
  wf_reason :: "string option"
  wf_actions :: "recovery_action list"
  wf_last_error :: string
  wf_error_type :: "string option"
  wf_attempts :: int
  wf_operations :: "failed_operation list"
  wf_integration :: "integration_health option"
  wf_failed_at :: "datetime option"
  wf_dismissed :: "(string \<times> datetime) option"

text \<open>
  \<open>fp_uuid5\<close> names a text within the failure namespace, \<open>fp_int\<close> is \<open>str\<close> of a number,
  \<open>fp_ellipsis\<close> the character an error that is too long ends with, \<open>fp_bad_event_id\<close> the event id
  found in an envelope that breaks the schema.
\<close>

record failure_port =
  fp_uuid5 :: "string \<Rightarrow> uuid"
  fp_int :: "int \<Rightarrow> string"
  fp_redact_text :: "string \<Rightarrow> string"
  fp_redact_receipt :: "action_receipt \<Rightarrow> action_receipt"
  fp_ellipsis :: char
  fp_text :: text_port
  fp_bad_event_id :: "outbox_row \<Rightarrow> uuid option"

definition or_empty :: "string option \<Rightarrow> string" where
  "or_empty s = (case s of None \<Rightarrow> [] | Some t \<Rightarrow> t)"

definition failure_id :: "failure_port \<Rightarrow> string \<Rightarrow> string option \<Rightarrow> string option \<Rightarrow> uuid" where
  "failure_id p thread checkpoint task =
     fp_uuid5 p (thread @ ''|'' @ or_empty checkpoint @ ''|'' @ or_empty task)"

definition operation_recovery_for :: "execution_status \<Rightarrow> operation_recovery" where
  "operation_recovery_for st = (if st = EX_COMPLETED then REPLAY_STORED_RECEIPT else RECONCILE_BEFORE_SEND)"

definition SIDE_EFFECT_STATUSES :: "execution_status set" where
  "SIDE_EFFECT_STATUSES = {EX_COMPLETED, EX_UNKNOWN, EX_IN_PROGRESS}"

text \<open>\<open>str.split()\<close>.\<close>

function split_words :: "string \<Rightarrow> string list" where
  "split_words s =
     (case dropWhile is_space s of
        [] \<Rightarrow> []
      | c # cs \<Rightarrow> (c # takeWhile (\<lambda>c. \<not> is_space c) cs) # split_words (dropWhile (\<lambda>c. \<not> is_space c) cs))"
  by pat_completeness auto
termination
proof (relation "measure length", goal_cases)
  case (2 s c cs)
  have "length (dropWhile (\<lambda>c. \<not> is_space c) cs) < length (dropWhile is_space s)"
    unfolding 2 by (simp add: le_imp_less_Suc length_dropWhile_le)
  also have "\<dots> \<le> length s" by (rule length_dropWhile_le)
  finally show ?case by simp
qed simp

declare split_words.simps [simp del]

definition sanitize_error :: "failure_port \<Rightarrow> stored_error \<Rightarrow> string" where
  "sanitize_error p e =
     (let text = (if truthy_text (se_type e) \<and> se_class e = None \<and> se_code e = None
                  then (if se_message e \<noteq> [] then or_empty (se_type e) @ '': '' @ se_message e
                        else or_empty (se_type e))
                  else se_message e);
          line = join '' '' (split_words (fp_redact_text p text))
      in if length line > MAX_ERROR_LENGTH
         then rev (dropWhile is_space (rev (take (MAX_ERROR_LENGTH - 1) line))) @ [fp_ellipsis p]
         else line)"

definition disposition ::
  "failure_port \<Rightarrow> failure_class \<Rightarrow> int \<Rightarrow> bool \<Rightarrow> bool \<Rightarrow> integration_health option \<Rightarrow>
   failure_status \<times> bool \<times> string option \<times> recovery_action list" where
  "disposition p c attempts retry_pending dismissed integration =
     (if dismissed then (FS_DISMISSED, False, Some ''the failure was dismissed'', [])
      else if c = POLICY_DENIAL
      then (FS_DENIED, False,
            Some ''policy denied this action; asking again gets the same answer'', [RA_DISMISS])
      else if c = PROVIDER_PERMANENT
      then (FS_FAILED, False,
            Some ((case integration of None \<Rightarrow> ''the integration'' | Some i \<Rightarrow> ih_provider i) @
              '' rejected the request permanently; reconnect it instead of retrying''),
            [RA_RECONNECT, RA_DISMISS])
      else if retry_pending then (FS_RETRY_QUEUED, False, Some ''a retry is already queued'', [])
      else if attempts \<ge> MAX_FAILURE_ATTEMPTS
      then (FS_FAILED, False,
            Some (''the step has failed '' @ fp_int p attempts @ '' times, the most allowed''),
            [RA_DISMISS])
      else (FS_FAILED, True, None, [RA_RETRY, RA_DISMISS]))"

definition assess_failure ::
  "failure_port \<Rightarrow> uuid \<Rightarrow> recoverable_failure \<Rightarrow> failed_operation list \<Rightarrow>
   integration_health option \<Rightarrow> nat \<Rightarrow> bool \<Rightarrow> (string \<times> datetime) option \<Rightarrow> workflow_failure" where
  "assess_failure p w f operations known retries_queued retry_pending dismissed =
     (let err = parse_stored_error (fp_text p) (rv_message f);
          cause = classify_stored err;
          c = (if cause \<notin> {POLICY_DENIAL, PROVIDER_PERMANENT}
                  \<and> (\<exists>x \<in> set operations. fo_status x \<in> SIDE_EFFECT_STATUSES)
               then PARTIAL_SIDE_EFFECT else cause);
          integration =
            (if known = None \<and> c = PROVIDER_PERMANENT \<and> truthy_text (se_provider err)
             then Some \<lparr>ih_provider = or_empty (se_provider err), ih_status = ''degraded'',
                        ih_reason = se_reason err, ih_reconnect_required = True\<rparr>
             else known);
          attempts = 1 + int retries_queued;
          (status, retryable, reason, actions) =
            disposition p c attempts retry_pending (dismissed \<noteq> None) integration
      in \<lparr>wf_failure_id = failure_id p (rv_thread_id f) (rv_checkpoint_id f) (rv_task_id f),
          wf_workflow_id = w, wf_thread_id = rv_thread_id f, wf_step = rv_step f,
          wf_class = c, wf_cause_class = (if cause \<noteq> c then Some cause else None),
          wf_status = status, wf_retryable = retryable, wf_reason = reason, wf_actions = actions,
          wf_last_error = sanitize_error p err, wf_error_type = se_type err,
          wf_attempts = attempts, wf_operations = operations, wf_integration = integration,
          wf_failed_at = rv_checkpoint_at f, wf_dismissed = dismissed\<rparr>)"

section \<open>The store\<close>

text \<open>
  The tables: the outbox, the executions with the time each was claimed, the audit trail with
  its times, and the health of the integrations.
\<close>

record failure_world =
  fl_outbox :: outbox
  fl_executions :: "(datetime \<times> tool_execution) list"
  fl_audit :: "(datetime \<times> audit_event) list"
  fl_integrations :: "string \<Rightarrow> integration_health option"

definition FAILURE_DISMISSED :: string where "FAILURE_DISMISSED = ''workflow.failure.dismissed''"
definition FAILURE_RETRY_REQUESTED :: string where
  "FAILURE_RETRY_REQUESTED = ''workflow.failure.retry_requested''"

definition failure_target :: "queue_config \<Rightarrow> uuid \<Rightarrow> string" where
  "failure_target q n = ''failure:'' @ qc_show q n"

definition retry_dedupe_prefix :: "queue_config \<Rightarrow> uuid \<Rightarrow> string" where
  "retry_dedupe_prefix q n = qc_show q n @ '':''"

definition retry_dedupe :: "queue_config \<Rightarrow> failure_port \<Rightarrow> uuid \<Rightarrow> int \<Rightarrow> string" where
  "retry_dedupe q p n attempt = retry_dedupe_prefix q n @ fp_int p attempt"

definition failed_operation_of :: "failure_port \<Rightarrow> tool_execution \<Rightarrow> failed_operation" where
  "failed_operation_of p r =
     \<lparr>fo_operation_id = te_operation_id r, fo_tool_name = te_tool_name r,
      fo_idempotency_key = te_key r, fo_status = te_status r, fo_attempts = te_attempts r,
      fo_recovery = operation_recovery_for (te_status r),
      fo_receipt = (if te_status r = EX_COMPLETED then map_option (fp_redact_receipt p) (te_receipt r) else None),
      fo_error = (if truthy_text (te_error r) then map_option (fp_redact_text p) (te_error r) else None)\<rparr>"

definition failed_operations ::
  "failure_port \<Rightarrow> uuid \<Rightarrow> datetime option \<Rightarrow> failure_world \<Rightarrow> failed_operation list" where
  "failed_operations p w since fw =
     (case since of
        None \<Rightarrow> []
      | Some t \<Rightarrow>
          map (failed_operation_of p \<circ> snd)
            (sort_key fst (filter (\<lambda>(c, r). te_workflow_id r = Some w \<and> c \<ge> t) (fl_executions fw))))"

text \<open>Who dismissed a failure, and when: the first of its rows.\<close>

definition dismissal :: "queue_config \<Rightarrow> uuid \<Rightarrow> uuid \<Rightarrow> failure_world \<Rightarrow> (string \<times> datetime) option" where
  "dismissal q w n fw =
     map_option (\<lambda>(t, a). (ae_actor a, t))
       (find_first (\<lambda>(t, a). ae_target_ref a = failure_target q n)
         (sort_key fst (filter (\<lambda>(t, a). ae_workflow_id a = Some w \<and> ae_action a = FAILURE_DISMISSED)
           (fl_audit fw))))"

definition assess_stored ::
  "queue_config \<Rightarrow> failure_port \<Rightarrow> uuid \<Rightarrow> failure_world \<Rightarrow> recoverable_failure \<Rightarrow> workflow_failure" where
  "assess_stored q p w fw f =
     (let err = parse_stored_error (fp_text p) (rv_message f);
          integration = (if classify_stored err = PROVIDER_PERMANENT \<and> truthy_text (se_provider err)
                         then fl_integrations fw (or_empty (se_provider err)) else None);
          n = failure_id p (rv_thread_id f) (rv_checkpoint_id f) (rv_task_id f);
          (queued, pending) = count_keyed q w RETRY (retry_dedupe_prefix q n) (fl_outbox fw)
      in assess_failure p w f (failed_operations p w (rv_checkpoint_at f) fw) integration
           queued (pending > 0) (dismissal q w n fw))"

definition store_failures ::
  "queue_config \<Rightarrow> failure_port \<Rightarrow> workflow_snapshot \<Rightarrow> bool \<Rightarrow> failure_world \<Rightarrow> workflow_failure list" where
  "store_failures q p s include_dismissed fw =
     filter (\<lambda>f. include_dismissed \<or> wf_dismissed f = None)
       (map (assess_stored q p (sn_workflow_id s) fw) (recoverable_failures s))"

definition record_failure_audit ::
  "queue_config \<Rightarrow> datetime \<Rightarrow> workflow_failure \<Rightarrow> string \<Rightarrow> string \<Rightarrow> failure_world \<Rightarrow> failure_world" where
  "record_failure_audit q now f actor action fw =
     fw\<lparr>fl_audit := fl_audit fw @
       [(now, \<lparr>ae_actor = actor, ae_action = action, ae_target_ref = failure_target q (wf_failure_id f),
               ae_result = SUCCESS, ae_workflow_id = Some (wf_workflow_id f),
               ae_policy_decision = None, ae_policy_decision_id = None, ae_operation_id = None,
               ae_approval_ref = None\<rparr>)]\<rparr>"

section \<open>The endpoints\<close>

definition select_failure ::
  "queue_config \<Rightarrow> failure_port \<Rightarrow> workflow_snapshot \<Rightarrow> uuid option \<Rightarrow> failure_world \<Rightarrow>
   exn + workflow_failure" where
  "select_failure q p s wanted fw =
     (let failures = store_failures q p s True fw in
      case wanted of
        Some n \<Rightarrow>
          (case find_first (\<lambda>f. wf_failure_id f = n) failures of
             Some f \<Rightarrow> ret f
           | None \<Rightarrow> raise (POS NotFound ''workflow has no such failure'' None))
      | None \<Rightarrow>
          (case filter (\<lambda>f. wf_status f \<noteq> FS_DISMISSED) failures of
             [] \<Rightarrow> raise (conflict ''workflow has no open failures'')
           | [f] \<Rightarrow> ret f
           | _ \<Rightarrow> raise (conflict ''workflow has several open failures'')))"

text \<open>
  \<open>retry_failure\<close>. \<open>race\<close> is what others commit after the failure is assessed and before the
  command is queued; \<open>n\<close> and \<open>fresh\<close> are the ids drawn.
\<close>

definition retry_failure ::
  "queue_config \<Rightarrow> failure_port \<Rightarrow> thread_reader \<Rightarrow> (failure_world \<Rightarrow> failure_world) \<Rightarrow> datetime \<Rightarrow>
   uuid \<Rightarrow> uuid \<Rightarrow> uuid \<Rightarrow> uuid option \<Rightarrow> string \<Rightarrow> uuid \<Rightarrow> failure_world \<Rightarrow>
   (exn + workflow_failure \<times> int) \<times> failure_world" where
  "retry_failure q p threads race now n fresh w wanted actor corr fw =
     (case read_workflow q threads w (fl_outbox fw) of
        Inl e \<Rightarrow> (raise e, fw)
      | Inr None \<Rightarrow> (raise (POS NotFound ''workflow not found'' None), fw)
      | Inr (Some s) \<Rightarrow>
          (case select_failure q p s wanted fw of
             Inl e \<Rightarrow> (raise e, fw)
           | Inr f \<Rightarrow>
               if \<not> wf_retryable f then (raise (conflict ''failure cannot be retried''), fw)
               else
                 let attempt = wf_attempts f + 1; fw1 = race fw in
                 case enqueue q now fresh
                        \<lparr>wc_command_id = n, wc_kind = RETRY, wc_workflow_id = w,
                         wc_thread_id = wf_thread_id f, wc_actor_id = actor,
                         wc_correlation_id = corr, wc_graph_input = PNone, wc_interrupt_ids = []\<rparr>
                        (Some (retry_dedupe q p (wf_failure_id f) attempt)) (fl_outbox fw1) of
                   (Inl e, db) \<Rightarrow> (raise e, fw1\<lparr>fl_outbox := db\<rparr>)
                 | (Inr _, db) \<Rightarrow>
                     (ret (f, attempt),
                      record_failure_audit q now f actor FAILURE_RETRY_REQUESTED (fw1\<lparr>fl_outbox := db\<rparr>))))"

definition dismiss_failure ::
  "queue_config \<Rightarrow> failure_port \<Rightarrow> thread_reader \<Rightarrow> (failure_world \<Rightarrow> failure_world) \<Rightarrow> datetime \<Rightarrow>
   uuid \<Rightarrow> uuid option \<Rightarrow> string \<Rightarrow> failure_world \<Rightarrow> (exn + workflow_failure) \<times> failure_world" where
  "dismiss_failure q p threads race now w wanted actor fw =
     (case read_workflow q threads w (fl_outbox fw) of
        Inl e \<Rightarrow> (raise e, fw)
      | Inr None \<Rightarrow> (raise (POS NotFound ''workflow not found'' None), fw)
      | Inr (Some s) \<Rightarrow>
          (case select_failure q p s wanted fw of
             Inl e \<Rightarrow> (raise e, fw)
           | Inr f \<Rightarrow>
               if wf_status f = FS_DISMISSED then (raise (conflict ''failure was already dismissed''), fw)
               else if wf_status f = FS_RETRY_QUEUED then (raise (conflict ''failure has a retry queued''), fw)
               else
                 let fw1 = record_failure_audit q now f actor FAILURE_DISMISSED (race fw) in
                 case filter (\<lambda>g. wf_failure_id g = wf_failure_id f) (store_failures q p s True fw1) of
                   [g] \<Rightarrow> (ret g, fw1)
                 | _ \<Rightarrow> (raise (PY ''ValueError'' ''not one failure'' None), fw1)))"

text \<open>
  Everything the processes of the system do, in any order; the moves inside a retry or a
  dismissal happen between its reads and its write.
\<close>

datatype failure_move =
  Retry_failure thread_reader datetime uuid uuid uuid "uuid option" string uuid "failure_move list"
| Dismiss_failure thread_reader datetime uuid "uuid option" string "failure_move list"
| Queue_move queue_move

fun failure_step :: "queue_config \<Rightarrow> failure_port \<Rightarrow> failure_move \<Rightarrow> failure_world \<Rightarrow> failure_world"
  and failure_run :: "queue_config \<Rightarrow> failure_port \<Rightarrow> failure_move list \<Rightarrow> failure_world \<Rightarrow> failure_world" where
  "failure_step q p (Retry_failure threads now n fresh w wanted actor corr others) fw =
     snd (retry_failure q p threads (failure_run q p others) now n fresh w wanted actor corr fw)"
| "failure_step q p (Dismiss_failure threads now w wanted actor others) fw =
     snd (dismiss_failure q p threads (failure_run q p others) now w wanted actor fw)"
| "failure_step q p (Queue_move m) fw = fw\<lparr>fl_outbox := queue_step q m (fl_outbox fw)\<rparr>"
| "failure_run q p [] fw = fw"
| "failure_run q p (m # ms) fw = failure_run q p ms (failure_step q p m fw)"

section \<open>Events given up\<close>

text \<open>
  \<open>personalos/persistence/event_failures.py\<close> and its endpoint. \<open>event_id_of\<close> is the id of the
  envelope a row holds, where one can be read.
\<close>

datatype event_disposition = ED_DEAD_LETTER | ED_QUARANTINED

record event_failure =
  ef_failure_id :: uuid
  ef_event_id :: uuid
  ef_event_type :: string
  ef_dedupe_key :: "string option"
  ef_workflow_id :: "uuid option"
  ef_disposition :: event_disposition
  ef_last_error :: string
  ef_attempts :: int
  ef_created_at :: datetime
  ef_failed_at :: "datetime option"

definition event_id_of :: "failure_port \<Rightarrow> outbox_row \<Rightarrow> uuid option" where
  "event_id_of p r =
     (case ox_payload r of
        Enveloped e \<Rightarrow> Some (ev_id e)
      | BadEnvelope _ _ _ \<Rightarrow> fp_bad_event_id p r
      | Legacy _ \<Rightarrow> None)"

definition assess_event_failure :: "failure_port \<Rightarrow> outbox_row \<Rightarrow> event_failure" where
  "assess_event_failure p r =
     (let words = join '' '' (split_words (fp_redact_text p (or_empty (ox_last_error r))));
          text = (if words \<noteq> [] then words else ''no error was recorded'');
          short = (if length text > MAX_ERROR_LENGTH
                   then rev (dropWhile is_space (rev (take (MAX_ERROR_LENGTH - 1) text))) @ [fp_ellipsis p]
                   else text)
      in \<lparr>ef_failure_id = ox_id r,
          ef_event_id = (case event_id_of p r of None \<Rightarrow> ox_id r | Some n \<Rightarrow> n),
          ef_event_type = ox_type r, ef_dedupe_key = ox_dedupe_key r,
          ef_workflow_id = ox_workflow_id r,
          ef_disposition = (if ox_status r = QUARANTINE then ED_QUARANTINED else ED_DEAD_LETTER),
          ef_last_error = short, ef_attempts = ox_attempts r,
          ef_created_at = ox_created_at r, ef_failed_at = ox_failed_at r\<rparr>)"

definition LISTED_STATUSES :: "event_status set" where
  "LISTED_STATUSES = {DEAD_LETTER, QUARANTINE}"

text \<open>Newest failure first; a row without a time, which the outbox does not write, comes last.\<close>

definition event_failures ::
  "failure_port \<Rightarrow> uuid option \<Rightarrow> nat \<Rightarrow> outbox \<Rightarrow> event_failure list" where
  "event_failures p w limit db =
     map (assess_event_failure p)
       (take limit
         (sort_key (\<lambda>r. (case ox_failed_at r of None \<Rightarrow> (1::nat, 0) | Some t \<Rightarrow> (0, - t), ox_id r))
           (filter (\<lambda>r. ox_status r \<in> LISTED_STATUSES
                      \<and> (case w of None \<Rightarrow> True | Some n \<Rightarrow> ox_workflow_id r = Some n)) (ob_rows db))))"

definition EVENT_RETRY_REQUESTED :: string where
  "EVENT_RETRY_REQUESTED = ''outbox.event.retry_requested''"

text \<open>\<open>EventFailureStore.retry\<close>: the row as it was read back after the requeue.\<close>

definition retry_event ::
  "queue_config \<Rightarrow> datetime \<Rightarrow> uuid \<Rightarrow> string \<Rightarrow> failure_world \<Rightarrow> outbox_row option \<times> failure_world" where
  "retry_event q now n actor fw =
     (case outbox_requeue n (fl_outbox fw) of
        (False, db) \<Rightarrow> (None, fw\<lparr>fl_outbox := db\<rparr>)
      | (True, db) \<Rightarrow>
          (case find_by ox_id n (ob_rows db) of
             None \<Rightarrow> (None, fw\<lparr>fl_outbox := db\<rparr>)
           | Some r \<Rightarrow>
               (Some r, fw\<lparr>fl_outbox := db, fl_audit := fl_audit fw @
                 [(now, \<lparr>ae_actor = actor, ae_action = EVENT_RETRY_REQUESTED,
                         ae_target_ref = ''outbox_event:'' @ qc_show q n, ae_result = SUCCESS,
                         ae_workflow_id = ox_workflow_id r, ae_policy_decision = None,
                         ae_policy_decision_id = None, ae_operation_id = None,
                         ae_approval_ref = None\<rparr>)]\<rparr>)))"

definition retry_event_failure ::
  "queue_config \<Rightarrow> datetime \<Rightarrow> uuid \<Rightarrow> string \<Rightarrow> failure_world \<Rightarrow> (exn + outbox_row) \<times> failure_world" where
  "retry_event_failure q now n actor fw =
     (case retry_event q now n actor fw of
        (Some r, fw') \<Rightarrow> (ret r, fw')
      | (None, fw') \<Rightarrow>
          (raise (if n \<in> ox_id ` set (ob_rows (fl_outbox fw')) then conflict ''event is not parked''
                  else POS NotFound ''no such event failure'' None), fw'))"

section \<open>What a retry needs\<close>

lemma disposition_retryable:
  "disposition p c attempts pending dismissed integration = (st, True, why, acts) \<Longrightarrow>
     \<not> dismissed \<and> c \<notin> {POLICY_DENIAL, PROVIDER_PERMANENT} \<and> \<not> pending
     \<and> attempts < MAX_FAILURE_ATTEMPTS"
  by (auto simp: disposition_def split: if_splits)

lemma assess_failure_facts:
  "wf_dismissed (assess_failure p w f ops known k pending d) = d"
  "wf_attempts (assess_failure p w f ops known k pending d) = 1 + int k"
  "wf_failure_id (assess_failure p w f ops known k pending d)
     = failure_id p (rv_thread_id f) (rv_checkpoint_id f) (rv_task_id f)"
  "wf_workflow_id (assess_failure p w f ops known k pending d) = w"
  "classify_stored (parse_stored_error (fp_text p) (rv_message f)) \<in> {POLICY_DENIAL, PROVIDER_PERMANENT} \<Longrightarrow>
     wf_class (assess_failure p w f ops known k pending d)
       = classify_stored (parse_stored_error (fp_text p) (rv_message f))"
  by (auto simp: assess_failure_def Let_def split: prod.splits)

lemma assess_failure_retryable:
  assumes "wf_retryable (assess_failure p w f ops known k pending d)"
  shows "d = None \<and> 1 + int k < MAX_FAILURE_ATTEMPTS \<and> \<not> pending
    \<and> classify_stored (parse_stored_error (fp_text p) (rv_message f)) \<notin> {POLICY_DENIAL, PROVIDER_PERMANENT}"
proof -
  let ?a = "assess_failure p w f ops known k pending d"
  have "\<exists>i. disposition p (wf_class ?a) (1 + int k) pending (d \<noteq> None) i
      = (wf_status ?a, wf_retryable ?a, wf_reason ?a, wf_actions ?a)"
    by (auto simp: assess_failure_def Let_def split: prod.splits)
  with assms have "\<not> d \<noteq> None \<and> wf_class ?a \<notin> {POLICY_DENIAL, PROVIDER_PERMANENT} \<and> \<not> pending
      \<and> 1 + int k < MAX_FAILURE_ATTEMPTS"
    by (auto dest: disposition_retryable)
  with assess_failure_facts(5) [of p f w ops known k pending d] show ?thesis by (cases d) auto
qed

lemma store_failures_in:
  "x \<in> set (store_failures q p s i fw) \<Longrightarrow>
     \<exists>f \<in> set (recoverable_failures s). x = assess_stored q p (sn_workflow_id s) fw f"
  by (auto simp: store_failures_def)

lemma select_failure_in:
  "select_failure q p s wanted fw = ret f \<Longrightarrow> f \<in> set (store_failures q p s True fw)
     \<and> (\<forall>n. wanted = Some n \<longrightarrow> wf_failure_id f = n)"
proof (cases wanted)
  case None
  assume run: "select_failure q p s wanted fw = ret f"
  let ?open = "filter (\<lambda>f. wf_status f \<noteq> FS_DISMISSED) (store_failures q p s True fw)"
  from run None have "?open = [f]"
    by (auto simp: select_failure_def Let_def split: list.splits)
  then have "f \<in> set ?open" by simp
  with None show ?thesis by simp
next
  case (Some n)
  assume "select_failure q p s wanted fw = ret f"
  with Some show ?thesis
    by (auto simp: select_failure_def Let_def dest: find_first_Some split: option.splits)
qed

text \<open>A retry that goes through.\<close>

lemma retry_failure_ret:
  assumes "retry_failure q p threads race now n fresh w wanted actor corr fw = (ret (f, attempt), fw')"
  obtains s g db where "read_workflow q threads w (fl_outbox fw) = ret (Some s)" "sn_workflow_id s = w"
    "g \<in> set (recoverable_failures s)" "f = assess_stored q p w fw g" "wf_retryable f"
    "attempt = wf_attempts f + 1" "\<forall>n. wanted = Some n \<longrightarrow> wf_failure_id f = n"
    "enqueue q now fresh
       \<lparr>wc_command_id = n, wc_kind = RETRY, wc_workflow_id = w, wc_thread_id = wf_thread_id f,
        wc_actor_id = actor, wc_correlation_id = corr, wc_graph_input = PNone, wc_interrupt_ids = []\<rparr>
       (Some (retry_dedupe q p (wf_failure_id f) attempt)) (fl_outbox (race fw))
     = (ret \<lparr>wc_command_id = n, wc_kind = RETRY, wc_workflow_id = w, wc_thread_id = wf_thread_id f,
        wc_actor_id = actor, wc_correlation_id = corr, wc_graph_input = PNone, wc_interrupt_ids = []\<rparr>, db)"
    "fl_outbox fw' = db"
proof -
  obtain s where s: "read_workflow q threads w (fl_outbox fw) = ret (Some s)"
    using assms by (auto simp: retry_failure_def split: sum.splits option.splits)
  then have w: "sn_workflow_id s = w" by (auto simp: read_workflow_ret)
  obtain x where sel: "select_failure q p s wanted fw = ret x"
    using assms s by (auto simp: retry_failure_def split: sum.splits)
  let ?c = "\<lparr>wc_command_id = n, wc_kind = RETRY, wc_workflow_id = w, wc_thread_id = wf_thread_id x,
        wc_actor_id = actor, wc_correlation_id = corr, wc_graph_input = PNone, wc_interrupt_ids = []\<rparr>"
  obtain r db where en: "enqueue q now fresh ?c
      (Some (retry_dedupe q p (wf_failure_id x) (wf_attempts x + 1))) (fl_outbox (race fw)) = (r, db)" by fastforce
  have retryable: "wf_retryable x"
    using assms s sel by (auto simp: retry_failure_def split: if_splits)
  have out: "r = ret ?c \<and> f = x \<and> attempt = wf_attempts x + 1 \<and> fl_outbox fw' = db"
    using assms s sel en retryable facts_enqueue [OF en]
    by (cases r) (auto simp: retry_failure_def Let_def record_failure_audit_def)
  obtain g where "g \<in> set (recoverable_failures s)" "x = assess_stored q p w fw g"
    using store_failures_in select_failure_in [OF sel] w by blast
  with out en retryable s w select_failure_in [OF sel] show thesis by (auto intro: that)
qed

text \<open>A retry of a failure that may not be retried.\<close>

lemma retry_refused:
  assumes "\<And>s f. read_workflow q threads w (fl_outbox fw) = ret (Some s) \<Longrightarrow>
    select_failure q p s wanted fw = ret f \<Longrightarrow> \<not> wf_retryable f"
  shows "\<exists>e. retry_failure q p threads race now n fresh w wanted actor corr fw = (raise e, fw)"
  using assms by (auto simp: retry_failure_def split: sum.split option.split)

lemma assess_stored_retryable:
  assumes "wf_retryable (assess_stored q p w fw f)"
  shows "dismissal q w (wf_failure_id (assess_stored q p w fw f)) fw = None
    \<and> wf_attempts (assess_stored q p w fw f) < MAX_FAILURE_ATTEMPTS
    \<and> 1 \<le> wf_attempts (assess_stored q p w fw f)
    \<and> classify_stored (parse_stored_error (fp_text p) (rv_message f)) \<notin> {POLICY_DENIAL, PROVIDER_PERMANENT}"
  using assms by (auto simp: assess_stored_def Let_def assess_failure_facts split: prod.splits
      dest!: assess_failure_retryable)

section \<open>Retries are bounded\<close>

lemma outbox_ok_facts:
  assumes "facts db' = facts db" and "outbox_ok db"
  shows "outbox_ok db'"
proof -
  have m: "map row_fact (ob_rows db') = map row_fact (ob_rows db)" using assms(1) by (simp add: facts_def)
  have ids: "map ox_id (ob_rows db') = map ox_id (ob_rows db)"
    using arg_cong [OF m, of "map fst"] by (simp add: row_fact_def comp_def)
  have "List.map_filter ox_dedupe_key rs = List.map_filter (\<lambda>(_, _, _, k, _). k) (map row_fact rs)" for rs
    by (induction rs) (simp_all add: List.map_filter_def row_fact_def)
  with m ids assms(2) show ?thesis by (simp add: outbox_ok_def dedupe_keys_def)
qed

lemma queue_step_facts:
  "facts (queue_step q m db) = facts db
   \<or> (\<exists>now n c k pl row. m = QEnqueue now n c k
       \<and> outbox_create (qc_outbox q) now n WORKFLOW_COMMAND_EVENT pl (Some (command_key q c k)) db
           = ret (row, queue_step q m db))
   \<or> (\<exists>now e n pl k row. m = QEvent (Publish now e)
       \<and> outbox_create (qc_outbox q) now n (ev_type e) pl k db = ret (row, queue_step q m db))"
proof (cases m)
  case (QEnqueue now n c k)
  then show ?thesis by (auto simp: enqueue_def split: sum.splits)
next
  case (QClaim now)
  obtain r db' where "claim_command q (\<lambda>_ db. db) now db = (r, db')" by fastforce
  with facts_claim_command [OF this] QClaim show ?thesis by simp
next
  case (QEvent cmd)
  show ?thesis
  proof (cases cmd)
    case (Publish now e)
    with QEvent show ?thesis
      by (auto simp: outbox_ops_def outbox_publish_def stage_def split: sum.splits option.splits)
  next
    case (Claim now)
    obtain r db1 where "outbox_claim_loop PARK_LIMIT (qc_outbox q) (\<lambda>_ db. db) now db = (r, db1)" by fastforce
    with facts_outbox_claim_loop [OF this] Claim QEvent show ?thesis
      by (auto simp: outbox_ops_def outbox_claim_def split: option.splits)
  next
    case (Nack now u d e)
    with QEvent facts_nack [of "qc_outbox q" now u d e db] show ?thesis
      by (auto simp: outbox_ops_def split: prod.splits)
  qed (use QEvent in \<open>auto simp: outbox_ops_def outbox_ack_def outbox_dead_letter_def
       outbox_requeue_def Let_def\<close>)
qed simp_all

definition retry_prefix :: "queue_config \<Rightarrow> uuid \<Rightarrow> uuid \<Rightarrow> string" where
  "retry_prefix q w n = key_prefix q w @ command_kind_value RETRY @ '':'' @ retry_dedupe_prefix q n"

text \<open>
  The invariant: a queued retry of the failure carries the number of an attempt, from the second
  to the last allowed.
\<close>

definition attempts_numbered :: "queue_config \<Rightarrow> failure_port \<Rightarrow> uuid \<Rightarrow> uuid \<Rightarrow> outbox \<Rightarrow> bool" where
  "attempts_numbered q p w n db \<longleftrightarrow> outbox_ok db \<and>
     (\<forall>r \<in> set (ob_rows db). \<forall>k. ox_type r = WORKFLOW_COMMAND_EVENT \<longrightarrow> ox_dedupe_key r = Some k \<longrightarrow>
        prefix (retry_prefix q w n) k \<longrightarrow> (\<exists>a \<in> {2..MAX_FAILURE_ATTEMPTS}. k = retry_prefix q w n @ fp_int p a))"

definition plain_ids :: "queue_config \<Rightarrow> bool" where
  "plain_ids q \<longleftrightarrow> (\<forall>n. set (qc_show q n) \<inter> {CHR ''%'', CHR ''_'', CHR '':''} = {})"

lemma row_fact_back:
  "facts db' = facts db \<Longrightarrow> r \<in> set (ob_rows db') \<Longrightarrow>
     \<exists>r0 \<in> set (ob_rows db). ox_type r0 = ox_type r \<and> ox_dedupe_key r0 = ox_dedupe_key r"
proof -
  assume f: "facts db' = facts db" and r: "r \<in> set (ob_rows db')"
  then have "row_fact r \<in> row_fact ` set (ob_rows db)" by (metis facts_def image_eqI list.set_map)
  then obtain r0 where "r0 \<in> set (ob_rows db)" "row_fact r0 = row_fact r" by auto
  then show ?thesis by (auto simp: row_fact_def)
qed

lemma numbered_facts:
  assumes "facts db' = facts db" and "attempts_numbered q p w n db"
  shows "attempts_numbered q p w n db'"
  using assms(2) outbox_ok_facts [OF assms(1)] row_fact_back [OF assms(1)]
  unfolding attempts_numbered_def by metis

lemma numbered_create:
  assumes run: "outbox_create oc now m ty pl k db = ret (row, db')" and inv: "attempts_numbered q p w n db"
    and new: "\<And>key. ty = WORKFLOW_COMMAND_EVENT \<Longrightarrow> k = Some key \<Longrightarrow> prefix (retry_prefix q w n) key \<Longrightarrow>
      \<exists>a \<in> {2..MAX_FAILURE_ATTEMPTS}. key = retry_prefix q w n @ fp_int p a"
  shows "attempts_numbered q p w n db'"
proof -
  have rows: "ob_rows db' = ob_rows db @ [row]" "ox_type row = ty" "ox_dedupe_key row = k"
    using run by (auto simp: outbox_create_def Let_def split: if_splits)
  have "outbox_ok db'" using outbox_create_ok [OF _ run] inv by (auto simp: attempts_numbered_def split: if_splits)
  with inv new rows show ?thesis by (auto simp: attempts_numbered_def)
qed

text \<open>A key that starts like a retry's is a retry's of that failure.\<close>

lemma colon_split:
  assumes "CHR '':'' \<notin> set a" and "CHR '':'' \<notin> set b" and "prefix (a @ CHR '':'' # x) (b @ CHR '':'' # y)"
  shows "a = b \<and> prefix x y"
  using assms
proof (induction a arbitrary: b)
  case Nil
  then show ?case by (cases b) auto
next
  case (Cons c a)
  then show ?case by (cases b) auto
qed

lemma key_names_retry:
  assumes ids: "plain_ids q"
    and pre: "prefix (retry_prefix q w n) (command_key q c d)"
  shows "wc_kind c = RETRY"
proof -
  let ?d = "case d of Some d \<Rightarrow> if d \<noteq> [] then d else qc_show q (wc_command_id c)
      | None \<Rightarrow> qc_show q (wc_command_id c)"
  have plain: "CHR '':'' \<notin> set (qc_show q m)" for m using ids by (auto simp: plain_ids_def)
  have kinds: "CHR '':'' \<notin> set (command_kind_value k)" for k by (cases k) simp_all
  have "prefix (qc_show q w @ CHR '':'' # command_kind_value RETRY @ CHR '':'' # retry_dedupe_prefix q n)
      (qc_show q (wc_workflow_id c) @ CHR '':'' # command_kind_value (wc_kind c) @ CHR '':'' # ?d)"
    using pre by (simp add: retry_prefix_def command_key_def key_prefix_def)
  from colon_split [OF plain plain this]
  have "prefix (command_kind_value RETRY @ CHR '':'' # retry_dedupe_prefix q n)
      (command_kind_value (wc_kind c) @ CHR '':'' # ?d)" by blast
  from colon_split [OF kinds kinds this] show ?thesis by (cases "wc_kind c") simp_all
qed

lemma retry_key_attempt:
  assumes ids: "plain_ids q"
    and pre: "prefix (retry_prefix q w n) (retry_prefix q w' n' @ fp_int p a)"
  shows "retry_prefix q w n = retry_prefix q w' n'"
proof -
  have plain: "CHR '':'' \<notin> set (qc_show q m)" for m using ids by (auto simp: plain_ids_def)
  have r: "CHR '':'' \<notin> set ''retry''" by simp
  have "prefix (qc_show q w @ CHR '':'' # ''retry'' @ CHR '':'' # qc_show q n @ CHR '':'' # [])
      (qc_show q w' @ CHR '':'' # ''retry'' @ CHR '':'' # qc_show q n' @ CHR '':'' # fp_int p a)"
    using pre by (simp add: retry_prefix_def key_prefix_def retry_dedupe_prefix_def)
  from colon_split [OF plain plain this]
  have w: "qc_show q w = qc_show q w'"
    and pre1: "prefix (''retry'' @ CHR '':'' # qc_show q n @ CHR '':'' # []) (''retry'' @ CHR '':'' # qc_show q n' @ CHR '':'' # fp_int p a)"
    by blast+
  from colon_split [OF r r pre1] have "prefix (qc_show q n @ CHR '':'' # []) (qc_show q n' @ CHR '':'' # fp_int p a)"
    by blast
  from colon_split [OF plain plain this] w show ?thesis
    by (simp add: retry_prefix_def key_prefix_def retry_dedupe_prefix_def)
qed

text \<open>Moves by others: they queue no retry and publish no event of the commands' type.\<close>

fun not_a_retry :: "queue_move \<Rightarrow> bool" where
  "not_a_retry (QEnqueue now n c k) \<longleftrightarrow> wc_kind c \<noteq> RETRY"
| "not_a_retry (QEvent (Publish now e)) \<longleftrightarrow> ev_type e \<noteq> WORKFLOW_COMMAND_EVENT"
| "not_a_retry _ \<longleftrightarrow> True"

fun fair_move :: "failure_move \<Rightarrow> bool" where
  "fair_move (Retry_failure threads now n fresh w wanted actor corr others) \<longleftrightarrow> (\<forall>m \<in> set others. fair_move m)"
| "fair_move (Dismiss_failure threads now w wanted actor others) \<longleftrightarrow> (\<forall>m \<in> set others. fair_move m)"
| "fair_move (Queue_move m) \<longleftrightarrow> not_a_retry m"

lemma numbered_queue_step:
  assumes ids: "plain_ids q" and inv: "attempts_numbered q p w n db" and fair: "not_a_retry m"
  shows "attempts_numbered q p w n (queue_step q m db)"
  using queue_step_facts [of q m db]
proof (elim disjE exE conjE)
  assume "facts (queue_step q m db) = facts db"
  then show ?thesis using inv by (rule numbered_facts)
next
  fix now k c d pl row
  assume m: "m = QEnqueue now k c d"
    and run: "outbox_create (qc_outbox q) now k WORKFLOW_COMMAND_EVENT pl (Some (command_key q c d)) db
        = ret (row, queue_step q m db)"
  show ?thesis by (rule numbered_create [OF run inv]) (use key_names_retry [OF ids] fair m in auto)
next
  fix now e k pl d row
  assume "m = QEvent (Publish now e)"
    and run: "outbox_create (qc_outbox q) now k (ev_type e) pl d db = ret (row, queue_step q m db)"
  then show ?thesis using fair by (intro numbered_create [OF run inv]) simp
qed

lemma numbered_retry:
  assumes ids: "plain_ids q" and inv: "attempts_numbered q p w n (fl_outbox fw)"
    and race: "attempts_numbered q p w n (fl_outbox (race fw))"
    and run: "retry_failure q p threads race now m fresh w' wanted actor corr fw = (res, fw')"
  shows "attempts_numbered q p w n (fl_outbox fw')"
proof (cases res)
  case (Inl e)
  with run have "fl_outbox fw' = fl_outbox fw \<or> fl_outbox fw' = fl_outbox (race fw)"
    by (auto simp: retry_failure_def Let_def enqueue_def record_failure_audit_def
        split: sum.splits option.splits if_splits)
  with inv race show ?thesis by auto
next
  case (Inr r)
  obtain f attempt where r: "r = (f, attempt)" by fastforce
  obtain g db where f: "f = assess_stored q p w' fw g" "wf_retryable f" "attempt = wf_attempts f + 1"
    and en: "enqueue q now fresh
       \<lparr>wc_command_id = m, wc_kind = RETRY, wc_workflow_id = w', wc_thread_id = wf_thread_id f,
        wc_actor_id = actor, wc_correlation_id = corr, wc_graph_input = PNone, wc_interrupt_ids = []\<rparr>
       (Some (retry_dedupe q p (wf_failure_id f) attempt)) (fl_outbox (race fw))
     = (ret \<lparr>wc_command_id = m, wc_kind = RETRY, wc_workflow_id = w', wc_thread_id = wf_thread_id f,
        wc_actor_id = actor, wc_correlation_id = corr, wc_graph_input = PNone, wc_interrupt_ids = []\<rparr>, db)"
    "fl_outbox fw' = db"
    by (rule retry_failure_ret [OF run [unfolded Inr r]]) (rule that; assumption)
  let ?c = "\<lparr>wc_command_id = m, wc_kind = RETRY, wc_workflow_id = w', wc_thread_id = wf_thread_id f,
        wc_actor_id = actor, wc_correlation_id = corr, wc_graph_input = PNone, wc_interrupt_ids = []\<rparr>"
  have a: "attempt \<in> {2..MAX_FAILURE_ATTEMPTS}" using assess_stored_retryable f by force
  have key: "command_key q ?c (Some (retry_dedupe q p (wf_failure_id f) attempt))
      = retry_prefix q w' (wf_failure_id f) @ fp_int p attempt"
    by (simp add: command_key_def retry_dedupe_def retry_prefix_def retry_dedupe_prefix_def)
  obtain pl row where cr: "outbox_create (qc_outbox q) now fresh WORKFLOW_COMMAND_EVENT pl
      (Some (retry_prefix q w' (wf_failure_id f) @ fp_int p attempt)) (fl_outbox (race fw)) = ret (row, db)"
    using en(1) unfolding enqueue_def key by (auto split: sum.splits)
  show ?thesis unfolding en(2)
    by (rule numbered_create [OF cr race]) (use a retry_key_attempt [OF ids] in fastforce)
qed

lemma numbered_dismiss:
  assumes inv: "attempts_numbered q p w n (fl_outbox fw)"
    and race: "attempts_numbered q p w n (fl_outbox (race fw))"
    and run: "dismiss_failure q p threads race now w' wanted actor fw = (res, fw')"
  shows "attempts_numbered q p w n (fl_outbox fw')"
proof -
  have "fl_outbox fw' = fl_outbox fw \<or> fl_outbox fw' = fl_outbox (race fw)"
    using run by (auto simp: dismiss_failure_def Let_def record_failure_audit_def
        split: sum.splits option.splits if_splits list.splits)
  with inv race show ?thesis by auto
qed

lemma numbered_run:
  "plain_ids q \<Longrightarrow> attempts_numbered q p w n (fl_outbox fw) \<Longrightarrow> fair_move m \<Longrightarrow>
      attempts_numbered q p w n (fl_outbox (failure_step q p m fw))"
  "plain_ids q \<Longrightarrow> attempts_numbered q p w n (fl_outbox fw) \<Longrightarrow> \<forall>m \<in> set ms. fair_move m \<Longrightarrow>
      attempts_numbered q p w n (fl_outbox (failure_run q p ms fw))"
proof (induction q p m fw and q p ms fw rule: failure_step_failure_run.induct)
  case (1 q p threads now m fresh w' wanted actor corr others fw)
  obtain res fw' where run: "retry_failure q p threads (failure_run q p others) now m fresh w' wanted actor corr fw
      = (res, fw')" by fastforce
  from numbered_retry [OF 1(2) 1(3) _ run] 1 show ?case by (simp add: run)
next
  case (2 q p threads now w' wanted actor others fw)
  obtain res fw' where run: "dismiss_failure q p threads (failure_run q p others) now w' wanted actor fw
      = (res, fw')" by fastforce
  from numbered_dismiss [OF 2(3) _ run] 2 show ?case by (simp add: run)
next
  case (3 q p m fw)
  then show ?case using numbered_queue_step by simp
qed simp_all

lemma keyed_rows_prefix:
  assumes "plain_ids q"
  shows "keyed_rows (retry_prefix q w n) db =
    filter (\<lambda>r. ox_type r = WORKFLOW_COMMAND_EVENT
      \<and> (case ox_dedupe_key r of None \<Rightarrow> False | Some k \<Rightarrow> prefix (retry_prefix q w n) k)) (ob_rows db)"
proof -
  have "CHR ''%'' \<notin> set (retry_prefix q w n)" "CHR ''_'' \<notin> set (retry_prefix q w n)"
    using assms by (auto simp: plain_ids_def retry_prefix_def key_prefix_def retry_dedupe_prefix_def)
  from like_prefix [OF this] show ?thesis by (simp add: keyed_rows_def cong: option.case_cong)
qed

lemma numbered_count:
  assumes ids: "plain_ids q" and inv: "attempts_numbered q p w n db"
  shows "int (length (keyed_rows (retry_prefix q w n) db)) \<le> MAX_FAILURE_ATTEMPTS - 1"
proof -
  let ?rows = "keyed_rows (retry_prefix q w n) db"
  let ?keys = "(\<lambda>a. Some (retry_prefix q w n @ fp_int p a)) ` {2..MAX_FAILURE_ATTEMPTS}"
  have keys: "ox_dedupe_key ` set ?rows \<subseteq> ?keys"
    using inv by (auto simp: keyed_rows_prefix [OF ids] attempts_numbered_def image_iff split: option.splits)
  have "map ox_dedupe_key (filter (\<lambda>r. ox_dedupe_key r \<noteq> None) rs) = map Some (List.map_filter ox_dedupe_key rs)"
    for rs :: "outbox_row list"
    by (induction rs) (auto simp: List.map_filter_def)
  then have "distinct (map ox_dedupe_key (filter (\<lambda>r. ox_dedupe_key r \<noteq> None) (ob_rows db)))"
    using inv by (simp add: attempts_numbered_def outbox_ok_def dedupe_keys_def distinct_map)
  then have "distinct (map ox_dedupe_key (filter (\<lambda>r. ox_type r = WORKFLOW_COMMAND_EVENT
      \<and> (case ox_dedupe_key r of None \<Rightarrow> False | Some k \<Rightarrow> prefix (retry_prefix q w n) k))
      (filter (\<lambda>r. ox_dedupe_key r \<noteq> None) (ob_rows db))))"
    by (rule distinct_map_filter)
  moreover have "filter (\<lambda>r. ox_type r = WORKFLOW_COMMAND_EVENT
      \<and> (case ox_dedupe_key r of None \<Rightarrow> False | Some k \<Rightarrow> prefix (retry_prefix q w n) k))
      (filter (\<lambda>r. ox_dedupe_key r \<noteq> None) (ob_rows db)) = ?rows"
    unfolding keyed_rows_prefix [OF ids] filter_filter by (rule filter_cong) (auto split: option.splits)
  ultimately have "distinct (map ox_dedupe_key ?rows)" by simp
  then have "length ?rows = card (ox_dedupe_key ` set ?rows)" by (metis distinct_card length_map list.set_map)
  also have "\<dots> \<le> card ?keys" by (rule card_mono [OF _ keys]) simp
  also have "\<dots> \<le> card {2..MAX_FAILURE_ATTEMPTS}" by (rule card_image_le) simp
  finally show ?thesis by (simp add: MAX_FAILURE_ATTEMPTS_def)
qed


section \<open>Answers are not retried\<close>


section \<open>A dismissal closes a failure\<close>

lemma dismissal_iff:
  "dismissal q w n fw \<noteq> None \<longleftrightarrow> (\<exists>(t, a) \<in> set (fl_audit fw). ae_workflow_id a = Some w
     \<and> ae_action a = FAILURE_DISMISSED \<and> ae_target_ref a = failure_target q n)"
proof -
  let ?P = "\<lambda>(t, a). ae_workflow_id a = Some w \<and> ae_action a = FAILURE_DISMISSED"
  have "dismissal q w n fw = None \<longleftrightarrow>
      (\<forall>x \<in> set (sort_key fst (filter ?P (fl_audit fw))). \<not> (case x of (t, a) \<Rightarrow> ae_target_ref a = failure_target q n))"
    unfolding dismissal_def option.map_disc_iff find_first_None ..
  then show ?thesis by fastforce
qed

lemma record_audit [simp]:
  "set (fl_audit (record_failure_audit q now f actor action fw))
     = insert (now, \<lparr>ae_actor = actor, ae_action = action, ae_target_ref = failure_target q (wf_failure_id f),
         ae_result = SUCCESS, ae_workflow_id = Some (wf_workflow_id f), ae_policy_decision = None,
         ae_policy_decision_id = None, ae_operation_id = None, ae_approval_ref = None\<rparr>) (set (fl_audit fw))"
  by (simp add: record_failure_audit_def)

lemma retry_audit:
  assumes "A \<subseteq> set (fl_audit fw)" and "A \<subseteq> set (fl_audit (race fw))"
  shows "A \<subseteq> set (fl_audit (snd (retry_failure q p threads race now n fresh w wanted actor corr fw)))"
  using assms by (auto simp: retry_failure_def Let_def record_failure_audit_def
      split: sum.splits option.splits prod.splits)

lemma dismiss_audit:
  assumes "A \<subseteq> set (fl_audit fw)" and "A \<subseteq> set (fl_audit (race fw))"
  shows "A \<subseteq> set (fl_audit (snd (dismiss_failure q p threads race now w wanted actor fw)))"
  using assms by (auto simp: dismiss_failure_def Let_def record_failure_audit_def
      split: sum.splits option.splits list.splits)

lemma audit_grows:
  "A \<subseteq> set (fl_audit fw) \<Longrightarrow> A \<subseteq> set (fl_audit (failure_step q p m fw))"
  "A \<subseteq> set (fl_audit fw) \<Longrightarrow> A \<subseteq> set (fl_audit (failure_run q p ms fw))"
proof (induction q p m fw and q p ms fw rule: failure_step_failure_run.induct)
  case (1 q p threads now m fresh w wanted actor corr others fw)
  then show ?case using retry_audit by simp
next
  case (2 q p threads now w wanted actor others fw)
  then show ?case using dismiss_audit by simp
qed simp_all

text \<open>
  A dismissal is final. Once a failure was dismissed, and whatever happens after that, no
  retry of it is queued.
\<close>

theorem dismissals_are_final:
  assumes run: "dismiss_failure q p threads race now w wanted actor fw = (ret f, fw1)"
  shows "\<exists>e. retry_failure q p threads' race' now' n fresh w (Some (wf_failure_id f)) actor' corr
      (failure_run q p ms fw1) = (raise e, failure_run q p ms fw1)"
proof -
  let ?fw = "failure_run q p ms fw1"
  obtain s x where s: "read_workflow q threads w (fl_outbox fw) = ret (Some s)"
    and sel: "select_failure q p s wanted fw = ret x"
    using run by (auto simp: dismiss_failure_def split: sum.splits option.splits)
  have w: "sn_workflow_id s = w" using s by (auto simp: read_workflow_ret)
  have f: "wf_failure_id f = wf_failure_id x" and fw1: "fw1 = record_failure_audit q now x actor FAILURE_DISMISSED (race fw)"
  proof -
    let ?fw1 = "record_failure_audit q now x actor FAILURE_DISMISSED (race fw)"
    let ?same = "filter (\<lambda>g. wf_failure_id g = wf_failure_id x) (store_failures q p s True ?fw1)"
    have "?same = [f] \<and> fw1 = ?fw1"
      using run s sel by (auto simp: dismiss_failure_def Let_def split: if_splits list.splits)
    then have same: "?same = [f]" and "fw1 = ?fw1" by blast+
    then show "fw1 = ?fw1" by blast
    have "f \<in> set ?same" unfolding same by simp
    then show "wf_failure_id f = wf_failure_id x" by simp
  qed
  have "wf_workflow_id x = w"
    using select_failure_in [OF sel] store_failures_in w
    by (force simp: assess_stored_def Let_def assess_failure_facts split: prod.splits)
  then have "dismissal q w (wf_failure_id f) fw1 \<noteq> None" unfolding dismissal_iff fw1 f by auto
  then obtain t a where a: "(t, a) \<in> set (fl_audit fw1)" "ae_workflow_id a = Some w"
    "ae_action a = FAILURE_DISMISSED" "ae_target_ref a = failure_target q (wf_failure_id f)"
    unfolding dismissal_iff by blast
  then have "(t, a) \<in> set (fl_audit ?fw)" using audit_grows(2) [of "{(t, a)}"] by blast
  with a have gone: "dismissal q w (wf_failure_id f) ?fw \<noteq> None" unfolding dismissal_iff by blast
  show ?thesis
  proof (rule retry_refused)
    fix s' g assume "read_workflow q threads' w (fl_outbox ?fw) = ret (Some s')"
      and sel: "select_failure q p s' (Some (wf_failure_id f)) ?fw = ret g"
    then have "sn_workflow_id s' = w" by (auto simp: read_workflow_ret)
    with select_failure_in [OF sel] store_failures_in obtain h where
      g: "g = assess_stored q p w ?fw h" "wf_failure_id g = wf_failure_id f" by blast
    with assess_stored_retryable [of q p w ?fw h] gone show "\<not> wf_retryable g" by auto
  qed
qed

section \<open>Witnesses\<close>

definition ex_failure_port :: failure_port where
  "ex_failure_port = \<lparr>fp_uuid5 = length, fp_int = (\<lambda>n. replicate (nat n) CHR ''a''),
     fp_redact_text = (\<lambda>t. t), fp_redact_receipt = (\<lambda>r. r), fp_ellipsis = CHR ''.'',
     fp_text = ex_text_port, fp_bad_event_id = (\<lambda>_. None)\<rparr>"

definition ex_stored :: "err_class \<Rightarrow> recoverable_failure" where
  "ex_stored c = \<lparr>rv_thread_id = ''job:x'', rv_step = Some ''ask'',
     rv_message = error_repr c ''gmail'' ''revoked_auth'' ''ab-1'' ''boom'',
     rv_checkpoint_id = Some ''c'', rv_task_id = Some ''t'', rv_checkpoint_at = Some 0\<rparr>"

definition ex_failing :: "err_class \<Rightarrow> thread_reader" where
  "ex_failing c w = (if w = 7 then Some [ex_thread\<lparr>th_interrupts := [], th_failures := [ex_stored c]\<rparr>] else None)"

definition ex_failure_world :: failure_world where
  "ex_failure_world = \<lparr>fl_outbox = ex_empty, fl_executions = [], fl_audit = [], fl_integrations = (\<lambda>_. None)\<rparr>"

definition ex_retry :: "uuid \<Rightarrow> failure_move" where
  "ex_retry n = Retry_failure (ex_failing ToolFailure) 5 n n 7 None ''ada'' 3 []"

text \<open>Two callers retry at once, then the retry is run and the failure retried again.\<close>

definition ex_retries :: "failure_move list" where
  "ex_retries = [Retry_failure (ex_failing ToolFailure) 5 1 1 7 None ''ada'' 3 [ex_retry 2],
     Queue_move (QClaim 6), Queue_move (QDone 7 2), ex_retry 3]"

lemma ex_plain_ids: "plain_ids ex_queue"
  by (simp add: plain_ids_def ex_queue_def)


lemma ex_plain: "plain ''gmail''" "plain ''revoked_auth''" "plain ''ab-1''"
  by code_simp+


theorem dismissals_are_final_witness:
  "\<exists>f fw1 e. dismiss_failure ex_queue ex_failure_port (ex_failing ToolFailure) (\<lambda>w. w) 5 7 None ''ada''
       ex_failure_world = (ret f, fw1)
     \<and> retry_failure ex_queue ex_failure_port (ex_failing ToolFailure) (\<lambda>w. w) 8 1 1 7 (Some (wf_failure_id f))
         ''bob'' 3 (failure_run ex_queue ex_failure_port [ex_retry 4] fw1)
       = (raise e, failure_run ex_queue ex_failure_port [ex_retry 4] fw1)"
proof -
  let ?run = "dismiss_failure ex_queue ex_failure_port (ex_failing ToolFailure) (\<lambda>w. w) 5 7 None ''ada'' ex_failure_world"
  have "is_ret (fst ?run)" by code_simp
  then obtain f fw1 where run: "?run = (ret f, fw1)" by (cases ?run; cases "fst ?run") auto
  from dismissals_are_final [OF run] run show ?thesis by blast
qed

end
