(* ===== verification/Postings.thy ===== *)
theory Postings
  imports Approvals
begin

text \<open>
  Job postings on their way into the pipeline: the folding of text postings are compared in,
  the search profile, a posting and its content-derived identity
  (\<open>personalos/domain/job_search.py\<close>), and the normalizer that makes one of an untrusted provider
  payload (\<open>DictPostingNormalizer\<close> of \<open>personalos/graphs/job_search.py\<close>). Text is ASCII, where
  Unicode normalization changes nothing and case folding is lower-casing; a payload holds no
  float. SHA-256 of the rendered JSON, ISO-8601 parsing and the \<open>str()\<close> of a value that is no
  string are parameters.
\<close>

section \<open>Text\<close>

text \<open>The maximal runs of characters with a property: \<open>re.findall\<close> of a class, and \<open>str.split()\<close>.\<close>

function runs :: "(char \<Rightarrow> bool) \<Rightarrow> string \<Rightarrow> string list" where
  "runs p [] = []"
| "runs p (c # s) =
     (if p c then (c # takeWhile p s) # runs p (dropWhile p s) else runs p s)"
  by pat_completeness auto
termination
  by (relation "measure (\<lambda>(p, s). length s)") (auto simp: less_Suc_eq_le length_dropWhile_le)

fun join_words :: "string list \<Rightarrow> string" where
  "join_words [] = []"
| "join_words [w] = w"
| "join_words (w # v # ws) = w @ '' '' @ join_words (v # ws)"

text \<open>\<open>\w\<close>.\<close>

definition is_word :: "char \<Rightarrow> bool" where
  "is_word c \<longleftrightarrow>
     (let n = of_char c :: nat in
      (48 \<le> n \<and> n < 58) \<or> (65 \<le> n \<and> n < 91) \<or> n = 95 \<or> (97 \<le> n \<and> n < 123))"

text \<open>The control characters of \<open>_UNSAFE_CHARS\<close>; its other members are past U+00FF.\<close>

definition unsafe_char :: "char \<Rightarrow> bool" where
  "unsafe_char c \<longleftrightarrow>
     (let n = of_char c :: nat in n \<le> 8 \<or> 11 \<le> n \<and> n \<le> 31 \<or> 127 \<le> n \<and> n \<le> 159)"

definition strip_unsafe_chars :: "string \<Rightarrow> string" where
  "strip_unsafe_chars s = filter (\<lambda>c. \<not> unsafe_char c) s"

definition canonical_text :: "string \<Rightarrow> string" where
  "canonical_text s = join_words (runs is_word (lower (strip_unsafe_chars s)))"

definition COMPANY_SUFFIXES :: "string set" where
  "COMPANY_SUFFIXES = {''inc'', ''incorporated'', ''llc'', ''ltd'', ''limited'', ''corp'', ''corporation'',
     ''co'', ''gmbh'', ''plc''}"

text \<open>The loop of \<open>canonical_company\<close>, over the words from the last.\<close>

fun pop_suffixes :: "string list \<Rightarrow> string list" where
  "pop_suffixes (w # v # ws) =
     (if w \<in> COMPANY_SUFFIXES then pop_suffixes (v # ws) else w # v # ws)"
| "pop_suffixes ws = ws"

definition split_words :: "string \<Rightarrow> string list" where
  "split_words = runs (\<lambda>c. \<not> is_space c)"

definition canonical_company :: "string \<Rightarrow> string" where
  "canonical_company name =
     join_words (rev (pop_suffixes (rev (split_words (canonical_text name)))))"

section \<open>Folding is idempotent\<close>

lemma runs_words:
  "w \<in> set (runs p s) \<Longrightarrow> w \<noteq> [] \<and> (\<forall>c \<in> set w. p c \<and> c \<in> set s)"
proof (induction p s rule: runs.induct)
  case (2 p c s)
  show ?case
  proof (cases "p c")
    case True
    with 2(3) consider "w = c # takeWhile p s" | "w \<in> set (runs p (dropWhile p s))" by auto
    then show ?thesis
    proof cases
      case 1
      then show ?thesis using True by (auto dest: set_takeWhileD)
    next
      case 2
      then show ?thesis using "2.IH"(1) [OF True] by (meson list.set_intros(2) set_dropWhileD)
    qed
  next
    case False
    then show ?thesis using 2(2) 2(3) by simp
  qed
qed simp

lemma runs_word_sep:
  assumes "w \<noteq> []" and "\<forall>c \<in> set w. p c"
  shows "runs p w = [w]" and "\<not> p d \<Longrightarrow> runs p (w @ d # s) = w # runs p s"
proof -
  obtain c v where w: "w = c # v" using assms(1) by (cases w) simp_all
  have all: "\<And>x. x \<in> set v \<Longrightarrow> p x" and c: "p c" using assms(2) w by simp_all
  show "runs p w = [w]"
    using all c by (simp add: w takeWhile_eq_all_conv [THEN iffD2] dropWhile_eq_Nil_conv [THEN iffD2])
  assume d: "\<not> p d"
  have "takeWhile p (v @ d # s) = v" "dropWhile p (v @ d # s) = d # s"
    using all d by (simp_all add: takeWhile_append2 dropWhile_append2)
  then show "runs p (w @ d # s) = w # runs p s" using c d by (simp add: w)
qed

text \<open>Words joined by a space are read back as they were.\<close>

lemma runs_join:
  assumes "\<forall>w \<in> set ws. w \<noteq> [] \<and> (\<forall>c \<in> set w. p c)" and "\<not> p (CHR '' '')"
  shows "runs p (join_words ws) = ws"
  using assms
proof (induction ws rule: join_words.induct)
  case (3 w v ws)
  then have "runs p (join_words (v # ws)) = v # ws" and "w \<noteq> []" "\<forall>c \<in> set w. p c" by simp_all
  with 3(3) show ?case by (simp add: runs_word_sep(2))
qed (simp_all add: runs_word_sep(1))

lemma set_join_words: "set (join_words ws) \<subseteq> insert (CHR '' '') (\<Union> (set ` set ws))"
  by (induction ws rule: join_words.induct) auto

text \<open>Character classes by code.\<close>

lemma char_eq_code: "c = d \<longleftrightarrow> (of_char c :: nat) = of_char d"
  by (simp add: of_char_eq_iff)

lemma is_space_code:
  "is_space c \<longleftrightarrow> (let n = of_char c :: nat in 9 \<le> n \<and> n \<le> 13 \<or> 28 \<le> n \<and> n \<le> 32)"
  unfolding is_space_def insert_iff empty_iff char_eq_code Let_def by auto

lemma lower_char_code:
  "(of_char (lower_char c) :: nat) =
     (let n = of_char c in if 65 \<le> n \<and> n \<le> 90 then n + 32 else n)"
  unfolding lower_char_def less_eq_char_def Let_def by simp

lemma lower_char_cases:
  shows "lower_char (lower_char c) = lower_char c"
    and "is_word (lower_char c) = is_word c"
    and "is_word c \<Longrightarrow> \<not> unsafe_char c"
    and "is_word c \<Longrightarrow> \<not> is_space c"
    and "unsafe_char (lower_char c) = unsafe_char c"
    and "is_space (lower_char c) = is_space c"
proof -
  show "lower_char (lower_char c) = lower_char c"
    by (subst char_eq_code) (simp add: lower_char_code Let_def)
  show "is_word (lower_char c) = is_word c"
    by (auto simp: is_word_def lower_char_code Let_def)
  show "is_word c \<Longrightarrow> \<not> unsafe_char c" by (auto simp: is_word_def unsafe_char_def Let_def)
  show "is_word c \<Longrightarrow> \<not> is_space c" by (auto simp: is_word_def is_space_code Let_def)
  show "unsafe_char (lower_char c) = unsafe_char c"
    by (auto simp: unsafe_char_def lower_char_code Let_def)
  show "is_space (lower_char c) = is_space c"
    by (auto simp: is_space_code lower_char_code Let_def)
qed

definition folded :: "string list \<Rightarrow> bool" where
  "folded ws \<longleftrightarrow> (\<forall>w \<in> set ws. w \<noteq> [] \<and> (\<forall>c \<in> set w. is_word c \<and> lower_char c = c))"

lemma canonical_is_folded: "folded (runs is_word (lower (strip_unsafe_chars s)))"
  unfolding folded_def
proof
  fix w assume "w \<in> set (runs is_word (lower (strip_unsafe_chars s)))"
  from runs_words [OF this] show "w \<noteq> [] \<and> (\<forall>c \<in> set w. is_word c \<and> lower_char c = c)"
    unfolding lower_def by (metis (no_types, lifting) ex_map_conv lower_char_cases(1))
qed

lemma canonical_text_folded: "\<exists>ws. folded ws \<and> canonical_text s = join_words ws"
  unfolding canonical_text_def using canonical_is_folded by blast

lemma folded_join_chars:
  assumes "folded ws" and "c \<in> set (join_words ws)"
  shows "\<not> unsafe_char c" and "lower_char c = c" and "c = CHR '' '' \<or> is_word c"
proof -
  have sp: "\<not> unsafe_char (CHR '' '') \<and> lower_char (CHR '' '') = CHR '' ''"
    by (simp add: unsafe_char_def char_eq_code lower_char_code)
  have "c = CHR '' '' \<or> is_word c \<and> lower_char c = c"
    using assms set_join_words [of ws] by (auto simp: folded_def)
  then show "\<not> unsafe_char c" "lower_char c = c" "c = CHR '' '' \<or> is_word c"
    using sp lower_char_cases(3) by auto
qed

lemma folded_fixed:
  assumes "folded ws"
  shows "canonical_text (join_words ws) = join_words ws" and "split_words (join_words ws) = ws"
proof -
  let ?t = "join_words ws"
  have "strip_unsafe_chars ?t = ?t"
    unfolding strip_unsafe_chars_def using folded_join_chars(1) [OF assms] by (auto intro: filter_True)
  moreover have "lower ?t = ?t"
    unfolding lower_def using folded_join_chars(2) [OF assms] by (auto intro: map_idI)
  moreover have "runs is_word ?t = ws"
    by (rule runs_join) (use assms in \<open>auto simp: folded_def is_word_def\<close>)
  ultimately show "canonical_text ?t = ?t" by (simp add: canonical_text_def)
  show "split_words ?t = ws"
    unfolding split_words_def
    by (rule runs_join) (use assms in \<open>auto simp: folded_def lower_char_cases(4), simp add: is_space_def\<close>)
qed

lemma set_pop_suffixes: "set (pop_suffixes ws) \<subseteq> set ws"
  by (induction ws rule: pop_suffixes.induct) auto

lemma pop_suffixes_idem [simp]: "pop_suffixes (pop_suffixes ws) = pop_suffixes ws"
  by (induction ws rule: pop_suffixes.induct) auto

lemma pop_suffixes_Nil [simp]: "pop_suffixes ws = [] \<longleftrightarrow> ws = []"
  by (induction ws rule: pop_suffixes.induct) auto

lemma canonical_text_idem [simp]: "canonical_text (canonical_text s) = canonical_text s"
  using canonical_text_folded [of s] folded_fixed(1) by force

text \<open>
  Folding text a second time changes nothing, for descriptions and titles as for company
  names: what a posting is compared by does not depend on how often it has been folded.
\<close>

theorem folding_is_idempotent:
  "canonical_text (canonical_text s) = canonical_text s
   \<and> canonical_company (canonical_company s) = canonical_company s"
proof
  obtain ws where ws: "folded ws" "canonical_text s = join_words ws"
    using canonical_text_folded by blast
  let ?vs = "rev (pop_suffixes (rev ws))"
  have vs: "folded ?vs"
    using ws(1) set_pop_suffixes [of "rev ws"] by (auto simp: folded_def)
  have "canonical_company s = join_words ?vs"
    by (simp add: canonical_company_def ws folded_fixed(2))
  moreover have "canonical_company (join_words ?vs) = join_words ?vs"
    by (simp add: canonical_company_def folded_fixed [OF vs])
  ultimately show "canonical_company (canonical_company s) = canonical_company s" by simp
qed simp

section \<open>The search profile\<close>

datatype seniority_level = INTERN | JUNIOR | MID | SENIOR | STAFF | PRINCIPAL

definition SENIORITY_LADDER :: "seniority_level list" where
  "SENIORITY_LADDER = [INTERN, JUNIOR, MID, SENIOR, STAFF, PRINCIPAL]"

definition seniority_rank :: "seniority_level \<Rightarrow> int" where
  "seniority_rank l = int (length (takeWhile (\<lambda>x. x \<noteq> l) SENIORITY_LADDER))"

datatype employment_type = FULL_TIME | PART_TIME | CONTRACT | INTERNSHIP | TEMPORARY
datatype work_mode = REMOTE | HYBRID | ONSITE

definition MAX_SHORTLIST_SIZE :: int where "MAX_SHORTLIST_SIZE = 25"
definition MAX_POSTINGS_PER_RUN :: nat where "MAX_POSTINGS_PER_RUN = 500"
definition DEFAULT_MIN_SCORE :: rat where "DEFAULT_MIN_SCORE = 1 / 2"

record search_profile =
  sp_user_id :: uuid
  sp_profile_version :: int
  sp_target_roles :: "string list"
  sp_target_locations :: "string list"
  sp_keywords :: "string list"
  sp_must_have_skills :: "string list"
  sp_excluded_companies :: "string list"
  sp_seniority_levels :: "seniority_level list"
  sp_employment_types :: "employment_type list"
  sp_work_modes :: "work_mode list"
  sp_salary_min :: "int option"
  sp_salary_max :: "int option"
  sp_remote_only :: bool
  sp_requires_visa_sponsorship :: bool
  sp_constraints :: "string list"
  sp_min_score :: rat
  sp_max_shortlist :: int

definition valid_profile :: "search_profile \<Rightarrow> bool" where
  "valid_profile p \<longleftrightarrow>
     0 \<le> sp_min_score p \<and> sp_min_score p \<le> 1
     \<and> 1 \<le> sp_max_shortlist p \<and> sp_max_shortlist p \<le> MAX_SHORTLIST_SIZE
     \<and> (case (sp_salary_min p, sp_salary_max p) of (Some lo, Some hi) \<Rightarrow> lo \<le> hi | _ \<Rightarrow> True)"

text \<open>\<open>SearchProfile(...)\<close>, with its validators.\<close>

definition SearchProfile_init :: "search_profile \<Rightarrow> exn + search_profile" where
  "SearchProfile_init p =
     (if valid_profile p then ret p else raise (validation_error ''search profile''))"

section \<open>Postings\<close>

record raw_posting =
  rp_provider :: string
  rp_payload :: pydict

definition RawPosting_init :: "string \<Rightarrow> pydict \<Rightarrow> exn + raw_posting" where
  "RawPosting_init provider payload =
     (if strip provider = [] then raise (validation_error ''provider must not be blank'')
      else ret \<lparr>rp_provider = provider, rp_payload = payload\<rparr>)"

record normalized_posting =
  np_source :: string
  np_source_job_id :: "string option"
  np_title :: string
  np_company :: string
  np_location :: "string option"
  np_url :: "string option"
  np_description :: string
  np_salary_min :: "int option"
  np_salary_max :: "int option"
  np_remote :: bool
  np_posted_at :: "datetime option"
  np_skills :: "string list"
  np_raw :: pydict

text \<open>\<open>NormalizedPosting(...)\<close>: unsafe characters go first, then title and company are checked.\<close>

definition NormalizedPosting_init :: "normalized_posting \<Rightarrow> exn + normalized_posting" where
  "NormalizedPosting_init p =
     (let q = p\<lparr>np_title := strip_unsafe_chars (np_title p),
                np_company := strip_unsafe_chars (np_company p),
                np_location := map_option strip_unsafe_chars (np_location p),
                np_description := strip_unsafe_chars (np_description p)\<rparr>
      in if strip (np_title q) = [] \<or> strip (np_company q) = []
         then raise (validation_error ''title and company must not be blank'')
         else ret q)"

definition canonical_hash :: "(pyval \<Rightarrow> string) \<Rightarrow> pyval \<Rightarrow> string" where
  "canonical_hash sha v = sha (canonical v)"

definition description_hash :: "(pyval \<Rightarrow> string) \<Rightarrow> normalized_posting \<Rightarrow> string" where
  "description_hash sha p = canonical_hash sha (PStr (canonical_text (np_description p)))"

definition DEDUPE_PREFIX_LENGTH :: nat where "DEDUPE_PREFIX_LENGTH = 85"

definition dedupe_key :: "(pyval \<Rightarrow> string) \<Rightarrow> normalized_posting \<Rightarrow> string" where
  "dedupe_key sha p =
     (let company = canonical_company (np_company p);
          title = canonical_text (np_title p);
          digest = canonical_hash sha
            (PList [PStr company, PStr title, PStr (description_hash sha p)])
      in take DEDUPE_PREFIX_LENGTH (company @ ''|'' @ title) @ ''|'' @ digest)"

text \<open>The opening a posting describes: what identifies it, with no digest in between.\<close>

definition opening_of :: "normalized_posting \<Rightarrow> string \<times> string \<times> string" where
  "opening_of p = (canonical_company (np_company p), canonical_text (np_title p),
                canonical_text (np_description p))"

lemma same_opening_same_key: "opening_of p = opening_of q \<Longrightarrow> dedupe_key sha p = dedupe_key sha q"
  by (simp add: opening_of_def dedupe_key_def description_hash_def)

text \<open>What is hashed on the way to a posting's key.\<close>

definition hashed :: "(pyval \<Rightarrow> string) \<Rightarrow> normalized_posting \<Rightarrow> pyval set" where
  "hashed sha p =
     {PStr (canonical_text (np_description p)),
      PList [PStr (canonical_company (np_company p)), PStr (canonical_text (np_title p)),
             PStr (description_hash sha p)]}"

text \<open>
  The dedupe key identifies an opening: two postings have one key exactly when company,
  title and description fold to the same text, as long as SHA-256 does not collide on what was
  hashed for the two; and the key fits its column, \<open>varchar(150)\<close>.
\<close>

theorem dedupe_key_identifies:
  assumes len: "\<And>v. length (sha v) = 64" and inj: "inj_on sha (hashed sha p \<union> hashed sha q)"
  shows "(dedupe_key sha p = dedupe_key sha q \<longleftrightarrow> opening_of p = opening_of q)
    \<and> length (dedupe_key sha p) \<le> 150"
proof
  show "length (dedupe_key sha p) \<le> 150"
    by (simp add: dedupe_key_def canonical_hash_def DEDUPE_PREFIX_LENGTH_def len Let_def)
  have "opening_of p = opening_of q" if "dedupe_key sha p = dedupe_key sha q"
  proof -
    from that have eq: "sha (PList [PStr (canonical_company (np_company p)),
        PStr (canonical_text (np_title p)), PStr (description_hash sha p)])
      = sha (PList [PStr (canonical_company (np_company q)),
        PStr (canonical_text (np_title q)), PStr (description_hash sha q)])"
      unfolding dedupe_key_def Let_def canonical_hash_def append_assoc [symmetric]
      by (subst (asm) append_eq_append_conv) (simp_all add: len)
    from inj_onD [OF inj this] have fields: "canonical_company (np_company p) = canonical_company (np_company q)"
      "canonical_text (np_title p) = canonical_text (np_title q)"
      "description_hash sha p = description_hash sha q" by (simp_all add: hashed_def)
    from fields(3) have "sha (PStr (canonical_text (np_description p)))
      = sha (PStr (canonical_text (np_description q)))"
      by (simp add: description_hash_def canonical_hash_def)
    from inj_onD [OF inj this] fields show ?thesis by (simp add: hashed_def opening_of_def)
  qed
  then show "dedupe_key sha p = dedupe_key sha q \<longleftrightarrow> opening_of p = opening_of q"
    using same_opening_same_key by blast
qed

definition posting_of :: "string \<Rightarrow> string \<Rightarrow> string \<Rightarrow> normalized_posting" where
  "posting_of title company description =
     \<lparr>np_source = ''board'', np_source_job_id = None, np_title = title, np_company = company,
      np_location = None, np_url = None, np_description = description, np_salary_min = None,
      np_salary_max = None, np_remote = False, np_posted_at = None, np_skills = [], np_raw = []\<rparr>"

definition pad64 :: "pyval \<Rightarrow> string" where
  "pad64 v = take 64 ((case v of PStr s \<Rightarrow> s | PList (PStr s # PStr t # _) \<Rightarrow> ''#'' @ s @ t | _ \<Rightarrow> [])
     @ replicate 64 (CHR ''0''))"

theorem dedupe_key_identifies_witness:
  "dedupe_key pad64 (posting_of ''SRE'' ''Acme, Inc.'' ''On call.'')
     = dedupe_key pad64 (posting_of ''sre'' ''ACME'' ''* on  call'')
   \<and> dedupe_key pad64 (posting_of ''SRE'' ''Acme, Inc.'' ''On call.'')
     \<noteq> dedupe_key pad64 (posting_of ''SRE'' ''Acme Labs'' ''On call.'')"
proof -
  let ?p = "posting_of ''SRE'' ''Acme, Inc.'' ''On call.''"
  let ?q = "posting_of ''sre'' ''ACME'' ''* on  call''"
  let ?r = "posting_of ''SRE'' ''Acme Labs'' ''On call.''"
  have len: "length (pad64 v) = 64" for v by (simp add: pad64_def)
  have folds: "canonical_company ''Acme, Inc.'' = ''acme''" "canonical_company ''ACME'' = ''acme''"
    "canonical_company ''Acme Labs'' = ''acme labs''" "canonical_text ''SRE'' = ''sre''"
    "canonical_text ''sre'' = ''sre''" "canonical_text ''On call.'' = ''on call''"
    "canonical_text ''* on  call'' = ''on call''" by code_simp+
  have open1: "opening_of ?p = (''acme'', ''sre'', ''on call'')"
    and open2: "opening_of ?q = (''acme'', ''sre'', ''on call'')"
    and open3: "opening_of ?r = (''acme labs'', ''sre'', ''on call'')"
    by (simp_all add: opening_of_def posting_of_def folds)
  have inj: "inj_on pad64 (hashed pad64 ?p \<union> hashed pad64 ?q)"
    "inj_on pad64 (hashed pad64 ?p \<union> hashed pad64 ?r)"
    by (simp_all add: hashed_def posting_of_def folds pad64_def inj_on_def description_hash_def
        canonical_hash_def)
  show ?thesis
    using dedupe_key_identifies [OF len inj(1)] dedupe_key_identifies [OF len inj(2)] open1 open2 open3
    by simp
qed

section \<open>Normalization\<close>

text \<open>\<open>int(text)\<close>: white space around, a sign, digits with single underscores between them.\<close>

definition digit_of :: "char \<Rightarrow> int option" where
  "digit_of c = (if CHR ''0'' \<le> c \<and> c \<le> CHR ''9'' then Some (of_char c - 48) else None)"

fun digits_value :: "int \<Rightarrow> string \<Rightarrow> int option" where
  "digits_value n [] = Some n"
| "digits_value n (c # s) =
     (case digit_of c of
        Some d \<Rightarrow> digits_value (10 * n + d) s
      | None \<Rightarrow>
          if c = CHR ''_'' \<and> s \<noteq> [] \<and> digit_of (hd s) \<noteq> None then digits_value n s else None)"

definition unsigned_value :: "string \<Rightarrow> int option" where
  "unsigned_value s = (if s \<noteq> [] \<and> digit_of (hd s) \<noteq> None then digits_value 0 s else None)"

definition int_of_text :: "string \<Rightarrow> int option" where
  "int_of_text text =
     (case strip text of
        [] \<Rightarrow> None
      | c # s \<Rightarrow>
          if c = CHR ''-'' then map_option uminus (unsigned_value s)
          else if c = CHR ''+'' then unsigned_value s
          else unsigned_value (c # s))"

record text_ports =
  tp_str :: "pyval \<Rightarrow> string"
  tp_iso :: "string \<Rightarrow> datetime option"

definition py_str :: "text_ports \<Rightarrow> pyval \<Rightarrow> string" where
  "py_str tp v = (case v of PStr s \<Rightarrow> s | _ \<Rightarrow> tp_str tp v)"

definition as_str :: "text_ports \<Rightarrow> pyval \<Rightarrow> string option" where
  "as_str tp v =
     (if v = PNone then None
      else let t = strip (py_str tp v) in if t = [] then None else Some t)"

fun as_int :: "pyval \<Rightarrow> int option" where
  "as_int (PInt n) = Some n"
| "as_int (PStr s) = int_of_text s"
| "as_int _ = None"

fun as_datetime :: "text_ports \<Rightarrow> pyval \<Rightarrow> datetime option" where
  "as_datetime tp (PStr s) = tp_iso tp s"
| "as_datetime tp _ = None"

text \<open>Iterating a value: a string gives its characters, a dictionary its keys.\<close>

fun py_iter :: "pyval \<Rightarrow> pyval list option" where
  "py_iter (PStr s) = Some (map (\<lambda>c. PStr [c]) s)"
| "py_iter (PList xs) = Some xs"
| "py_iter (PDict d) = Some (map PStr (dict_keys d))"
| "py_iter _ = None"

definition TEXT_FIELDS :: "string list" where
  "TEXT_FIELDS = [''title'', ''company'', ''location'', ''url'', ''description'']"

definition ALIASES :: "(string \<times> string list) list" where
  "ALIASES =
     [(''title'', [''title'', ''job_title'', ''position'']),
      (''company'', [''company'', ''company_name'', ''employer'']),
      (''location'', [''location'', ''job_location'', ''city'']),
      (''url'', [''url'', ''job_url'', ''link'']),
      (''description'', [''description'', ''job_description'', ''summary'']),
      (''source_job_id'', [''id'', ''job_id'', ''source_job_id'']),
      (''salary_min'', [''salary_min'', ''min_salary'']),
      (''salary_max'', [''salary_max'', ''max_salary'']),
      (''remote'', [''remote'', ''is_remote'']),
      (''skills'', [''skills'', ''tags'']),
      (''posted_at'', [''posted_at'', ''date_posted''])]"

definition picked :: "pydict \<Rightarrow> string \<Rightarrow> pyval" where
  "picked payload field =
     (case map_of ALIASES field of
        None \<Rightarrow> PNone
      | Some keys \<Rightarrow>
          case find_first (\<lambda>k. dict_get payload k \<notin> {PNone, PStr []}) keys of
            None \<Rightarrow> PNone
          | Some k \<Rightarrow> dict_get payload k)"

fun is_text :: "pyval \<Rightarrow> bool" where
  "is_text (PStr _) = True"
| "is_text _ = False"

definition malformed_fields :: "pydict \<Rightarrow> string list" where
  "malformed_fields payload =
     filter (\<lambda>f. picked payload f \<noteq> PNone \<and> \<not> is_text (picked payload f)) TEXT_FIELDS
     @ (case picked payload ''source_job_id'' of
          PNone \<Rightarrow> [] | PStr _ \<Rightarrow> [] | PInt _ \<Rightarrow> [] | _ \<Rightarrow> [''source_job_id''])"

definition starts_with :: "string \<Rightarrow> string \<Rightarrow> bool" where
  "starts_with pre s \<longleftrightarrow> take (length pre) s = pre"

definition http_url :: "string \<Rightarrow> bool" where
  "http_url u \<longleftrightarrow>
     (let s = lower (strip u) in starts_with ''http://'' s \<or> starts_with ''https://'' s)"

text \<open>\<open>None\<close> is a dropped posting; iterating what cannot be iterated is the \<open>TypeError\<close> it catches.\<close>

definition normalize :: "text_ports \<Rightarrow> raw_posting \<Rightarrow> normalized_posting option" where
  "normalize tp raw =
     (let payload = rp_payload raw; pick = picked payload in
      if \<not> truthy (pick ''title'') \<or> \<not> truthy (pick ''company'') then None
      else if malformed_fields payload \<noteq> [] then None
      else if pick ''url'' \<noteq> PNone \<and> \<not> http_url (py_str tp (pick ''url'')) then None
      else
        case (if truthy (pick ''skills'') then py_iter (pick ''skills'') else Some []) of
          None \<Rightarrow> None
        | Some skills \<Rightarrow>
            case NormalizedPosting_init
              \<lparr>np_source = rp_provider raw,
               np_source_job_id = as_str tp (pick ''source_job_id''),
               np_title = py_str tp (pick ''title''),
               np_company = py_str tp (pick ''company''),
               np_location = as_str tp (pick ''location''),
               np_url = as_str tp (pick ''url''),
               np_description =
                 (if truthy (pick ''description'') then py_str tp (pick ''description'') else []),
               np_salary_min = as_int (pick ''salary_min''),
               np_salary_max = as_int (pick ''salary_max''),
               np_remote = truthy (pick ''remote''),
               np_posted_at = as_datetime tp (pick ''posted_at''),
               np_skills = map (py_str tp) skills,
               np_raw = payload\<rparr> of
              Inl _ \<Rightarrow> None
            | Inr p \<Rightarrow> Some p)"

lemma NormalizedPosting_init_ok:
  "NormalizedPosting_init p = Inr q \<longleftrightarrow>
     q = p\<lparr>np_title := strip_unsafe_chars (np_title p),
           np_company := strip_unsafe_chars (np_company p),
           np_location := map_option strip_unsafe_chars (np_location p),
           np_description := strip_unsafe_chars (np_description p)\<rparr>
     \<and> strip (np_title q) \<noteq> [] \<and> strip (np_company q) \<noteq> []"
  by (auto simp: NormalizedPosting_init_def Let_def)

text \<open>What every posting past the normalizer satisfies.\<close>

definition safe_text :: "string \<Rightarrow> bool" where
  "safe_text s \<longleftrightarrow> (\<forall>c \<in> set s. \<not> unsafe_char c)"

lemma safe_strip_unsafe [simp]: "safe_text (strip_unsafe_chars s)"
  by (simp add: safe_text_def strip_unsafe_chars_def)

definition well_formed :: "normalized_posting \<Rightarrow> bool" where
  "well_formed p \<longleftrightarrow>
     strip (np_title p) \<noteq> [] \<and> strip (np_company p) \<noteq> []
     \<and> safe_text (np_title p) \<and> safe_text (np_company p) \<and> safe_text (np_description p)
     \<and> (\<forall>l. np_location p = Some l \<longrightarrow> safe_text l)
     \<and> (\<forall>u. np_url p = Some u \<longrightarrow> http_url u)"

text \<open>The text a payload has under one of a field's keys.\<close>

definition payload_text :: "pydict \<Rightarrow> string \<Rightarrow> string \<Rightarrow> bool" where
  "payload_text payload field s \<longleftrightarrow>
     (\<exists>keys k. map_of ALIASES field = Some keys \<and> k \<in> set keys \<and> dict_get payload k = PStr s)"

lemma picked_text: "picked payload field = PStr s \<Longrightarrow> payload_text payload field s"
  by (auto simp: picked_def payload_text_def split: option.splits dest: find_first_Some)

lemma not_malformed_text:
  assumes "malformed_fields payload = []" and "field \<in> set TEXT_FIELDS"
    and "picked payload field \<noteq> PNone"
  shows "\<exists>s. picked payload field = PStr s"
proof -
  have "is_text (picked payload field)"
    using assms by (auto simp: malformed_fields_def filter_empty_conv)
  then show ?thesis by (cases "picked payload field") simp_all
qed

lemma http_url_strip [simp]: "http_url (strip u) = http_url u"
  by (simp add: http_url_def)

lemma normalize_ok:
  assumes "normalize tp raw = Some p"
  shows "well_formed p \<and> np_source p = rp_provider raw \<and> np_raw p = rp_payload raw
    \<and> (\<exists>s. payload_text (rp_payload raw) ''title'' s \<and> np_title p = strip_unsafe_chars s)
    \<and> (\<exists>s. payload_text (rp_payload raw) ''company'' s \<and> np_company p = strip_unsafe_chars s)"
proof -
  let ?d = "rp_payload raw"
  from assms have t: "truthy (picked ?d ''title'')" "truthy (picked ?d ''company'')"
    and m: "malformed_fields ?d = []"
    and u: "picked ?d ''url'' \<noteq> PNone \<Longrightarrow> http_url (py_str tp (picked ?d ''url''))"
    by (auto simp: normalize_def Let_def split: if_splits)
  obtain s where s: "picked ?d ''title'' = PStr s"
    using not_malformed_text [OF m, of "''title''"] t by (force simp: TEXT_FIELDS_def)
  obtain c where c: "picked ?d ''company'' = PStr c"
    using not_malformed_text [OF m, of "''company''"] t by (force simp: TEXT_FIELDS_def)
  have url: "http_url v" if "as_str tp (picked ?d ''url'') = Some v" for v
  proof -
    from that have "picked ?d ''url'' \<noteq> PNone" and v: "v = strip (py_str tp (picked ?d ''url''))"
      by (auto simp: as_str_def Let_def split: if_splits)
    from u [OF this(1)] show ?thesis by (simp add: v)
  qed
  from assms obtain q where q: "NormalizedPosting_init q = Inr p"
    and qf: "np_title q = s" "np_company q = c" "np_url q = as_str tp (picked ?d ''url'')"
      "np_source q = rp_provider raw" "np_raw q = ?d"
    by (auto simp: normalize_def Let_def s c py_str_def split: if_splits option.splits sum.splits)
  from q have p: "np_title p = strip_unsafe_chars s" "np_company p = strip_unsafe_chars c"
    "np_url p = as_str tp (picked ?d ''url'')" "np_source p = rp_provider raw" "np_raw p = ?d"
    and rest: "strip (np_title p) \<noteq> []" "strip (np_company p) \<noteq> []"
      "safe_text (np_description p)" "\<And>l. np_location p = Some l \<Longrightarrow> safe_text l"
    by (auto simp: NormalizedPosting_init_ok qf)
  show ?thesis
    using p rest url picked_text [OF s] picked_text [OF c] by (auto simp: well_formed_def)
qed

lemmas normalize_well_formed = normalize_ok [THEN conjunct1]

text \<open>
  What the normalizer lets through is well formed: title and company are text the payload
  holds under one of the accepted names and are not blank, no field keeps a control character,
  a link is http or https, and the posting is attributed to the provider that returned it.
\<close>

theorem normalized_postings_are_well_formed:
  assumes "normalize tp raw = Some p"
  shows "well_formed p \<and> np_source p = rp_provider raw \<and> np_raw p = rp_payload raw
    \<and> (\<exists>s. payload_text (rp_payload raw) ''title'' s \<and> np_title p = strip_unsafe_chars s)
    \<and> (\<exists>s. payload_text (rp_payload raw) ''company'' s \<and> np_company p = strip_unsafe_chars s)"
  by (rule normalize_ok [OF assms])

text \<open>
  The fields are validated rather than coerced, but for the skills: a provider that sends them
  as one string gets its characters, one skill each.
\<close>

theorem a_skills_string_becomes_letters:
  assumes "normalize tp raw = Some p" and "picked (rp_payload raw) ''skills'' = PStr s"
  shows "np_skills p = map (\<lambda>c. [c]) s"
proof -
  from assms obtain q where "NormalizedPosting_init q = Inr p"
    and "np_skills q = map (py_str tp) (if s \<noteq> [] then map (\<lambda>c. PStr [c]) s else [])"
    by (auto simp: normalize_def Let_def split: if_splits option.splits sum.splits)
  then show ?thesis by (auto simp: NormalizedPosting_init_ok py_str_def)
qed

definition plain_ports :: text_ports where
  "plain_ports = \<lparr>tp_str = (\<lambda>_. ''?''), tp_iso = (\<lambda>_. None)\<rparr>"

definition sample_raw :: raw_posting where
  "sample_raw =
     \<lparr>rp_provider = ''board'',
      rp_payload = [(''job_title'', PStr ''Go engineer''), (''employer'', PStr ''Acme''),
        (''link'', PStr '' HTTPS://acme.example/1 ''), (''min_salary'', PStr ''+90_000''),
        (''tags'', PStr ''Go''), (''id'', PInt 7)]\<rparr>"

theorem normalized_postings_are_well_formed_witness:
  "case normalize plain_ports sample_raw of
     None \<Rightarrow> False
   | Some p \<Rightarrow> well_formed p \<and> np_title p = ''Go engineer'' \<and> np_salary_min p = Some 90000"
proof -
  obtain p where p: "normalize plain_ports sample_raw = Some p"
    and f: "np_title p = ''Go engineer''" "np_salary_min p = Some 90000"
  proof -
    have "case normalize plain_ports sample_raw of None \<Rightarrow> False
      | Some p \<Rightarrow> np_title p = ''Go engineer'' \<and> np_salary_min p = Some 90000" by code_simp
    then show thesis by (auto split: option.splits intro: that)
  qed
  with normalized_postings_are_well_formed [OF p] show ?thesis by simp
qed

theorem a_skills_string_becomes_letters_witness:
  "map_option np_skills (normalize plain_ports sample_raw) = Some [''G'', ''o'']"
proof -
  have "normalize plain_ports sample_raw \<noteq> None" by code_simp
  then obtain p where p: "normalize plain_ports sample_raw = Some p" by blast
  have "picked (rp_payload sample_raw) ''skills'' = PStr ''Go''" by code_simp
  from a_skills_string_becomes_letters [OF p this] p show ?thesis by simp
qed

end
