(* ===== verification/Matching.thy ===== *)
theory Matching
  imports Postings
begin

text \<open>
  Scoring a posting against the candidate's record: the values of an assessment and their
  validators, the grounding of a model's claims in evidence (\<open>personalos/domain/job_search.py\<close>),
  and the matcher that computes the score (\<open>personalos/retrieval/job_matching.py\<close>). The evidence
  source and the assessor, a language model, are ports on a world \<open>'w\<close>. Floats are rationals,
  rounded half to even where the code rounds; the texts of details, rationales and reasons, which
  nothing decides on, are left out.
\<close>

section \<open>Evidence and assessments\<close>

datatype evidence_source_type = RESUME_EVIDENCE | PROJECT_EVIDENCE

fun evidence_type_value :: "evidence_source_type \<Rightarrow> string" where
  "evidence_type_value RESUME_EVIDENCE = ''resume''"
| "evidence_type_value PROJECT_EVIDENCE = ''project''"

record evidence_record =
  er_id :: string
  er_source_type :: evidence_source_type
  er_source_ref :: "string option"
  er_text :: string

definition blank :: "string \<Rightarrow> bool" where
  "blank s \<longleftrightarrow> strip s = []"

definition valid_evidence :: "evidence_record \<Rightarrow> bool" where
  "valid_evidence r \<longleftrightarrow> \<not> blank (er_id r) \<and> \<not> blank (er_text r)"

definition EvidenceRecord_init :: "evidence_record \<Rightarrow> exn + evidence_record" where
  "EvidenceRecord_init r =
     (if valid_evidence r then ret r
      else raise (validation_error ''an evidence record needs a non-blank id and text''))"

datatype recommendation_kind = REC_APPLY | REC_MAYBE | REC_SKIP
datatype match_strength = STRONG | PARTIAL | WEAK
datatype gap_severity = BLOCKING | MAJOR | MINOR

record matched_requirement =
  mr_requirement :: string
  mr_evidence_id :: string
  mr_evidence_type :: evidence_source_type
  mr_strength :: match_strength

definition MatchedRequirement_init :: "matched_requirement \<Rightarrow> exn + matched_requirement" where
  "MatchedRequirement_init m =
     (if blank (mr_requirement m) \<or> blank (mr_evidence_id m)
      then raise (validation_error ''a matched requirement must name the requirement and cite an evidence_id'')
      else ret m)"

record missing_requirement =
  ms_requirement :: string
  ms_severity :: gap_severity

definition MissingRequirement_init :: "missing_requirement \<Rightarrow> exn + missing_requirement" where
  "MissingRequirement_init g =
     (if blank (ms_requirement g)
      then raise (validation_error ''a missing requirement must name the requirement'')
      else ret g)"

record tailoring_suggestion =
  ts_suggestion :: string
  ts_evidence_id :: "string option"

record claimed_match =
  cm_requirement :: string
  cm_evidence_id :: "string option"
  cm_strength :: match_strength

record semantic_assessment =
  sa_matched :: "claimed_match list"
  sa_missing :: "missing_requirement list"
  sa_risks :: "string list"
  sa_suggestions :: "tailoring_suggestion list"

record grounded_assessment =
  ga_matched :: "matched_requirement list"
  ga_missing :: "missing_requirement list"
  ga_risks :: "string list"
  ga_suggestions :: "tailoring_suggestion list"
  ga_ungrounded :: "string list"

definition UNGROUNDED_CLAIM_SEVERITY :: gap_severity where "UNGROUNDED_CLAIM_SEVERITY = MAJOR"

section \<open>Grounding\<close>

text \<open>The record behind an id; the last of two records with one id is the one the table keeps.\<close>

definition record_for :: "evidence_record list \<Rightarrow> string \<Rightarrow> evidence_record option" where
  "record_for evidence = map_of (rev (map (\<lambda>r. (er_id r, r)) evidence))"

definition cited_record :: "evidence_record list \<Rightarrow> claimed_match \<Rightarrow> evidence_record option" where
  "cited_record evidence c =
     (case cm_evidence_id c of
        None \<Rightarrow> None
      | Some n \<Rightarrow> if n = [] then None else record_for evidence n)"

text \<open>The loop over the claims: matches, gaps and ungrounded claims, each in order.\<close>

fun ground_claims ::
  "evidence_record list \<Rightarrow> claimed_match list \<Rightarrow>
   exn + (matched_requirement list \<times> missing_requirement list \<times> string list)" where
  "ground_claims evidence [] = ret ([], [], [])"
| "ground_claims evidence (c # cs) =
     (if blank (cm_requirement c) then ground_claims evidence cs
      else case cited_record evidence c of
        None \<Rightarrow>
          (case MissingRequirement_init
             \<lparr>ms_requirement = cm_requirement c, ms_severity = UNGROUNDED_CLAIM_SEVERITY\<rparr> of
             Inl e \<Rightarrow> raise e
           | Inr g \<Rightarrow>
               (case ground_claims evidence cs of
                  Inl e \<Rightarrow> raise e
                | Inr (ms, gs, us) \<Rightarrow> ret (ms, g # gs, cm_requirement c # us)))
      | Some r \<Rightarrow>
          (case MatchedRequirement_init
             \<lparr>mr_requirement = cm_requirement c, mr_evidence_id = er_id r,
              mr_evidence_type = er_source_type r, mr_strength = cm_strength c\<rparr> of
             Inl e \<Rightarrow> raise e
           | Inr m \<Rightarrow>
               (case ground_claims evidence cs of
                  Inl e \<Rightarrow> raise e
                | Inr (ms, gs, us) \<Rightarrow> ret (m # ms, gs, us))))"

definition ground_assessment ::
  "semantic_assessment \<Rightarrow> evidence_record list \<Rightarrow> exn + grounded_assessment" where
  "ground_assessment a evidence =
     (case ground_claims evidence (sa_matched a) of
        Inl e \<Rightarrow> raise e
      | Inr (ms, gs, us) \<Rightarrow>
          ret \<lparr>ga_matched = ms,
               ga_missing = filter (\<lambda>g. \<not> blank (ms_requirement g)) (sa_missing a) @ gs,
               ga_risks = filter (\<lambda>r. \<not> blank r) (sa_risks a),
               ga_suggestions = filter (\<lambda>s. \<not> blank (ts_suggestion s) \<and>
                 (case ts_evidence_id s of None \<Rightarrow> True
                  | Some n \<Rightarrow> record_for evidence n \<noteq> None)) (sa_suggestions a),
               ga_ungrounded = us\<rparr>)"

lemma record_for_Some:
  "record_for evidence n = Some r \<Longrightarrow> r \<in> set evidence \<and> er_id r = n"
  unfolding record_for_def by (auto dest!: map_of_SomeD)

lemma cited_record_Some:
  "cited_record evidence c = Some r \<Longrightarrow>
     r \<in> set evidence \<and> cm_evidence_id c = Some (er_id r)"
  by (auto simp: cited_record_def split: option.splits if_splits dest: record_for_Some)

text \<open>What grounding keeps of a list of claims, as one expression.\<close>

definition match_of :: "evidence_record list \<Rightarrow> claimed_match \<Rightarrow> matched_requirement" where
  "match_of evidence c =
     (case cited_record evidence c of
        Some r \<Rightarrow> \<lparr>mr_requirement = cm_requirement c, mr_evidence_id = er_id r,
                   mr_evidence_type = er_source_type r, mr_strength = cm_strength c\<rparr>
      | None \<Rightarrow> \<lparr>mr_requirement = [], mr_evidence_id = [], mr_evidence_type = RESUME_EVIDENCE,
                 mr_strength = cm_strength c\<rparr>)"

lemma ground_claims_eq:
  assumes "\<forall>r \<in> set evidence. valid_evidence r"
  shows "ground_claims evidence cs =
    (let claims = filter (\<lambda>c. \<not> blank (cm_requirement c)) cs;
         proven = filter (\<lambda>c. cited_record evidence c \<noteq> None) claims;
         unproven = filter (\<lambda>c. cited_record evidence c = None) claims
     in ret (map (match_of evidence) proven,
             map (\<lambda>c. \<lparr>ms_requirement = cm_requirement c, ms_severity = MAJOR\<rparr>) unproven,
             map cm_requirement unproven))"
proof (induction cs)
  case (Cons c cs)
  have "MatchedRequirement_init (match_of evidence c) = ret (match_of evidence c)"
    if "cited_record evidence c = Some r" "\<not> blank (cm_requirement c)" for r
    using cited_record_Some [OF that(1)] assms that
    by (simp add: MatchedRequirement_init_def match_of_def valid_evidence_def)
  then show ?case
    using Cons by (auto simp: Let_def match_of_def MissingRequirement_init_def
        UNGROUNDED_CLAIM_SEVERITY_def split: option.splits)
qed simp

definition claims_of :: "semantic_assessment \<Rightarrow> claimed_match list" where
  "claims_of a = filter (\<lambda>c. \<not> blank (cm_requirement c)) (sa_matched a)"

lemma ground_assessment_eq:
  assumes "\<forall>r \<in> set evidence. valid_evidence r"
  shows "ground_assessment a evidence =
    (let proven = filter (\<lambda>c. cited_record evidence c \<noteq> None) (claims_of a);
         unproven = filter (\<lambda>c. cited_record evidence c = None) (claims_of a)
     in ret \<lparr>ga_matched = map (match_of evidence) proven,
             ga_missing = filter (\<lambda>g. \<not> blank (ms_requirement g)) (sa_missing a)
               @ map (\<lambda>c. \<lparr>ms_requirement = cm_requirement c, ms_severity = MAJOR\<rparr>) unproven,
             ga_risks = filter (\<lambda>r. \<not> blank r) (sa_risks a),
             ga_suggestions = filter (\<lambda>s. \<not> blank (ts_suggestion s) \<and>
               (case ts_evidence_id s of None \<Rightarrow> True
                | Some n \<Rightarrow> record_for evidence n \<noteq> None)) (sa_suggestions a),
             ga_ungrounded = map cm_requirement unproven\<rparr>)"
  by (simp add: ground_assessment_def ground_claims_eq [OF assms] claims_of_def Let_def)

text \<open>
  Grounding never invents and never loses a claim. Every match it keeps cites a record the
  candidate has, with the type read from that record; every claim that names a requirement
  ends as a match or, with its citation unproven, as a gap that is listed as ungrounded; and a
  suggestion that cites anything cites a record.
\<close>

theorem only_cited_claims_are_kept:
  assumes "\<forall>r \<in> set evidence. valid_evidence r"
  shows "\<exists>g. ground_assessment a evidence = ret g
    \<and> (\<forall>m \<in> set (ga_matched g). \<exists>r \<in> set evidence.
          mr_evidence_id m = er_id r \<and> mr_evidence_type m = er_source_type r)
    \<and> (\<forall>c \<in> set (sa_matched a). \<not> blank (cm_requirement c) \<longrightarrow>
          (\<exists>m \<in> set (ga_matched g). mr_requirement m = cm_requirement c
             \<and> Some (mr_evidence_id m) = cm_evidence_id c \<and> mr_strength m = cm_strength c)
          \<or> cm_requirement c \<in> set (ga_ungrounded g)
            \<and> \<lparr>ms_requirement = cm_requirement c, ms_severity = MAJOR\<rparr> \<in> set (ga_missing g))
    \<and> length (ga_matched g) + length (ga_ungrounded g) = length (claims_of a)
    \<and> (\<forall>s \<in> set (ga_suggestions g). \<forall>n. ts_evidence_id s = Some n \<longrightarrow> n \<in> er_id ` set evidence)"
    (is "\<exists>g. _ = ret g \<and> ?real g \<and> ?every g \<and> ?count g \<and> ?sugg g")
proof -
  obtain g where g: "ground_assessment a evidence = ret g"
    and gm: "ga_matched g = map (match_of evidence) (filter (\<lambda>c. cited_record evidence c \<noteq> None) (claims_of a))"
    and gs: "ga_missing g = filter (\<lambda>g. \<not> blank (ms_requirement g)) (sa_missing a)
               @ map (\<lambda>c. \<lparr>ms_requirement = cm_requirement c, ms_severity = MAJOR\<rparr>)
                   (filter (\<lambda>c. cited_record evidence c = None) (claims_of a))"
    and gu: "ga_ungrounded g = map cm_requirement (filter (\<lambda>c. cited_record evidence c = None) (claims_of a))"
    and gt: "ga_suggestions g = filter (\<lambda>s. \<not> blank (ts_suggestion s) \<and>
               (case ts_evidence_id s of None \<Rightarrow> True
                | Some n \<Rightarrow> record_for evidence n \<noteq> None)) (sa_suggestions a)"
    by (simp add: ground_assessment_eq [OF assms] Let_def)
  have "?real g"
    by (auto simp: gm match_of_def intro: cited_record_Some [THEN conjunct1])
  moreover have "?every g"
  proof (intro ballI impI)
    fix c assume "c \<in> set (sa_matched a)" and "\<not> blank (cm_requirement c)"
    then have c: "c \<in> set (claims_of a)" by (simp add: claims_of_def)
    show "(\<exists>m \<in> set (ga_matched g). mr_requirement m = cm_requirement c
             \<and> Some (mr_evidence_id m) = cm_evidence_id c \<and> mr_strength m = cm_strength c)
          \<or> cm_requirement c \<in> set (ga_ungrounded g)
            \<and> \<lparr>ms_requirement = cm_requirement c, ms_severity = MAJOR\<rparr> \<in> set (ga_missing g)"
    proof (cases "cited_record evidence c")
      case None
      then show ?thesis using c by (simp add: gs gu)
    next
      case (Some r)
      then have "match_of evidence c \<in> set (ga_matched g)" using c by (simp add: gm)
      moreover have "cm_evidence_id c = Some (er_id r)" using cited_record_Some [OF Some] by simp
      ultimately show ?thesis
        by (intro disjI1 bexI [of _ "match_of evidence c"]) (simp_all add: match_of_def Some)
    qed
  qed
  moreover have "?count g"
    using sum_length_filter_compl [of "\<lambda>c. cited_record evidence c = None" "claims_of a"]
    by (simp add: gm gu)
  moreover have "?sugg g"
    by (auto simp: gt split: option.splits dest!: record_for_Some)
  ultimately show ?thesis using g by blast
qed

definition sample_evidence :: "evidence_record list" where
  "sample_evidence =
     [\<lparr>er_id = ''chunk-1'', er_source_type = PROJECT_EVIDENCE, er_source_ref = None,
       er_text = ''Shipped Go services''\<rparr>]"

definition sample_assessment :: semantic_assessment where
  "sample_assessment =
     \<lparr>sa_matched =
        [\<lparr>cm_requirement = ''Go'', cm_evidence_id = Some ''chunk-1'', cm_strength = STRONG\<rparr>,
         \<lparr>cm_requirement = ''Rust'', cm_evidence_id = Some ''chunk-9'', cm_strength = STRONG\<rparr>],
      sa_missing = [], sa_risks = [], sa_suggestions = []\<rparr>"

theorem only_cited_claims_are_kept_witness:
  "\<exists>g. ground_assessment sample_assessment sample_evidence = ret g
    \<and> length (ga_matched g) + length (ga_ungrounded g) = 2
    \<and> \<lparr>ms_requirement = ''Rust'', ms_severity = MAJOR\<rparr> \<in> set (ga_missing g)"
proof -
  have ok: "\<forall>r \<in> set sample_evidence. valid_evidence r" by code_simp
  let ?rust = "\<lparr>cm_requirement = ''Rust'', cm_evidence_id = Some ''chunk-9'', cm_strength = STRONG\<rparr>"
  have claims: "length (claims_of sample_assessment) = 2" "?rust \<in> set (sa_matched sample_assessment)"
    "\<not> blank (cm_requirement ?rust)" by code_simp+
  obtain g where g: "ground_assessment sample_assessment sample_evidence = ret g"
    and n: "length (ga_matched g) + length (ga_ungrounded g) = length (claims_of sample_assessment)"
    and real: "\<forall>m \<in> set (ga_matched g). \<exists>r \<in> set sample_evidence.
       mr_evidence_id m = er_id r \<and> mr_evidence_type m = er_source_type r"
    and every: "\<forall>c \<in> set (sa_matched sample_assessment). \<not> blank (cm_requirement c) \<longrightarrow>
          (\<exists>m \<in> set (ga_matched g). mr_requirement m = cm_requirement c
             \<and> Some (mr_evidence_id m) = cm_evidence_id c \<and> mr_strength m = cm_strength c)
          \<or> cm_requirement c \<in> set (ga_ungrounded g)
            \<and> \<lparr>ms_requirement = cm_requirement c, ms_severity = MAJOR\<rparr> \<in> set (ga_missing g)"
    using only_cited_claims_are_kept [OF ok, of sample_assessment] by blast
  from every claims(2,3) real have "\<lparr>ms_requirement = ''Rust'', ms_severity = MAJOR\<rparr> \<in> set (ga_missing g)"
    by (fastforce simp: sample_evidence_def)
  with g n claims(1) show ?thesis by auto
qed

section \<open>Constraints and verdicts\<close>

datatype constraint_status = PASSED | FAILED_CONSTRAINT | UNKNOWN
datatype constraint_effect = NO_EFFECT | CAP | REJECT

record constraint_result =
  cr_name :: string
  cr_status :: constraint_status
  cr_effect :: constraint_effect
  cr_cap :: "rat option"

definition unit_interval :: "rat \<Rightarrow> bool" where
  "unit_interval x \<longleftrightarrow> 0 \<le> x \<and> x \<le> 1"

definition valid_constraint :: "constraint_result \<Rightarrow> bool" where
  "valid_constraint c \<longleftrightarrow>
     (case cr_cap c of None \<Rightarrow> True | Some x \<Rightarrow> unit_interval x)
     \<and> (cr_effect c \<noteq> NO_EFFECT \<longrightarrow> cr_status c = FAILED_CONSTRAINT)
     \<and> ((cr_effect c = CAP) = (cr_cap c \<noteq> None))"

definition ConstraintResult_init :: "constraint_result \<Rightarrow> exn + constraint_result" where
  "ConstraintResult_init c =
     (if valid_constraint c then ret c else raise (validation_error ''constraint result''))"

record job_match =
  jm_dedupe_key :: string
  jm_score :: rat
  jm_recommendation :: recommendation_kind
  jm_matched :: "matched_requirement list"
  jm_missing :: "missing_requirement list"
  jm_risks :: "string list"
  jm_suggestions :: "tailoring_suggestion list"
  jm_weighted :: rat
  jm_components :: "(string \<times> rat) list"
  jm_weights :: "(string \<times> rat) list"
  jm_constraints :: "constraint_result list"
  jm_ungrounded :: "string list"

definition jm_rejected :: "job_match \<Rightarrow> bool" where
  "jm_rejected m \<longleftrightarrow> (\<exists>c \<in> set (jm_constraints m). cr_effect c = REJECT)"

definition caps_of :: "constraint_result list \<Rightarrow> rat list" where
  "caps_of cs = List.map_filter cr_cap cs"

definition jm_cap :: "job_match \<Rightarrow> rat option" where
  "jm_cap m = (case caps_of (jm_constraints m) of [] \<Rightarrow> None | c # cs \<Rightarrow> Some (foldl min c cs))"

definition valid_match :: "job_match \<Rightarrow> bool" where
  "valid_match m \<longleftrightarrow>
     unit_interval (jm_score m) \<and> unit_interval (jm_weighted m)
     \<and> (jm_rejected m \<longrightarrow> jm_score m = 0 \<and> jm_recommendation m = REC_SKIP)
     \<and> (case jm_cap m of None \<Rightarrow> True | Some c \<Rightarrow> jm_score m \<le> c)
     \<and> jm_score m \<le> jm_weighted m"

definition JobMatch_init :: "job_match \<Rightarrow> exn + job_match" where
  "JobMatch_init m =
     (if valid_match m then ret m else raise (validation_error ''job match''))"

text \<open>The citations of a match; an empty one on a suggestion is no citation.\<close>

definition jm_cited :: "job_match \<Rightarrow> string list" where
  "jm_cited m = map mr_evidence_id (jm_matched m)
     @ filter (\<lambda>n. n \<noteq> []) (List.map_filter ts_evidence_id (jm_suggestions m))"

definition ensure_grounded_in :: "job_match \<Rightarrow> string list \<Rightarrow> exn + unit" where
  "ensure_grounded_in m ids =
     (if \<forall>n \<in> set (jm_cited m). n \<in> set ids then ret ()
      else raise (contract_error ''job match cites evidence that is not on record''))"

record scored_posting =
  sc_posting :: normalized_posting
  sc_score :: rat
  sc_components :: "(string \<times> rat) list"
  sc_match :: "job_match option"

definition valid_scored :: "(pyval \<Rightarrow> string) \<Rightarrow> scored_posting \<Rightarrow> bool" where
  "valid_scored sha s \<longleftrightarrow>
     unit_interval (sc_score s) \<and> sc_components s \<noteq> []
     \<and> (case sc_match s of None \<Rightarrow> True
        | Some m \<Rightarrow> jm_dedupe_key m = dedupe_key sha (sc_posting s) \<and> jm_score m = sc_score s)"

definition ScoredPosting_init ::
  "(pyval \<Rightarrow> string) \<Rightarrow> scored_posting \<Rightarrow> exn + scored_posting" where
  "ScoredPosting_init sha s =
     (if valid_scored sha s then ret s else raise (validation_error ''scored posting''))"

record evidence_ref =
  ef_type :: string
  ef_ref :: string

record evidence_check =
  ec_dedupe_key :: string
  ec_grounded :: bool
  ec_citations :: "evidence_ref list"
  ec_unsupported :: "string list"

definition valid_check :: "evidence_check \<Rightarrow> bool" where
  "valid_check c \<longleftrightarrow>
     (\<forall>r \<in> set (ec_citations c). \<not> blank (ef_type r) \<and> \<not> blank (ef_ref r))
     \<and> (ec_grounded c \<longrightarrow> ec_citations c \<noteq> [])"

definition EvidenceCheck_init :: "evidence_check \<Rightarrow> exn + evidence_check" where
  "EvidenceCheck_init c =
     (if valid_check c then ret c else raise (validation_error ''evidence check''))"

section \<open>Configuration\<close>

fun STRENGTH_VALUES :: "match_strength \<Rightarrow> rat" where
  "STRENGTH_VALUES STRONG = 1"
| "STRENGTH_VALUES PARTIAL = 3 / 5"
| "STRENGTH_VALUES WEAK = 3 / 10"

fun SEVERITY_WEIGHTS :: "gap_severity \<Rightarrow> rat" where
  "SEVERITY_WEIGHTS BLOCKING = 1"
| "SEVERITY_WEIGHTS MAJOR = 3 / 5"
| "SEVERITY_WEIGHTS MINOR = 1 / 4"

definition LEVEL_TOKENS :: "(seniority_level \<times> string list) list" where
  "LEVEL_TOKENS =
     [(PRINCIPAL, [''principal'', ''distinguished'', ''fellow'']), (STAFF, [''staff'']),
      (SENIOR, [''senior'', ''sr'', ''lead'']), (MID, [''mid'', ''intermediate'']),
      (JUNIOR, [''junior'', ''jr'', ''entry'', ''graduate'', ''associate'']),
      (INTERN, [''intern'', ''internship''])]"

definition EMPLOYMENT_PHRASES :: "(employment_type \<times> string list) list" where
  "EMPLOYMENT_PHRASES =
     [(INTERNSHIP, [''intern'', ''internship'']),
      (CONTRACT, [''contract'', ''contractor'', ''freelance'']), (PART_TIME, [''part time'']),
      (TEMPORARY, [''temporary'', ''temp'', ''seasonal'']), (FULL_TIME, [''full time''])]"

record scoring_weights =
  sw_location :: rat
  sw_level :: rat
  sw_employment_type :: rat
  sw_requirement_coverage :: rat
  sw_semantic :: rat

definition weights_sum :: "scoring_weights \<Rightarrow> rat" where
  "weights_sum w = sw_location w + sw_level w + sw_employment_type w + sw_requirement_coverage w
     + sw_semantic w"

definition valid_weights :: "scoring_weights \<Rightarrow> bool" where
  "valid_weights w \<longleftrightarrow>
     0 \<le> sw_location w \<and> 0 \<le> sw_level w \<and> 0 \<le> sw_employment_type w
     \<and> 0 \<le> sw_requirement_coverage w \<and> 0 \<le> sw_semantic w
     \<and> \<bar>weights_sum w - 1\<bar> \<le> 1 / 1000000000"

definition default_weights :: scoring_weights where
  "default_weights =
     \<lparr>sw_location = 15 / 100, sw_level = 10 / 100, sw_employment_type = 10 / 100,
      sw_requirement_coverage = 30 / 100, sw_semantic = 35 / 100\<rparr>"

record scoring_config =
  cfg_weights :: scoring_weights
  cfg_apply_threshold :: rat
  cfg_maybe_threshold :: rat
  cfg_unknown_feature_value :: rat
  cfg_on_location_mismatch :: constraint_effect
  cfg_on_employment_type_mismatch :: constraint_effect
  cfg_on_level_mismatch :: constraint_effect
  cfg_on_blocking_requirement :: constraint_effect
  cfg_capped_score :: rat

definition valid_config :: "scoring_config \<Rightarrow> bool" where
  "valid_config c \<longleftrightarrow>
     valid_weights (cfg_weights c) \<and> unit_interval (cfg_apply_threshold c)
     \<and> unit_interval (cfg_maybe_threshold c) \<and> unit_interval (cfg_unknown_feature_value c)
     \<and> unit_interval (cfg_capped_score c)
     \<and> cfg_maybe_threshold c \<le> cfg_apply_threshold c
     \<and> cfg_capped_score c < cfg_apply_threshold c"

definition default_config :: scoring_config where
  "default_config =
     \<lparr>cfg_weights = default_weights, cfg_apply_threshold = 7 / 10,
      cfg_maybe_threshold = 45 / 100, cfg_unknown_feature_value = 1 / 2,
      cfg_on_location_mismatch = REJECT, cfg_on_employment_type_mismatch = REJECT,
      cfg_on_level_mismatch = CAP, cfg_on_blocking_requirement = CAP,
      cfg_capped_score = 1 / 2\<rparr>"

section \<open>Features\<close>

fun occurs_in :: "string \<Rightarrow> string \<Rightarrow> bool" where
  "occurs_in sub [] = (sub = [])"
| "occurs_in sub (c # s) = (starts_with sub (c # s) \<or> occurs_in sub s)"

definition contains_phrase :: "string \<Rightarrow> string \<Rightarrow> bool" where
  "contains_phrase haystack phrase \<longleftrightarrow>
     phrase \<noteq> [] \<and> occurs_in ('' '' @ phrase @ '' '') ('' '' @ haystack @ '' '')"

definition infer_seniority :: "string \<Rightarrow> seniority_level option" where
  "infer_seniority title =
     (let tokens = split_words (canonical_text title)
      in map_option fst (find_first (\<lambda>(l, markers). \<exists>t \<in> set tokens. t \<in> set markers) LEVEL_TOKENS))"

definition infer_employment_type :: "string \<Rightarrow> employment_type option" where
  "infer_employment_type title =
     map_option fst (find_first (\<lambda>(k, phrases). \<exists>p \<in> set phrases. contains_phrase (canonical_text title) p)
       EMPLOYMENT_PHRASES)"

text \<open>
  \<open>_result\<close>: the value \<open>ConstraintResult\<close>'s validator accepts for every valid configuration
  (\<open>constraints_are_consistent\<close>).
\<close>

definition result ::
  "string \<Rightarrow> constraint_status \<Rightarrow> scoring_config \<Rightarrow> constraint_effect \<Rightarrow> constraint_result" where
  "result name status config on_failure =
     (let effect = (if status = FAILED_CONSTRAINT then on_failure else NO_EFFECT)
      in \<lparr>cr_name = name, cr_status = status, cr_effect = effect,
          cr_cap = (if effect = CAP then Some (cfg_capped_score config) else None)\<rparr>)"

definition location_feature ::
  "normalized_posting \<Rightarrow> search_profile \<Rightarrow> scoring_config \<Rightarrow> rat \<times> constraint_result" where
  "location_feature p profile config =
     (let fail = cfg_on_location_mismatch config;
          targets = filter (\<lambda>t. t \<noteq> []) (map canonical_text (sp_target_locations profile));
          location = canonical_text (case np_location p of None \<Rightarrow> [] | Some l \<Rightarrow> l);
          remote = np_remote p \<or> contains_phrase location ''remote''
      in if sp_remote_only profile \<and> \<not> remote
         then (0, result ''location'' FAILED_CONSTRAINT config fail)
         else if targets = [] then (1, result ''location'' PASSED config NO_EFFECT)
         else if remote then (1, result ''location'' PASSED config NO_EFFECT)
         else if location = []
         then (cfg_unknown_feature_value config, result ''location'' UNKNOWN config NO_EFFECT)
         else if \<exists>t \<in> set targets. contains_phrase location t \<or> contains_phrase t location
         then (1, result ''location'' PASSED config NO_EFFECT)
         else (0, result ''location'' FAILED_CONSTRAINT config fail))"

text \<open>\<open>min\<close> over a non-empty list.\<close>

definition level_distance :: "seniority_level \<Rightarrow> seniority_level list \<Rightarrow> int" where
  "level_distance l wanted =
     (case map (\<lambda>v. \<bar>seniority_rank l - seniority_rank v\<bar>) wanted of
        [] \<Rightarrow> 0 | d # ds \<Rightarrow> foldl min d ds)"

definition level_feature ::
  "normalized_posting \<Rightarrow> search_profile \<Rightarrow> scoring_config \<Rightarrow> rat \<times> constraint_result" where
  "level_feature p profile config =
     (if sp_seniority_levels profile = [] then (1, result ''level'' PASSED config NO_EFFECT)
      else case infer_seniority (np_title p) of
        None \<Rightarrow> (cfg_unknown_feature_value config, result ''level'' UNKNOWN config NO_EFFECT)
      | Some l \<Rightarrow>
          let distance = level_distance l (sp_seniority_levels profile)
          in if distance = 0 then (1, result ''level'' PASSED config NO_EFFECT)
             else if distance = 1 then (1 / 2, result ''level'' PASSED config NO_EFFECT)
             else (0, result ''level'' FAILED_CONSTRAINT config (cfg_on_level_mismatch config)))"

definition employment_type_feature ::
  "normalized_posting \<Rightarrow> search_profile \<Rightarrow> scoring_config \<Rightarrow> rat \<times> constraint_result" where
  "employment_type_feature p profile config =
     (if sp_employment_types profile = []
      then (1, result ''employment_type'' PASSED config NO_EFFECT)
      else case infer_employment_type (np_title p) of
        None \<Rightarrow>
          (cfg_unknown_feature_value config, result ''employment_type'' UNKNOWN config NO_EFFECT)
      | Some k \<Rightarrow>
          if k \<in> set (sp_employment_types profile)
          then (1, result ''employment_type'' PASSED config NO_EFFECT)
          else (0, result ''employment_type'' FAILED_CONSTRAINT config
                     (cfg_on_employment_type_mismatch config)))"

text \<open>The loop over the stated skills; \<open>seen\<close> holds the phrases already looked up.\<close>

fun coverage_loop ::
  "evidence_record list \<Rightarrow> string list \<Rightarrow> string list \<Rightarrow>
   (string \<times> evidence_record) list \<times> string list" where
  "coverage_loop evidence seen [] = ([], [])"
| "coverage_loop evidence seen (skill # skills) =
     (let phrase = canonical_text skill in
      if phrase = [] \<or> phrase \<in> set seen then coverage_loop evidence seen skills
      else
        let (covered, uncovered) = coverage_loop evidence (phrase # seen) skills
        in case find_first (\<lambda>r. contains_phrase (canonical_text (er_text r)) phrase) evidence of
             None \<Rightarrow> (covered, skill # uncovered)
           | Some r \<Rightarrow> ((skill, r) # covered, uncovered))"

definition requirement_coverage ::
  "normalized_posting \<Rightarrow> evidence_record list \<Rightarrow>
   (string \<times> evidence_record) list \<times> string list" where
  "requirement_coverage p evidence = coverage_loop evidence [] (np_skills p)"

definition semantic_value :: "grounded_assessment \<Rightarrow> rat" where
  "semantic_value g =
     (let earned = sum_list (map (\<lambda>m. STRENGTH_VALUES (mr_strength m)) (ga_matched g));
          owed = of_nat (length (ga_matched g))
            + sum_list (map (\<lambda>m. SEVERITY_WEIGHTS (ms_severity m)) (ga_missing g))
      in if owed \<noteq> 0 then earned / owed else 0)"

section \<open>The matcher\<close>

text \<open>\<open>round(x, 4)\<close>: to the nearest, a tie to the even neighbour.\<close>

definition round_half_even :: "rat \<Rightarrow> int" where
  "round_half_even x =
     (let f = \<lfloor>x\<rfloor>; d = x - of_int f
      in if d < 1 / 2 then f else if d > 1 / 2 then f + 1 else if even f then f else f + 1)"

definition round4 :: "rat \<Rightarrow> rat" where
  "round4 x = of_int (round_half_even (x * 10000)) / 10000"

record 'w matcher =
  mt_load :: "uuid \<Rightarrow> 'w \<Rightarrow> (exn + evidence_record list) \<times> 'w"
  mt_assess :: "normalized_posting \<Rightarrow> search_profile \<Rightarrow> evidence_record list \<Rightarrow> 'w \<Rightarrow>
    (exn + semantic_assessment) \<times> 'w"
  mt_config :: scoring_config
  mt_sha :: "pyval \<Rightarrow> string"

text \<open>What stands in for an assessment when the assessor fails.\<close>

fun keyword_matches ::
  "(string \<times> evidence_record) list \<Rightarrow> exn + matched_requirement list" where
  "keyword_matches [] = ret []"
| "keyword_matches ((skill, r) # rest) =
     (case MatchedRequirement_init
        \<lparr>mr_requirement = skill, mr_evidence_id = er_id r, mr_evidence_type = er_source_type r,
         mr_strength = PARTIAL\<rparr> of
        Inl e \<Rightarrow> raise e
      | Inr m \<Rightarrow> (case keyword_matches rest of Inl e \<Rightarrow> raise e | Inr ms \<Rightarrow> ret (m # ms)))"

fun keyword_gaps :: "string list \<Rightarrow> exn + missing_requirement list" where
  "keyword_gaps [] = ret []"
| "keyword_gaps (skill # rest) =
     (case MissingRequirement_init \<lparr>ms_requirement = skill, ms_severity = MAJOR\<rparr> of
        Inl e \<Rightarrow> raise e
      | Inr g \<Rightarrow> (case keyword_gaps rest of Inl e \<Rightarrow> raise e | Inr gs \<Rightarrow> ret (g # gs)))"

definition assess_posting ::
  "'w matcher \<Rightarrow> normalized_posting \<Rightarrow> search_profile \<Rightarrow> evidence_record list \<Rightarrow>
   (string \<times> evidence_record) list \<Rightarrow> string list \<Rightarrow> 'w \<Rightarrow> (exn + grounded_assessment) \<times> 'w" where
  "assess_posting mt p profile evidence covered uncovered w =
     (case mt_assess mt p profile evidence w of
        (Inr a, w1) \<Rightarrow> (ground_assessment a evidence, w1)
      | (Inl _, w1) \<Rightarrow>
          (case keyword_matches covered of
             Inl e \<Rightarrow> (raise e, w1)
           | Inr ms \<Rightarrow>
               (case keyword_gaps uncovered of
                  Inl e \<Rightarrow> (raise e, w1)
                | Inr gs \<Rightarrow>
                    (ret \<lparr>ga_matched = ms, ga_missing = gs,
                          ga_risks = [''semantic assessment unavailable; matches are keyword-level only''],
                          ga_suggestions = [], ga_ungrounded = []\<rparr>, w1))))"

definition weights_dict :: "scoring_weights \<Rightarrow> (string \<times> rat) list" where
  "weights_dict w =
     [(''location'', sw_location w), (''level'', sw_level w),
      (''employment_type'', sw_employment_type w),
      (''requirement_coverage'', sw_requirement_coverage w), (''semantic'', sw_semantic w)]"

definition recommend_for :: "scoring_config \<Rightarrow> bool \<Rightarrow> rat \<Rightarrow> recommendation_kind" where
  "recommend_for config rejected score =
     (if rejected then REC_SKIP
      else if score \<ge> cfg_apply_threshold config then REC_APPLY
      else if score \<ge> cfg_maybe_threshold config then REC_MAYBE
      else REC_SKIP)"

text \<open>The verdict, once everything it rests on is known.\<close>

definition verdict ::
  "'w matcher \<Rightarrow> normalized_posting \<Rightarrow> search_profile \<Rightarrow> evidence_record list \<Rightarrow>
   grounded_assessment \<Rightarrow> job_match" where
  "verdict mt p profile evidence g =
     (let config = mt_config mt;
          (location, location_check) = location_feature p profile config;
          (level, level_check) = level_feature p profile config;
          (employment, employment_check) = employment_type_feature p profile config;
          (covered, uncovered) = requirement_coverage p evidence;
          stated = length covered + length uncovered;
          coverage = (if stated \<noteq> 0 then of_nat (length covered) / of_nat stated
                      else cfg_unknown_feature_value config);
          blocking = filter (\<lambda>m. ms_severity m = BLOCKING) (ga_missing g);
          blocking_check = result ''blocking_requirement''
            (if blocking \<noteq> [] then FAILED_CONSTRAINT else PASSED) config
            (cfg_on_blocking_requirement config);
          constraints = [location_check, level_check, employment_check, blocking_check];
          components =
            [(''location'', round4 location), (''level'', round4 level),
             (''employment_type'', round4 employment),
             (''requirement_coverage'', round4 coverage), (''semantic'', round4 (semantic_value g))];
          weights = weights_dict (cfg_weights config);
          weighted = round4 (sum_list (map (\<lambda>(name, value). the (map_of weights name) * value)
            components));
          rejected = (\<exists>c \<in> set constraints. cr_effect c = REJECT);
          score = (if rejected then 0 else foldl min weighted (caps_of constraints))
      in \<lparr>jm_dedupe_key = dedupe_key (mt_sha mt) p, jm_score = score,
          jm_recommendation = recommend_for config rejected score,
          jm_matched = ga_matched g, jm_missing = ga_missing g, jm_risks = ga_risks g,
          jm_suggestions = ga_suggestions g, jm_weighted = weighted, jm_components = components,
          jm_weights = weights, jm_constraints = constraints, jm_ungrounded = ga_ungrounded g\<rparr>)"

definition match_posting ::
  "'w matcher \<Rightarrow> normalized_posting \<Rightarrow> search_profile \<Rightarrow> 'w \<Rightarrow> (exn + job_match) \<times> 'w" where
  "match_posting mt p profile w =
     (case mt_load mt (sp_user_id profile) w of
        (Inl e, w1) \<Rightarrow> (raise e, w1)
      | (Inr evidence, w1) \<Rightarrow>
          let (covered, uncovered) = requirement_coverage p evidence in
          case assess_posting mt p profile evidence covered uncovered w1 of
            (Inl e, w2) \<Rightarrow> (raise e, w2)
          | (Inr g, w2) \<Rightarrow> (JobMatch_init (verdict mt p profile evidence g), w2))"

definition score_posting ::
  "'w matcher \<Rightarrow> normalized_posting \<Rightarrow> search_profile \<Rightarrow> 'w \<Rightarrow> (exn + scored_posting) \<times> 'w" where
  "score_posting mt p profile w =
     (case match_posting mt p profile w of
        (Inl e, w1) \<Rightarrow> (raise e, w1)
      | (Inr m, w1) \<Rightarrow>
          (ScoredPosting_init (mt_sha mt)
             \<lparr>sc_posting = p, sc_score = jm_score m, sc_components = jm_components m,
              sc_match = Some m\<rparr>, w1))"

text \<open>\<open>EvidenceRef\<close>'s validator runs with that of the check it is part of.\<close>

definition check_evidence :: "(pyval \<Rightarrow> string) \<Rightarrow> scored_posting \<Rightarrow> exn + evidence_check" where
  "check_evidence sha s =
     (case sc_match s of
        None \<Rightarrow> EvidenceCheck_init
          \<lparr>ec_dedupe_key = dedupe_key sha (sc_posting s), ec_grounded = False, ec_citations = [],
           ec_unsupported = [''posting was scored without an evidence-grounded match'']\<rparr>
      | Some m \<Rightarrow>
          let citations = map (\<lambda>r. \<lparr>ef_type = evidence_type_value (mr_evidence_type r),
                                     ef_ref = mr_evidence_id r\<rparr>) (jm_matched m)
          in EvidenceCheck_init
               \<lparr>ec_dedupe_key = jm_dedupe_key m, ec_grounded = (citations \<noteq> []),
                ec_citations = citations, ec_unsupported = jm_ungrounded m\<rparr>)"

section \<open>Bounds\<close>

lemma blank_iff: "blank s \<longleftrightarrow> (\<forall>c \<in> set s. is_space c)"
proof
  assume b: "blank s"
  then have all: "\<forall>c \<in> set (dropWhile is_space s). is_space c"
    by (auto simp: blank_def strip_def dropWhile_eq_Nil_conv)
  have "dropWhile is_space s = []"
  proof (rule ccontr)
    assume ne: "dropWhile is_space s \<noteq> []"
    then show False using all hd_dropWhile [OF ne] hd_in_set [OF ne] by blast
  qed
  then show "\<forall>c \<in> set s. is_space c" by (simp add: dropWhile_eq_Nil_conv)
next
  assume "\<forall>c \<in> set s. is_space c"
  then show "blank s" by (auto simp: blank_def strip_def dest: set_dropWhileD)
qed

lemma runs_none: "\<forall>c \<in> set s. \<not> p c \<Longrightarrow> runs p s = []"
  by (induction s) auto

lemma blank_folds_to_nothing: "blank s \<Longrightarrow> canonical_text s = []"
proof -
  assume "blank s"
  then have "\<forall>c \<in> set (lower (strip_unsafe_chars s)). \<not> is_word c"
    using lower_char_cases(4) by (auto simp: blank_iff lower_def strip_unsafe_chars_def lower_char_cases(2))
  then show ?thesis by (simp add: canonical_text_def runs_none)
qed

lemma round_half_even_bounds:
  assumes "0 \<le> x" and "x \<le> of_int n + 1 / 4"
  shows "0 \<le> round_half_even x \<and> round_half_even x \<le> n"
proof -
  have f: "0 \<le> \<lfloor>x\<rfloor>" "\<lfloor>x\<rfloor> \<le> n"
    using assms by (simp, linarith)
  have "round_half_even x \<le> n"
  proof (cases "\<lfloor>x\<rfloor> = n")
    case True
    then have "x - of_int \<lfloor>x\<rfloor> < 1 / 2" using assms(2) by simp
    then show ?thesis using True by (simp add: round_half_even_def Let_def)
  next
    case False
    then show ?thesis using f(2) by (auto simp: round_half_even_def Let_def)
  qed
  moreover have "0 \<le> round_half_even x" using f(1) by (auto simp: round_half_even_def Let_def)
  ultimately show ?thesis by simp
qed

lemma round4_unit:
  assumes "0 \<le> x" and "x \<le> 1 + 1 / 1000000000"
  shows "unit_interval (round4 x)"
proof -
  have "0 \<le> x * 10000" "x * 10000 \<le> of_int 10000 + 1 / 4" using assms by simp_all
  from round_half_even_bounds [OF this] have b: "0 \<le> round_half_even (x * 10000)"
    "round_half_even (x * 10000) \<le> 10000" by simp_all
  from b(2) have "(of_int (round_half_even (x * 10000)) :: rat) \<le> of_int 10000"
    by (rule of_int_le_iff [THEN iffD2])
  with b(1) show ?thesis by (simp add: round4_def unit_interval_def)
qed

lemma foldl_min:
  fixes a :: "'a::linorder"
  shows "foldl min a xs \<le> a" and "x \<in> set xs \<Longrightarrow> foldl min a xs \<le> x"
    and "l \<le> a \<Longrightarrow> (\<And>x. x \<in> set xs \<Longrightarrow> l \<le> x) \<Longrightarrow> l \<le> foldl min a xs"
proof -
  have le: "foldl min b ys \<le> b" for b :: 'a and ys
  proof (induction ys arbitrary: b)
    case (Cons y ys)
    have "foldl min (min b y) ys \<le> min b y" by (rule Cons)
    also have "min b y \<le> b" by (rule min.cobounded1)
    finally show ?case by simp
  qed simp
  show "foldl min a xs \<le> a" by (rule le)
  show "x \<in> set xs \<Longrightarrow> foldl min a xs \<le> x"
  proof (induction xs arbitrary: a)
    case (Cons y ys)
    show ?case
    proof (cases "x = y")
      case True
      have "foldl min (min a y) ys \<le> min a y" by (rule le)
      also have "min a y \<le> y" by (rule min.cobounded2)
      finally show ?thesis using True by simp
    qed (use Cons in simp)
  qed simp
  show "l \<le> a \<Longrightarrow> (\<And>x. x \<in> set xs \<Longrightarrow> l \<le> x) \<Longrightarrow> l \<le> foldl min a xs"
    by (induction xs arbitrary: a) auto
qed

lemma result_simps [simp]:
  "cr_cap (result name status config eff) =
     (if status = FAILED_CONSTRAINT \<and> eff = CAP then Some (cfg_capped_score config) else None)"
  "cr_effect (result name status config eff) = (if status = FAILED_CONSTRAINT then eff else NO_EFFECT)"
  "cr_status (result name status config eff) = status"
  by (simp_all add: result_def Let_def)

lemma constraints_are_consistent:
  assumes "unit_interval (cfg_capped_score config)"
  shows "ConstraintResult_init (result name status config eff) = ret (result name status config eff)"
proof -
  have "valid_constraint (result name status config eff)"
    using assms by (cases eff; cases "status = FAILED_CONSTRAINT")
      (simp_all add: valid_constraint_def)
  then show ?thesis by (simp add: ConstraintResult_init_def)
qed

text \<open>A feature is a value in the unit interval and a constraint of the configuration.\<close>

definition feature_ok :: "scoring_config \<Rightarrow> rat \<times> constraint_result \<Rightarrow> bool" where
  "feature_ok config f \<longleftrightarrow>
     unit_interval (fst f) \<and> (\<exists>name status eff. snd f = result name status config eff)"

lemma feature_ok_intro [intro]:
  "unit_interval v \<Longrightarrow> feature_ok config (v, result name status config eff)"
  by (auto simp: feature_ok_def)

lemma features_ok:
  assumes "valid_config config"
  shows "feature_ok config (location_feature p profile config)"
    and "feature_ok config (level_feature p profile config)"
    and "feature_ok config (employment_type_feature p profile config)"
proof -
  have u: "unit_interval 0" "unit_interval 1" "unit_interval (1 / 2)"
    "unit_interval (cfg_unknown_feature_value config)"
    using assms by (simp_all add: unit_interval_def valid_config_def)
  show "feature_ok config (location_feature p profile config)"
    by (auto simp: location_feature_def Let_def u)
  show "feature_ok config (level_feature p profile config)"
    by (auto simp: level_feature_def Let_def u split: option.splits)
  show "feature_ok config (employment_type_feature p profile config)"
    by (auto simp: employment_type_feature_def u split: option.splits)
qed

lemma sum_list_bounds:
  fixes f :: "'a \<Rightarrow> rat"
  shows "(\<And>x. 0 \<le> f x) \<Longrightarrow> 0 \<le> sum_list (map f xs)"
    and "(\<And>x. f x \<le> 1) \<Longrightarrow> sum_list (map f xs) \<le> of_nat (length xs)"
proof -
  show "(\<And>x. 0 \<le> f x) \<Longrightarrow> 0 \<le> sum_list (map f xs)" by (induction xs) auto
  assume le: "\<And>x. f x \<le> 1"
  show "sum_list (map f xs) \<le> of_nat (length xs)"
  proof (induction xs)
    case (Cons x xs)
    then show ?case using add_mono [OF le [of x] Cons] by simp
  qed simp
qed

lemma strength_bounds: "0 \<le> STRENGTH_VALUES s" "STRENGTH_VALUES s \<le> 1"
  by (cases s; simp)+

lemma severity_bounds: "0 \<le> SEVERITY_WEIGHTS s" "SEVERITY_WEIGHTS s \<le> 1"
  by (cases s; simp)+

lemma semantic_value_unit: "unit_interval (semantic_value g)"
proof -
  let ?earned = "sum_list (map (\<lambda>m. STRENGTH_VALUES (mr_strength m)) (ga_matched g))"
  let ?gaps = "sum_list (map (\<lambda>m. SEVERITY_WEIGHTS (ms_severity m)) (ga_missing g))"
  have "0 \<le> ?earned" "?earned \<le> of_nat (length (ga_matched g))" "0 \<le> ?gaps"
    by (simp_all add: sum_list_bounds strength_bounds severity_bounds)
  then show ?thesis
    by (auto simp: semantic_value_def Let_def unit_interval_def divide_le_eq_1 zero_le_divide_iff)
qed

section \<open>Verdicts keep their contract\<close>

lemma caps_of_results:
  assumes "\<forall>c \<in> set cs. \<exists>name status eff. c = result name status config eff"
    and "x \<in> set (caps_of cs)"
  shows "x = cfg_capped_score config"
  using assms by (induction cs) (auto simp: caps_of_def map_filter_simps split: option.splits if_splits)

lemma weighted_unit:
  assumes "valid_config config"
    and "unit_interval a" "unit_interval b" "unit_interval c" "unit_interval d" "unit_interval e"
  shows "unit_interval (round4 (sum_list (map (\<lambda>(name, value).
      the (map_of (weights_dict (cfg_weights config)) name) * value)
    [(''location'', a), (''level'', b), (''employment_type'', c), (''requirement_coverage'', d),
     (''semantic'', e)])))"
proof (rule round4_unit)
  let ?w = "cfg_weights config"
  let ?sum = "sum_list (map (\<lambda>(name, value). the (map_of (weights_dict ?w) name) * value)
    [(''location'', a), (''level'', b), (''employment_type'', c), (''requirement_coverage'', d),
     (''semantic'', e)])"
  have eq: "?sum = sw_location ?w * a + (sw_level ?w * b + (sw_employment_type ?w * c
      + (sw_requirement_coverage ?w * d + sw_semantic ?w * e)))"
    by (simp add: weights_dict_def)
  have w: "0 \<le> sw_location ?w" "0 \<le> sw_level ?w" "0 \<le> sw_employment_type ?w"
    "0 \<le> sw_requirement_coverage ?w" "0 \<le> sw_semantic ?w"
    and dev: "\<bar>weights_sum ?w - 1\<bar> \<le> 1 / 1000000000"
    using assms(1) unfolding valid_config_def valid_weights_def by blast+
  from abs_le_D1 [OF dev] have total: "weights_sum ?w \<le> 1 + 1 / 1000000000" by linarith
  have le: "x * y \<le> x" "0 \<le> x * y" if "0 \<le> x" "unit_interval y" for x y :: rat
    using that mult_left_mono [of y 1 x] by (auto simp: unit_interval_def)
  show "0 \<le> ?sum" unfolding eq by (intro add_nonneg_nonneg le w assms)
  have "?sum \<le> weights_sum ?w"
    unfolding eq weights_sum_def add.assoc by (intro add_mono le w assms)
  with total show "?sum \<le> 1 + 1 / 1000000000" by simp
qed

lemma round4_of_unit: "unit_interval x \<Longrightarrow> unit_interval (round4 x)"
  by (rule round4_unit) (auto simp: unit_interval_def)

text \<open>The parts of a verdict the validator of a match looks at.\<close>

lemma verdict_parts:
  fixes mt :: "'w matcher" and p profile evidence g
  assumes "valid_config (mt_config mt)"
  defines "m \<equiv> verdict mt p profile evidence g"
  shows "unit_interval (jm_weighted m)"
    and "jm_score m = (if jm_rejected m then 0 else foldl min (jm_weighted m) (caps_of (jm_constraints m)))"
    and "jm_recommendation m = recommend_for (mt_config mt) (jm_rejected m) (jm_score m)"
    and "\<forall>c \<in> set (jm_constraints m). \<exists>name status eff. c = result name status (mt_config mt) eff"
    and "jm_matched m = ga_matched g" and "jm_dedupe_key m = dedupe_key (mt_sha mt) p"
    and "jm_components m \<noteq> []"
proof -
  let ?c = "mt_config mt"
  obtain l lc where l: "location_feature p profile ?c = (l, lc)" by force
  obtain v vc where v: "level_feature p profile ?c = (v, vc)" by force
  obtain k kc where k: "employment_type_feature p profile ?c = (k, kc)" by force
  obtain yes no where r: "requirement_coverage p evidence = (yes, no)" by force
  have u: "unit_interval l" "unit_interval v" "unit_interval k"
    and cs: "\<exists>name status eff. lc = result name status ?c eff"
      "\<exists>name status eff. vc = result name status ?c eff"
      "\<exists>name status eff. kc = result name status ?c eff"
    using features_ok [OF assms(1), of p profile] by (simp_all add: feature_ok_def l v k)
  have cov: "unit_interval (if length yes + length no \<noteq> 0
      then of_nat (length yes) / of_nat (length yes + length no)
      else cfg_unknown_feature_value ?c)"
    using assms(1) by (auto simp: unit_interval_def valid_config_def divide_le_eq_1 zero_le_divide_iff)
  note parts = weighted_unit [OF assms(1) u(1) [THEN round4_of_unit] u(2) [THEN round4_of_unit]
      u(3) [THEN round4_of_unit] cov [THEN round4_of_unit]
      semantic_value_unit [of g, THEN round4_of_unit]]
  show "unit_interval (jm_weighted m)"
    using parts by (simp add: m_def verdict_def Let_def l v k r cong: if_cong)
  show "jm_score m = (if jm_rejected m then 0 else foldl min (jm_weighted m) (caps_of (jm_constraints m)))"
    by (simp add: m_def verdict_def Let_def l v k r jm_rejected_def)
  show "jm_recommendation m = recommend_for (mt_config mt) (jm_rejected m) (jm_score m)"
    by (simp add: m_def verdict_def Let_def l v k r jm_rejected_def)
  show "\<forall>c \<in> set (jm_constraints m). \<exists>name status eff. c = result name status (mt_config mt) eff"
    using cs by (auto simp: m_def verdict_def Let_def l v k r)
  show "jm_matched m = ga_matched g" "jm_dedupe_key m = dedupe_key (mt_sha mt) p"
    "jm_components m \<noteq> []"
    by (simp_all add: m_def verdict_def Let_def l v k r)
qed

lemma score_bounds:
  fixes mt :: "'w matcher" and p profile evidence g
  assumes "valid_config (mt_config mt)"
  defines "m \<equiv> verdict mt p profile evidence g"
  shows "unit_interval (jm_score m)" and "jm_score m \<le> jm_weighted m"
    and "x \<in> set (caps_of (jm_constraints m)) \<Longrightarrow> jm_score m \<le> x"
proof -
  note vp = verdict_parts [OF assms(1), of p profile evidence g, folded m_def]
  have caps: "x \<in> set (caps_of (jm_constraints m)) \<Longrightarrow> x = cfg_capped_score (mt_config mt)" for x
    using caps_of_results [OF vp(4)] by blast
  have cap0: "0 \<le> cfg_capped_score (mt_config mt)"
    using assms(1) by (simp add: valid_config_def unit_interval_def)
  have w: "0 \<le> jm_weighted m" "jm_weighted m \<le> 1" using vp(1) by (simp_all add: unit_interval_def)
  have "0 \<le> foldl min (jm_weighted m) (caps_of (jm_constraints m))"
    by (rule foldl_min(3)) (use w caps cap0 in auto)
  then have "0 \<le> jm_score m" by (simp add: vp(2))
  moreover show le: "jm_score m \<le> jm_weighted m" using w by (simp add: vp(2) foldl_min(1))
  ultimately show "unit_interval (jm_score m)" using w by (simp add: unit_interval_def)
  show "jm_score m \<le> x" if "x \<in> set (caps_of (jm_constraints m))"
    using that caps [OF that] cap0 by (simp add: vp(2) foldl_min(2))
qed

lemma jm_cap_Some: "jm_cap m = Some x \<Longrightarrow> x \<in> set (caps_of (jm_constraints m))"
proof -
  have "foldl min c cs \<in> set (c # cs)" for c :: rat and cs
    by (induction cs arbitrary: c) (auto simp: min_def)
  then show "jm_cap m = Some x \<Longrightarrow> ?thesis" by (auto simp: jm_cap_def split: list.splits)
qed

lemma verdict_valid:
  assumes "valid_config (mt_config mt)"
  shows "valid_match (verdict mt p profile evidence g)"
  using score_bounds [OF assms, where p = p and profile = profile and evidence = evidence and g = g]
    verdict_parts(1-3) [OF assms, of p profile evidence g]
  by (auto simp: valid_match_def recommend_for_def split: option.splits dest: jm_cap_Some)

lemma coverage_loop_spec:
  assumes "coverage_loop evidence seen skills = (covered, uncovered)"
  shows "(skill, r) \<in> set covered \<Longrightarrow> \<not> blank skill \<and> r \<in> set evidence"
    and "skill \<in> set uncovered \<Longrightarrow> \<not> blank skill"
  using assms
  by (induction evidence seen skills arbitrary: covered uncovered rule: coverage_loop.induct)
    (fastforce simp: Let_def split: if_splits prod.splits option.splits
      dest: blank_folds_to_nothing find_first_Some)+

lemma keyword_lists:
  assumes "\<forall>r \<in> set evidence. valid_evidence r"
  shows "(\<forall>(skill, r) \<in> set covered. \<not> blank skill \<and> r \<in> set evidence) \<Longrightarrow>
      \<exists>ms. keyword_matches covered = ret ms
        \<and> (\<forall>m \<in> set ms. mr_evidence_id m \<in> er_id ` set evidence)"
    and "(\<forall>skill \<in> set uncovered. \<not> blank skill) \<Longrightarrow> \<exists>gs. keyword_gaps uncovered = ret gs"
proof -
  show "(\<forall>(skill, r) \<in> set covered. \<not> blank skill \<and> r \<in> set evidence) \<Longrightarrow>
      \<exists>ms. keyword_matches covered = ret ms
        \<and> (\<forall>m \<in> set ms. mr_evidence_id m \<in> er_id ` set evidence)"
    by (induction covered rule: keyword_matches.induct)
      (use assms in \<open>auto simp: MatchedRequirement_init_def valid_evidence_def\<close>)
  show "(\<forall>skill \<in> set uncovered. \<not> blank skill) \<Longrightarrow> \<exists>gs. keyword_gaps uncovered = ret gs"
    by (induction uncovered) (auto simp: MissingRequirement_init_def)
qed

text \<open>An assessment, grounded or stood in for, cites only what is on record.\<close>

lemma assess_posting_ok:
  assumes ev: "\<forall>r \<in> set evidence. valid_evidence r"
    and cov: "requirement_coverage p evidence = (covered, uncovered)"
  shows "\<exists>g w2. assess_posting mt p profile evidence covered uncovered w = (ret g, w2)
    \<and> (\<forall>m \<in> set (ga_matched g). mr_evidence_id m \<in> er_id ` set evidence)
    \<and> (\<forall>s \<in> set (ga_suggestions g). \<forall>n. ts_evidence_id s = Some n \<longrightarrow> n \<in> er_id ` set evidence)"
proof (cases "mt_assess mt p profile evidence w")
  case (Pair r w2)
  show ?thesis
  proof (cases r)
    case (Inl e)
    note c = coverage_loop_spec [OF cov [unfolded requirement_coverage_def]]
    obtain ms where ms: "keyword_matches covered = ret ms"
      "\<forall>m \<in> set ms. mr_evidence_id m \<in> er_id ` set evidence"
      using keyword_lists(1) [OF ev, of covered] c(1) by auto
    obtain gs where gs: "keyword_gaps uncovered = ret gs"
      using keyword_lists(2) [OF ev, of uncovered] c(2) by auto
    show ?thesis using ms gs by (simp add: assess_posting_def Pair Inl)
  next
    case (Inr a)
    from ground_assessment_eq [OF ev, of a]
    show ?thesis
      by (auto simp: assess_posting_def Pair Inr Let_def match_of_def split: option.splits
          dest!: cited_record_Some record_for_Some)
  qed
qed

lemma verdict_suggestions:
  "jm_suggestions (verdict mt p profile evidence g) = ga_suggestions g"
  "jm_ungrounded (verdict mt p profile evidence g) = ga_ungrounded g"
  "jm_missing (verdict mt p profile evidence g) = ga_missing g"
  by (simp_all add: verdict_def Let_def split_beta)

lemma check_evidence_ok:
  assumes "sc_match s = Some m" and "\<forall>r \<in> set (jm_matched m). \<not> blank (mr_evidence_id r)"
  shows "\<exists>c. check_evidence sha s = ret c \<and> (ec_grounded c \<longleftrightarrow> jm_matched m \<noteq> [])
    \<and> map ef_ref (ec_citations c) = map mr_evidence_id (jm_matched m)
    \<and> ec_dedupe_key c = jm_dedupe_key m"
proof -
  have "\<not> blank ''resume''" "\<not> blank ''project''" by code_simp+
  then have "\<not> blank (evidence_type_value t)" for t by (cases t) simp_all
  then show ?thesis
    using assms by (auto simp: check_evidence_def EvidenceCheck_init_def valid_check_def Let_def comp_def)
qed

lemma matching_contract_match:
  assumes cfg: "valid_config (mt_config mt)"
    and load: "mt_load mt (sp_user_id profile) w = (ret evidence, w1)"
    and ev: "\<forall>r \<in> set evidence. valid_evidence r"
  shows "\<exists>m w2. match_posting mt p profile w = (ret m, w2)"
proof -
  obtain covered uncovered where cov: "requirement_coverage p evidence = (covered, uncovered)"
    by force
  from assess_posting_ok [OF ev cov, of mt profile w1] verdict_valid [OF cfg] show ?thesis
    by (auto simp: match_posting_def load cov JobMatch_init_def)
qed

text \<open>
  C22: The matcher keeps every contract downstream of it. Whatever the assessor answers, or that
  it fails, a posting whose evidence loaded gets a verdict: its score and its weighted score lie
  between 0 and 1, constraints only lower the score, every citation names a record that was
  loaded, and the evidence check on it succeeds and says grounded exactly when it cites one.
\<close>

theorem matching_keeps_its_contract:
  assumes cfg: "valid_config (mt_config mt)"
    and load: "mt_load mt (sp_user_id profile) w = (ret evidence, w1)"
    and ev: "\<forall>r \<in> set evidence. valid_evidence r"
  shows "\<exists>s w2 m. score_posting mt p profile w = (ret s, w2)
    \<and> sc_posting s = p \<and> sc_match s = Some m \<and> valid_scored (mt_sha mt) s \<and> valid_match m
    \<and> ensure_grounded_in m (map er_id evidence) = ret ()
    \<and> (\<exists>c. check_evidence (mt_sha mt) s = ret c \<and> (ec_grounded c \<longleftrightarrow> jm_matched m \<noteq> [])
          \<and> (\<forall>r \<in> set (ec_citations c). ef_ref r \<in> er_id ` set evidence))"
proof -
  obtain covered uncovered where cov: "requirement_coverage p evidence = (covered, uncovered)"
    by force
  from assess_posting_ok [OF ev cov, of mt profile w1] obtain g w2 where
    g: "assess_posting mt p profile evidence covered uncovered w1 = (ret g, w2)"
    and cite: "\<forall>m \<in> set (ga_matched g). mr_evidence_id m \<in> er_id ` set evidence"
      "\<forall>s \<in> set (ga_suggestions g). \<forall>n. ts_evidence_id s = Some n \<longrightarrow> n \<in> er_id ` set evidence"
    by blast
  let ?m = "verdict mt p profile evidence g"
  note vp = verdict_parts [OF cfg, of p profile evidence g]
  have v: "valid_match ?m" by (rule verdict_valid [OF cfg])
  have m: "match_posting mt p profile w = (ret ?m, w2)"
    by (simp add: match_posting_def load cov g JobMatch_init_def v)
  let ?s = "\<lparr>sc_posting = p, sc_score = jm_score ?m, sc_components = jm_components ?m,
      sc_match = Some ?m\<rparr>"
  have vs: "valid_scored (mt_sha mt) ?s"
    using v vp(6,7) by (simp add: valid_scored_def valid_match_def)
  have s: "score_posting mt p profile w = (ret ?s, w2)"
    by (simp add: score_posting_def m ScoredPosting_init_def vs)
  have grounded: "ensure_grounded_in ?m (map er_id evidence) = ret ()"
    using cite by (auto simp: ensure_grounded_in_def jm_cited_def vp(5) verdict_suggestions
        map_filter_def)
  have "\<forall>r \<in> set (jm_matched ?m). \<not> blank (mr_evidence_id r)"
  proof
    fix r assume "r \<in> set (jm_matched ?m)"
    then obtain e where "e \<in> set evidence" "mr_evidence_id r = er_id e"
      using cite(1) vp(5) by auto
    then show "\<not> blank (mr_evidence_id r)" using ev by (simp add: valid_evidence_def)
  qed
  then obtain c where c: "check_evidence (mt_sha mt) ?s = ret c"
    "ec_grounded c \<longleftrightarrow> jm_matched ?m \<noteq> []"
    "map ef_ref (ec_citations c) = map mr_evidence_id (jm_matched ?m)"
    using check_evidence_ok [of ?s ?m "mt_sha mt"] by auto
  have "\<forall>r \<in> set (ec_citations c). ef_ref r \<in> er_id ` set evidence"
  proof
    fix r assume "r \<in> set (ec_citations c)"
    then have "ef_ref r \<in> set (map mr_evidence_id (jm_matched ?m))"
      unfolding c(3) [symmetric] by simp
    then show "ef_ref r \<in> er_id ` set evidence" using cite(1) vp(5) by auto
  qed
  then have "\<exists>c. check_evidence (mt_sha mt) ?s = ret c \<and> (ec_grounded c \<longleftrightarrow> jm_matched ?m \<noteq> [])
          \<and> (\<forall>r \<in> set (ec_citations c). ef_ref r \<in> er_id ` set evidence)"
    using c(1,2) by blast
  with s vs v grounded show ?thesis
    by (intro exI [of _ ?s] exI [of _ w2] exI [of _ ?m]) simp
qed

definition sample_matcher :: "unit matcher" where
  "sample_matcher =
     \<lparr>mt_load = (\<lambda>_ w. (ret sample_evidence, w)),
      mt_assess = (\<lambda>_ _ _ w. (ret sample_assessment, w)),
      mt_config = default_config, mt_sha = pad64\<rparr>"

definition sample_profile :: search_profile where
  "sample_profile =
     \<lparr>sp_user_id = 1, sp_profile_version = 1, sp_target_roles = [], sp_target_locations = [],
      sp_keywords = [], sp_must_have_skills = [], sp_excluded_companies = [],
      sp_seniority_levels = [SENIOR], sp_employment_types = [], sp_work_modes = [],
      sp_salary_min = None, sp_salary_max = None, sp_remote_only = False,
      sp_requires_visa_sponsorship = False, sp_constraints = [], sp_min_score = 1 / 2,
      sp_max_shortlist = 5\<rparr>"

definition sample_posting :: normalized_posting where
  "sample_posting = posting_of ''Junior engineer'' ''Acme'' ''Go''"

lemma sample_ok:
  "valid_config default_config" "\<forall>r \<in> set sample_evidence. valid_evidence r"
  "mt_load sample_matcher n () = (ret sample_evidence, ())" "valid_profile sample_profile"
  by (code_simp, code_simp, simp add: sample_matcher_def, code_simp)

theorem matching_keeps_its_contract_witness:
  "\<exists>s w2 m. score_posting sample_matcher sample_posting sample_profile () = (ret s, w2)
     \<and> sc_match s = Some m \<and> valid_match m"
proof -
  have "valid_config (mt_config sample_matcher)" by (simp add: sample_matcher_def sample_ok)
  moreover have "mt_load sample_matcher (sp_user_id sample_profile) () = (ret sample_evidence, ())"
    by (rule sample_ok)
  ultimately show ?thesis
    using matching_keeps_its_contract [of sample_matcher sample_profile "()" sample_evidence "()"
        sample_posting] sample_ok(2) by blast
qed

lemma match_posting_verdict:
  assumes "match_posting mt p profile w = (ret m, w')"
  shows "\<exists>evidence g w1. mt_load mt (sp_user_id profile) w = (ret evidence, w1)
    \<and> m = verdict mt p profile evidence g"
  using assms
  by (auto simp: match_posting_def JobMatch_init_def split: prod.splits sum.splits if_splits)

lemma rejected_is_skipped:
  assumes cfg: "valid_config (mt_config mt)" and m: "match_posting mt p profile w = (ret m, w')"
    and c: "c \<in> set (jm_constraints m)" "cr_effect c = REJECT"
  shows "jm_score m = 0 \<and> jm_recommendation m = REC_SKIP"
proof -
  obtain evidence g where v: "m = verdict mt p profile evidence g"
    using match_posting_verdict [OF m] by blast
  show ?thesis
    using verdict_parts(2,3) [OF cfg, of p profile evidence g, folded v] c
    by (auto simp: jm_rejected_def recommend_for_def)
qed



section \<open>What a claim is worth\<close>

lemma round_half_even_mono:
  assumes "x \<le> y"
  shows "round_half_even x \<le> round_half_even y"
proof (cases "\<lfloor>x\<rfloor> = \<lfloor>y\<rfloor>")
  case True
  have "x - of_int \<lfloor>y\<rfloor> \<le> y - of_int \<lfloor>y\<rfloor>" using assms by simp
  then show ?thesis by (auto simp: round_half_even_def Let_def True)
next
  case False
  then have "\<lfloor>x\<rfloor> + 1 \<le> \<lfloor>y\<rfloor>" using floor_mono [OF assms] by simp
  then show ?thesis by (auto simp: round_half_even_def Let_def)
qed

lemma round4_mono: "x \<le> y \<Longrightarrow> round4 x \<le> round4 y"
  by (simp add: round4_def round_half_even_mono divide_right_mono)

lemma foldl_min_mono: "a \<le> b \<Longrightarrow> foldl min a xs \<le> foldl min (b :: 'a::linorder) xs"
  by (induction xs arbitrary: a b) (auto intro: min.mono)

lemma verdict_mono:
  assumes cfg: "valid_config (mt_config mt)"
    and sem: "semantic_value g \<le> semantic_value h"
    and gaps: "(\<exists>m \<in> set (ga_missing g). ms_severity m = BLOCKING)
      = (\<exists>m \<in> set (ga_missing h). ms_severity m = BLOCKING)"
  shows "jm_score (verdict mt p profile evidence g) \<le> jm_score (verdict mt p profile evidence h)"
proof -
  have w: "0 \<le> sw_semantic (cfg_weights (mt_config mt))"
    using cfg by (simp add: valid_config_def valid_weights_def)
  have "(filter (\<lambda>m. ms_severity m = BLOCKING) (ga_missing g) \<noteq> [])
      = (filter (\<lambda>m. ms_severity m = BLOCKING) (ga_missing h) \<noteq> [])"
    using gaps by (auto simp: filter_empty_conv)
  then have cs: "jm_constraints (verdict mt p profile evidence g)
      = jm_constraints (verdict mt p profile evidence h)"
    by (simp add: verdict_def Let_def split_beta)
  have "jm_weighted (verdict mt p profile evidence g) \<le> jm_weighted (verdict mt p profile evidence h)"
    unfolding verdict_def Let_def split_beta
    by (simp add: weights_dict_def)
      (intro conjI impI round4_mono add_left_mono mult_left_mono sem w)
  then show ?thesis
    using cs verdict_parts(2) [OF cfg, of p profile evidence] by (simp add: jm_rejected_def foldl_min_mono)
qed

definition proven :: "evidence_record list \<Rightarrow> semantic_assessment \<Rightarrow> claimed_match list" where
  "proven evidence a = filter (\<lambda>c. cited_record evidence c \<noteq> None) (claims_of a)"

definition unproven :: "evidence_record list \<Rightarrow> semantic_assessment \<Rightarrow> claimed_match list" where
  "unproven evidence a = filter (\<lambda>c. cited_record evidence c = None) (claims_of a)"

lemma semantic_value_grounded:
  assumes "\<forall>r \<in> set evidence. valid_evidence r" and "ground_assessment a evidence = ret g"
  shows "semantic_value g =
    (let earned = sum_list (map (\<lambda>c. STRENGTH_VALUES (cm_strength c)) (proven evidence a));
         owed = of_nat (length (proven evidence a))
           + sum_list (map (\<lambda>m. SEVERITY_WEIGHTS (ms_severity m))
               (filter (\<lambda>g. \<not> blank (ms_requirement g)) (sa_missing a)))
           + 3 / 5 * of_nat (length (unproven evidence a))
     in if owed \<noteq> 0 then earned / owed else 0)"
proof -
  have strength: "mr_strength (match_of evidence c) = cm_strength c" for c
    by (simp add: match_of_def split: option.splits)
  have claims: "sum_list (map (\<lambda>c. SEVERITY_WEIGHTS (ms_severity
      \<lparr>ms_requirement = cm_requirement c, ms_severity = MAJOR\<rparr>)) cs) = 3 / 5 * of_nat (length cs)" for cs
    by (induction cs) (simp_all add: algebra_simps)
  have m: "ga_matched g = map (match_of evidence) (proven evidence a)"
    and u: "ga_missing g = filter (\<lambda>g. \<not> blank (ms_requirement g)) (sa_missing a)
      @ map (\<lambda>c. \<lparr>ms_requirement = cm_requirement c, ms_severity = MAJOR\<rparr>) (unproven evidence a)"
    using assms(2) ground_assessment_eq [OF assms(1), of a]
    by (auto simp: Let_def proven_def unproven_def)
  have earned: "sum_list (map (\<lambda>m. STRENGTH_VALUES (mr_strength m)) (ga_matched g))
      = sum_list (map (\<lambda>c. STRENGTH_VALUES (cm_strength c)) (proven evidence a))"
    by (simp add: m comp_def strength)
  have owed: "of_nat (length (ga_matched g)) + sum_list (map (\<lambda>m. SEVERITY_WEIGHTS (ms_severity m)) (ga_missing g))
      = of_nat (length (proven evidence a))
           + sum_list (map (\<lambda>m. SEVERITY_WEIGHTS (ms_severity m))
               (filter (\<lambda>g. \<not> blank (ms_requirement g)) (sa_missing a)))
           + 3 / 5 * of_nat (length (unproven evidence a))"
    unfolding m u map_append sum_list_append map_map comp_def claims by simp
  show ?thesis unfolding semantic_value_def Let_def earned owed ..
qed

text \<open>
  C23: A model cannot raise a score by asserting experience. Of two assessments of a posting with
  the same proven claims and the same gaps, the one with more claims that cite no record of the
  candidate gets no higher a score; and with no record at all the semantic part is zero.
\<close>

theorem unproven_claims_never_help:
  assumes cfg: "valid_config (mt_config mt)" and ev: "\<forall>r \<in> set evidence. valid_evidence r"
    and same: "proven evidence a = proven evidence b" "sa_missing a = sa_missing b"
    and more: "length (unproven evidence b) \<le> length (unproven evidence a)"
    and g: "ground_assessment a evidence = ret g" and h: "ground_assessment b evidence = ret h"
  shows "jm_score (verdict mt p profile evidence g) \<le> jm_score (verdict mt p profile evidence h)
    \<and> (evidence = [] \<longrightarrow> semantic_value g = 0)"
proof
  let ?e = "sum_list (map (\<lambda>c. STRENGTH_VALUES (cm_strength c)) (proven evidence a))"
  let ?o = "of_nat (length (proven evidence a))
           + sum_list (map (\<lambda>m. SEVERITY_WEIGHTS (ms_severity m))
               (filter (\<lambda>g. \<not> blank (ms_requirement g)) (sa_missing a)))"
  let ?na = "3 / 5 * of_nat (length (unproven evidence a)) :: rat"
  let ?nb = "3 / 5 * of_nat (length (unproven evidence b)) :: rat"
  have e: "0 \<le> ?e" "?e \<le> of_nat (length (proven evidence a))"
    by (simp_all add: sum_list_bounds strength_bounds)
  have o: "0 \<le> ?o" by (simp add: sum_list_bounds severity_bounds)
  have e0: "?e = 0" if "?o = 0"
  proof -
    have "0 \<le> sum_list (map (\<lambda>m. SEVERITY_WEIGHTS (ms_severity m))
               (filter (\<lambda>g. \<not> blank (ms_requirement g)) (sa_missing a)))"
      by (rule sum_list_bounds(1)) (simp add: severity_bounds)
    with that e show ?thesis by simp
  qed
  have n: "0 \<le> ?nb" "?nb \<le> ?na" using more by simp_all
  have le: "(if ?o + ?na \<noteq> 0 then ?e / (?o + ?na) else 0) \<le> (if ?o + ?nb \<noteq> 0 then ?e / (?o + ?nb) else 0)"
  proof (cases "?o + ?nb = 0")
    case True
    then have "?o = 0" using o n by linarith
    then show ?thesis using e0 True by simp
  next
    case False
    then have "0 < ?o + ?nb" using o n by linarith
    moreover have "?o + ?nb \<le> ?o + ?na" using n by simp
    ultimately have "?e / (?o + ?na) \<le> ?e / (?o + ?nb)" using e(1) by (intro divide_left_mono) auto
    then show ?thesis using False \<open>0 < ?o + ?nb\<close> \<open>?o + ?nb \<le> ?o + ?na\<close> by auto
  qed
  have "semantic_value g = (if ?o + ?na \<noteq> 0 then ?e / (?o + ?na) else 0)"
    by (rule semantic_value_grounded [OF ev g, unfolded Let_def])
  moreover have "semantic_value h = (if ?o + ?nb \<noteq> 0 then ?e / (?o + ?nb) else 0)"
    by (rule semantic_value_grounded [OF ev h, unfolded Let_def same [symmetric]])
  ultimately have sem: "semantic_value g \<le> semantic_value h" using le by simp
  have gaps: "(\<exists>m \<in> set (ga_missing g). ms_severity m = BLOCKING)
      = (\<exists>m \<in> set (ga_missing h). ms_severity m = BLOCKING)"
    using ground_assessment_eq [OF ev, of a] ground_assessment_eq [OF ev, of b] g h same(2)
    by (auto simp: Let_def)
  show "jm_score (verdict mt p profile evidence g) \<le> jm_score (verdict mt p profile evidence h)"
    by (rule verdict_mono [OF cfg sem gaps])
  show "evidence = [] \<longrightarrow> semantic_value g = 0"
  proof
    assume none: "evidence = []"
    then have "proven evidence a = []"
      by (auto simp: proven_def cited_record_def record_for_def filter_empty_conv split: option.splits)
    then show "semantic_value g = 0" using semantic_value_grounded [OF ev g] by (simp add: Let_def)
  qed
qed

theorem unproven_claims_never_help_witness:
  "\<exists>g h. ground_assessment sample_assessment sample_evidence = ret g
    \<and> ground_assessment (sample_assessment\<lparr>sa_matched := [hd (sa_matched sample_assessment)]\<rparr>)
        sample_evidence = ret h
    \<and> jm_score (verdict sample_matcher sample_posting sample_profile sample_evidence g)
      \<le> jm_score (verdict sample_matcher sample_posting sample_profile sample_evidence h)"
proof -
  let ?a = sample_assessment
  let ?b = "sample_assessment\<lparr>sa_matched := [hd (sa_matched sample_assessment)]\<rparr>"
  have cfg: "valid_config (mt_config sample_matcher)" by (simp add: sample_matcher_def sample_ok)
  obtain g where g: "ground_assessment ?a sample_evidence = ret g"
    using ground_assessment_eq [OF sample_ok(2), of ?a] by (simp add: Let_def)
  obtain h where h: "ground_assessment ?b sample_evidence = ret h"
    using ground_assessment_eq [OF sample_ok(2), of ?b] by (simp add: Let_def)
  have "proven sample_evidence ?a = proven sample_evidence ?b" "sa_missing ?a = sa_missing ?b"
    "length (unproven sample_evidence ?b) \<le> length (unproven sample_evidence ?a)" by code_simp+
  from unproven_claims_never_help [OF cfg sample_ok(2) this g h] g h show ?thesis by blast
qed

end
