(* ===== verification/Discovery.thy ===== *)
theory Discovery
  imports Matching "HOL-Library.Product_Lexorder" "HOL-Library.Multiset"
begin

text \<open>
  From a search to a shortlist: the discovery and selection nodes of the job-search graph
  (\<open>load_search_profile\<close> to \<open>shortlist\<close> of \<open>personalos/graphs/job_search.py\<close>), composed along
  its edges, and the catalog the postings are recorded in
  (\<open>personalos/persistence/job_postings.py\<close>). A node is a function on the graph's state; the
  profile store, the providers, the scorer and the evidence checker are ports on a world \<open>'w\<close>.
  Values pass through the state as themselves: dumping one to JSON and validating it again gives
  it back.
\<close>

section \<open>State and ports\<close>

record provider_failure =
  pf_provider :: string
  pf_error :: string

record persisted_posting =
  pp_job_posting_id :: uuid
  pp_dedupe_key :: string
  pp_created :: bool

text \<open>A rejection's text is kept as what it is printed from.\<close>

datatype filter_reason =
    ExcludedCompany string
  | NotRemote
  | SalaryBelowFloor int int
  | MissingSkills "string list"

record filter_rejection =
  fr_dedupe_key :: string
  fr_title :: string
  fr_company :: string
  fr_reason :: filter_reason

record shortlist_entry =
  sl_rank :: nat
  sl_scored :: scored_posting
  sl_evidence :: evidence_check

record search_state =
  js_user_id :: "string option"
  js_query :: "string option"
  js_prepare_application :: bool
  js_profile :: "search_profile option"
  js_raw :: "raw_posting list"
  js_provider_failures :: "provider_failure list"
  js_normalized :: "normalized_posting list"
  js_deduplicated :: "normalized_posting list"
  js_duplicate_keys :: "string list"
  js_persisted :: "persisted_posting list"
  js_filtered :: "normalized_posting list"
  js_rejections :: "filter_rejection list"
  js_scored :: "scored_posting list"
  js_checks :: "evidence_check list"
  js_ranked :: "scored_posting list"
  js_shortlist :: "shortlist_entry list"

record 'w provider =
  pv_name :: string
  pv_search :: "search_profile \<Rightarrow> 'w \<Rightarrow> (exn + raw_posting list) \<times> 'w"

record 'w search_ports =
  sq_parse_uuid :: "string \<Rightarrow> uuid option"
  sq_load_profile :: "uuid \<Rightarrow> 'w \<Rightarrow> (exn + search_profile) \<times> 'w"
  sq_providers :: "'w provider list"
  sq_normalize :: "raw_posting \<Rightarrow> normalized_posting option"
  sq_catalog :: "(normalized_posting list \<Rightarrow> 'w \<Rightarrow> (exn + persisted_posting list) \<times> 'w) option"
  sq_score :: "normalized_posting \<Rightarrow> search_profile \<Rightarrow> 'w \<Rightarrow> (exn + scored_posting) \<times> 'w"
  sq_check :: "scored_posting \<Rightarrow> search_profile \<Rightarrow> 'w \<Rightarrow> (exn + evidence_check) \<times> 'w"
  sq_sha :: "pyval \<Rightarrow> string"

type_synonym 'w node = "search_state \<Rightarrow> 'w \<Rightarrow> (exn + search_state) \<times> 'w"

definition require_uuid :: "(string \<Rightarrow> uuid option) \<Rightarrow> string option \<Rightarrow> exn + uuid" where
  "require_uuid parse value =
     (case value of
        None \<Rightarrow> raise (contract_error ''user_id is required to start a job search run'')
      | Some s \<Rightarrow>
          (case parse s of
             None \<Rightarrow> raise (contract_error ''user_id must be a UUID'')
           | Some n \<Rightarrow> ret n))"

definition require_profile :: "search_state \<Rightarrow> exn + search_profile" where
  "require_profile st =
     (case js_profile st of
        None \<Rightarrow> raise (contract_error ''no search profile in state; load_search_profile must run first'')
      | Some p \<Rightarrow> ret p)"

section \<open>The discovery nodes\<close>

text \<open>The elements that are the first with their key, in order; \<open>dict.fromkeys\<close> keeps these.\<close>

fun firsts :: "('a \<Rightarrow> 'k) \<Rightarrow> 'a list \<Rightarrow> 'a list" where
  "firsts f [] = []"
| "firsts f (x # xs) = x # filter (\<lambda>y. f y \<noteq> f x) (firsts f xs)"

definition dict_fromkeys :: "'a list \<Rightarrow> 'a list" where
  "dict_fromkeys xs = firsts (\<lambda>x. x) xs"

definition load_search_profile :: "'w search_ports \<Rightarrow> 'w node" where
  "load_search_profile sq st w =
     (case require_uuid (sq_parse_uuid sq) (js_user_id st) of
        Inl e \<Rightarrow> (raise e, w)
      | Inr user \<Rightarrow>
          (case sq_load_profile sq user w of
             (Inl e, w1) \<Rightarrow> (raise e, w1)
           | (Inr profile, w1) \<Rightarrow>
               let query = strip (case js_query st of None \<Rightarrow> [] | Some q \<Rightarrow> q);
                   profile' = (if query = [] then profile
                     else profile\<lparr>sp_keywords := dict_fromkeys (sp_keywords profile @ [query])\<rparr>)
               in (ret (st\<lparr>js_profile := Some profile'\<rparr>), w1)))"

fun search_loop ::
  "search_profile \<Rightarrow> 'w provider list \<Rightarrow> 'w \<Rightarrow> (raw_posting list \<times> provider_failure list) \<times> 'w" where
  "search_loop profile [] w = (([], []), w)"
| "search_loop profile (pv # pvs) w =
     (case pv_search pv profile w of
        (Inl e, w1) \<Rightarrow>
          (case search_loop profile pvs w1 of
             ((raw, failures), w2) \<Rightarrow>
               ((raw, \<lparr>pf_provider = pv_name pv, pf_error = exn_text e\<rparr> # failures), w2))
      | (Inr postings, w1) \<Rightarrow>
          (case search_loop profile pvs w1 of
             ((raw, failures), w2) \<Rightarrow> ((postings @ raw, failures), w2)))"

definition search_providers :: "'w search_ports \<Rightarrow> 'w node" where
  "search_providers sq st w =
     (case require_profile st of
        Inl e \<Rightarrow> (raise e, w)
      | Inr profile \<Rightarrow>
          (case search_loop profile (sq_providers sq) w of
             ((raw, failures), w1) \<Rightarrow>
               (ret (st\<lparr>js_raw := take MAX_POSTINGS_PER_RUN raw, js_provider_failures := failures\<rparr>),
                w1)))"

definition normalize_jobs :: "'w search_ports \<Rightarrow> 'w node" where
  "normalize_jobs sq st w =
     (ret (st\<lparr>js_normalized := List.map_filter (sq_normalize sq) (js_raw st)\<rparr>), w)"

text \<open>\<open>seen\<close> is the dictionary from key to posting in insertion order.\<close>

fun dedupe_loop ::
  "(pyval \<Rightarrow> string) \<Rightarrow> (string \<times> normalized_posting) list \<Rightarrow> string list \<Rightarrow>
   normalized_posting list \<Rightarrow> (string \<times> normalized_posting) list \<times> string list" where
  "dedupe_loop sha seen dups [] = (seen, dups)"
| "dedupe_loop sha seen dups (p # ps) =
     (let key = dedupe_key sha p in
      if key \<in> fst ` set seen then dedupe_loop sha seen (dups @ [key]) ps
      else dedupe_loop sha (seen @ [(key, p)]) dups ps)"

definition deduplicate :: "'w search_ports \<Rightarrow> 'w node" where
  "deduplicate sq st w =
     (case dedupe_loop (sq_sha sq) [] [] (js_normalized st) of
        (seen, dups) \<Rightarrow> (ret (st\<lparr>js_deduplicated := map snd seen, js_duplicate_keys := dups\<rparr>), w))"

definition persist_postings :: "'w search_ports \<Rightarrow> 'w node" where
  "persist_postings sq st w =
     (case sq_catalog sq of
        None \<Rightarrow> (ret (st\<lparr>js_persisted := []\<rparr>), w)
      | Some record \<Rightarrow>
          (case record (js_deduplicated st) w of
             (Inl e, w1) \<Rightarrow> (raise e, w1)
           | (Inr persisted, w1) \<Rightarrow> (ret (st\<lparr>js_persisted := persisted\<rparr>), w1)))"

definition missing_skills :: "normalized_posting \<Rightarrow> string list \<Rightarrow> string list" where
  "missing_skills p skills =
     (let haystack = lower (np_title p @ [CHR 0x0A] @ np_description p @ [CHR 0x0A]
                            @ join_words (np_skills p))
      in filter (\<lambda>s. \<not> occurs_in (lower (strip s)) haystack) skills)"

text \<open>An unstated salary on either side is no violation.\<close>

definition hard_filter_reason ::
  "normalized_posting \<Rightarrow> search_profile \<Rightarrow> string set \<Rightarrow> filter_reason option" where
  "hard_filter_reason p profile excluded =
     (if lower (strip (np_company p)) \<in> excluded then Some (ExcludedCompany (np_company p))
      else if sp_remote_only profile \<and> \<not> np_remote p then Some NotRemote
      else case (case (sp_salary_min profile, np_salary_max p) of
                   (Some lo, Some hi) \<Rightarrow> if hi < lo then Some (SalaryBelowFloor hi lo) else None
                 | _ \<Rightarrow> None) of
        Some r \<Rightarrow> Some r
      | None \<Rightarrow>
          (case missing_skills p (sp_must_have_skills profile) of
             [] \<Rightarrow> None | s # ss \<Rightarrow> Some (MissingSkills (s # ss))))"

fun filter_loop ::
  "(pyval \<Rightarrow> string) \<Rightarrow> search_profile \<Rightarrow> string set \<Rightarrow> normalized_posting list \<Rightarrow>
   normalized_posting list \<times> filter_rejection list" where
  "filter_loop sha profile excluded [] = ([], [])"
| "filter_loop sha profile excluded (p # ps) =
     (let (kept, rejected) = filter_loop sha profile excluded ps in
      case hard_filter_reason p profile excluded of
        None \<Rightarrow> (p # kept, rejected)
      | Some r \<Rightarrow>
          (kept, \<lparr>fr_dedupe_key = dedupe_key sha p, fr_title = np_title p,
                   fr_company = np_company p, fr_reason = r\<rparr> # rejected))"

definition excluded_names :: "search_profile \<Rightarrow> string set" where
  "excluded_names profile = set (map (\<lambda>n. lower (strip n)) (sp_excluded_companies profile))"

definition hard_filter :: "'w search_ports \<Rightarrow> 'w node" where
  "hard_filter sq st w =
     (case require_profile st of
        Inl e \<Rightarrow> (raise e, w)
      | Inr profile \<Rightarrow>
          (case filter_loop (sq_sha sq) profile (excluded_names profile) (js_deduplicated st) of
             (kept, rejected) \<Rightarrow>
               (ret (st\<lparr>js_filtered := kept, js_rejections := rejected\<rparr>), w)))"

section \<open>The selection nodes\<close>

fun mapM :: "('a \<Rightarrow> 'w \<Rightarrow> (exn + 'b) \<times> 'w) \<Rightarrow> 'a list \<Rightarrow> 'w \<Rightarrow> (exn + 'b list) \<times> 'w" where
  "mapM f [] w = (ret [], w)"
| "mapM f (x # xs) w =
     (case f x w of
        (Inl e, w1) \<Rightarrow> (raise e, w1)
      | (Inr y, w1) \<Rightarrow>
          (case mapM f xs w1 of
             (Inl e, w2) \<Rightarrow> (raise e, w2)
           | (Inr ys, w2) \<Rightarrow> (ret (y # ys), w2)))"

definition score_candidates :: "'w search_ports \<Rightarrow> 'w node" where
  "score_candidates sq st w =
     (case require_profile st of
        Inl e \<Rightarrow> (raise e, w)
      | Inr profile \<Rightarrow>
          (case mapM (\<lambda>p. sq_score sq p profile) (js_filtered st) w of
             (Inl e, w1) \<Rightarrow> (raise e, w1)
           | (Inr scored, w1) \<Rightarrow> (ret (st\<lparr>js_scored := scored\<rparr>), w1)))"

definition evidence_check_node :: "'w search_ports \<Rightarrow> 'w node" where
  "evidence_check_node sq st w =
     (case require_profile st of
        Inl e \<Rightarrow> (raise e, w)
      | Inr profile \<Rightarrow>
          (case mapM (\<lambda>s. sq_check sq s profile) (js_scored st) w of
             (Inl e, w1) \<Rightarrow> (raise e, w1)
           | (Inr checks, w1) \<Rightarrow> (ret (st\<lparr>js_checks := checks\<rparr>), w1)))"

definition rank_key :: "(pyval \<Rightarrow> string) \<Rightarrow> scored_posting \<Rightarrow> rat \<times> string" where
  "rank_key sha s = (- sc_score s, dedupe_key sha (sc_posting s))"

definition rank_node :: "'w search_ports \<Rightarrow> 'w node" where
  "rank_node sq st w = (ret (st\<lparr>js_ranked := sort_key (rank_key (sq_sha sq)) (js_scored st)\<rparr>), w)"

text \<open>The check a key names; the last of two with one key is the one the dictionary keeps.\<close>

definition check_for :: "evidence_check list \<Rightarrow> string \<Rightarrow> evidence_check option" where
  "check_for checks = map_of (rev (map (\<lambda>c. (ec_dedupe_key c, c)) checks))"

fun shortlist_loop ::
  "(pyval \<Rightarrow> string) \<Rightarrow> search_profile \<Rightarrow> evidence_check list \<Rightarrow> shortlist_entry list \<Rightarrow>
   scored_posting list \<Rightarrow> shortlist_entry list" where
  "shortlist_loop sha profile checks entries [] = entries"
| "shortlist_loop sha profile checks entries (s # ss) =
     (if int (length entries) \<ge> sp_max_shortlist profile then entries
      else if sc_score s < sp_min_score profile then shortlist_loop sha profile checks entries ss
      else if (case sc_match s of None \<Rightarrow> False | Some m \<Rightarrow> jm_recommendation m = REC_SKIP)
      then shortlist_loop sha profile checks entries ss
      else case check_for checks (dedupe_key sha (sc_posting s)) of
        None \<Rightarrow> shortlist_loop sha profile checks entries ss
      | Some c \<Rightarrow>
          if \<not> ec_grounded c then shortlist_loop sha profile checks entries ss
          else shortlist_loop sha profile checks
                 (entries @ [\<lparr>sl_rank = length entries + 1, sl_scored = s, sl_evidence = c\<rparr>]) ss)"

definition shortlist :: "'w search_ports \<Rightarrow> 'w node" where
  "shortlist sq st w =
     (case require_profile st of
        Inl e \<Rightarrow> (raise e, w)
      | Inr profile \<Rightarrow>
          (ret (st\<lparr>js_shortlist :=
             shortlist_loop (sq_sha sq) profile (js_checks st) [] (js_ranked st)\<rparr>), w))"

text \<open>The nodes along the edges of the graph; one that raises ends the run.\<close>

definition then_node :: "'w node \<Rightarrow> 'w node \<Rightarrow> 'w node" where
  "then_node f g st w =
     (case f st w of (Inl e, w1) \<Rightarrow> (raise e, w1) | (Inr st1, w1) \<Rightarrow> g st1 w1)"

definition discover :: "'w search_ports \<Rightarrow> 'w node" where
  "discover sq =
     then_node (load_search_profile sq) (then_node (search_providers sq)
       (then_node (normalize_jobs sq) (then_node (deduplicate sq) (then_node (persist_postings sq)
         (then_node (hard_filter sq) (then_node (score_candidates sq)
           (then_node (evidence_check_node sq) (then_node (rank_node sq) (shortlist sq)))))))))"

section \<open>Deduplication\<close>

lemma set_firsts: "set (firsts f xs) \<subseteq> set xs"
  by (induction xs) auto

lemma keys_firsts: "f ` set (firsts f xs) = f ` set xs"
proof (induction xs)
  case (Cons x xs)
  have "insert (f x) (f ` {y \<in> S. f y \<noteq> f x}) = insert (f x) (f ` S)" for S by auto
  then show ?case by (simp add: Cons)
qed simp

lemma distinct_firsts: "distinct (map f (firsts f xs))"
  by (induction xs) (auto simp: distinct_map inj_on_filter_key_eq intro: inj_on_subset)

lemma firsts_filter: "filter (\<lambda>x. R (f x)) (firsts f xs) = firsts f (filter (\<lambda>x. R (f x)) xs)"
proof (induction xs)
  case (Cons x xs)
  have "filter (\<lambda>z. R (f z)) (filter (\<lambda>y. f y \<noteq> f x) (firsts f xs))
      = filter (\<lambda>y. f y \<noteq> f x) (firsts f (filter (\<lambda>z. R (f z)) xs))"
    unfolding Cons.IH [symmetric] by (simp add: conj_commute)
  moreover have "filter (\<lambda>z. R (f z)) (filter (\<lambda>y. f y \<noteq> f x) (firsts f xs))
      = firsts f (filter (\<lambda>z. R (f z)) xs)" if "\<not> R (f x)"
  proof -
    have "filter (\<lambda>z. R (f z)) (filter (\<lambda>y. f y \<noteq> f x) (firsts f xs))
      = filter (\<lambda>z. R (f z)) (firsts f xs)"
      using that by (auto simp: intro!: filter_cong)
    then show ?thesis by (simp add: Cons.IH)
  qed
  ultimately show ?case by simp
qed simp

lemma first_of_key:
  "x \<in> set (firsts f xs) \<Longrightarrow> find_first (\<lambda>y. f y = f x) xs = Some x"
  by (induction xs) (auto simp: find_first_def)

lemma dedupe_loop_eq:
  "fst (dedupe_loop sha seen dups ps) =
     seen @ map (\<lambda>p. (dedupe_key sha p, p))
       (firsts (dedupe_key sha) (filter (\<lambda>p. dedupe_key sha p \<notin> fst ` set seen) ps))"
proof (induction ps arbitrary: seen dups)
  case (Cons p ps)
  let ?k = "dedupe_key sha"
  show ?case
  proof (cases "?k p \<in> fst ` set seen")
    case False
    have "firsts ?k (filter (\<lambda>q. ?k q \<notin> fst ` set (seen @ [(?k p, p)])) ps)
        = filter (\<lambda>q. ?k q \<noteq> ?k p) (firsts ?k (filter (\<lambda>q. ?k q \<notin> fst ` set seen) ps))"
      using firsts_filter [of "\<lambda>k. k \<noteq> ?k p" ?k "filter (\<lambda>q. ?k q \<notin> fst ` set seen) ps"]
      by (simp add: conj_commute)
    then show ?thesis using Cons [of "seen @ [(?k p, p)]" dups] False by (simp add: Let_def)
  qed (use Cons in \<open>simp add: Let_def\<close>)
qed simp

lemma dedupe_loop_dups:
  "mset (map fst seen) + mset dups + mset (map (dedupe_key sha) ps)
     = mset (map fst (fst (dedupe_loop sha seen dups ps))) + mset (snd (dedupe_loop sha seen dups ps))"
proof (induction ps arbitrary: seen dups)
  case (Cons p ps)
  show ?case
    using Cons [of seen "dups @ [dedupe_key sha p]"] Cons [of "seen @ [(dedupe_key sha p, p)]" dups]
    by (simp add: Let_def)
qed simp

lemma one_posting_keys:
  assumes "deduplicate sq st w = (ret st', w')"
  shows "js_deduplicated st' = firsts (dedupe_key (sq_sha sq)) (js_normalized st)"
    and "js_duplicate_keys st' = snd (dedupe_loop (sq_sha sq) [] [] (js_normalized st))"
    and "map fst (fst (dedupe_loop (sq_sha sq) [] [] (js_normalized st)))
      = map (dedupe_key (sq_sha sq)) (js_deduplicated st')"
proof -
  let ?r = "dedupe_loop (sq_sha sq) [] [] (js_normalized st)"
  have kept: "js_deduplicated st' = map snd (fst ?r)" and dups: "js_duplicate_keys st' = snd ?r"
    using assms by (auto simp: deduplicate_def split: prod.splits)
  have eq: "fst ?r = map (\<lambda>p. (dedupe_key (sq_sha sq) p, p))
      (firsts (dedupe_key (sq_sha sq)) (js_normalized st))"
    using dedupe_loop_eq [of "sq_sha sq" "[]" "[]"] by simp
  show "js_deduplicated st' = firsts (dedupe_key (sq_sha sq)) (js_normalized st)"
    by (simp add: kept eq comp_def)
  show "js_duplicate_keys st' = snd ?r" by (rule dups)
  show "map fst (fst ?r) = map (dedupe_key (sq_sha sq)) (js_deduplicated st')"
    by (simp add: kept eq comp_def)
qed

text \<open>
  Deduplication keeps one posting per opening. What it keeps is, of each key, the first
  posting that has it and in the order they came, so no two kept postings share a key and no
  opening is lost; and every posting is accounted for, as kept or as a reported duplicate.
\<close>

theorem one_posting_per_opening:
  assumes "deduplicate sq st w = (ret st', w')"
  shows "js_deduplicated st' = firsts (dedupe_key (sq_sha sq)) (js_normalized st)
    \<and> distinct (map (dedupe_key (sq_sha sq)) (js_deduplicated st'))
    \<and> dedupe_key (sq_sha sq) ` set (js_deduplicated st') = dedupe_key (sq_sha sq) ` set (js_normalized st)
    \<and> mset (map (dedupe_key (sq_sha sq)) (js_normalized st))
        = mset (map (dedupe_key (sq_sha sq)) (js_deduplicated st')) + mset (js_duplicate_keys st')"
  using one_posting_keys [OF assms] dedupe_loop_dups [of "[]" "[]" "sq_sha sq" "js_normalized st"]
  by (simp add: distinct_firsts keys_firsts)

section \<open>Filtering\<close>

definition rejection_of ::
  "(pyval \<Rightarrow> string) \<Rightarrow> search_profile \<Rightarrow> normalized_posting \<Rightarrow> filter_rejection" where
  "rejection_of sha profile p =
     \<lparr>fr_dedupe_key = dedupe_key sha p, fr_title = np_title p, fr_company = np_company p,
      fr_reason = the (hard_filter_reason p profile (excluded_names profile))\<rparr>"

lemma filter_loop_eq:
  "filter_loop sha profile (excluded_names profile) ps =
     (filter (\<lambda>p. hard_filter_reason p profile (excluded_names profile) = None) ps,
      map (rejection_of sha profile)
        (filter (\<lambda>p. hard_filter_reason p profile (excluded_names profile) \<noteq> None) ps))"
  by (induction ps) (auto simp: rejection_of_def Let_def split: option.splits)

text \<open>What a stated constraint demands of a posting, with no order among the checks.\<close>

definition meets_constraints :: "search_profile \<Rightarrow> normalized_posting \<Rightarrow> bool" where
  "meets_constraints profile p \<longleftrightarrow>
     (\<forall>n \<in> set (sp_excluded_companies profile). lower (strip (np_company p)) \<noteq> lower (strip n))
     \<and> (sp_remote_only profile \<longrightarrow> np_remote p)
     \<and> (\<forall>lo hi. sp_salary_min profile = Some lo \<and> np_salary_max p = Some hi \<longrightarrow> lo \<le> hi)
     \<and> missing_skills p (sp_must_have_skills profile) = []"

lemma hard_filter_reason_None:
  "hard_filter_reason p profile (excluded_names profile) = None \<longleftrightarrow> meets_constraints profile p"
  by (auto simp: hard_filter_reason_def meets_constraints_def excluded_names_def image_iff
      split: option.splits list.splits)

text \<open>
  The hard filter decides on the stated constraints alone and forgets nothing. It keeps, in
  order, exactly the postings that meet every one of them; each of the others leaves a rejection
  with its key and a reason that is true of it; and together they are all there were.
\<close>

theorem hard_filter_is_exact:
  assumes "hard_filter sq st w = (ret st', w')" and profile: "js_profile st = Some profile"
  shows "js_filtered st' = filter (meets_constraints profile) (js_deduplicated st)
    \<and> map fr_dedupe_key (js_rejections st')
        = map (dedupe_key (sq_sha sq)) (filter (\<lambda>p. \<not> meets_constraints profile p) (js_deduplicated st))
    \<and> length (js_filtered st') + length (js_rejections st') = length (js_deduplicated st)
    \<and> (\<forall>r \<in> set (js_rejections st'). \<exists>p \<in> set (js_deduplicated st).
          fr_company r = np_company p
          \<and> (case fr_reason r of
               ExcludedCompany c \<Rightarrow> \<exists>n \<in> set (sp_excluded_companies profile). lower (strip c) = lower (strip n)
             | NotRemote \<Rightarrow> sp_remote_only profile \<and> \<not> np_remote p
             | SalaryBelowFloor hi lo \<Rightarrow>
                 np_salary_max p = Some hi \<and> sp_salary_min profile = Some lo \<and> hi < lo
             | MissingSkills ss \<Rightarrow> ss \<noteq> [] \<and> ss = missing_skills p (sp_must_have_skills profile)))"
proof -
  let ?ex = "excluded_names profile"
  have kept: "js_filtered st' = filter (meets_constraints profile) (js_deduplicated st)"
    and rej: "js_rejections st' = map (rejection_of (sq_sha sq) profile)
      (filter (\<lambda>p. \<not> meets_constraints profile p) (js_deduplicated st))"
    using assms by (auto simp: hard_filter_def require_profile_def filter_loop_eq hard_filter_reason_None)
  have "case the (hard_filter_reason p profile ?ex) of
               ExcludedCompany c \<Rightarrow> \<exists>n \<in> set (sp_excluded_companies profile). lower (strip c) = lower (strip n)
             | NotRemote \<Rightarrow> sp_remote_only profile \<and> \<not> np_remote p
             | SalaryBelowFloor hi lo \<Rightarrow>
                 np_salary_max p = Some hi \<and> sp_salary_min profile = Some lo \<and> hi < lo
             | MissingSkills ss \<Rightarrow> ss \<noteq> [] \<and> ss = missing_skills p (sp_must_have_skills profile)"
    if "\<not> meets_constraints profile p" for p
    using that unfolding hard_filter_reason_None [symmetric]
    by (auto simp: hard_filter_reason_def excluded_names_def split: option.splits if_splits list.splits)
  then have "\<forall>r \<in> set (js_rejections st'). \<exists>p \<in> set (js_deduplicated st).
          fr_company r = np_company p
          \<and> (case fr_reason r of
               ExcludedCompany c \<Rightarrow> \<exists>n \<in> set (sp_excluded_companies profile). lower (strip c) = lower (strip n)
             | NotRemote \<Rightarrow> sp_remote_only profile \<and> \<not> np_remote p
             | SalaryBelowFloor hi lo \<Rightarrow>
                 np_salary_max p = Some hi \<and> sp_salary_min profile = Some lo \<and> hi < lo
             | MissingSkills ss \<Rightarrow> ss \<noteq> [] \<and> ss = missing_skills p (sp_must_have_skills profile))"
    by (fastforce simp: rej rejection_of_def)
  moreover have "map fr_dedupe_key (js_rejections st')
        = map (dedupe_key (sq_sha sq)) (filter (\<lambda>p. \<not> meets_constraints profile p) (js_deduplicated st))"
    by (simp add: rej rejection_of_def comp_def)
  ultimately show ?thesis
    using kept sum_length_filter_compl [of "meets_constraints profile" "js_deduplicated st"]
    by (simp add: rej)
qed

section \<open>Ranking and the shortlist\<close>

text \<open>
  The ranking does not depend on the order the postings came in. It is a permutation of the
  scored postings with the best first, and when no two of them are one opening any other order of
  the same postings ranks the same.
\<close>

theorem ranking_ignores_arrival_order:
  assumes "distinct (map (\<lambda>s. dedupe_key (sq_sha sq) (sc_posting s)) (js_scored st))"
    and "mset (js_scored st2) = mset (js_scored st)"
    and r1: "rank_node sq st w = (ret st', w')" and r2: "rank_node sq st2 v = (ret st2', v')"
  shows "js_ranked st2' = js_ranked st'
    \<and> mset (js_ranked st') = mset (js_scored st)
    \<and> sorted_wrt (\<ge>) (map sc_score (js_ranked st'))"
proof -
  let ?f = "rank_key (sq_sha sq)"
  have e1: "js_ranked st' = sort_key ?f (js_scored st)" and e2: "js_ranked st2' = sort_key ?f (js_scored st2)"
    using r1 r2 by (auto simp: rank_node_def)
  have "inj_on ?f (set (js_scored st))"
    using assms(1) by (auto simp: inj_on_def rank_key_def distinct_map)
  then have "sort_key ?f (js_scored st2) = sort_key ?f (js_scored st)"
    by (intro sort_key_inj_key_eq) (simp_all add: assms(2) mset_eq_setD [OF assms(2)])
  moreover have "sorted_wrt (\<ge>) (map sc_score (sort_key ?f (js_scored st)))"
  proof -
    have "sorted_wrt (\<lambda>s t. ?f s \<le> ?f t) (sort_key ?f (js_scored st))"
      using sorted_sort_key [of ?f "js_scored st"] by (simp add: sorted_map)
    then show ?thesis
      unfolding sorted_wrt_map
      by (rule sorted_wrt_mono_rel [rotated]) (auto simp: rank_key_def less_eq_prod_def)
  qed
  ultimately show ?thesis by (simp add: e1 e2)
qed

text \<open>Whether a scored posting may be shortlisted at all.\<close>

definition eligible ::
  "(pyval \<Rightarrow> string) \<Rightarrow> search_profile \<Rightarrow> evidence_check list \<Rightarrow> scored_posting \<Rightarrow> bool" where
  "eligible sha profile checks s \<longleftrightarrow>
     sp_min_score profile \<le> sc_score s
     \<and> (\<forall>m. sc_match s = Some m \<longrightarrow> jm_recommendation m \<noteq> REC_SKIP)
     \<and> (\<exists>c. check_for checks (dedupe_key sha (sc_posting s)) = Some c \<and> ec_grounded c)"

lemma shortlist_loop_scored:
  "map sl_scored (shortlist_loop sha profile checks entries ss) =
     map sl_scored entries
     @ take (nat (sp_max_shortlist profile) - length entries) (filter (eligible sha profile checks) ss)"
proof (induction ss arbitrary: entries)
  case (Cons s ss)
  show ?case
  proof (cases "int (length entries) \<ge> sp_max_shortlist profile")
    case False
    then have "nat (sp_max_shortlist profile) - length entries
        = Suc (nat (sp_max_shortlist profile) - Suc (length entries))" by linarith
    with False show ?thesis
      by (auto simp: Cons eligible_def not_le split: option.splits)
  qed simp
qed simp

lemma shortlist_loop_entries:
  assumes "\<forall>n < length entries. sl_rank (entries ! n) = n + 1"
    and "\<forall>e \<in> set entries. check_for checks (dedupe_key sha (sc_posting (sl_scored e))) = Some (sl_evidence e)"
  shows "(\<forall>n < length (shortlist_loop sha profile checks entries ss).
        sl_rank (shortlist_loop sha profile checks entries ss ! n) = n + 1)
    \<and> (\<forall>e \<in> set (shortlist_loop sha profile checks entries ss).
        check_for checks (dedupe_key sha (sc_posting (sl_scored e))) = Some (sl_evidence e))"
  using assms
proof (induction ss arbitrary: entries)
  case (Cons s ss)
  let ?new = "\<lambda>c. entries @ [\<lparr>sl_rank = length entries + 1, sl_scored = s, sl_evidence = c\<rparr>]"
  let ?l = "shortlist_loop sha profile checks entries (s # ss)"
  have "?l = entries \<or> ?l = shortlist_loop sha profile checks entries ss
    \<or> (\<exists>c. check_for checks (dedupe_key sha (sc_posting s)) = Some c
         \<and> ?l = shortlist_loop sha profile checks (?new c) ss)"
    unfolding shortlist_loop.simps(2)
    by (cases "check_for checks (dedupe_key sha (sc_posting s))") simp_all
  then consider (full) "?l = entries" | (skip) "?l = shortlist_loop sha profile checks entries ss"
    | (take) c where "check_for checks (dedupe_key sha (sc_posting s)) = Some c"
        "?l = shortlist_loop sha profile checks (?new c) ss" by blast
  then show ?case
  proof cases
    case full
    show ?thesis unfolding full using Cons.prems by blast
  next
    case skip
    show ?thesis unfolding skip by (rule Cons.IH) (rule Cons.prems)+
  next
    case take
    show ?thesis
      unfolding take(2) by (rule Cons.IH) (use Cons.prems take(1) in \<open>auto simp: nth_append less_Suc_eq\<close>)
  qed
qed simp

text \<open>
  The shortlist is the best of what is eligible: of the ranked postings that reach the
  profile's floor, are not a SKIP and have a grounded check, exactly the first so many as the
  profile allows, in their order, ranked from one, each with the check that is about it.
\<close>

theorem shortlist_is_the_best_eligible:
  assumes "shortlist sq st w = (ret st', w')" and "js_profile st = Some profile"
  shows "map sl_scored (js_shortlist st') =
      take (nat (sp_max_shortlist profile))
        (filter (eligible (sq_sha sq) profile (js_checks st)) (js_ranked st))
    \<and> map sl_rank (js_shortlist st') = [1..<Suc (length (js_shortlist st'))]
    \<and> (\<forall>e \<in> set (js_shortlist st'). ec_grounded (sl_evidence e)
        \<and> check_for (js_checks st) (dedupe_key (sq_sha sq) (sc_posting (sl_scored e))) = Some (sl_evidence e))"
proof -
  let ?l = "shortlist_loop (sq_sha sq) profile (js_checks st) [] (js_ranked st)"
  have l: "js_shortlist st' = ?l" using assms by (auto simp: shortlist_def require_profile_def)
  have scored: "map sl_scored ?l = take (nat (sp_max_shortlist profile))
      (filter (eligible (sq_sha sq) profile (js_checks st)) (js_ranked st))"
    using shortlist_loop_scored [of "sq_sha sq" profile "js_checks st" "[]" "js_ranked st"] by simp
  note entries = shortlist_loop_entries [of "[]" "js_checks st" "sq_sha sq" profile "js_ranked st", simplified]
  have "map sl_rank ?l = [1..<Suc (length ?l)]"
    by (rule nth_equalityI) (use entries in \<open>simp_all del: upt_Suc\<close>)
  moreover have "ec_grounded (sl_evidence e)" if "e \<in> set ?l" for e
  proof -
    have "sl_scored e \<in> set (map sl_scored ?l)" using that by simp
    then have "eligible (sq_sha sq) profile (js_checks st) (sl_scored e)"
      unfolding scored by (auto dest: in_set_takeD)
    then show ?thesis using entries that by (auto simp: eligible_def)
  qed
  ultimately show ?thesis using scored entries by (simp add: l)
qed

section \<open>Searching the providers\<close>

text \<open>What the providers answered in turn, each from the world the one before left.\<close>

inductive answered ::
  "search_profile \<Rightarrow> 'w provider list \<Rightarrow> 'w \<Rightarrow> (string \<times> (exn + raw_posting list)) list \<Rightarrow> 'w \<Rightarrow> bool"
  for profile where
  answered_Nil: "answered profile [] w [] w"
| answered_Cons: "pv_search pv profile w = (r, w1) \<Longrightarrow> answered profile pvs w1 rs w2 \<Longrightarrow>
     answered profile (pv # pvs) w ((pv_name pv, r) # rs) w2"

lemma search_loop_answered:
  "\<exists>rs w'. answered profile pvs w rs w' \<and> map fst rs = map pv_name pvs
    \<and> search_loop profile pvs w =
        ((concat (map (\<lambda>(n, r). case r of Inl e \<Rightarrow> [] | Inr ps \<Rightarrow> ps) rs),
          List.map_filter (\<lambda>(n, r). case r of
              Inl e \<Rightarrow> Some \<lparr>pf_provider = n, pf_error = exn_text e\<rparr> | Inr ps \<Rightarrow> None) rs), w')"
proof (induction pvs arbitrary: w)
  case Nil
  show ?case by (intro exI [of _ "[]"] exI [of _ w]) (simp add: answered_Nil map_filter_simps)
next
  case (Cons pv pvs)
  obtain r w1 where r: "pv_search pv profile w = (r, w1)" by force
  from Cons.IH [of w1] obtain rs w' where "answered profile pvs w1 rs w'"
    "map fst rs = map pv_name pvs"
    "search_loop profile pvs w1 =
        ((concat (map (\<lambda>(n, r). case r of Inl e \<Rightarrow> [] | Inr ps \<Rightarrow> ps) rs),
          List.map_filter (\<lambda>(n, r). case r of
              Inl e \<Rightarrow> Some \<lparr>pf_provider = n, pf_error = exn_text e\<rparr> | Inr ps \<Rightarrow> None) rs), w')"
    by blast
  with r show ?case
    by (intro exI [of _ "(pv_name pv, r) # rs"] exI [of _ w'])
      (auto intro: answered_Cons simp: map_filter_simps split: sum.splits)
qed

text \<open>
  One dead provider does not fail a search. Whatever each provider answers or raises, the
  node returns: the postings are those of the providers that answered, in order and cut at the
  per-run bound, and the failures name exactly the providers that raised.
\<close>

theorem a_dead_provider_is_recorded:
  assumes "js_profile st = Some profile"
  shows "\<exists>st' w' rs. search_providers sq st w = (ret st', w')
    \<and> answered profile (sq_providers sq) w rs w' \<and> map fst rs = map pv_name (sq_providers sq)
    \<and> js_raw st' = take 500 (concat (map (\<lambda>(n, r). case r of Inl e \<Rightarrow> [] | Inr ps \<Rightarrow> ps) rs))
    \<and> js_provider_failures st' = List.map_filter (\<lambda>(n, r). case r of
              Inl e \<Rightarrow> Some \<lparr>pf_provider = n, pf_error = exn_text e\<rparr> | Inr ps \<Rightarrow> None) rs"
proof -
  obtain rs w' where "answered profile (sq_providers sq) w rs w'"
    "map fst rs = map pv_name (sq_providers sq)"
    "search_loop profile (sq_providers sq) w =
        ((concat (map (\<lambda>(n, r). case r of Inl e \<Rightarrow> [] | Inr ps \<Rightarrow> ps) rs),
          List.map_filter (\<lambda>(n, r). case r of
              Inl e \<Rightarrow> Some \<lparr>pf_provider = n, pf_error = exn_text e\<rparr> | Inr ps \<Rightarrow> None) rs), w')"
    using search_loop_answered [of profile "sq_providers sq" w] by (elim exE conjE) (erule (2) that)
  then show ?thesis
    by (auto simp: search_providers_def require_profile_def assms MAX_POSTINGS_PER_RUN_def)
qed

section \<open>A whole search\<close>

lemma then_node_ret:
  "then_node f g st w = (ret st2, w2) \<longleftrightarrow>
     (\<exists>st1 w1. f st w = (ret st1, w1) \<and> g st1 w1 = (ret st2, w2))"
  by (auto simp: then_node_def split: prod.splits sum.splits)

lemma mapM_ret:
  "mapM f xs w = (ret ys, w') \<Longrightarrow> list_all2 (\<lambda>x y. \<exists>w w'. f x w = (ret y, w')) xs ys"
proof (induction xs arbitrary: w ys w')
  case (Cons x xs)
  then show ?case by (fastforce split: prod.splits sum.splits)
qed simp

text \<open>What a search that ends leaves in the state, stage by stage.\<close>

definition searched :: "'w search_ports \<Rightarrow> search_profile \<Rightarrow> search_state \<Rightarrow> bool" where
  "searched sq profile st \<longleftrightarrow>
     js_profile st = Some profile
     \<and> length (js_raw st) \<le> 500
     \<and> js_normalized st = List.map_filter (sq_normalize sq) (js_raw st)
     \<and> js_deduplicated st = firsts (dedupe_key (sq_sha sq)) (js_normalized st)
     \<and> js_filtered st = filter (meets_constraints profile) (js_deduplicated st)
     \<and> list_all2 (\<lambda>p s. \<exists>w w'. sq_score sq p profile w = (ret s, w')) (js_filtered st) (js_scored st)
     \<and> list_all2 (\<lambda>s c. \<exists>w w'. sq_check sq s profile w = (ret c, w')) (js_scored st) (js_checks st)
     \<and> js_ranked st = sort_key (rank_key (sq_sha sq)) (js_scored st)
     \<and> js_shortlist st = shortlist_loop (sq_sha sq) profile (js_checks st) [] (js_ranked st)"

lemma load_search_profile_ret:
  "load_search_profile sq st w = (ret st', w') \<Longrightarrow>
     \<exists>user profile0 profile w0. js_profile st' = Some profile
       \<and> sq_load_profile sq user w = (ret profile0, w0)
       \<and> (profile = profile0 \<or> (\<exists>ks. profile = profile0\<lparr>sp_keywords := ks\<rparr>))"
  by (auto simp: load_search_profile_def Let_def split: sum.splits prod.splits if_splits) blast+

lemma searched_profile:
  assumes "then_node (search_providers sq) g st w = (ret st', w')" and "js_profile st = Some profile"
  shows "\<exists>st1 w1. search_providers sq st w = (ret st1, w1) \<and> g st1 w1 = (ret st', w')
    \<and> js_profile st1 = Some profile \<and> length (js_raw st1) \<le> 500"
  using assms
  by (auto simp: then_node_ret search_providers_def require_profile_def MAX_POSTINGS_PER_RUN_def
      split: prod.splits)

lemma discover_searched:
  assumes "discover sq st w = (ret st', w')"
  shows "\<exists>user profile0 profile w0. searched sq profile st'
    \<and> sq_load_profile sq user w = (ret profile0, w0)
    \<and> (profile = profile0 \<or> (\<exists>ks. profile = profile0\<lparr>sp_keywords := ks\<rparr>))"
proof -
  from assms obtain s1 w1 where "load_search_profile sq st w = (ret s1, w1)"
    and r1: "then_node (search_providers sq)
       (then_node (normalize_jobs sq) (then_node (deduplicate sq) (then_node (persist_postings sq)
         (then_node (hard_filter sq) (then_node (score_candidates sq)
           (then_node (evidence_check_node sq) (then_node (rank_node sq) (shortlist sq)))))))) s1 w1
       = (ret st', w')"
    unfolding discover_def by (subst (asm) then_node_ret) blast
  from load_search_profile_ret [OF this(1)] obtain user profile0 profile w0 where
    p1: "js_profile s1 = Some profile"
    and load: "sq_load_profile sq user w = (ret profile0, w0)"
      "profile = profile0 \<or> (\<exists>ks. profile = profile0\<lparr>sp_keywords := ks\<rparr>)"
    by blast
  from searched_profile [OF r1 p1] obtain s2 w2 where
    r2: "then_node (normalize_jobs sq) (then_node (deduplicate sq) (then_node (persist_postings sq)
         (then_node (hard_filter sq) (then_node (score_candidates sq)
           (then_node (evidence_check_node sq) (then_node (rank_node sq) (shortlist sq))))))) s2 w2
       = (ret st', w')"
    and p2: "js_profile s2 = Some profile" "length (js_raw s2) \<le> 500" by blast
  let ?n = "List.map_filter (sq_normalize sq) (js_raw s2)"
  let ?s3 = "s2\<lparr>js_normalized := ?n\<rparr>"
  from r2 have "then_node (deduplicate sq) (then_node (persist_postings sq)
         (then_node (hard_filter sq) (then_node (score_candidates sq)
           (then_node (evidence_check_node sq) (then_node (rank_node sq) (shortlist sq)))))) ?s3 w2
       = (ret st', w')"
    by (subst (asm) then_node_ret) (simp add: normalize_jobs_def)
  then obtain s4 w4 where d: "deduplicate sq ?s3 w2 = (ret s4, w4)"
    and r4: "then_node (persist_postings sq)
         (then_node (hard_filter sq) (then_node (score_candidates sq)
           (then_node (evidence_check_node sq) (then_node (rank_node sq) (shortlist sq))))) s4 w4
       = (ret st', w')"
    by (subst (asm) then_node_ret) blast
  have p4: "js_profile s4 = Some profile" "js_raw s4 = js_raw s2" "js_normalized s4 = ?n"
    using d p2 by (auto simp: deduplicate_def split: prod.splits)
  have d4: "js_deduplicated s4 = firsts (dedupe_key (sq_sha sq)) ?n"
    using one_posting_keys [OF d] by simp
  from r4 obtain s5 w5 where c: "persist_postings sq s4 w4 = (ret s5, w5)"
    and r5: "then_node (hard_filter sq) (then_node (score_candidates sq)
           (then_node (evidence_check_node sq) (then_node (rank_node sq) (shortlist sq)))) s5 w5
       = (ret st', w')"
    by (subst (asm) then_node_ret) blast
  have p5: "js_profile s5 = Some profile" "js_raw s5 = js_raw s2" "js_normalized s5 = ?n"
    "js_deduplicated s5 = js_deduplicated s4"
    using c p4 by (auto simp: persist_postings_def split: option.splits prod.splits sum.splits)
  from r5 obtain s6 w6 where f: "hard_filter sq s5 w5 = (ret s6, w6)"
    and r6: "then_node (score_candidates sq)
           (then_node (evidence_check_node sq) (then_node (rank_node sq) (shortlist sq))) s6 w6
       = (ret st', w')"
    by (subst (asm) then_node_ret) blast
  have p6: "js_profile s6 = Some profile" "js_raw s6 = js_raw s2" "js_normalized s6 = ?n"
    "js_deduplicated s6 = js_deduplicated s4"
    "js_filtered s6 = filter (meets_constraints profile) (js_deduplicated s4)"
    using f p5 by (auto simp: hard_filter_def require_profile_def filter_loop_eq hard_filter_reason_None)
  from r6 obtain s7 w7 where sc: "score_candidates sq s6 w6 = (ret s7, w7)"
    and r7: "then_node (evidence_check_node sq) (then_node (rank_node sq) (shortlist sq)) s7 w7
       = (ret st', w')"
    by (subst (asm) then_node_ret) blast
  from sc p6(1) obtain sd where s7: "s7 = s6\<lparr>js_scored := sd\<rparr>"
    and l7: "list_all2 (\<lambda>p s. \<exists>w w'. sq_score sq p profile w = (ret s, w')) (js_filtered s6) sd"
    by (auto simp: score_candidates_def require_profile_def dest: mapM_ret
        split: prod.splits sum.splits)
  from r7 obtain s8 w8 where ck: "evidence_check_node sq s7 w7 = (ret s8, w8)"
    and r8: "then_node (rank_node sq) (shortlist sq) s8 w8 = (ret st', w')"
    by (subst (asm) then_node_ret) blast
  from ck p6(1) obtain cs where s8: "s8 = s6\<lparr>js_scored := sd, js_checks := cs\<rparr>"
    and l8: "list_all2 (\<lambda>s c. \<exists>w w'. sq_check sq s profile w = (ret c, w')) sd cs"
    by (auto simp: s7 evidence_check_node_def require_profile_def dest: mapM_ret
        split: prod.splits sum.splits)
  from r8 have st': "st' = s8\<lparr>js_ranked := sort_key (rank_key (sq_sha sq)) sd,
      js_shortlist := shortlist_loop (sq_sha sq) profile cs [] (sort_key (rank_key (sq_sha sq)) sd)\<rparr>"
    by (auto simp: then_node_ret rank_node_def shortlist_def require_profile_def s8 p6)
  have "searched sq profile st'"
    using p2(2) p6 l7 l8 d4 by (simp add: searched_def st' s8)
  with load show ?thesis by blast
qed

lemma score_posting_ret:
  assumes "score_posting mt p profile w = (ret s, w')"
  shows "\<exists>m w1. sc_posting s = p \<and> sc_match s = Some m \<and> jm_dedupe_key m = dedupe_key (mt_sha mt) p
    \<and> match_posting mt p profile w = (ret m, w1)"
  using assms
  by (auto simp: score_posting_def ScoredPosting_init_def valid_scored_def
      split: prod.splits sum.splits if_splits)

lemma check_evidence_ret:
  assumes "check_evidence sha s = ret c" and "sc_match s = Some m"
  shows "ec_dedupe_key c = jm_dedupe_key m \<and> (ec_grounded c \<longleftrightarrow> jm_matched m \<noteq> [])"
  using assms by (auto simp: check_evidence_def EvidenceCheck_init_def Let_def split: if_splits)

lemma check_for_Some: "check_for checks k = Some c \<Longrightarrow> c \<in> set checks \<and> ec_dedupe_key c = k"
  unfolding check_for_def by (auto dest!: map_of_SomeD)

lemma list_all2_set2:
  "list_all2 P xs ys \<Longrightarrow> y \<in> set ys \<Longrightarrow> \<exists>x \<in> set xs. P x y"
  by (induction rule: list_all2_induct) auto

lemma meets_constraints_keywords [simp]:
  "meets_constraints (profile\<lparr>sp_keywords := ks\<rparr>) p = meets_constraints profile p"
  by (simp add: meets_constraints_def)


section \<open>A search on a small market\<close>

definition sample_ports :: "unit search_ports" where
  "sample_ports =
     \<lparr>sq_parse_uuid = (\<lambda>_. Some 1), sq_load_profile = (\<lambda>_ w. (ret sample_profile, w)),
      sq_providers =
        [\<lparr>pv_name = ''down'', pv_search = (\<lambda>_ w. (raise (PY ''TimeoutError'' ''slow'' None), w))\<rparr>,
         \<lparr>pv_name = ''board'', pv_search = (\<lambda>_ w. (ret [sample_raw, sample_raw], w))\<rparr>],
      sq_normalize = normalize plain_ports, sq_catalog = None,
      sq_score = score_posting sample_matcher,
      sq_check = (\<lambda>s _ v. (check_evidence pad64 s, v)), sq_sha = pad64\<rparr>"

definition new_search :: search_state where
  "new_search =
     \<lparr>js_user_id = Some ''u'', js_query = Some '' go '', js_prepare_application = False,
      js_profile = None, js_raw = [], js_provider_failures = [], js_normalized = [],
      js_deduplicated = [], js_duplicate_keys = [], js_persisted = [], js_filtered = [],
      js_rejections = [], js_scored = [], js_checks = [], js_ranked = [], js_shortlist = []\<rparr>"

definition sample_go :: normalized_posting where
  "sample_go =
     \<lparr>np_source = ''board'', np_source_job_id = Some ''?'', np_title = ''Go engineer'',
      np_company = ''Acme'', np_location = None, np_url = Some ''HTTPS://acme.example/1'',
      np_description = [], np_salary_min = Some 90000, np_salary_max = None, np_remote = False,
      np_posted_at = None, np_skills = [''G'', ''o''], np_raw = rp_payload sample_raw\<rparr>"

definition sample_query_profile :: search_profile where
  "sample_query_profile = sample_profile\<lparr>sp_keywords := [''go'']\<rparr>"

lemma sample_normalizes: "normalize plain_ports sample_raw = Some sample_go"
proof -
  have "normalize plain_ports sample_raw \<noteq> None" by code_simp
  then obtain p where p: "normalize plain_ports sample_raw = Some p" by blast
  have "np_source (the (normalize plain_ports sample_raw)) = ''board''"
    "np_source_job_id (the (normalize plain_ports sample_raw)) = Some ''?''"
    "np_title (the (normalize plain_ports sample_raw)) = ''Go engineer''"
    "np_company (the (normalize plain_ports sample_raw)) = ''Acme''"
    "np_location (the (normalize plain_ports sample_raw)) = None"
    "np_url (the (normalize plain_ports sample_raw)) = Some ''HTTPS://acme.example/1''"
    "np_description (the (normalize plain_ports sample_raw)) = []"
    "np_salary_min (the (normalize plain_ports sample_raw)) = Some 90000"
    "np_salary_max (the (normalize plain_ports sample_raw)) = None"
    "np_remote (the (normalize plain_ports sample_raw)) = False"
    "np_posted_at (the (normalize plain_ports sample_raw)) = None"
    "np_skills (the (normalize plain_ports sample_raw)) = [''G'', ''o'']"
    by code_simp+
  moreover have "np_raw p = rp_payload sample_raw" using normalize_ok [OF p] by blast
  ultimately show ?thesis using p by (cases p) (simp add: sample_go_def)
qed

lemma sample_features:
  "location_feature sample_go sample_query_profile default_config
     = (1, result ''location'' PASSED default_config NO_EFFECT)"
  "level_feature sample_go sample_query_profile default_config
     = (1 / 2, result ''level'' UNKNOWN default_config NO_EFFECT)"
  "employment_type_feature sample_go sample_query_profile default_config
     = (1, result ''employment_type'' PASSED default_config NO_EFFECT)"
  "requirement_coverage sample_go sample_evidence = ([], [''G'', ''o''])"
  "meets_constraints sample_query_profile sample_go"
proof -
  have "infer_seniority ''Go engineer'' = None" by code_simp
  then show "level_feature sample_go sample_query_profile default_config
     = (1 / 2, result ''level'' UNKNOWN default_config NO_EFFECT)"
    by (simp add: level_feature_def sample_query_profile_def sample_profile_def sample_go_def
        default_config_def)
  show "location_feature sample_go sample_query_profile default_config
     = (1, result ''location'' PASSED default_config NO_EFFECT)"
    "employment_type_feature sample_go sample_query_profile default_config
     = (1, result ''employment_type'' PASSED default_config NO_EFFECT)"
    by (simp_all add: location_feature_def employment_type_feature_def sample_query_profile_def
        sample_profile_def Let_def)
  show "requirement_coverage sample_go sample_evidence = ([], [''G'', ''o''])" by code_simp
  show "meets_constraints sample_query_profile sample_go"
    by (simp add: meets_constraints_def sample_query_profile_def sample_profile_def missing_skills_def
        Let_def)
qed

lemma sample_scores:
  "\<exists>s m. score_posting sample_matcher sample_go sample_query_profile () = (ret s, ())
     \<and> sc_posting s = sample_go \<and> sc_match s = Some m \<and> sc_score s = 1297 / 2500
     \<and> jm_recommendation m = REC_MAYBE \<and> jm_matched m \<noteq> []
     \<and> (\<exists>c. check_evidence pad64 s = ret c \<and> ec_grounded c
          \<and> ec_dedupe_key c = dedupe_key pad64 sample_go)"
proof -
  have cfg: "valid_config (mt_config sample_matcher)" by (simp add: sample_matcher_def sample_ok)
  obtain g where g: "ground_assessment sample_assessment sample_evidence = ret g"
    using ground_assessment_eq [OF sample_ok(2), of sample_assessment] by (simp add: Let_def)
  have gv: "semantic_value (projr (ground_assessment sample_assessment sample_evidence)) = 5 / 8"
    "ga_matched (projr (ground_assessment sample_assessment sample_evidence)) \<noteq> []"
    "filter (\<lambda>m. ms_severity m = BLOCKING) (ga_missing (projr (ground_assessment sample_assessment sample_evidence))) = []"
    "list_all (\<lambda>r. \<not> blank (mr_evidence_id r)) (ga_matched (projr (ground_assessment sample_assessment sample_evidence)))"
    by code_simp+
  note gv = gv [unfolded g sum.sel]
  let ?m = "verdict sample_matcher sample_go sample_query_profile sample_evidence g"
  have r: "round4 1 = 1" "round4 (1 / 2) = 1 / 2" "round4 0 = 0" "round4 (5 / 8) = 5 / 8"
    "round4 (83 / 160) = 1297 / 2500" by code_simp+
  have conf: "mt_config sample_matcher = default_config" "mt_sha sample_matcher = pad64"
    by (simp_all add: sample_matcher_def)
  have assess: "mt_assess sample_matcher p q ev w = (ret sample_assessment, w)" for p q ev w
    by (simp add: sample_matcher_def)
  have d: "cfg_weights default_config = default_weights"
    "cfg_apply_threshold default_config = 7 / 10" "cfg_maybe_threshold default_config = 9 / 20"
    by (simp_all add: default_config_def)
  have m: "jm_weighted ?m = 1297 / 2500" "caps_of (jm_constraints ?m) = []" "\<not> jm_rejected ?m"
    by (simp_all add: verdict_def Let_def conf sample_features weights_dict_def default_weights_def
        caps_of_def map_filter_simps jm_rejected_def r gv d)
  note vp = verdict_parts [OF cfg, of sample_go sample_query_profile sample_evidence g]
  have score: "jm_score ?m = 1297 / 2500" using vp(2) m by simp
  have rec: "jm_recommendation ?m = REC_MAYBE"
    using vp(3) m(3) score by (simp add: recommend_for_def conf d)
  have "match_posting sample_matcher sample_go sample_query_profile () = (ret ?m, ())"
    using verdict_valid [OF cfg, of sample_go sample_query_profile sample_evidence g]
    by (simp add: match_posting_def assess_posting_def sample_ok sample_features g JobMatch_init_def assess)
  moreover have "valid_scored pad64 \<lparr>sc_posting = sample_go, sc_score = jm_score ?m,
      sc_components = jm_components ?m, sc_match = Some ?m\<rparr>"
    using vp(6,7) verdict_valid [OF cfg, of sample_go sample_query_profile sample_evidence g]
    by (simp add: valid_scored_def valid_match_def conf)
  moreover have "\<exists>c. check_evidence pad64 \<lparr>sc_posting = sample_go, sc_score = jm_score ?m,
      sc_components = jm_components ?m, sc_match = Some ?m\<rparr> = ret c \<and> ec_grounded c
          \<and> ec_dedupe_key c = dedupe_key pad64 sample_go"
    using check_evidence_ok [of "\<lparr>sc_posting = sample_go, sc_score = jm_score ?m,
      sc_components = jm_components ?m, sc_match = Some ?m\<rparr>" ?m pad64] gv(2,4) vp(5,6)
    by (auto simp: list_all_iff conf)
  ultimately show ?thesis
    by (simp add: score_posting_def ScoredPosting_init_def conf score rec gv(2) vp(5))
qed

lemma sample_search:
  "\<exists>st. discover sample_ports new_search () = (ret st, ())
     \<and> map (np_title \<circ> sc_posting \<circ> sl_scored) (js_shortlist st) = [''Go engineer'']
     \<and> length (js_duplicate_keys st) = 1
     \<and> map pf_provider (js_provider_failures st) = [''down'']"
proof -
  obtain s m c where s: "score_posting sample_matcher sample_go sample_query_profile () = (ret s, ())"
    "sc_posting s = sample_go" "sc_match s = Some m" "sc_score s = 1297 / 2500"
    "jm_recommendation m = REC_MAYBE"
    and c: "check_evidence pad64 s = ret c" "ec_grounded c" "ec_dedupe_key c = dedupe_key pad64 sample_go"
    using sample_scores by blast
  have sample_title: "np_title sample_go = ''Go engineer''" by (simp add: sample_go_def)
  have q: "strip '' go '' = ''go''" by code_simp
  have p: "sample_profile\<lparr>sp_keywords := [''go'']\<rparr> = sample_query_profile"
    "sp_keywords sample_profile = []" "sp_max_shortlist sample_query_profile = 5"
    "sp_min_score sample_query_profile = 1 / 2"
    by (simp_all add: sample_query_profile_def sample_profile_def)
  have f: "hard_filter_reason sample_go sample_query_profile (excluded_names sample_query_profile) = None"
    using hard_filter_reason_None sample_features(5) by blast
  have ports: "sq_providers sample_ports =
        [\<lparr>pv_name = ''down'', pv_search = (\<lambda>_ w. (raise (PY ''TimeoutError'' ''slow'' None), w))\<rparr>,
         \<lparr>pv_name = ''board'', pv_search = (\<lambda>_ w. (ret [sample_raw, sample_raw], w))\<rparr>]"
    "sq_normalize sample_ports = normalize plain_ports" "sq_catalog sample_ports = None"
    "sq_score sample_ports = score_posting sample_matcher"
    "sq_check sample_ports = (\<lambda>s _ v. (check_evidence pad64 s, v))" "sq_sha sample_ports = pad64"
    by (simp_all add: sample_ports_def)
  have load: "load_search_profile sample_ports new_search ()
      = (ret (new_search\<lparr>js_profile := Some sample_query_profile\<rparr>), ())"
    by (simp add: load_search_profile_def sample_ports_def new_search_def require_uuid_def q p
        dict_fromkeys_def)
  then show ?thesis
    by (simp add: load ports f discover_def then_node_def search_providers_def normalize_jobs_def deduplicate_def
        persist_postings_def hard_filter_def score_candidates_def evidence_check_node_def rank_node_def
        shortlist_def require_profile_def map_filter_simps
        sample_normalizes MAX_POSTINGS_PER_RUN_def s c p check_for_def Let_def sample_title)
qed
lemma sample_wired:
  "sq_score sample_ports = score_posting sample_matcher"
  "sq_check sample_ports = (\<lambda>s _ v. (check_evidence (mt_sha sample_matcher) s, v))"
  "sq_normalize sample_ports = normalize plain_ports" "sq_sha sample_ports = mt_sha sample_matcher"
  by (simp_all add: sample_ports_def) (simp_all add: sample_matcher_def)

lemma sample_profiles:
  "\<forall>u v p v'. sq_load_profile sample_ports u v = (ret p, v') \<longrightarrow> valid_profile p"
  using sample_ok(4) by (simp add: sample_ports_def)


theorem one_posting_per_opening_witness:
  "\<exists>st. deduplicate sample_ports (new_search\<lparr>js_normalized := [sample_go, sample_go]\<rparr>) () = (ret st, ())
     \<and> distinct (map (dedupe_key pad64) (js_deduplicated st))
     \<and> js_duplicate_keys st = [dedupe_key pad64 sample_go]"
proof -
  obtain st where st: "deduplicate sample_ports (new_search\<lparr>js_normalized := [sample_go, sample_go]\<rparr>) () = (ret st, ())"
    and d: "js_duplicate_keys st = [dedupe_key pad64 sample_go]"
    by (simp add: deduplicate_def sample_ports_def Let_def)
  from one_posting_per_opening [OF st] st d show ?thesis by (simp add: sample_ports_def)
qed

theorem hard_filter_is_exact_witness:
  "\<exists>st. hard_filter sample_ports (new_search\<lparr>js_profile := Some (sample_profile\<lparr>sp_remote_only := True\<rparr>),
       js_deduplicated := [sample_go]\<rparr>) () = (ret st, ())
     \<and> js_filtered st = [] \<and> map fr_dedupe_key (js_rejections st) = [dedupe_key pad64 sample_go]"
proof -
  let ?p = "sample_profile\<lparr>sp_remote_only := True\<rparr>"
  let ?s = "new_search\<lparr>js_profile := Some ?p, js_deduplicated := [sample_go]\<rparr>"
  obtain st where st: "hard_filter sample_ports ?s () = (ret st, ())"
    by (cases "filter_loop pad64 ?p (excluded_names ?p) [sample_go]")
      (auto simp: hard_filter_def require_profile_def sample_ports_def)
  have p: "js_profile ?s = Some ?p" by simp
  have "\<not> meets_constraints ?p sample_go" by (simp add: meets_constraints_def sample_go_def)
  with hard_filter_is_exact [OF st p] st show ?thesis by (simp add: sample_ports_def)
qed

definition scored_as :: "rat \<Rightarrow> string \<Rightarrow> scored_posting" where
  "scored_as x title =
     \<lparr>sc_posting = posting_of title ''Acme'' [], sc_score = x, sc_components = [(''location'', x)],
      sc_match = None\<rparr>"

theorem ranking_ignores_arrival_order_witness:
  "\<exists>st st2. rank_node sample_ports (new_search\<lparr>js_scored := [scored_as 1 ''a'', scored_as (1/2) ''b'']\<rparr>) () = (ret st, ())
     \<and> rank_node sample_ports (new_search\<lparr>js_scored := [scored_as (1/2) ''b'', scored_as 1 ''a'']\<rparr>) () = (ret st2, ())
     \<and> js_ranked st2 = js_ranked st"
proof -
  let ?s = "new_search\<lparr>js_scored := [scored_as 1 ''a'', scored_as (1/2) ''b'']\<rparr>"
  let ?t = "new_search\<lparr>js_scored := [scored_as (1/2) ''b'', scored_as 1 ''a'']\<rparr>"
  obtain st where st: "rank_node sample_ports ?s () = (ret st, ())" by (simp add: rank_node_def)
  obtain st2 where st2: "rank_node sample_ports ?t () = (ret st2, ())" by (simp add: rank_node_def)
  have "dedupe_key pad64 (posting_of ''a'' ''Acme'' []) \<noteq> dedupe_key pad64 (posting_of ''b'' ''Acme'' [])"
    by code_simp
  then have "distinct (map (\<lambda>s. dedupe_key (sq_sha sample_ports) (sc_posting s)) (js_scored ?s))"
    by (simp add: scored_as_def sample_ports_def)
  from ranking_ignores_arrival_order [OF this _ st st2] st st2 show ?thesis by (simp add: add_mset_commute)
qed

theorem shortlist_is_the_best_eligible_witness:
  "\<exists>st. shortlist sample_ports (new_search\<lparr>js_profile := Some sample_profile,
        js_ranked := [scored_as 1 ''a'', scored_as (1/4) ''b''],
        js_checks := [\<lparr>ec_dedupe_key = dedupe_key pad64 (posting_of ''a'' ''Acme'' []),
          ec_grounded = True, ec_citations = [\<lparr>ef_type = ''resume'', ef_ref = ''c''\<rparr>],
          ec_unsupported = []\<rparr>]\<rparr>) () = (ret st, ())
     \<and> map sl_scored (js_shortlist st) = [scored_as 1 ''a'']"
proof -
  let ?s = "new_search\<lparr>js_profile := Some sample_profile,
        js_ranked := [scored_as 1 ''a'', scored_as (1/4) ''b''],
        js_checks := [\<lparr>ec_dedupe_key = dedupe_key pad64 (posting_of ''a'' ''Acme'' []),
          ec_grounded = True, ec_citations = [\<lparr>ef_type = ''resume'', ef_ref = ''c''\<rparr>],
          ec_unsupported = []\<rparr>]\<rparr>"
  obtain st where st: "shortlist sample_ports ?s () = (ret st, ())"
    by (simp add: shortlist_def require_profile_def)
  have p: "js_profile ?s = Some sample_profile" by simp
  from shortlist_is_the_best_eligible [OF st p] st show ?thesis
    by (simp add: sample_ports_def eligible_def scored_as_def sample_profile_def check_for_def)
qed

theorem a_dead_provider_is_recorded_witness:
  "\<exists>st. search_providers sample_ports (new_search\<lparr>js_profile := Some sample_profile\<rparr>) () = (ret st, ())
     \<and> length (js_raw st) \<le> 500"
proof -
  let ?s = "new_search\<lparr>js_profile := Some sample_profile\<rparr>"
  have "js_profile ?s = Some sample_profile" by simp
  from a_dead_provider_is_recorded [OF this, of sample_ports "()"] show ?thesis by auto
qed

end
