(* ===== verification/Checkpoints.thy ===== *)
theory Checkpoints
  imports Approvals Lifecycle
begin

text \<open>
  Durable, conditional waits: the wait and the policy that decides about one
  (\<open>personalos/domain/checkpoints.py\<close>), the table they live in with its guarded close
  (\<open>personalos/persistence/pending_checkpoints.py\<close>), the evaluator that answers their conditions
  (\<open>personalos/persistence/checkpoint_conditions.py\<close>) and the monitor that sweeps them
  (\<open>apps/worker/checkpoint_monitor.py\<close>). A store operation gets what other processes commit
  between its read and its write as an argument. \<open>show\<close> renders an id.
\<close>

section \<open>Waits\<close>

definition DEFAULT_CHECKPOINT_GRACE :: seconds where "DEFAULT_CHECKPOINT_GRACE = 3 * 86400"
definition MAX_THREAD_ID_LENGTH :: nat where "MAX_THREAD_ID_LENGTH = 255"

datatype condition_kind =
  RECRUITER_RESPONSE_RECEIVED | CANDIDATE_REPLY_SENT | APPLICATION_CLOSED

datatype follow_up_kind = NO_RESPONSE | AWAITING_CANDIDATE_REPLY | INTERVIEW_PREP

fun follow_up_value :: "follow_up_kind \<Rightarrow> string" where
  "follow_up_value NO_RESPONSE = ''no_response''"
| "follow_up_value AWAITING_CANDIDATE_REPLY = ''awaiting_candidate_reply''"
| "follow_up_value INTERVIEW_PREP = ''interview_prep''"

record checkpoint_condition =
  cc_kind :: condition_kind
  cc_subject_id :: uuid
  cc_since :: "datetime option"
  cc_params :: pydict

datatype checkpoint_status = CP_PENDING | CP_RESOLVED | CP_FIRED | CP_EXPIRED | CP_CANCELLED
datatype checkpoint_outcome = WAIT | RESOLVE | FIRE | EXPIRE

record pending_checkpoint =
  pc_id :: uuid
  pc_application_id :: uuid
  pc_kind :: follow_up_kind
  pc_condition :: checkpoint_condition
  pc_reason :: string
  pc_thread_id :: string
  pc_workflow_id :: "uuid option"
  pc_created_at :: datetime
  pc_trigger_at :: datetime
  pc_expires_at :: datetime
  pc_status :: checkpoint_status
  pc_dedupe_key :: string
  pc_closed_at :: "datetime option"
  pc_closed_reason :: "string option"

definition checkpoint_error :: "string \<Rightarrow> exn" where
  "checkpoint_error msg = POS CheckpointContractError msg None"

definition valid_checkpoint :: "pending_checkpoint \<Rightarrow> bool" where
  "valid_checkpoint c \<longleftrightarrow>
     strip (pc_reason c) \<noteq> [] \<and> strip (pc_dedupe_key c) \<noteq> []
     \<and> strip (pc_thread_id c) \<noteq> [] \<and> length (pc_thread_id c) \<le> MAX_THREAD_ID_LENGTH
     \<and> pc_created_at c \<le> pc_trigger_at c \<and> pc_trigger_at c < pc_expires_at c"

definition PendingCheckpoint_init :: "pending_checkpoint \<Rightarrow> exn + pending_checkpoint" where
  "PendingCheckpoint_init c =
     (if valid_checkpoint c then ret c else raise (validation_error ''pending checkpoint''))"

fun CONDITION_FOR_KIND :: "follow_up_kind \<Rightarrow> condition_kind" where
  "CONDITION_FOR_KIND NO_RESPONSE = RECRUITER_RESPONSE_RECEIVED"
| "CONDITION_FOR_KIND AWAITING_CANDIDATE_REPLY = CANDIDATE_REPLY_SENT"
| "CONDITION_FOR_KIND INTERVIEW_PREP = APPLICATION_CLOSED"

definition condition_for_kind ::
  "follow_up_kind \<Rightarrow> uuid \<Rightarrow> datetime option \<Rightarrow> checkpoint_condition" where
  "condition_for_kind kind app since =
     \<lparr>cc_kind = CONDITION_FOR_KIND kind, cc_subject_id = app, cc_since = since, cc_params = []\<rparr>"

definition follow_up_dedupe_key :: "(uuid \<Rightarrow> string) \<Rightarrow> uuid \<Rightarrow> follow_up_kind \<Rightarrow> string" where
  "follow_up_dedupe_key show app kind =
     ''follow_up:'' @ show app @ '':'' @ follow_up_value kind"

text \<open>\<open>PendingCheckpoint.for_follow_up\<close>; \<open>n\<close> is the id \<open>uuid4()\<close> draws, and a grace of zero is falsy.\<close>

definition for_follow_up ::
  "(uuid \<Rightarrow> string) \<Rightarrow> uuid \<Rightarrow> uuid \<Rightarrow> follow_up_kind \<Rightarrow> datetime \<Rightarrow> string \<Rightarrow> string \<Rightarrow>
   uuid option \<Rightarrow> datetime \<Rightarrow> seconds option \<Rightarrow> exn + pending_checkpoint" where
  "for_follow_up show n app kind due reason thread wid created grace =
     PendingCheckpoint_init
       \<lparr>pc_id = n, pc_application_id = app, pc_kind = kind,
        pc_condition = condition_for_kind kind app (Some created), pc_reason = reason,
        pc_thread_id = thread, pc_workflow_id = wid, pc_created_at = created, pc_trigger_at = due,
        pc_expires_at = due + (case grace of Some g \<Rightarrow> if g \<noteq> 0 then g else DEFAULT_CHECKPOINT_GRACE
                                           | None \<Rightarrow> DEFAULT_CHECKPOINT_GRACE),
        pc_status = CP_PENDING, pc_dedupe_key = follow_up_dedupe_key show app kind,
        pc_closed_at = None, pc_closed_reason = None\<rparr>"

definition is_open :: "pending_checkpoint \<Rightarrow> bool" where
  "is_open c \<longleftrightarrow> pc_status c = CP_PENDING"

definition is_due :: "pending_checkpoint \<Rightarrow> datetime \<Rightarrow> bool" where
  "is_due c now \<longleftrightarrow> now \<ge> pc_trigger_at c"

definition has_expired :: "pending_checkpoint \<Rightarrow> datetime \<Rightarrow> bool" where
  "has_expired c now \<longleftrightarrow> now \<ge> pc_expires_at c"

definition closed_as ::
  "pending_checkpoint \<Rightarrow> checkpoint_status \<Rightarrow> datetime \<Rightarrow> string \<Rightarrow> exn + pending_checkpoint" where
  "closed_as c st at' reason =
     (if st = CP_PENDING
      then raise (checkpoint_error ''closing a checkpoint requires a terminal status'')
      else ret (c\<lparr>pc_status := st, pc_closed_at := Some at', pc_closed_reason := Some reason\<rparr>))"

definition decide_checkpoint ::
  "pending_checkpoint \<Rightarrow> bool \<Rightarrow> datetime \<Rightarrow> exn + checkpoint_outcome" where
  "decide_checkpoint c condition_met now =
     (if \<not> is_open c then raise (checkpoint_error ''only a pending checkpoint has an outcome to decide'')
      else if condition_met then ret RESOLVE
      else if has_expired c now then ret EXPIRE
      else if is_due c now then ret FIRE
      else ret WAIT)"

section \<open>The table\<close>

type_synonym checkpoints = "pending_checkpoint list"

definition row_for_key :: "string \<Rightarrow> checkpoints \<Rightarrow> pending_checkpoint option" where
  "row_for_key k db = find_first (\<lambda>r. pc_dedupe_key r = k) db"

definition schedule ::
  "(checkpoints \<Rightarrow> checkpoints) \<Rightarrow> pending_checkpoint \<Rightarrow> checkpoints \<Rightarrow>
   pending_checkpoint \<times> checkpoints" where
  "schedule others c db =
     (case row_for_key (pc_dedupe_key c) db of
        Some r \<Rightarrow> (r, db)
      | None \<Rightarrow>
          let db1 = others db in
          case row_for_key (pc_dedupe_key c) db1 of
            Some winner \<Rightarrow> (winner, db1)
          | None \<Rightarrow> (c, db1 @ [c]))"

definition close_row ::
  "uuid \<Rightarrow> checkpoint_status \<Rightarrow> string \<Rightarrow> datetime \<Rightarrow> pending_checkpoint \<Rightarrow> pending_checkpoint" where
  "close_row n st reason now r =
     (if pc_id r = n \<and> pc_status r = CP_PENDING
      then r\<lparr>pc_status := st, pc_closed_at := Some now, pc_closed_reason := Some reason\<rparr> else r)"

text \<open>The guarded \<open>UPDATE\<close>: whether it changed a row, and the table it leaves.\<close>

definition close ::
  "uuid \<Rightarrow> checkpoint_status \<Rightarrow> string \<Rightarrow> datetime \<Rightarrow> checkpoints \<Rightarrow> exn + (bool \<times> checkpoints)" where
  "close n st reason now db =
     (if st = CP_PENDING then raise (PY ''ValueError'' ''close requires a terminal status'' None)
      else ret (\<exists>r \<in> set db. pc_id r = n \<and> pc_status r = CP_PENDING,
                map (close_row n st reason now) db))"

fun close_all ::
  "(nat \<Rightarrow> checkpoints \<Rightarrow> checkpoints) \<Rightarrow> checkpoint_status \<Rightarrow> string \<Rightarrow> datetime \<Rightarrow> uuid list \<Rightarrow>
   checkpoints \<Rightarrow> exn + (uuid list \<times> checkpoints)" where
  "close_all others st reason now [] db = ret ([], db)"
| "close_all others st reason now (n # ns) db =
     (case close n st reason now (others (length ns) db) of
        Inl e \<Rightarrow> raise e
      | Inr (won, db1) \<Rightarrow>
          (case close_all others st reason now ns db1 of
             Inl e \<Rightarrow> raise e
           | Inr (ids, db2) \<Rightarrow> ret (if won then n # ids else ids, db2)))"

definition supersede ::
  "(checkpoints \<Rightarrow> checkpoints) \<Rightarrow> (nat \<Rightarrow> checkpoints \<Rightarrow> checkpoints) \<Rightarrow> pending_checkpoint \<Rightarrow>
   string \<Rightarrow> datetime \<Rightarrow> checkpoints \<Rightarrow> exn + (pending_checkpoint \<times> checkpoints)" where
  "supersede before others c reason now db =
     (case schedule before c db of (stored, db1) \<Rightarrow>
        let stale = map pc_id (filter (\<lambda>r. pc_application_id r = pc_application_id c
              \<and> pc_kind r = pc_kind c \<and> pc_status r = CP_PENDING
              \<and> pc_dedupe_key r \<noteq> pc_dedupe_key stored) db1)
        in case close_all others CP_CANCELLED reason now stale db1 of
             Inl e \<Rightarrow> raise e
           | Inr (_, db2) \<Rightarrow> ret (stored, db2))"

definition resolve_matching ::
  "(nat \<Rightarrow> checkpoints \<Rightarrow> checkpoints) \<Rightarrow> condition_kind \<Rightarrow> uuid \<Rightarrow> string \<Rightarrow> datetime option \<Rightarrow>
   datetime \<Rightarrow> checkpoints \<Rightarrow> exn + (uuid list \<times> checkpoints)" where
  "resolve_matching others kind subject reason occurred now db =
     close_all others CP_RESOLVED reason now
       (map pc_id (filter (\<lambda>r. pc_status r = CP_PENDING \<and> cc_kind (pc_condition r) = kind
          \<and> cc_subject_id (pc_condition r) = subject
          \<and> (case (occurred, cc_since (pc_condition r)) of
               (Some t, Some s) \<Rightarrow> t \<ge> s | _ \<Rightarrow> True)) db)) db"

definition DEFAULT_SWEEP_LIMIT :: nat where "DEFAULT_SWEEP_LIMIT = 100"

definition due :: "datetime \<Rightarrow> nat \<Rightarrow> checkpoints \<Rightarrow> checkpoints" where
  "due now limit db =
     take limit (sort_key (\<lambda>r. (pc_trigger_at r, pc_id r))
       (filter (\<lambda>r. pc_status r = CP_PENDING \<and> (pc_trigger_at r \<le> now \<or> pc_expires_at r \<le> now)) db))"

definition open_for_application :: "uuid \<Rightarrow> checkpoints \<Rightarrow> checkpoints" where
  "open_for_application app db =
     sort_key pc_trigger_at (filter (\<lambda>r. pc_application_id r = app \<and> pc_status r = CP_PENDING) db)"

definition history_for_application :: "uuid \<Rightarrow> checkpoints \<Rightarrow> checkpoints" where
  "history_for_application app db =
     sort_key pc_created_at (filter (\<lambda>r. pc_application_id r = app) db)"

section \<open>Conditions\<close>

datatype event_classification =
  RECRUITER_RESPONSE | INTERVIEW_INVITE | EC_REJECTION | EC_OFFER | ACTION_REQUIRED
| GENERAL_UPDATE | UNRELATED

record communication_row =
  cr_application_id :: uuid
  cr_classification :: event_classification
  cr_occurred_at :: datetime

record execution_row =
  xr_key :: string
  xr_completed :: bool
  xr_updated_at :: datetime

record condition_db =
  cd_communications :: "communication_row list"
  cd_executions :: "execution_row list"
  cd_statuses :: "uuid \<Rightarrow> application_status option"

definition since_ok :: "datetime option \<Rightarrow> datetime \<Rightarrow> bool" where
  "since_ok since t \<longleftrightarrow> (case since of None \<Rightarrow> True | Some s \<Rightarrow> t \<ge> s)"

definition recruiter_responded :: "checkpoint_condition \<Rightarrow> condition_db \<Rightarrow> bool" where
  "recruiter_responded c db \<longleftrightarrow>
     (\<exists>r \<in> set (cd_communications db). cr_application_id r = cc_subject_id c
        \<and> cr_classification r \<noteq> UNRELATED \<and> since_ok (cc_since c) (cr_occurred_at r))"

definition reply_prefix :: "(uuid \<Rightarrow> string) \<Rightarrow> uuid \<Rightarrow> string" where
  "reply_prefix show app = ''reply-'' @ show app @ ''-''"

definition candidate_replied ::
  "(uuid \<Rightarrow> string) \<Rightarrow> checkpoint_condition \<Rightarrow> condition_db \<Rightarrow> bool" where
  "candidate_replied show c db \<longleftrightarrow>
     (\<exists>r \<in> set (cd_executions db).
        take (length (reply_prefix show (cc_subject_id c))) (xr_key r)
          = reply_prefix show (cc_subject_id c)
        \<and> xr_completed r \<and> since_ok (cc_since c) (xr_updated_at r))"

definition application_closed :: "checkpoint_condition \<Rightarrow> condition_db \<Rightarrow> bool" where
  "application_closed c db \<longleftrightarrow>
     (case cd_statuses db (cc_subject_id c) of
        None \<Rightarrow> True | Some s \<Rightarrow> s \<in> TERMINAL_APPLICATION_STATUSES)"

definition condition_is_met ::
  "(uuid \<Rightarrow> string) \<Rightarrow> checkpoint_condition \<Rightarrow> condition_db \<Rightarrow> bool" where
  "condition_is_met show c db =
     (case cc_kind c of
        RECRUITER_RESPONSE_RECEIVED \<Rightarrow> recruiter_responded c db
      | CANDIDATE_REPLY_SENT \<Rightarrow> candidate_replied show c db
      | APPLICATION_CLOSED \<Rightarrow> application_closed c db)"

section \<open>The monitor\<close>

text \<open>
  An awaited port may run while other processes write, so it maps the whole state, table and
  world. \<open>mo_resolve\<close> looks a thread up, \<open>mo_inspect\<close> answers with the thread's latest stored
  checkpoint and the nodes it is parked at.
\<close>

record ('t, 'w) monitor =
  mo_is_met :: "checkpoint_condition \<Rightarrow> checkpoints \<times> 'w \<Rightarrow> (exn + bool) \<times> checkpoints \<times> 'w"
  mo_resolve :: "string \<Rightarrow> checkpoints \<times> 'w \<Rightarrow> (exn + 't option) \<times> checkpoints \<times> 'w"
  mo_inspect :: "'t \<Rightarrow> checkpoints \<times> 'w \<Rightarrow>
    (exn + (string option \<times> string list)) \<times> checkpoints \<times> 'w"
  mo_start :: "'t \<Rightarrow> pending_checkpoint \<Rightarrow> checkpoints \<times> 'w \<Rightarrow> (exn + unit) \<times> checkpoints \<times> 'w"

datatype bucket = IN_RESOLVED | IN_FIRED | IN_EXPIRED | IN_DEFERRED | IN_CANCELLED | IN_FAILED | IN_WAITING

text \<open>Closing within a sweep: whether this monitor won.\<close>

definition close_in ::
  "pending_checkpoint \<Rightarrow> checkpoint_status \<Rightarrow> string \<Rightarrow> datetime \<Rightarrow> checkpoints \<times> 'w \<Rightarrow>
   (exn + bool) \<times> checkpoints \<times> 'w" where
  "close_in c st reason now s =
     (case close (pc_id c) st reason now (fst s) of
        Inl e \<Rightarrow> (raise e, s)
      | Inr (won, db) \<Rightarrow> (ret won, db, snd s))"

definition fire_claimed ::
  "('t, 'w) monitor \<Rightarrow> 't \<Rightarrow> pending_checkpoint \<Rightarrow> checkpoints \<times> 'w \<Rightarrow>
   (exn + bucket) \<times> checkpoints \<times> 'w" where
  "fire_claimed mo t c s =
     (case mo_start mo t c s of
        (Inl _, s1) \<Rightarrow> (ret IN_FAILED, s1)
      | (Inr _, s1) \<Rightarrow> (ret IN_FIRED, s1))"

definition fire ::
  "('t, 'w) monitor \<Rightarrow> datetime \<Rightarrow> pending_checkpoint \<Rightarrow> checkpoints \<times> 'w \<Rightarrow>
   (exn + bucket) \<times> checkpoints \<times> 'w" where
  "fire mo now c s =
     (case mo_resolve mo (pc_thread_id c) s of
        (Inl e, s1) \<Rightarrow> (raise e, s1)
      | (Inr None, s1) \<Rightarrow>
          (case close_in c CP_CANCELLED ''thread is not registered to any workflow'' now s1 of
             (Inl e, s2) \<Rightarrow> (raise e, s2) | (Inr _, s2) \<Rightarrow> (ret IN_CANCELLED, s2))
      | (Inr (Some t), s1) \<Rightarrow>
          (case mo_inspect mo t s1 of
             (Inl e, s2) \<Rightarrow> (raise e, s2)
           | (Inr (None, _), s2) \<Rightarrow>
               (case close_in c CP_CANCELLED ''thread has no stored state to follow up on'' now s2 of
                  (Inl e, s3) \<Rightarrow> (raise e, s3) | (Inr _, s3) \<Rightarrow> (ret IN_CANCELLED, s3))
           | (Inr (Some _, parked), s2) \<Rightarrow>
               if parked \<noteq> [] then (ret IN_DEFERRED, s2)
               else (case close_in c CP_FIRED ''trigger reached'' now s2 of
                       (Inl e, s3) \<Rightarrow> (raise e, s3)
                     | (Inr won, s3) \<Rightarrow>
                         if won then fire_claimed mo t c s3 else (ret IN_DEFERRED, s3))))"

definition close_into ::
  "pending_checkpoint \<Rightarrow> checkpoint_status \<Rightarrow> string \<Rightarrow> bucket \<Rightarrow> datetime \<Rightarrow> checkpoints \<times> 'w \<Rightarrow>
   (exn + bucket) \<times> checkpoints \<times> 'w" where
  "close_into c st reason b now s =
     (case close_in c st reason now s of
        (Inl e, s1) \<Rightarrow> (raise e, s1)
      | (Inr won, s1) \<Rightarrow> (ret (if won then b else IN_DEFERRED), s1))"

definition handle_checkpoint ::
  "('t, 'w) monitor \<Rightarrow> datetime \<Rightarrow> pending_checkpoint \<Rightarrow> checkpoints \<times> 'w \<Rightarrow>
   (exn + bucket) \<times> checkpoints \<times> 'w" where
  "handle_checkpoint mo now c s =
     (case mo_is_met mo (pc_condition c) s of
        (Inl e, s1) \<Rightarrow> (raise e, s1)
      | (Inr met, s1) \<Rightarrow>
          (case decide_checkpoint c met now of
             Inl e \<Rightarrow> (raise e, s1)
           | Inr WAIT \<Rightarrow> (ret IN_WAITING, s1)
           | Inr RESOLVE \<Rightarrow> close_into c CP_RESOLVED ''condition met before the trigger fired'' IN_RESOLVED now s1
           | Inr EXPIRE \<Rightarrow> close_into c CP_EXPIRED ''expiry passed without firing'' IN_EXPIRED now s1
           | Inr FIRE \<Rightarrow> fire mo now c s1))"

text \<open>The buckets of a sweep, in the order the checkpoints were handled.\<close>

fun sweep_loop ::
  "('t, 'w) monitor \<Rightarrow> datetime \<Rightarrow> checkpoints \<Rightarrow> checkpoints \<times> 'w \<Rightarrow>
   (exn + (uuid \<times> bucket) list) \<times> checkpoints \<times> 'w" where
  "sweep_loop mo now [] s = (ret [], s)"
| "sweep_loop mo now (c # cs) s =
     (case handle_checkpoint mo now c s of
        (Inl e, s1) \<Rightarrow> (raise e, s1)
      | (Inr b, s1) \<Rightarrow>
          (case sweep_loop mo now cs s1 of
             (Inl e, s2) \<Rightarrow> (raise e, s2)
           | (Inr bs, s2) \<Rightarrow> (ret ((pc_id c, b) # bs), s2)))"

definition monitor_sweep ::
  "('t, 'w) monitor \<Rightarrow> datetime \<Rightarrow> nat \<Rightarrow> checkpoints \<times> 'w \<Rightarrow>
   (exn + (uuid \<times> bucket) list) \<times> checkpoints \<times> 'w" where
  "monitor_sweep mo now limit s = sweep_loop mo now (due now limit (fst s)) s"

section \<open>What the table keeps\<close>

text \<open>One row per id and per key, and every row a value its validators accept.\<close>

definition table_ok :: "checkpoints \<Rightarrow> bool" where
  "table_ok db \<longleftrightarrow>
     distinct (map pc_id db) \<and> distinct (map pc_dedupe_key db) \<and> (\<forall>r \<in> set db. valid_checkpoint r)"

text \<open>What a process may do to the rows it finds: nothing, or close the open ones.\<close>

definition closes :: "pending_checkpoint \<Rightarrow> pending_checkpoint \<Rightarrow> bool" where
  "closes r r' \<longleftrightarrow>
     r' = r \<or> pc_status r = CP_PENDING
       \<and> (\<exists>st t why. r' = r\<lparr>pc_status := st, pc_closed_at := t, pc_closed_reason := why\<rparr>)"

definition later :: "checkpoints \<Rightarrow> checkpoints \<Rightarrow> bool" where
  "later db db' \<longleftrightarrow> (\<forall>r \<in> set db. \<exists>r' \<in> set db'. closes r r')"

lemma closes_refl [simp]: "closes r r"
  by (simp add: closes_def)

lemma closes_trans:
  assumes ab: "closes a b" and bc: "closes b c"
  shows "closes a c"
proof (cases "b = a \<or> c = b")
  case True
  then show ?thesis using ab bc by blast
next
  case False
  from False ab obtain st t why where b: "pc_status a = CP_PENDING"
    "b = a\<lparr>pc_status := st, pc_closed_at := t, pc_closed_reason := why\<rparr>"
    unfolding closes_def by blast
  from False bc obtain st' t' why'
    where "c = b\<lparr>pc_status := st', pc_closed_at := t', pc_closed_reason := why'\<rparr>"
    unfolding closes_def by blast
  then have "c = a\<lparr>pc_status := st', pc_closed_at := t', pc_closed_reason := why'\<rparr>"
    by (simp add: b)
  with b(1) show ?thesis unfolding closes_def by blast
qed

lemma closes_fields:
  "closes r r' \<Longrightarrow> pc_id r' = pc_id r \<and> pc_dedupe_key r' = pc_dedupe_key r
     \<and> pc_trigger_at r' = pc_trigger_at r \<and> pc_expires_at r' = pc_expires_at r
     \<and> (pc_status r \<noteq> CP_PENDING \<longrightarrow> r' = r)"
  by (auto simp: closes_def)

lemma later_refl [simp]: "later db db"
  by (auto simp: later_def intro: closes_refl)

lemma later_trans: "later a b \<Longrightarrow> later b c \<Longrightarrow> later a c"
  unfolding later_def by (meson closes_trans)

lemma row_by_id:
  "table_ok db \<Longrightarrow> r \<in> set db \<Longrightarrow> q \<in> set db \<Longrightarrow> pc_id r = pc_id q \<Longrightarrow> r = q"
  by (auto simp: table_ok_def distinct_map dest: inj_onD)

lemma row_by_key:
  "table_ok db \<Longrightarrow> r \<in> set db \<Longrightarrow> q \<in> set db \<Longrightarrow> pc_dedupe_key r = pc_dedupe_key q \<Longrightarrow> r = q"
  by (auto simp: table_ok_def distinct_map dest: inj_onD)

lemma close_row_simps [simp]:
  "pc_id (close_row n st why now r) = pc_id r"
  "pc_dedupe_key (close_row n st why now r) = pc_dedupe_key r"
  "valid_checkpoint (close_row n st why now r) = valid_checkpoint r"
  "closes r (close_row n st why now r)"
  by (auto simp: close_row_def valid_checkpoint_def closes_def)

lemma close_ok:
  assumes "close n st why now db = ret (won, db')"
  shows "st \<noteq> CP_PENDING" and "db' = map (close_row n st why now) db"
    and "won \<longleftrightarrow> (\<exists>r \<in> set db. pc_id r = n \<and> pc_status r = CP_PENDING)"
    and "later db db'" and "table_ok db \<Longrightarrow> table_ok db'"
proof -
  show "st \<noteq> CP_PENDING" and db: "db' = map (close_row n st why now) db"
    and "won \<longleftrightarrow> (\<exists>r \<in> set db. pc_id r = n \<and> pc_status r = CP_PENDING)"
    using assms by (auto simp: close_def split: if_splits)
  show "later db db'"
    unfolding later_def db by (auto intro!: close_row_simps(4))
  show "table_ok db \<Longrightarrow> table_ok db'" by (simp add: db table_ok_def comp_def)
qed

lemma row_for_key_Some: "row_for_key k db = Some r \<Longrightarrow> r \<in> set db \<and> pc_dedupe_key r = k"
  unfolding row_for_key_def by (drule find_first_Some) simp

lemma row_for_key_None: "row_for_key k db = None \<longleftrightarrow> (\<forall>r \<in> set db. pc_dedupe_key r \<noteq> k)"
  by (simp add: row_for_key_def find_first_None)

text \<open>
  C38: Scheduling is idempotent. Whatever other processes commit in between, one row holds the
  wait's key afterwards and that row is what the caller gets; a row that was already there wins
  whole, its trigger included, and no row that was there is reopened, re-dated or lost.
\<close>

theorem one_wait_per_key:
  assumes ok: "table_ok db" and c: "valid_checkpoint c"
    and others: "table_ok (others db)" "later db (others db)"
    and fresh: "\<forall>r \<in> set (others db). pc_id r \<noteq> pc_id c"
    and s: "schedule others c db = (stored, db')"
  shows "table_ok db' \<and> later db db' \<and> stored \<in> set db' \<and> pc_dedupe_key stored = pc_dedupe_key c
    \<and> (\<forall>r \<in> set db'. pc_dedupe_key r = pc_dedupe_key c \<longrightarrow> r = stored)
    \<and> (\<forall>r \<in> set db. pc_dedupe_key r = pc_dedupe_key c \<longrightarrow> stored = r \<and> db' = db)"
proof (cases "row_for_key (pc_dedupe_key c) db")
  case (Some r)
  then have [simp]: "stored = r" "db' = db" using s by (simp_all add: schedule_def)
  from row_for_key_Some [OF Some] row_by_key [OF ok] ok show ?thesis by simp
next
  case None
  note none = this [unfolded row_for_key_None]
  show ?thesis
  proof (cases "row_for_key (pc_dedupe_key c) (others db)")
    case (Some r)
    then have [simp]: "stored = r" "db' = others db" using s None by (simp_all add: schedule_def Let_def)
    from row_for_key_Some [OF Some] row_by_key [OF others(1)] others none show ?thesis by simp
  next
    case None2: None
    then have st: "stored = c" "db' = others db @ [c]" using s None by (auto simp: schedule_def Let_def)
    have "later (others db) (others db @ [c])" unfolding later_def by (auto intro: closes_refl)
    with others(2) have "later db (others db @ [c])" by (rule later_trans)
    moreover have "table_ok (others db @ [c])"
      using others(1) None2 c fresh by (auto simp: table_ok_def row_for_key_None)
    ultimately show ?thesis using None2 [unfolded row_for_key_None] none unfolding st by simp
  qed
qed

section \<open>At most once\<close>

text \<open>
  Any number of monitors over one table: a move schedules a wait, closes one as anything but
  fired, claims one for a monitor, starts the run of a monitor's claim, or ends a monitor's
  process. The log holds the waits whose run was started.
\<close>

record wait_system =
  ws_db :: checkpoints
  ws_claim :: "nat \<Rightarrow> uuid option"
  ws_started :: "uuid list"

datatype wait_move =
    Schedule pending_checkpoint
  | Close uuid checkpoint_status string datetime
  | Claim nat uuid datetime
  | Start nat
  | Die nat

fun wait_step :: "wait_move \<Rightarrow> wait_system \<Rightarrow> wait_system" where
  "wait_step (Schedule c) s =
     (if valid_checkpoint c \<and> pc_id c \<notin> pc_id ` set (ws_db s)
      then s\<lparr>ws_db := snd (schedule (\<lambda>db. db) c (ws_db s))\<rparr> else s)"
| "wait_step (Close n st why now) s =
     (if st = CP_FIRED then s
      else case close n st why now (ws_db s) of
        Inl _ \<Rightarrow> s | Inr (_, db) \<Rightarrow> s\<lparr>ws_db := db\<rparr>)"
| "wait_step (Claim m n now) s =
     (if ws_claim s m \<noteq> None then s
      else case close n CP_FIRED ''trigger reached'' now (ws_db s) of
        Inl _ \<Rightarrow> s
      | Inr (won, db) \<Rightarrow>
          if won then s\<lparr>ws_db := db, ws_claim := (ws_claim s)(m \<mapsto> n)\<rparr> else s)"
| "wait_step (Start m) s =
     (case ws_claim s m of
        None \<Rightarrow> s
      | Some n \<Rightarrow> s\<lparr>ws_started := n # ws_started s, ws_claim := (ws_claim s)(m := None)\<rparr>)"
| "wait_step (Die m) s = s\<lparr>ws_claim := (ws_claim s)(m := None)\<rparr>"

definition fired_row :: "checkpoints \<Rightarrow> uuid \<Rightarrow> bool" where
  "fired_row db n \<longleftrightarrow> (\<exists>r \<in> set db. pc_id r = n \<and> pc_status r = CP_FIRED)"

definition wait_inv :: "wait_system \<Rightarrow> bool" where
  "wait_inv s \<longleftrightarrow>
     table_ok (ws_db s) \<and> distinct (ws_started s)
     \<and> (\<forall>n \<in> set (ws_started s). fired_row (ws_db s) n)
     \<and> (\<forall>m n. ws_claim s m = Some n \<longrightarrow> fired_row (ws_db s) n \<and> n \<notin> set (ws_started s))
     \<and> (\<forall>m k n. ws_claim s m = Some n \<and> ws_claim s k = Some n \<longrightarrow> m = k)"

lemma fired_row_later:
  assumes "later db db'" and "fired_row db n"
  shows "fired_row db' n"
proof -
  from assms(2) obtain r where r: "r \<in> set db" "pc_id r = n" "pc_status r = CP_FIRED"
    by (auto simp: fired_row_def)
  from assms(1) r(1) obtain r' where "r' \<in> set db'" "closes r r'" by (auto simp: later_def)
  with closes_fields [OF this(2)] r show ?thesis by (auto simp: fired_row_def)
qed

lemma wait_inv_db:
  assumes "wait_inv s" and "table_ok db" and "later (ws_db s) db"
  shows "wait_inv (s\<lparr>ws_db := db\<rparr>)"
  using assms fired_row_later [OF assms(3)] by (auto simp: wait_inv_def)

lemma schedule_alone:
  assumes "table_ok db" "valid_checkpoint c" "pc_id c \<notin> pc_id ` set db"
  shows "table_ok (snd (schedule (\<lambda>db. db) c db)) \<and> later db (snd (schedule (\<lambda>db. db) c db))"
proof -
  have "later db (db @ [c])" by (auto simp: later_def intro: closes_refl)
  with assms show ?thesis
    by (auto simp: schedule_def Let_def table_ok_def row_for_key_None split: option.splits)
qed

lemma wait_inv_claim:
  assumes inv: "wait_inv s" and free: "ws_claim s m = None"
    and db: "table_ok db" "later (ws_db s) db" "fired_row db n" and new: "\<not> fired_row (ws_db s) n"
  shows "wait_inv (s\<lparr>ws_db := db, ws_claim := (ws_claim s)(m \<mapsto> n)\<rparr>)"
proof -
  have "ws_claim s k \<noteq> Some n" "n \<notin> set (ws_started s)" for k
    using new inv by (auto simp: wait_inv_def)
  with inv db fired_row_later [OF db(2)] show ?thesis
    unfolding wait_inv_def by (simp split: if_splits)
qed

lemma wait_step_inv:
  assumes inv: "wait_inv s"
  shows "wait_inv (wait_step mv s)"
proof (cases mv)
  case (Schedule c)
  have t: "table_ok (ws_db s)" using inv by (simp add: wait_inv_def)
  show ?thesis
  proof (cases "valid_checkpoint c \<and> pc_id c \<notin> pc_id ` set (ws_db s)")
    case True
    with schedule_alone [OF t] wait_inv_db [OF inv] show ?thesis
      by (simp only: Schedule wait_step.simps if_True simp_thms)
  next
    case False
    then show ?thesis using inv by (simp only: Schedule wait_step.simps if_False)
  qed
next
  case (Close n st why now)
  show ?thesis
  proof (cases "close n st why now (ws_db s)")
    case (Inr r)
    obtain won db where r: "r = (won, db)" by (cases r)
    have "table_ok db" "later (ws_db s) db"
      using close_ok(4,5) [OF Inr [unfolded r]] inv by (simp_all add: wait_inv_def)
    then show ?thesis using wait_inv_db [OF inv] inv by (simp add: Close Inr r)
  qed (use inv Close in simp)
next
  case (Claim m n now)
  let ?db = "map (close_row n CP_FIRED ''trigger reached'' now) (ws_db s)"
  let ?open = "\<exists>r \<in> set (ws_db s). pc_id r = n \<and> pc_status r = CP_PENDING"
  have c: "close n CP_FIRED ''trigger reached'' now (ws_db s) = ret (?open, ?db)"
    by (simp add: close_def)
  show ?thesis
  proof (cases "ws_claim s m = None \<and> ?open")
    case False
    then have "ws_claim s m \<noteq> None \<or> (?open \<longleftrightarrow> False)" by argo
    then have "wait_step (Claim m n now) s = s"
      unfolding wait_step.simps c by (elim disjE) (simp_all only: simp_thms if_True if_False sum.case prod.case if_cancel)
    then show ?thesis using inv by (simp only: Claim)
  next
    case True
    then obtain r where r: "r \<in> set (ws_db s)" "pc_id r = n" "pc_status r = CP_PENDING" by blast
    have t: "table_ok (ws_db s)" using inv by (simp add: wait_inv_def)
    have "\<not> fired_row (ws_db s) n"
    proof
      assume "fired_row (ws_db s) n"
      then obtain q where "q \<in> set (ws_db s)" "pc_id q = n" "pc_status q = CP_FIRED"
        by (auto simp: fired_row_def)
      with row_by_id [OF t r(1) this(1)] r show False by simp
    qed
    moreover have "fired_row ?db n"
    proof -
      let ?r = "close_row n CP_FIRED ''trigger reached'' now r"
      have "pc_status ?r = CP_FIRED" using r(2,3) by (simp add: close_row_def)
      moreover have "?r \<in> set ?db" using r(1) by simp
      moreover have "pc_id ?r = n" using r(2) by simp
      ultimately show ?thesis unfolding fired_row_def by blast
    qed
    ultimately have "wait_inv (s\<lparr>ws_db := ?db, ws_claim := (ws_claim s)(m \<mapsto> n)\<rparr>)"
      using wait_inv_claim [OF inv conjunct1 [OF True] close_ok(5) [OF c t] close_ok(4) [OF c]] by simp
    moreover have "wait_step (Claim m n now) s = s\<lparr>ws_db := ?db, ws_claim := (ws_claim s)(m \<mapsto> n)\<rparr>"
      unfolding wait_step.simps c using True by simp
    ultimately show ?thesis by (simp only: Claim)
  qed
next
  case (Start m)
  show ?thesis
  proof (cases "ws_claim s m")
    case (Some n)
    from inv Some have "\<forall>k. k \<noteq> m \<longrightarrow> ws_claim s k \<noteq> Some n" by (auto simp: wait_inv_def)
    moreover from inv Some have "fired_row (ws_db s) n" "n \<notin> set (ws_started s)" by (auto simp: wait_inv_def)
    ultimately show ?thesis using inv by (simp add: Start Some wait_inv_def) blast
  qed (use inv Start in simp)
next
  case (Die m)
  show ?thesis using inv by (simp add: Die wait_inv_def)
qed


section \<open>A sweep reports what it did\<close>

text \<open>While a port is awaited, others may add rows and close open ones, and nothing else.\<close>

definition evolves :: "checkpoints \<times> 'w \<Rightarrow> checkpoints \<times> 'w \<Rightarrow> bool" where
  "evolves s s' \<longleftrightarrow> (table_ok (fst s) \<longrightarrow> table_ok (fst s')) \<and> later (fst s) (fst s')"

definition evolving :: "('t, 'w) monitor \<Rightarrow> bool" where
  "evolving mo \<longleftrightarrow>
     (\<forall>cond s. evolves s (snd (mo_is_met mo cond s))) \<and> (\<forall>n s. evolves s (snd (mo_resolve mo n s)))
     \<and> (\<forall>t s. evolves s (snd (mo_inspect mo t s))) \<and> (\<forall>t c s. evolves s (snd (mo_start mo t c s)))"

lemma evolves_refl [simp]: "evolves s s"
  by (simp add: evolves_def)

lemma evolves_trans: "evolves a b \<Longrightarrow> evolves b c \<Longrightarrow> evolves a c"
  unfolding evolves_def by (meson later_trans)

lemma evolving_ports:
  assumes "evolving mo"
  shows "mo_is_met mo cond s = (r, s') \<Longrightarrow> evolves s s'"
    and "mo_resolve mo n s = (r2, s') \<Longrightarrow> evolves s s'"
    and "mo_inspect mo t s = (r3, s') \<Longrightarrow> evolves s s'"
    and "mo_start mo t c s = (r4, s') \<Longrightarrow> evolves s s'"
  using assms unfolding evolving_def by (metis snd_conv)+

text \<open>What a bucket says of a wait, in a table.\<close>

definition settled :: "datetime \<Rightarrow> pending_checkpoint \<Rightarrow> bucket \<Rightarrow> checkpoints \<Rightarrow> bool" where
  "settled now c b db \<longleftrightarrow>
     (\<exists>r \<in> set db. closes c r
        \<and> (case b of
             IN_RESOLVED \<Rightarrow> pc_status r = CP_RESOLVED
           | IN_FIRED \<Rightarrow> pc_status r = CP_FIRED \<and> pc_trigger_at c \<le> now \<and> now < pc_expires_at c
           | IN_FAILED \<Rightarrow> pc_status r = CP_FIRED \<and> pc_trigger_at c \<le> now \<and> now < pc_expires_at c
           | IN_EXPIRED \<Rightarrow> pc_status r = CP_EXPIRED \<and> pc_expires_at c \<le> now
           | IN_CANCELLED \<Rightarrow> pc_status r \<noteq> CP_PENDING
           | IN_DEFERRED \<Rightarrow> True
           | IN_WAITING \<Rightarrow> now < pc_trigger_at c))"

lemma settled_later:
  assumes "settled now c b db" and "later db db'"
  shows "settled now c b db'"
proof -
  from assms(1) obtain r where r: "r \<in> set db" "closes c r"
    and b: "case b of
             IN_RESOLVED \<Rightarrow> pc_status r = CP_RESOLVED
           | IN_FIRED \<Rightarrow> pc_status r = CP_FIRED \<and> pc_trigger_at c \<le> now \<and> now < pc_expires_at c
           | IN_FAILED \<Rightarrow> pc_status r = CP_FIRED \<and> pc_trigger_at c \<le> now \<and> now < pc_expires_at c
           | IN_EXPIRED \<Rightarrow> pc_status r = CP_EXPIRED \<and> pc_expires_at c \<le> now
           | IN_CANCELLED \<Rightarrow> pc_status r \<noteq> CP_PENDING
           | IN_DEFERRED \<Rightarrow> True
           | IN_WAITING \<Rightarrow> now < pc_trigger_at c"
    by (auto simp: settled_def)
  from assms(2) r(1) obtain r' where r': "r' \<in> set db'" "closes r r'" by (auto simp: later_def)
  have "closes c r'" by (rule closes_trans [OF r(2) r'(2)])
  moreover have "pc_status r \<noteq> CP_PENDING \<Longrightarrow> r' = r" using closes_fields [OF r'(2)] by blast
  ultimately show ?thesis using b r'(1) by (cases b) (auto simp: settled_def)
qed

definition present :: "pending_checkpoint \<Rightarrow> checkpoints \<Rightarrow> bool" where
  "present c db \<longleftrightarrow> table_ok db \<and> (\<exists>r \<in> set db. closes c r)"

lemma present_evolves: "present c (fst s) \<Longrightarrow> evolves s s' \<Longrightarrow> present c (fst s')"
  unfolding present_def evolves_def later_def by (meson closes_trans)

lemma close_in_ok:
  assumes "present c (fst s)" and "close_in c st why now s = (r, s')" and "st \<noteq> CP_PENDING"
  shows "evolves s s' \<and> (\<exists>won. r = ret won
    \<and> (\<exists>q \<in> set (fst s'). closes c q \<and> pc_status q \<noteq> CP_PENDING \<and> (won \<longrightarrow> pc_status q = st)))"
proof -
  let ?db = "map (close_row (pc_id c) st why now) (fst s)"
  let ?won = "\<exists>r \<in> set (fst s). pc_id r = pc_id c \<and> pc_status r = CP_PENDING"
  have cl: "close (pc_id c) st why now (fst s) = ret (?won, ?db)" using assms(3) by (simp add: close_def)
  have r: "r = ret ?won" "s' = (?db, snd s)" using assms(2) by (simp_all add: close_in_def cl)
  from assms(1) obtain q where q: "q \<in> set (fst s)" "closes c q" "table_ok (fst s)"
    by (auto simp: present_def)
  let ?q = "close_row (pc_id c) st why now q"
  have qid: "pc_id q = pc_id c" using closes_fields [OF q(2)] by simp
  have "?q \<in> set ?db" "closes c ?q" using q closes_trans [OF q(2) close_row_simps(4)] by auto
  moreover have "pc_status ?q \<noteq> CP_PENDING" using assms(3) qid by (simp add: close_row_def)
  moreover have "pc_status ?q = st" if ?won
  proof -
    from that obtain p where "p \<in> set (fst s)" "pc_id p = pc_id c" "pc_status p = CP_PENDING" by auto
    with row_by_id [OF q(3) this(1) q(1)] qid have "pc_status q = CP_PENDING" by simp
    then show ?thesis by (simp add: close_row_def qid)
  qed
  moreover have "evolves s s'"
    using close_ok(4,5) [OF cl] by (simp add: evolves_def r)
  ultimately show ?thesis unfolding r by (intro conjI exI [of _ ?won] bexI [of _ ?q]) simp_all
qed

lemma close_into_ok:
  assumes "present c (fst s)" and "close_into c st why b now s = (ret b', s')"
    and "(b, st) = (IN_RESOLVED, CP_RESOLVED) \<or> (b, st) = (IN_EXPIRED, CP_EXPIRED) \<and> pc_expires_at c \<le> now"
  shows "evolves s s' \<and> settled now c b' (fst s')"
proof -
  obtain r s1 where r: "close_in c st why now s = (r, s1)" by (rule prod.exhaust)
  have "st \<noteq> CP_PENDING" using assms(3) by auto
  from close_in_ok [OF assms(1) r this] assms(2,3) r show ?thesis
    by (auto simp: close_into_def settled_def split: if_splits)
qed

lemma fire_ok:
  assumes mo: "evolving mo" and c: "present c (fst s)" and f: "fire mo now c s = (ret b, s')"
    and window: "pc_trigger_at c \<le> now" "now < pc_expires_at c"
  shows "evolves s s' \<and> settled now c b (fst s')"
proof -
  obtain r1 s1 where e1: "mo_resolve mo (pc_thread_id c) s = (r1, s1)" by (rule prod.exhaust)
  note p1 = present_evolves [OF c evolving_ports(2) [OF mo e1]]
  have cancel: "evolves s s' \<and> settled now c b (fst s')"
    if "evolves s s0" "present c (fst s0)" "close_in c CP_CANCELLED why now s0 = (r0, s')" "b = IN_CANCELLED"
    for s0 r0 why
    using close_in_ok [OF that(2,3)] that(1,4) evolves_trans by (fastforce simp: settled_def)
  show ?thesis
  proof (cases r1)
    case (Inr ot)
    show ?thesis
    proof (cases ot)
      case None
      obtain r2 s2 where e2: "close_in c CP_CANCELLED ''thread is not registered to any workflow'' now s1 = (r2, s2)"
        by (rule prod.exhaust)
      from f have "s' = s2" "b = IN_CANCELLED" by (auto simp: fire_def e1 Inr None e2 split: sum.splits)
      with cancel [OF evolving_ports(2) [OF mo e1] p1] e2 show ?thesis by blast
    next
      case (Some t)
      obtain r2 s2 where e2: "mo_inspect mo t s1 = (r2, s2)" by (rule prod.exhaust)
      note ev2 = evolves_trans [OF evolving_ports(2) [OF mo e1] evolving_ports(3) [OF mo e2]]
      note p2 = present_evolves [OF c ev2]
      from f obtain cp parked where r2: "r2 = ret (cp, parked)"
        by (auto simp: fire_def e1 Inr Some e2 split: sum.splits)
      show ?thesis
      proof (cases cp)
        case None
        obtain r3 s3 where e3: "close_in c CP_CANCELLED ''thread has no stored state to follow up on'' now s2 = (r3, s3)"
          by (rule prod.exhaust)
        from f have "s' = s3" "b = IN_CANCELLED"
          by (auto simp: fire_def e1 Inr Some e2 r2 None e3 split: sum.splits)
        with cancel [OF ev2 p2] e3 show ?thesis by blast
      next
        case cp: (Some k)
        show ?thesis
        proof (cases "parked = []")
          case False
          with f have "s' = s2" "b = IN_DEFERRED" by (simp_all add: fire_def e1 Inr Some e2 r2 cp)
          with ev2 p2 show ?thesis by (auto simp: settled_def present_def)
        next
          case True
          obtain r3 s3 where e3: "close_in c CP_FIRED ''trigger reached'' now s2 = (r3, s3)" by (rule prod.exhaust)
          from close_in_ok [OF p2 e3] obtain won q where won: "evolves s2 s3" "r3 = ret won"
            "q \<in> set (fst s3)" "closes c q" "won \<longrightarrow> pc_status q = CP_FIRED" by auto
          note ev3 = evolves_trans [OF ev2 won(1)]
          show ?thesis
          proof (cases won)
            case False
            with f have "s' = s3" "b = IN_DEFERRED"
              by (simp_all add: fire_def e1 Inr Some e2 r2 cp True e3 won(2))
            with ev3 won show ?thesis by (auto simp: settled_def)
          next
            case w: True
            obtain r4 s4 where e4: "mo_start mo t c s3 = (r4, s4)" by (rule prod.exhaust)
            have fired: "settled now c IN_FIRED (fst s3)" "settled now c IN_FAILED (fst s3)"
              using won w window by (auto simp: settled_def)
            note ev4 = evolving_ports(4) [OF mo e4]
            from f have b: "s' = s4" "b = IN_FIRED \<or> b = IN_FAILED"
              by (auto simp: fire_def e1 Inr Some e2 r2 cp True e3 won(2) w fire_claimed_def e4
                  split: sum.splits)
            have "later (fst s3) (fst s4)" using ev4 by (simp add: evolves_def)
            with fired settled_later b have "settled now c b (fst s')" by blast
            with evolves_trans [OF ev3 ev4] b(1) show ?thesis by simp
          qed
        qed
      qed
    qed
  qed (use f in \<open>simp add: fire_def e1\<close>)
qed

lemma handle_checkpoint_ok:
  assumes mo: "evolving mo" and c: "present c (fst s)"
    and h: "handle_checkpoint mo now c s = (ret b, s')"
  shows "evolves s s' \<and> settled now c b (fst s')"
proof -
  obtain r1 s1 where e1: "mo_is_met mo (pc_condition c) s = (r1, s1)" by (rule prod.exhaust)
  note ev1 = evolving_ports(1) [OF mo e1]
  note p1 = present_evolves [OF c ev1]
  from h obtain met where r1: "r1 = ret met" by (cases r1) (auto simp: handle_checkpoint_def e1)
  from h obtain d where d: "decide_checkpoint c met now = ret d"
    by (auto simp: handle_checkpoint_def e1 r1 split: sum.splits)
  have dd: "d = EXPIRE \<Longrightarrow> pc_expires_at c \<le> now"
    "d = FIRE \<Longrightarrow> pc_trigger_at c \<le> now \<and> now < pc_expires_at c"
    "d = WAIT \<Longrightarrow> now < pc_trigger_at c"
    using d by (auto simp: decide_checkpoint_def has_expired_def is_due_def split: if_splits)
  have "evolves s1 s' \<and> settled now c b (fst s')"
  proof (cases d)
    case WAIT
    with h dd(3) p1 show ?thesis
      by (auto simp: handle_checkpoint_def e1 r1 d settled_def present_def)
  next
    case RESOLVE
    with h show ?thesis
      by (intro close_into_ok [OF p1]) (auto simp: handle_checkpoint_def e1 r1 d)
  next
    case FIRE
    with h dd(2) show ?thesis
      by (intro fire_ok [OF mo p1]) (auto simp: handle_checkpoint_def e1 r1 d)
  next
    case EXPIRE
    with h dd(1) show ?thesis
      by (intro close_into_ok [OF p1]) (auto simp: handle_checkpoint_def e1 r1 d)
  qed
  with evolves_trans [OF ev1] show ?thesis by blast
qed

lemma handled_in_turn_ok:
  assumes mo: "evolving mo"
  shows "sweep_loop mo now cs s = (ret bs, s') \<Longrightarrow> \<forall>c \<in> set cs. present c (fst s) \<Longrightarrow>
    evolves s s' \<and> map fst bs = map pc_id cs
    \<and> list_all2 (\<lambda>c b. settled now c (snd b) (fst s')) cs bs"
proof (induction cs arbitrary: s bs)
  case (Cons c cs)
  from Cons.prems(1) obtain b s1 rest where h: "handle_checkpoint mo now c s = (ret b, s1)"
    and l: "sweep_loop mo now cs s1 = (ret rest, s')" and bs: "bs = (pc_id c, b) # rest"
    by (auto split: prod.splits sum.splits)
  have c: "evolves s s1 \<and> settled now c b (fst s1)"
    using handle_checkpoint_ok [OF mo _ h] Cons.prems(2) by simp
  then have "\<forall>d \<in> set cs. present d (fst s1)" using Cons.prems(2) present_evolves by fastforce
  from Cons.IH [OF l this] c bs settled_later evolves_trans show ?case
    by (fastforce simp: evolves_def)
qed simp

text \<open>
  C14: A sweep accounts for every wait it took up, and truly. Each checkpoint that was due ends in
  exactly one bucket of the report, and the table says the same of it: resolved and expired ones
  are closed as such, one reported fired or failed was claimed by the guarded close within its
  window, at or after its trigger and before its expiry, and none is left merely waiting.
\<close>

theorem a_sweep_reports_truly:
  assumes "evolving mo" and ok: "table_ok (fst s)"
    and sweep: "monitor_sweep mo now limit s = (ret bs, s')"
  shows "map fst bs = map pc_id (due now limit (fst s)) \<and> distinct (map fst bs) \<and> length bs \<le> limit
    \<and> (\<forall>(n, b) \<in> set bs. b \<noteq> IN_WAITING
         \<and> (\<exists>c \<in> set (fst s). pc_id c = n \<and> pc_status c = CP_PENDING \<and> settled now c b (fst s')))"
proof -
  let ?due = "due now limit (fst s)"
  have sub: "c \<in> set (fst s) \<and> pc_status c = CP_PENDING \<and> pc_trigger_at c \<le> now" if "c \<in> set ?due" for c
    using in_set_takeD [OF that [unfolded due_def]] ok
    by (auto simp: table_ok_def valid_checkpoint_def)
  then have pr: "\<forall>c \<in> set ?due. present c (fst s)" using ok closes_refl unfolding present_def by blast
  from handled_in_turn_ok [OF assms(1) sweep [unfolded monitor_sweep_def] pr]
  have ids: "map fst bs = map pc_id ?due"
    and all: "list_all2 (\<lambda>c b. settled now c (snd b) (fst s')) ?due bs" by auto
  have "distinct (map pc_id ?due)"
    using ok by (simp add: due_def table_ok_def distinct_map_filter distinct_take flip: take_map)
      (simp add: distinct_map inj_on_def)
  moreover have "length bs \<le> limit" using arg_cong [OF ids, of length] by (simp add: due_def)
  moreover have "b \<noteq> IN_WAITING
         \<and> (\<exists>c \<in> set (fst s). pc_id c = n \<and> pc_status c = CP_PENDING \<and> settled now c b (fst s'))"
    if "(n, b) \<in> set bs" for n b
  proof -
    from that obtain i where i: "i < length bs" "bs ! i = (n, b)" by (auto simp: in_set_conv_nth)
    from all i have "settled now (?due ! i) b (fst s')" "i < length ?due"
      by (auto simp: list_all2_conv_all_nth)
    moreover have "pc_id (?due ! i) = n" using ids i by (metis fst_conv length_map nth_map)
    ultimately show ?thesis using sub [of "?due ! i"] by (auto simp: settled_def)
  qed
  ultimately show ?thesis using ids by auto
qed

section \<open>Examples\<close>

text \<open>A reminder of the application \<open>7\<close>, dated \<open>t\<close>; its key carries the date.\<close>

definition sample_wait :: "uuid \<Rightarrow> string \<Rightarrow> datetime \<Rightarrow> pending_checkpoint" where
  "sample_wait n key t =
     \<lparr>pc_id = n, pc_application_id = 7, pc_kind = INTERVIEW_PREP,
      pc_condition = condition_for_kind INTERVIEW_PREP 7 None, pc_reason = ''prepare'',
      pc_thread_id = ''t'', pc_workflow_id = None, pc_created_at = 0, pc_trigger_at = t,
      pc_expires_at = t + DEFAULT_CHECKPOINT_GRACE, pc_status = CP_PENDING, pc_dedupe_key = key,
      pc_closed_at = None, pc_closed_reason = None\<rparr>"

lemma valid_sample_wait [simp]:
  "valid_checkpoint (sample_wait n key t) \<longleftrightarrow> strip key \<noteq> [] \<and> 0 \<le> t"
  by (simp add: valid_checkpoint_def sample_wait_def DEFAULT_CHECKPOINT_GRACE_def
      MAX_THREAD_ID_LENGTH_def strip_def is_space_def)

lemma sample_wait_simps [simp]:
  "pc_id (sample_wait n key t) = n" "pc_dedupe_key (sample_wait n key t) = key"
  "pc_status (sample_wait n key t) = CP_PENDING" "pc_trigger_at (sample_wait n key t) = t"
  "pc_application_id (sample_wait n key t) = 7" "pc_kind (sample_wait n key t) = INTERVIEW_PREP"
  by (simp_all add: sample_wait_def)

text \<open>The second schedule of a key gets the first one's row.\<close>

lemma one_wait_per_key_witness:
  "\<exists>stored db'. schedule (\<lambda>db. db) (sample_wait 2 ''tue'' 9) [sample_wait 1 ''tue'' 5] = (stored, db')
     \<and> table_ok db' \<and> stored = sample_wait 1 ''tue'' 5"
proof -
  obtain stored db' where s:
    "schedule (\<lambda>db. db) (sample_wait 2 ''tue'' 9) [sample_wait 1 ''tue'' 5] = (stored, db')"
    by (rule prod.exhaust)
  have "table_ok [sample_wait 1 ''tue'' 5]" by (simp add: table_ok_def strip_def is_space_def)
  from one_wait_per_key [OF this _ _ _ _ s] this s show ?thesis by (simp add: strip_def is_space_def)
qed


definition sample_monitor :: "(unit, unit) monitor" where
  "sample_monitor =
     \<lparr>mo_is_met = (\<lambda>c s. (ret False, s)), mo_resolve = (\<lambda>n s. (ret (Some ()), s)),
      mo_inspect = (\<lambda>t s. (ret (Some ''c'', []), s)), mo_start = (\<lambda>t c s. (ret (), s))\<rparr>"

lemma a_sweep_reports_truly_witness:
  "\<exists>bs s'. monitor_sweep sample_monitor 6 100 ([sample_wait 1 ''tue'' 5], ()) = (ret bs, s')
     \<and> bs = [(1, IN_FIRED)] \<and> length bs \<le> 100"
proof -
  have mo: "evolving sample_monitor" by (simp add: evolving_def sample_monitor_def)
  have ok: "table_ok (fst ([sample_wait 1 ''tue'' 5], ()))" by (simp add: table_ok_def strip_def is_space_def)
  have s: "monitor_sweep sample_monitor 6 100 ([sample_wait 1 ''tue'' 5], ())
      = (ret [(1, IN_FIRED)], map (close_row 1 CP_FIRED ''trigger reached'' 6) [sample_wait 1 ''tue'' 5], ())"
    by (simp add: monitor_sweep_def due_def handle_checkpoint_def sample_monitor_def
        decide_checkpoint_def is_open_def has_expired_def is_due_def fire_def close_in_def close_def
        fire_claimed_def) (simp add: sample_wait_def DEFAULT_CHECKPOINT_GRACE_def)
  from a_sweep_reports_truly [OF mo ok s] s show ?thesis by blast
qed

section \<open>What the waits do not do\<close>

text \<open>
  An interview moved and moved back loses its reminder: the third wait has the first one's key, so
  \<open>supersede\<close> gets back the row it had cancelled, and cancels the only open one.
\<close>

lemma moving_back_loses_the_reminder:
  "\<exists>stored db. supersede (\<lambda>db. db) (\<lambda>_ db. db) (sample_wait 3 ''tue'' 5) ''moved'' 2
      (snd (projr (supersede (\<lambda>db. db) (\<lambda>_ db. db) (sample_wait 2 ''wed'' 9) ''moved'' 1
        [sample_wait 1 ''tue'' 5]))) = ret (stored, db)
     \<and> pc_status stored = CP_CANCELLED \<and> \<not> (\<exists>r \<in> set db. is_open r)"
  by (simp add: supersede_def schedule_def row_for_key_def find_first_def close_def close_row_def
      is_open_def)

text \<open>A wait of a key that was ever closed is not armed again: its caller gets the closed row.\<close>

lemma a_closed_key_is_never_armed_again:
  assumes "table_ok db" and "r \<in> set db" and "pc_status r \<noteq> CP_PENDING"
    and "pc_dedupe_key c = pc_dedupe_key r"
  shows "schedule others c db = (r, db)"
proof (cases "row_for_key (pc_dedupe_key c) db")
  case (Some q)
  with row_for_key_Some [OF Some] row_by_key [OF assms(1) _ assms(2)] assms(4) show ?thesis
    by (simp add: schedule_def)
next
  case None
  from None [unfolded row_for_key_None] assms(2,4) have False by metis
  then show ?thesis ..
qed

text \<open>An evaluator that cannot tell ends the sweep, and the waits after it are not looked at.\<close>

lemma one_unanswered_condition_stops_the_sweep:
  assumes "mo_is_met mo (pc_condition c) s = (raise e, s1)"
  shows "sweep_loop mo now (c # cs) s = (raise e, s1)"
  by (simp add: handle_checkpoint_def assms)

end
