(* ===== verification/Scheduling.thy ===== *)
theory Scheduling
  imports Checkpoints ToolExecutor
begin

text \<open>
  Interview scheduling (\<open>personalos/domain/interview_scheduling.py\<close>): the reconciliation of an
  interview and its prep blocks with what a calendar holds, the search for a free slot, the
  reminder of a plan; the graph's proposals for the writes (\<open>_calendar_intent\<close> of
  \<open>personalos/graphs/job_search.py\<close>); and the executor and reconciler that write a calendar
  without duplicating an event (\<open>personalos/executor/calendar.py\<close>). A date is the moment of its
  midnight; \<open>show\<close> renders an id, \<open>stamp\<close> a moment to the minute and \<open>iso\<close> a moment in full. The
  details of conflicts are left out.
\<close>

section \<open>Calendar values\<close>

definition PROP_APPLICATION_ID :: string where "PROP_APPLICATION_ID = ''personalos_application_id''"
definition PROP_KEY :: string where "PROP_KEY = ''personalos_key''"
definition PROP_ROLE :: string where "PROP_ROLE = ''personalos_role''"
definition PROP_INTERVIEW_KEY :: string where "PROP_INTERVIEW_KEY = ''personalos_interview_key''"
definition PROP_IDEMPOTENCY_KEY :: string where
  "PROP_IDEMPOTENCY_KEY = ''personalos_idempotency_key''"

lemmas prop_names = PROP_APPLICATION_ID_def PROP_KEY_def PROP_ROLE_def PROP_INTERVIEW_KEY_def
  PROP_IDEMPOTENCY_KEY_def

definition DEFAULT_INTERVIEW_DURATION :: seconds where "DEFAULT_INTERVIEW_DURATION = 3600"
definition DEFAULT_REMINDER_LEAD :: seconds where "DEFAULT_REMINDER_LEAD = 86400"
definition MAX_PLACEMENT_STEPS :: nat where "MAX_PLACEMENT_STEPS = 500"

datatype event_role = ROLE_INTERVIEW | ROLE_PREP

fun role_value :: "event_role \<Rightarrow> string" where
  "role_value ROLE_INTERVIEW = ''interview''"
| "role_value ROLE_PREP = ''prep''"

record calendar_event =
  ev_id :: string
  ev_title :: string
  ev_starts_at :: datetime
  ev_ends_at :: datetime
  ev_properties :: "string \<rightharpoonup> string"
  ev_busy :: bool
  ev_etag :: "string option"

definition ev_application_id :: "calendar_event \<Rightarrow> string option" where
  "ev_application_id e = ev_properties e PROP_APPLICATION_ID"

definition ev_logical_key :: "calendar_event \<Rightarrow> string option" where
  "ev_logical_key e = ev_properties e PROP_KEY"

definition ev_role :: "calendar_event \<Rightarrow> event_role option" where
  "ev_role e =
     (case ev_properties e PROP_ROLE of
        None \<Rightarrow> None
      | Some raw \<Rightarrow> find_first (\<lambda>r. role_value r = raw) [ROLE_INTERVIEW, ROLE_PREP])"

record interview_request =
  ir_application_id :: uuid
  ir_starts_at :: datetime
  ir_duration :: seconds
  ir_title :: string
  ir_source_message_id :: "string option"

definition ir_ends_at :: "interview_request \<Rightarrow> datetime" where
  "ir_ends_at r = ir_starts_at r + ir_duration r"

text \<open>A time of day is the seconds since midnight.\<close>

record working_hours =
  wh_start :: seconds
  wh_end :: seconds
  wh_utc_offset :: seconds

definition valid_hours :: "working_hours \<Rightarrow> bool" where
  "valid_hours h \<longleftrightarrow> 0 \<le> wh_start h \<and> wh_start h < wh_end h \<and> wh_end h < 86400"

definition DEFAULT_WORKING_HOURS :: working_hours where
  "DEFAULT_WORKING_HOURS = \<lparr>wh_start = 8 * 3600, wh_end = 20 * 3600, wh_utc_offset = 0\<rparr>"

definition date :: "datetime \<Rightarrow> datetime" where
  "date t = of_int \<lfloor>t / 86400\<rfloor> * 86400"

definition wh_length :: "working_hours \<Rightarrow> seconds" where
  "wh_length h = wh_end h - wh_start h"

definition hours_contain :: "working_hours \<Rightarrow> datetime \<Rightarrow> datetime \<Rightarrow> bool" where
  "hours_contain h start stop =
     (let local_start = start + wh_utc_offset h; local_end = stop + wh_utc_offset h
      in date local_start = date local_end
         \<and> local_start - date local_start \<ge> wh_start h
         \<and> local_end \<ge> local_start
         \<and> local_end \<le> date local_end + wh_end h)"

definition hours_latest_end :: "working_hours \<Rightarrow> datetime \<Rightarrow> seconds \<Rightarrow> datetime" where
  "hours_latest_end h stop duration =
     (let here = stop + wh_utc_offset h;
          day_end = date here + wh_end h;
          here1 = (if here > day_end then day_end else here);
          here2 = (if here1 - duration < date here1 + wh_start h
                   then date here1 - 86400 + wh_end h else here1)
      in here2 - wh_utc_offset h)"

record prep_block_spec =
  sp_slot :: string
  sp_title :: string
  sp_duration :: seconds
  sp_lead :: seconds
  sp_horizon :: seconds
  sp_working_hours_only :: bool

definition DEFAULT_PREP_BLOCKS :: "prep_block_spec list" where
  "DEFAULT_PREP_BLOCKS =
     [\<lparr>sp_slot = ''deep_prep'', sp_title = ''Interview prep'', sp_duration = 90 * 60,
       sp_lead = 12 * 3600, sp_horizon = 72 * 3600, sp_working_hours_only = True\<rparr>,
      \<lparr>sp_slot = ''warm_up'', sp_title = ''Interview warm-up'', sp_duration = 30 * 60,
       sp_lead = 15 * 60, sp_horizon = 2 * 3600, sp_working_hours_only = False\<rparr>]"

datatype schedule_op = OP_CREATE | OP_UPDATE | OP_KEEP

record schedule_change =
  ch_op :: schedule_op
  ch_logical_key :: string
  ch_role :: event_role
  ch_title :: string
  ch_starts_at :: datetime
  ch_ends_at :: datetime
  ch_event_id :: "string option"
  ch_etag :: "string option"
  ch_previous_starts_at :: "datetime option"
  ch_previous_ends_at :: "datetime option"

datatype conflict_kind = INTERVIEW_OVERLAP | PREP_UNPLACEABLE | INTERVIEW_IN_PAST

record schedule_conflict =
  cf_kind :: conflict_kind
  cf_logical_key :: string
  cf_event_id :: "string option"

record schedule_plan =
  pl_application_id :: uuid
  pl_interview_key :: string
  pl_interview_starts_at :: datetime
  pl_interview_ends_at :: datetime
  pl_changes :: "schedule_change list"
  pl_conflicts :: "schedule_conflict list"

definition writes :: "schedule_plan \<Rightarrow> schedule_change list" where
  "writes p = filter (\<lambda>c. ch_op c \<noteq> OP_KEEP) (pl_changes p)"

definition plan_prep_blocks :: "schedule_plan \<Rightarrow> schedule_change list" where
  "plan_prep_blocks p = filter (\<lambda>c. ch_role c = ROLE_PREP) (pl_changes p)"

definition reminder_at :: "schedule_plan \<Rightarrow> datetime \<Rightarrow> datetime option" where
  "reminder_at p now =
     (let upcoming = filter (\<lambda>t. t > now) (map ch_starts_at (plan_prep_blocks p));
          at0 = (if upcoming \<noteq> [] then Min (set upcoming)
                 else pl_interview_starts_at p - DEFAULT_REMINDER_LEAD);
          at1 = max at0 now
      in if at1 < pl_interview_starts_at p then Some at1 else None)"

definition interview_event_key :: "(uuid \<Rightarrow> string) \<Rightarrow> uuid \<Rightarrow> string" where
  "interview_event_key show app = ''interview:'' @ show app"

definition prep_block_key :: "(uuid \<Rightarrow> string) \<Rightarrow> uuid \<Rightarrow> string \<Rightarrow> string" where
  "prep_block_key show app slot = ''prep:'' @ show app @ '':'' @ slot"

definition calendar_create_key :: "(datetime \<Rightarrow> string) \<Rightarrow> schedule_change \<Rightarrow> string" where
  "calendar_create_key stamp c =
     take 255 (''cal-create:'' @ ch_logical_key c @ '':'' @ stamp (ch_starts_at c))"

definition calendar_update_key :: "(datetime \<Rightarrow> string) \<Rightarrow> schedule_change \<Rightarrow> string" where
  "calendar_update_key stamp c =
     (let was = (case ch_etag c of
                   Some t \<Rightarrow> if t \<noteq> [] then t else (case ch_previous_starts_at c of Some p \<Rightarrow> stamp p | None \<Rightarrow> [])
                 | None \<Rightarrow> (case ch_previous_starts_at c of Some p \<Rightarrow> stamp p | None \<Rightarrow> []))
      in take 255 (''cal-update:'' @ (case ch_event_id c of Some n \<Rightarrow> n | None \<Rightarrow> ''None'')
                   @ '':'' @ was @ '':'' @ stamp (ch_starts_at c)))"

definition interview_reminder_dedupe_key ::
  "(uuid \<Rightarrow> string) \<Rightarrow> (datetime \<Rightarrow> string) \<Rightarrow> uuid \<Rightarrow> datetime \<Rightarrow> string" where
  "interview_reminder_dedupe_key show stamp app t =
     ''interview_reminder:'' @ show app @ '':'' @ stamp t"

definition interview_request_from_event ::
  "(string \<Rightarrow> uuid option) \<Rightarrow> calendar_event \<Rightarrow> interview_request option" where
  "interview_request_from_event parse e =
     (if ev_role e \<noteq> Some ROLE_INTERVIEW then None
      else case ev_application_id e of
        None \<Rightarrow> None
      | Some raw \<Rightarrow>
          if raw = [] then None
          else case parse raw of
            None \<Rightarrow> None
          | Some app \<Rightarrow>
              if ev_ends_at e \<le> ev_starts_at e then None
              else Some \<lparr>ir_application_id = app, ir_starts_at = ev_starts_at e,
                     ir_duration = ev_ends_at e - ev_starts_at e,
                     ir_title = (if ev_title e \<noteq> [] then ev_title e else ''Interview''),
                     ir_source_message_id = None\<rparr>)"

section \<open>The search for a slot\<close>

definition overlaps :: "datetime \<Rightarrow> datetime \<Rightarrow> datetime \<Rightarrow> datetime \<Rightarrow> bool" where
  "overlaps start stop other_start other_end \<longleftrightarrow> other_start < stop \<and> other_end > start"

fun slot_loop ::
  "nat \<Rightarrow> seconds \<Rightarrow> datetime \<Rightarrow> (datetime \<times> datetime) list \<Rightarrow> working_hours option \<Rightarrow>
   datetime \<Rightarrow> (datetime \<times> datetime) option" where
  "slot_loop 0 duration earliest busy hours stop = None"
| "slot_loop (Suc n) duration earliest busy hours stop =
     (let stop1 = (case hours of Some h \<Rightarrow> hours_latest_end h stop duration | None \<Rightarrow> stop);
          start = stop1 - duration
      in if start < earliest then None
         else let blockers = filter (\<lambda>(b, e). overlaps start stop1 b e) busy
              in if blockers = [] then Some (start, stop1)
                 else slot_loop n duration earliest busy hours (Min (set (map fst blockers))))"

definition latest_free_slot ::
  "seconds \<Rightarrow> datetime \<Rightarrow> datetime \<Rightarrow> (datetime \<times> datetime) list \<Rightarrow> working_hours option \<Rightarrow>
   (datetime \<times> datetime) option" where
  "latest_free_slot duration earliest latest busy hours =
     slot_loop MAX_PLACEMENT_STEPS duration earliest busy hours latest"

section \<open>The plan\<close>

definition change ::
  "string \<Rightarrow> event_role \<Rightarrow> string \<Rightarrow> datetime \<Rightarrow> datetime \<Rightarrow> calendar_event option \<Rightarrow>
   schedule_change" where
  "change key role title starts ends existing =
     (case existing of
        None \<Rightarrow>
          \<lparr>ch_op = OP_CREATE, ch_logical_key = key, ch_role = role, ch_title = title,
           ch_starts_at = starts, ch_ends_at = ends, ch_event_id = None, ch_etag = None,
           ch_previous_starts_at = None, ch_previous_ends_at = None\<rparr>
      | Some e \<Rightarrow>
          \<lparr>ch_op = (if (ev_starts_at e, ev_ends_at e) \<noteq> (starts, ends) then OP_UPDATE else OP_KEEP),
           ch_logical_key = key, ch_role = role,
           ch_title = (if ev_title e \<noteq> [] then ev_title e else title),
           ch_starts_at = starts, ch_ends_at = ends, ch_event_id = Some (ev_id e),
           ch_etag = ev_etag e, ch_previous_starts_at = Some (ev_starts_at e),
           ch_previous_ends_at = Some (ev_ends_at e)\<rparr>)"

text \<open>Whether an event is linked to the application, under a key that is not empty.\<close>

definition is_own :: "string \<Rightarrow> calendar_event \<Rightarrow> bool" where
  "is_own app e \<longleftrightarrow>
     ev_application_id e = Some app \<and> (case ev_logical_key e of Some k \<Rightarrow> k \<noteq> [] | None \<Rightarrow> False)"

text \<open>\<open>own.setdefault\<close>: the first event of a key stays.\<close>

fun split_events ::
  "string \<Rightarrow> calendar_event list \<Rightarrow> (string \<rightharpoonup> calendar_event) \<times> calendar_event list \<Rightarrow>
   (string \<rightharpoonup> calendar_event) \<times> calendar_event list" where
  "split_events app [] acc = acc"
| "split_events app (e # es) (own, foreign) =
     (if is_own app e
      then let k = the (ev_logical_key e)
           in split_events app es ((case own k of Some _ \<Rightarrow> own | None \<Rightarrow> own(k \<mapsto> e)), foreign)
      else split_events app es (own, if ev_busy e then foreign @ [e] else foreign))"

definition earliest_start :: "interview_request \<Rightarrow> datetime \<Rightarrow> prep_block_spec \<Rightarrow> datetime" where
  "earliest_start r now spec = max (ir_starts_at r - sp_horizon spec) now"

definition latest_stop :: "interview_request \<Rightarrow> prep_block_spec \<Rightarrow> datetime" where
  "latest_stop r spec = ir_starts_at r - sp_lead spec"

definition spec_hours :: "working_hours \<Rightarrow> prep_block_spec \<Rightarrow> working_hours option" where
  "spec_hours h spec = (if sp_working_hours_only spec then Some h else None)"

text \<open>Whether an existing block stays: it is over, or still usable where it is.\<close>

definition stays ::
  "interview_request \<Rightarrow> datetime \<Rightarrow> working_hours \<Rightarrow> (datetime \<times> datetime) list \<Rightarrow>
   prep_block_spec \<Rightarrow> calendar_event \<Rightarrow> bool" where
  "stays r now h busy spec e \<longleftrightarrow>
     ev_ends_at e \<le> now
     \<or> ev_starts_at e \<ge> earliest_start r now spec
       \<and> ev_ends_at e \<le> latest_stop r spec
       \<and> (case spec_hours h spec of None \<Rightarrow> True | Some wh \<Rightarrow> hours_contain wh (ev_starts_at e) (ev_ends_at e))
       \<and> \<not> (\<exists>(b, b') \<in> set busy. overlaps (ev_starts_at e) (ev_ends_at e) b b')"

definition place_block ::
  "interview_request \<Rightarrow> datetime \<Rightarrow> working_hours \<Rightarrow> (datetime \<times> datetime) list \<Rightarrow>
   prep_block_spec \<Rightarrow> calendar_event option \<Rightarrow> (datetime \<times> datetime) option" where
  "place_block r now h busy spec existing =
     (let search = latest_free_slot (sp_duration spec) (earliest_start r now spec)
                     (latest_stop r spec) busy (spec_hours h spec)
      in case existing of
           None \<Rightarrow> search
         | Some e \<Rightarrow> if stays r now h busy spec e then Some (ev_starts_at e, ev_ends_at e) else search)"

fun plan_blocks ::
  "(uuid \<Rightarrow> string) \<Rightarrow> interview_request \<Rightarrow> datetime \<Rightarrow> working_hours \<Rightarrow>
   (string \<rightharpoonup> calendar_event) \<Rightarrow> prep_block_spec list \<Rightarrow> (datetime \<times> datetime) list \<Rightarrow>
   exn + (schedule_change list \<times> schedule_conflict list)" where
  "plan_blocks show r now h own [] busy = ret ([], [])"
| "plan_blocks show r now h own (spec # specs) busy =
     (let key = prep_block_key show (ir_application_id r) (sp_slot spec);
          existing = own key
      in if sp_working_hours_only spec \<and> sp_duration spec > wh_length h
         then raise (contract_error ''prep block is longer than the working day it must fit in'')
         else case place_block r now h busy spec existing of
           None \<Rightarrow>
             (case plan_blocks show r now h own specs busy of
                Inl e \<Rightarrow> raise e
              | Inr (cs, fs) \<Rightarrow>
                  ret (cs, \<lparr>cf_kind = PREP_UNPLACEABLE, cf_logical_key = key,
                            cf_event_id = map_option ev_id existing\<rparr> # fs))
         | Some slot \<Rightarrow>
             (case plan_blocks show r now h own specs (busy @ [slot]) of
                Inl e \<Rightarrow> raise e
              | Inr (cs, fs) \<Rightarrow>
                  ret (change key ROLE_PREP (sp_title spec) (fst slot) (snd slot) existing # cs, fs)))"

definition plan_interview_schedule ::
  "(uuid \<Rightarrow> string) \<Rightarrow> interview_request \<Rightarrow> calendar_event list \<Rightarrow> datetime \<Rightarrow>
   prep_block_spec list \<Rightarrow> working_hours option \<Rightarrow> exn + schedule_plan" where
  "plan_interview_schedule show r events now specs hours =
     (let h = (case hours of Some h \<Rightarrow> h | None \<Rightarrow> DEFAULT_WORKING_HOURS);
          key = interview_event_key show (ir_application_id r);
          (own, foreign) = split_events (show (ir_application_id r)) events (Map.empty, []);
          plan = (\<lambda>cs fs. \<lparr>pl_application_id = ir_application_id r, pl_interview_key = key,
                    pl_interview_starts_at = ir_starts_at r, pl_interview_ends_at = ir_ends_at r,
                    pl_changes = cs, pl_conflicts = fs\<rparr>)
      in if ir_starts_at r \<le> now
         then ret (plan [] [\<lparr>cf_kind = INTERVIEW_IN_PAST, cf_logical_key = key, cf_event_id = None\<rparr>])
         else
           let first = change key ROLE_INTERVIEW (ir_title r) (ir_starts_at r) (ir_ends_at r) (own key);
               overlapping = filter (\<lambda>e. overlaps (ir_starts_at r) (ir_ends_at r) (ev_starts_at e) (ev_ends_at e)) foreign;
               conflicts = map (\<lambda>e. \<lparr>cf_kind = INTERVIEW_OVERLAP, cf_logical_key = key,
                                      cf_event_id = Some (ev_id e)\<rparr>) overlapping;
               busy = map (\<lambda>e. (ev_starts_at e, ev_ends_at e)) foreign @ [(ir_starts_at r, ir_ends_at r)]
           in case plan_blocks show r now h own specs busy of
                Inl e \<Rightarrow> raise e
              | Inr (cs, fs) \<Rightarrow> ret (plan (first # cs) (conflicts @ fs)))"

section \<open>Dates and working hours\<close>

lemma date_le: "date t \<le> t"
  using of_int_floor_le [of "t / 86400"] by (simp add: date_def field_simps)

lemma date_gt: "t < date t + 86400"
  using floor_correct [of "t / 86400"] by (simp add: date_def field_simps)

lemma date_add: "0 \<le> y \<Longrightarrow> y < 86400 \<Longrightarrow> date (date t + y) = date t"
  by (simp add: date_def add_divide_distrib floor_eq_iff)

lemma date_sub: "0 \<le> y \<Longrightarrow> y < 86400 \<Longrightarrow> date (date t - 86400 + y) = date t - 86400"
proof -
  assume y: "0 \<le> y" "y < 86400"
  have "\<lfloor>(date t - 86400 + y) / 86400\<rfloor> = \<lfloor>t / 86400\<rfloor> - 1"
    using y by (intro floor_unique) (simp_all add: date_def field_simps)
  then show ?thesis by (simp add: date_def algebra_simps)
qed

lemma date_unique: "date t \<le> u \<Longrightarrow> u < date t + 86400 \<Longrightarrow> date u = date t"
  using date_add [of "u - date t" t] by simp

lemma date_before: "u \<le> t \<Longrightarrow> date u \<noteq> date t \<Longrightarrow> date u \<le> date t - 86400"
proof -
  assume "u \<le> t" "date u \<noteq> date t"
  then have "\<lfloor>u / 86400\<rfloor> \<le> \<lfloor>t / 86400\<rfloor> - 1"
    using floor_mono [of "u / 86400" "t / 86400"] by (auto simp: date_def divide_right_mono)
  then have "of_int \<lfloor>u / 86400\<rfloor> \<le> (of_int \<lfloor>t / 86400\<rfloor> - 1 :: rat)" by linarith
  then show ?thesis by (simp add: date_def)
qed

text \<open>A stop no later than the one asked for, at which a block of the length fits the day.\<close>

lemma latest_end_contained:
  assumes h: "valid_hours h" and d: "0 \<le> dur" "dur \<le> wh_length h"
  shows "hours_latest_end h stop dur \<le> stop"
    and "hours_contain h (hours_latest_end h stop dur - dur) (hours_latest_end h stop dur)"
proof -
  define here where "here = stop + wh_utc_offset h"
  define X where "X = (if here > date here + wh_end h then date here + wh_end h else here)"
  have e: "0 \<le> wh_start h" "0 < wh_end h" "wh_end h < 86400" using h by (auto simp: valid_hours_def)
  have X: "date here \<le> X" "X \<le> here" "X \<le> date here + wh_end h"
    using date_le [of here] e by (auto simp: X_def)
  have dX: "date X = date here" using X date_gt [of here] by (intro date_unique) auto
  let ?earlier = "X - dur < date here + wh_start h"
  have r: "hours_latest_end h stop dur
      = (if ?earlier then date here - 86400 + wh_end h else X) - wh_utc_offset h"
    unfolding hours_latest_end_def Let_def here_def [symmetric] X_def [symmetric] dX ..
  show "hours_latest_end h stop dur \<le> stop"
    using X date_le [of here] e by (auto simp: r here_def)
  show "hours_contain h (hours_latest_end h stop dur - dur) (hours_latest_end h stop dur)"
  proof (cases ?earlier)
    case True
    have "date (date here - 86400 + wh_end h) = date here - 86400" using e by (intro date_sub) auto
    moreover have "date (date here - 86400 + (wh_end h - dur)) = date here - 86400"
      using e d by (intro date_sub) (auto simp: wh_length_def)
    ultimately show ?thesis
      using True d by (simp add: hours_contain_def r Let_def wh_length_def algebra_simps)
  next
    case False
    have "date (X - dur) = date here"
      using False X d date_gt [of here] e by (intro date_unique) auto
    with False X d dX show ?thesis by (simp add: hours_contain_def r Let_def algebra_simps)
  qed
qed

lemma latest_end_is_latest:
  assumes h: "valid_hours h" and c: "hours_contain h (e - dur) e" and le: "e \<le> stop"
  shows "e \<le> hours_latest_end h stop dur"
proof -
  define here where "here = stop + wh_utc_offset h"
  define X where "X = (if here > date here + wh_end h then date here + wh_end h else here)"
  define F where "F = e + wh_utc_offset h"
  have w: "0 \<le> wh_start h" "0 < wh_end h" "wh_end h < 86400" using h by (auto simp: valid_hours_def)
  have X: "date here \<le> X" "X \<le> here" "X \<le> date here + wh_end h"
    using date_le [of here] w by (auto simp: X_def)
  have dX: "date X = date here" using X date_gt [of here] by (intro date_unique) auto
  have F: "F \<le> here" "F \<le> date F + wh_end h" "F - dur - date F \<ge> wh_start h"
    using c le by (auto simp: hours_contain_def Let_def F_def here_def algebra_simps)
  have r: "hours_latest_end h stop dur
      = (if X - dur < date here + wh_start h then date here - 86400 + wh_end h else X) - wh_utc_offset h"
    unfolding hours_latest_end_def Let_def here_def [symmetric] X_def [symmetric] dX ..
  show ?thesis
  proof (cases "date F = date here")
    case True
    then have "F \<le> X" using F by (auto simp: X_def)
    with True F r show ?thesis by (auto simp: F_def)
  next
    case False
    then have "F \<le> date here - 86400 + wh_end h" using date_before [OF F(1)] F(2) by simp
    with r X w show ?thesis by (auto simp: F_def)
  qed
qed

section \<open>The slot found is the latest free one\<close>

definition within_hours :: "working_hours option \<Rightarrow> datetime \<Rightarrow> datetime \<Rightarrow> bool" where
  "within_hours hours s e = (case hours of None \<Rightarrow> True | Some h \<Rightarrow> hours_contain h s e)"

definition clear :: "(datetime \<times> datetime) list \<Rightarrow> datetime \<Rightarrow> datetime \<Rightarrow> bool" where
  "clear busy s e \<longleftrightarrow> (\<forall>(b, b') \<in> set busy. \<not> overlaps s e b b')"

text \<open>What a slot has to be.\<close>

definition free_slot ::
  "seconds \<Rightarrow> datetime \<Rightarrow> datetime \<Rightarrow> (datetime \<times> datetime) list \<Rightarrow> working_hours option \<Rightarrow>
   datetime \<Rightarrow> datetime \<Rightarrow> bool" where
  "free_slot dur earliest latest busy hours s e \<longleftrightarrow>
     e = s + dur \<and> earliest \<le> s \<and> e \<le> latest \<and> within_hours hours s e \<and> clear busy s e"

definition fits_a_day :: "seconds \<Rightarrow> working_hours option \<Rightarrow> bool" where
  "fits_a_day dur hours \<longleftrightarrow>
     0 \<le> dur \<and> (case hours of None \<Rightarrow> True | Some h \<Rightarrow> valid_hours h \<and> dur \<le> wh_length h)"

definition clamp :: "working_hours option \<Rightarrow> datetime \<Rightarrow> seconds \<Rightarrow> datetime" where
  "clamp hours stop dur = (case hours of Some h \<Rightarrow> hours_latest_end h stop dur | None \<Rightarrow> stop)"

lemma clamp_ok:
  assumes "fits_a_day dur hours"
  shows "clamp hours stop dur \<le> stop"
    and "within_hours hours (clamp hours stop dur - dur) (clamp hours stop dur)"
    and "e \<le> stop \<Longrightarrow> within_hours hours (e - dur) e \<Longrightarrow> e \<le> clamp hours stop dur"
  using assms latest_end_contained latest_end_is_latest
  by (auto simp: fits_a_day_def clamp_def within_hours_def split: option.splits)

definition blockers ::
  "(datetime \<times> datetime) list \<Rightarrow> datetime \<Rightarrow> datetime \<Rightarrow> (datetime \<times> datetime) list" where
  "blockers busy s e = filter (\<lambda>(b, b'). overlaps s e b b') busy"

lemma slot_loop_Suc:
  "slot_loop (Suc n) dur earliest busy hours stop =
     (let stop1 = clamp hours stop dur in
      if stop1 - dur < earliest then None
      else if blockers busy (stop1 - dur) stop1 = [] then Some (stop1 - dur, stop1)
      else slot_loop n dur earliest busy hours (Min (fst ` set (blockers busy (stop1 - dur) stop1))))"
  by (simp add: Let_def clamp_def blockers_def)

declare slot_loop.simps(2) [simp del]

lemma blockers_Nil: "blockers busy s e = [] \<longleftrightarrow> clear busy s e"
  by (auto simp: blockers_def clear_def filter_empty_conv)

text \<open>The next stop: the start of one that is in the way, which no free slot passes.\<close>

lemma next_stop:
  assumes "blockers busy (stop - dur) stop \<noteq> []"
  defines "m \<equiv> Min (fst ` set (blockers busy (stop - dur) stop))"
  shows "m < stop" and "\<exists>b' . (m, b') \<in> set busy"
    and "free_slot dur earliest stop busy hours s e \<Longrightarrow> e \<le> m"
proof -
  have "m \<in> fst ` set (blockers busy (stop - dur) stop)"
    unfolding m_def using assms(1) by (intro Min_in) auto
  then obtain b' where b: "(m, b') \<in> set busy" "overlaps (stop - dur) stop m b'"
    by (auto simp: blockers_def)
  from b show "m < stop" and "\<exists>b' . (m, b') \<in> set busy" by (auto simp: overlaps_def)
  assume f: "free_slot dur earliest stop busy hours s e"
  with b(1) have "\<not> overlaps s e m b'" by (auto simp: free_slot_def clear_def)
  with f b(2) show "e \<le> m" by (auto simp: free_slot_def overlaps_def)
qed

lemma free_slot_stop:
  assumes "free_slot dur earliest stop busy hours s e" and "e \<le> stop'"
  shows "free_slot dur earliest stop' busy hours s e"
  using assms by (auto simp: free_slot_def)

lemma free_slot_clamp:
  assumes "fits_a_day dur hours" and "free_slot dur earliest stop busy hours s e"
  shows "free_slot dur earliest (clamp hours stop dur) busy hours s e"
  using assms clamp_ok(3) [OF assms(1), of e stop] by (auto simp: free_slot_def)

text \<open>A stricter test that refuses one more passes fewer.\<close>

lemma fewer_pass:
  assumes "x \<in> set xs" and "\<not> p x" and "q x" and "\<And>y. p y \<Longrightarrow> q y"
  shows "length (filter p xs) < length (filter q xs)"
  using assms(1)
proof (induction xs)
  case (Cons y ys)
  have le: "length (filter p ys) \<le> length (filter q ys)"
    by (induction ys) (use assms(4) in auto)
  from Cons show ?case using le assms(2,3,4) by (auto simp: le_imp_less_Suc)
qed simp

lemma slot_loop_sound:
  assumes d: "fits_a_day dur hours"
  shows "slot_loop n dur earliest busy hours stop = Some (s, e) \<Longrightarrow>
    free_slot dur earliest stop busy hours s e"
proof (induction n arbitrary: stop)
  case (Suc n)
  let ?stop = "clamp hours stop dur"
  let ?b = "blockers busy (?stop - dur) ?stop"
  show ?case
  proof (cases "?b = []")
    case True
    with Suc.prems clamp_ok(1,2) [OF d, of stop] show ?thesis
      by (auto simp: slot_loop_Suc Let_def free_slot_def blockers_Nil split: if_splits)
  next
    case False
    then have "slot_loop n dur earliest busy hours (Min (fst ` set ?b)) = Some (s, e)"
      using Suc.prems by (simp add: slot_loop_Suc Let_def split: if_splits)
    from Suc.IH [OF this] have "free_slot dur earliest (Min (fst ` set ?b)) busy hours s e" .
    then show ?thesis
      using next_stop(1) [OF False] clamp_ok(1) [OF d, of stop] by (auto simp: free_slot_def)
  qed
qed simp

lemma slot_loop_latest:
  assumes d: "fits_a_day dur hours"
  shows "slot_loop n dur earliest busy hours stop = Some (s, e) \<Longrightarrow>
    free_slot dur earliest stop busy hours s' e' \<Longrightarrow> e' \<le> e"
proof (induction n arbitrary: stop)
  case (Suc n)
  let ?stop = "clamp hours stop dur"
  let ?b = "blockers busy (?stop - dur) ?stop"
  note f = free_slot_clamp [OF d Suc.prems(2)]
  show ?case
  proof (cases "?b = []")
    case True
    with Suc.prems(1) f show ?thesis
      by (auto simp: slot_loop_Suc Let_def free_slot_def split: if_splits)
  next
    case False
    then have "slot_loop n dur earliest busy hours (Min (fst ` set ?b)) = Some (s, e)"
      using Suc.prems(1) by (simp add: slot_loop_Suc Let_def split: if_splits)
    from Suc.IH [OF this free_slot_stop [OF f next_stop(3) [OF False f]]] show ?thesis .
  qed
qed simp

lemma slot_loop_complete:
  assumes d: "fits_a_day dur hours"
  shows "slot_loop n dur earliest busy hours stop = None \<Longrightarrow>
    length (filter (\<lambda>b. fst b < stop) busy) < n \<Longrightarrow>
    \<not> free_slot dur earliest stop busy hours s e"
proof (induction n arbitrary: stop)
  case (Suc n)
  let ?stop = "clamp hours stop dur"
  let ?b = "blockers busy (?stop - dur) ?stop"
  let ?m = "Min (fst ` set ?b)"
  show ?case
  proof
    assume "free_slot dur earliest stop busy hours s e"
    note f = free_slot_clamp [OF d this]
    then have start: "\<not> ?stop - dur < earliest" by (auto simp: free_slot_def)
    with Suc.prems(1) have b: "?b \<noteq> []" and l: "slot_loop n dur earliest busy hours ?m = None"
      by (auto simp: slot_loop_Suc Let_def split: if_splits)
    note m = next_stop [OF b]
    have "?m < stop" using m(1) clamp_ok(1) [OF d, of stop] by simp
    from m(2) obtain b' where b': "(?m, b') \<in> set busy" by blast
    have "length (filter (\<lambda>b. fst b < ?m) busy) < length (filter (\<lambda>b. fst b < stop) busy)"
      using fewer_pass [OF b', of "\<lambda>b. fst b < ?m" "\<lambda>b. fst b < stop"] \<open>?m < stop\<close> by auto
    with Suc.prems(2) have "length (filter (\<lambda>b. fst b < ?m) busy) < n" by simp
    from Suc.IH [OF l this] free_slot_stop [OF f m(3) [OF f]] show False by blast
  qed
qed simp

text \<open>
  C17: The search finds the latest free slot, and finds one whenever there is one. With fewer
  bookings than placement steps, an answer is free of all of them, of the asked length, within
  the window and the working day, and no such slot ends later; no answer means there is none.
\<close>

theorem the_latest_free_slot:
  assumes "fits_a_day dur hours" and "length busy < MAX_PLACEMENT_STEPS"
  shows "case latest_free_slot dur earliest latest busy hours of
      Some (s, e) \<Rightarrow> free_slot dur earliest latest busy hours s e
        \<and> (\<forall>s' e'. free_slot dur earliest latest busy hours s' e' \<longrightarrow> e' \<le> e)
    | None \<Rightarrow> \<not> (\<exists>s e. free_slot dur earliest latest busy hours s e)"
proof (cases "latest_free_slot dur earliest latest busy hours")
  case None
  have "length (filter (\<lambda>b. fst b < latest) busy) < MAX_PLACEMENT_STEPS"
    by (rule le_less_trans [OF length_filter_le assms(2)])
  with slot_loop_complete [OF assms(1) None [unfolded latest_free_slot_def]] None show ?thesis by auto
next
  case (Some x)
  then show ?thesis
    using slot_loop_sound [OF assms(1)] slot_loop_latest [OF assms(1)]
    by (cases x) (fastforce simp: latest_free_slot_def)
qed

lemma the_latest_free_slot_witness:
  "latest_free_slot 5400 0 180000 [(144000, 158400)] (Some DEFAULT_WORKING_HOURS) = Some (138600, 144000)
   \<and> free_slot 5400 0 180000 [(144000, 158400)] (Some DEFAULT_WORKING_HOURS) 138600 144000"
proof -
  have f: "fits_a_day 5400 (Some DEFAULT_WORKING_HOURS)"
    by (simp add: fits_a_day_def valid_hours_def wh_length_def DEFAULT_WORKING_HOURS_def)
  have "length [(144000, 158400)] < MAX_PLACEMENT_STEPS" by (simp add: MAX_PLACEMENT_STEPS_def)
  note t = the_latest_free_slot [OF f this, of 0 180000]
  have "latest_free_slot 5400 0 180000 [(144000, 158400)] (Some DEFAULT_WORKING_HOURS) = Some (138600, 144000)"
    by code_simp
  with t show ?thesis by simp
qed

section \<open>What a plan promises\<close>

text \<open>A block is over, or lies where its kind of block may.\<close>

definition usable ::
  "interview_request \<Rightarrow> datetime \<Rightarrow> working_hours \<Rightarrow> prep_block_spec \<Rightarrow> datetime \<Rightarrow> datetime \<Rightarrow> bool" where
  "usable r now h spec s e \<longleftrightarrow>
     earliest_start r now spec \<le> s \<and> e \<le> latest_stop r spec \<and> within_hours (spec_hours h spec) s e"

definition spec_ok :: "working_hours \<Rightarrow> prep_block_spec \<Rightarrow> bool" where
  "spec_ok h spec \<longleftrightarrow> valid_hours h \<and> 0 \<le> sp_duration spec"

lemma stays_iff:
  "stays r now h busy spec x \<longleftrightarrow> ev_ends_at x \<le> now
     \<or> usable r now h spec (ev_starts_at x) (ev_ends_at x) \<and> clear busy (ev_starts_at x) (ev_ends_at x)"
  by (auto simp: stays_def usable_def within_hours_def clear_def split: option.splits)

lemma place_block_ok:
  assumes "spec_ok h spec" and "\<not> (sp_working_hours_only spec \<and> sp_duration spec > wh_length h)"
    and "place_block r now h busy spec existing = Some (s, e)"
  shows "(\<exists>x. existing = Some x \<and> ev_starts_at x = s \<and> ev_ends_at x = e \<and> e \<le> now)
    \<or> usable r now h spec s e \<and> clear busy s e"
proof -
  have f: "fits_a_day (sp_duration spec) (spec_hours h spec)"
    using assms(1,2) by (auto simp: fits_a_day_def spec_ok_def spec_hours_def)
  have "usable r now h spec s e \<and> clear busy s e"
    if "latest_free_slot (sp_duration spec) (earliest_start r now spec) (latest_stop r spec) busy
          (spec_hours h spec) = Some (s, e)"
    using slot_loop_sound [OF f that [unfolded latest_free_slot_def]]
    by (auto simp: free_slot_def usable_def)
  with assms(3) show ?thesis
    by (auto simp: place_block_def Let_def stays_iff split: option.splits if_splits)
qed

text \<open>A slot a block was given is one it keeps.\<close>

lemma place_block_again:
  assumes "spec_ok h spec" and "\<not> (sp_working_hours_only spec \<and> sp_duration spec > wh_length h)"
    and "place_block r now h busy spec existing = Some (s, e)"
    and "ev_starts_at x = s" "ev_ends_at x = e"
  shows "place_block r now h busy spec (Some x) = Some (s, e)"
  using place_block_ok [OF assms(1-3)] assms(4,5)
  by (auto simp: place_block_def stays_iff)

lemma change_simps [simp]:
  "ch_logical_key (change k ro t s e x) = k" "ch_role (change k ro t s e x) = ro"
  "ch_starts_at (change k ro t s e x) = s" "ch_ends_at (change k ro t s e x) = e"
  "ch_event_id (change k ro t s e x) = map_option ev_id x"
  "ch_op (change k ro t s e x) = OP_CREATE \<longleftrightarrow> x = None"
  "ch_op (change k ro t s e x) = OP_KEEP \<longleftrightarrow> (\<exists>y. x = Some y \<and> ev_starts_at y = s \<and> ev_ends_at y = e)"
  "ch_op (change k ro t s e x) = OP_UPDATE
     \<longleftrightarrow> (\<exists>y. x = Some y \<and> (ev_starts_at y, ev_ends_at y) \<noteq> (s, e))"
  by (auto simp: change_def split: option.splits)

text \<open>A change is made of the event under its key, if there is one.\<close>

definition made_of :: "(string \<rightharpoonup> calendar_event) \<Rightarrow> schedule_change \<Rightarrow> bool" where
  "made_of own c \<longleftrightarrow> (\<exists>k ro t s e. c = change k ro t s e (own k))"

lemma made_ofI [intro]: "made_of own (change k ro t s e (own k))"
  unfolding made_of_def by blast

lemma made_ofD:
  assumes "made_of own c"
  shows "ch_op c = OP_CREATE \<longleftrightarrow> own (ch_logical_key c) = None"
    and "ch_event_id c = map_option ev_id (own (ch_logical_key c))"
    and "ch_op c = OP_KEEP \<Longrightarrow> own (ch_logical_key c) = Some y \<Longrightarrow>
      ev_starts_at y = ch_starts_at c \<and> ev_ends_at y = ch_ends_at c"
    and "ch_op c = OP_UPDATE \<Longrightarrow> \<exists>y. own (ch_logical_key c) = Some y \<and> ch_event_id c = Some (ev_id y)"
  using assms by (auto simp: made_of_def)

text \<open>How the blocks of a plan lie: what each is, and that no two meet unless both are over.\<close>

definition block_ok ::
  "(uuid \<Rightarrow> string) \<Rightarrow> interview_request \<Rightarrow> datetime \<Rightarrow> working_hours \<Rightarrow> (string \<rightharpoonup> calendar_event) \<Rightarrow>
   prep_block_spec list \<Rightarrow> (datetime \<times> datetime) list \<Rightarrow> schedule_change \<Rightarrow> bool" where
  "block_ok show r now h own specs busy c \<longleftrightarrow>
     (\<exists>spec \<in> set specs. \<exists>s e. c = change (prep_block_key show (ir_application_id r) (sp_slot spec))
          ROLE_PREP (sp_title spec) s e (own (prep_block_key show (ir_application_id r) (sp_slot spec)))
        \<and> (ch_op c = OP_KEEP \<and> e \<le> now \<or> usable r now h spec s e \<and> clear busy s e))"

definition apart :: "datetime \<Rightarrow> schedule_change \<Rightarrow> schedule_change \<Rightarrow> bool" where
  "apart now c d \<longleftrightarrow>
     ch_ends_at c \<le> now \<and> ch_ends_at d \<le> now
     \<or> \<not> overlaps (ch_starts_at c) (ch_ends_at c) (ch_starts_at d) (ch_ends_at d)"

lemma clear_bookings_append [simp]: "clear (xs @ ys) s e \<longleftrightarrow> clear xs s e \<and> clear ys s e"
  by (auto simp: clear_def)

lemma usable_ahead: "usable r now h spec s e \<Longrightarrow> now \<le> s"
  by (simp add: usable_def earliest_start_def)

lemma plan_blocks_ok:
  assumes "\<forall>spec \<in> set specs. spec_ok h spec"
  shows "plan_blocks show r now h own specs busy = ret (cs, fs) \<Longrightarrow>
    (\<forall>c \<in> set cs. block_ok show r now h own specs busy c) \<and> sorted_wrt (apart now) cs
    \<and> length cs + length fs = length specs
    \<and> set (map ch_logical_key cs) \<union> set (map cf_logical_key fs)
        = set (map (\<lambda>spec. prep_block_key show (ir_application_id r) (sp_slot spec)) specs)"
  using assms
proof (induction specs arbitrary: busy cs fs)
  case (Cons spec specs)
  let ?k = "prep_block_key show (ir_application_id r) (sp_slot spec)"
  have long: "\<not> (sp_working_hours_only spec \<and> sp_duration spec > wh_length h)"
    using Cons.prems(1) by (auto simp: Let_def)
  have more: "block_ok show r now h own specs (busy @ b) c \<Longrightarrow> block_ok show r now h own (spec # specs) busy c"
    for c b by (auto simp: block_ok_def)
  show ?case
  proof (cases "place_block r now h busy spec (own ?k)")
    case None
    with Cons.prems(1) long obtain fs' where l: "plan_blocks show r now h own specs busy = ret (cs, fs')"
      and fs: "fs = \<lparr>cf_kind = PREP_UNPLACEABLE, cf_logical_key = ?k, cf_event_id = map_option ev_id (own ?k)\<rparr> # fs'"
      by (auto simp: Let_def split: sum.splits)
    from Cons.IH [OF l] Cons.prems(2) more [of "[]"] show ?thesis by (auto simp: fs)
  next
    case (Some slot)
    obtain s e where slot: "slot = (s, e)" by (cases slot)
    from Cons.prems(1) long Some slot obtain cs' where
      l: "plan_blocks show r now h own specs (busy @ [(s, e)]) = ret (cs', fs)"
      and cs: "cs = change ?k ROLE_PREP (sp_title spec) s e (own ?k) # cs'"
      by (auto simp: Let_def split: sum.splits)
    have IH: "\<forall>c \<in> set cs'. block_ok show r now h own specs (busy @ [(s, e)]) c" "sorted_wrt (apart now) cs'"
      "length cs' + length fs = length specs"
      "set (map ch_logical_key cs') \<union> set (map cf_logical_key fs)
        = set (map (\<lambda>spec. prep_block_key show (ir_application_id r) (sp_slot spec)) specs)"
      using Cons.IH [OF l] Cons.prems(2) by auto
    have p: "(\<exists>x. own ?k = Some x \<and> ev_starts_at x = s \<and> ev_ends_at x = e \<and> e \<le> now)
        \<or> usable r now h spec s e \<and> clear busy s e"
      using place_block_ok [OF _ long Some [unfolded slot]] Cons.prems(2) by simp
    have "apart now (change ?k ROLE_PREP (sp_title spec) s e (own ?k)) d" if "d \<in> set cs'" for d
    proof -
      from IH(1) that obtain sp where d: "ch_ends_at d \<le> now \<and> ch_op d = OP_KEEP
          \<or> usable r now h sp (ch_starts_at d) (ch_ends_at d) \<and> clear (busy @ [(s, e)]) (ch_starts_at d) (ch_ends_at d)"
        unfolding block_ok_def by fastforce
      show ?thesis
        using d p usable_ahead [of r now h sp "ch_starts_at d" "ch_ends_at d"] usable_ahead [of r now h spec s e]
        by (auto simp: apart_def clear_def overlaps_def)
    qed
    moreover have "block_ok show r now h own (spec # specs) busy (change ?k ROLE_PREP (sp_title spec) s e (own ?k))"
      unfolding block_ok_def using p by (intro bexI [of _ spec] exI [of _ s] exI [of _ e]) auto
    ultimately show ?thesis using IH more by (auto simp: cs)
  qed
qed simp

lemma block_ok_made:
  "block_ok show r now h own specs busy c \<Longrightarrow> made_of own c \<and> ch_logical_key c \<noteq> []"
  unfolding block_ok_def by (elim bexE exE conjE) (simp only: made_ofI change_simps, simp add: prep_block_key_def)

lemma block_ok_lies:
  assumes "block_ok show r now h own specs busy c"
  shows "ch_role c = ROLE_PREP \<and> (\<exists>spec \<in> set specs.
      ch_logical_key c = prep_block_key show (ir_application_id r) (sp_slot spec)
      \<and> (ch_op c = OP_KEEP \<and> ch_ends_at c \<le> now
         \<or> usable r now h spec (ch_starts_at c) (ch_ends_at c) \<and> clear busy (ch_starts_at c) (ch_ends_at c)))"
proof -
  from assms obtain spec s e where spec: "spec \<in> set specs"
    and c: "c = change (prep_block_key show (ir_application_id r) (sp_slot spec)) ROLE_PREP (sp_title spec) s e
        (own (prep_block_key show (ir_application_id r) (sp_slot spec)))"
    and l: "ch_op c = OP_KEEP \<and> e \<le> now \<or> usable r now h spec s e \<and> clear busy s e"
    unfolding block_ok_def by blast
  have f: "ch_role c = ROLE_PREP" "ch_starts_at c = s" "ch_ends_at c = e"
    "ch_logical_key c = prep_block_key show (ir_application_id r) (sp_slot spec)" by (simp_all add: c)
  show ?thesis unfolding f using spec l by blast
qed

text \<open>The events of the application by key, the first of each, and the bookings of the others.\<close>

definition own_event :: "string \<Rightarrow> calendar_event list \<Rightarrow> string \<rightharpoonup> calendar_event" where
  "own_event app es k = find_first (\<lambda>e. is_own app e \<and> ev_logical_key e = Some k) es"

definition foreign_events :: "string \<Rightarrow> calendar_event list \<Rightarrow> calendar_event list" where
  "foreign_events app es = filter (\<lambda>e. \<not> is_own app e \<and> ev_busy e) es"

lemma find_first_Cons [simp]:
  "find_first p [] = None" "find_first p (x # xs) = (if p x then Some x else find_first p xs)"
  by (simp_all add: find_first_def)

lemma split_events_eq:
  "split_events app es (own, foreign)
    = ((\<lambda>k. case own k of Some e \<Rightarrow> Some e | None \<Rightarrow> own_event app es k), foreign @ foreign_events app es)"
proof (induction es arbitrary: own foreign)
  case Nil
  then show ?case by (auto simp: own_event_def foreign_events_def split: option.splits)
next
  case (Cons e es)
  show ?case
  proof (cases "is_own app e")
    case False
    then have "own_event app (e # es) = own_event app es" by (simp add: own_event_def fun_eq_iff)
    then show ?thesis unfolding \<open>own_event app (e # es) = _\<close> using False
      by (simp add: Cons foreign_events_def)
  next
    case True
    then obtain k where "ev_logical_key e = Some k" by (auto simp: is_own_def split: option.splits)
    with True show ?thesis
      by (auto simp: Cons own_event_def foreign_events_def fun_eq_iff split: option.splits)
  qed
qed

lemma split_events_start [simp]:
  "split_events app es (Map.empty, []) = (own_event app es, foreign_events app es)"
  by (simp add: split_events_eq)

definition bookings :: "string \<Rightarrow> calendar_event list \<Rightarrow> (datetime \<times> datetime) list" where
  "bookings app es = map (\<lambda>e. (ev_starts_at e, ev_ends_at e)) (foreign_events app es)"

definition in_force :: "working_hours option \<Rightarrow> working_hours" where
  "in_force hours = (case hours of Some h \<Rightarrow> h | None \<Rightarrow> DEFAULT_WORKING_HOURS)"

lemma plan_cases:
  assumes "plan_interview_schedule show r es now specs hours = ret p" and "now < ir_starts_at r"
  obtains cs fs where
    "plan_blocks show r now (in_force hours) (own_event (show (ir_application_id r)) es) specs
       (bookings (show (ir_application_id r)) es @ [(ir_starts_at r, ir_ends_at r)]) = ret (cs, fs)"
    and "pl_changes p = change (interview_event_key show (ir_application_id r)) ROLE_INTERVIEW (ir_title r)
       (ir_starts_at r) (ir_ends_at r)
       (own_event (show (ir_application_id r)) es (interview_event_key show (ir_application_id r))) # cs"
    and "pl_conflicts p = map (\<lambda>e. \<lparr>cf_kind = INTERVIEW_OVERLAP,
         cf_logical_key = interview_event_key show (ir_application_id r), cf_event_id = Some (ev_id e)\<rparr>)
       (filter (\<lambda>e. overlaps (ir_starts_at r) (ir_ends_at r) (ev_starts_at e) (ev_ends_at e))
          (foreign_events (show (ir_application_id r)) es)) @ fs"
    and "pl_interview_starts_at p = ir_starts_at r"
  using assms
  by (auto simp: plan_interview_schedule_def Let_def bookings_def in_force_def split: sum.splits if_splits)

lemma plan_of_blocks:
  assumes "now < ir_starts_at r"
    and "plan_blocks show r now (in_force hours) (own_event (show (ir_application_id r)) es) specs
       (bookings (show (ir_application_id r)) es @ [(ir_starts_at r, ir_ends_at r)]) = ret (cs, fs)"
  shows "plan_interview_schedule show r es now specs hours = ret
     \<lparr>pl_application_id = ir_application_id r, pl_interview_key = interview_event_key show (ir_application_id r),
      pl_interview_starts_at = ir_starts_at r, pl_interview_ends_at = ir_ends_at r,
      pl_changes = change (interview_event_key show (ir_application_id r)) ROLE_INTERVIEW (ir_title r)
       (ir_starts_at r) (ir_ends_at r)
       (own_event (show (ir_application_id r)) es (interview_event_key show (ir_application_id r))) # cs,
      pl_conflicts = map (\<lambda>e. \<lparr>cf_kind = INTERVIEW_OVERLAP,
         cf_logical_key = interview_event_key show (ir_application_id r), cf_event_id = Some (ev_id e)\<rparr>)
       (filter (\<lambda>e. overlaps (ir_starts_at r) (ir_ends_at r) (ev_starts_at e) (ev_ends_at e))
          (foreign_events (show (ir_application_id r)) es)) @ fs\<rparr>"
  using assms by (simp add: plan_interview_schedule_def Let_def bookings_def in_force_def)


text \<open>
  The reminder of a plan is due before the interview starts and not before now; with a prep
  block still ahead it is due no later than that block starts.
\<close>

theorem reminders_come_in_time:
  "case reminder_at p now of
     Some t \<Rightarrow> now \<le> t \<and> t < pl_interview_starts_at p
       \<and> (\<forall>c \<in> set (plan_prep_blocks p). now < ch_starts_at c \<longrightarrow> t \<le> ch_starts_at c)
   | None \<Rightarrow> pl_interview_starts_at p \<le> now
       \<or> (\<exists>c \<in> set (plan_prep_blocks p). now < ch_starts_at c)
         \<and> (\<forall>c \<in> set (plan_prep_blocks p). now < ch_starts_at c \<longrightarrow> pl_interview_starts_at p \<le> ch_starts_at c)"
proof -
  let ?up = "filter (\<lambda>t. t > now) (map ch_starts_at (plan_prep_blocks p))"
  have up: "t \<in> set ?up \<longleftrightarrow> now < t \<and> (\<exists>c \<in> set (plan_prep_blocks p). ch_starts_at c = t)" for t by auto
  show ?thesis
  proof (cases "?up = []")
    case True
    then have "\<not> (\<exists>c \<in> set (plan_prep_blocks p). now < ch_starts_at c)" using up by (metis list.set(1) empty_iff)
    with True show ?thesis by (auto simp: reminder_at_def Let_def DEFAULT_REMINDER_LEAD_def max_def)
  next
    case False
    define m where "m = Min (set ?up)"
    have "m \<in> set ?up"
      unfolding m_def by (rule Min_in [OF finite_set]) (simp only: set_empty False not_False_eq_True)
    then have m: "now < m" "\<exists>c \<in> set (plan_prep_blocks p). ch_starts_at c = m" using up by blast+
    have le: "\<forall>c \<in> set (plan_prep_blocks p). now < ch_starts_at c \<longrightarrow> m \<le> ch_starts_at c"
      using up Min_le [OF finite_set, of _ ?up] unfolding m_def by blast
    have "reminder_at p now = (if m < pl_interview_starts_at p then Some m else None)"
      using False m(1) unfolding reminder_at_def Let_def m_def [symmetric] by simp
    with m le show ?thesis by fastforce
  qed
qed

section \<open>Planning again after the writes\<close>

definition event_properties :: "(uuid \<Rightarrow> string) \<Rightarrow> uuid \<Rightarrow> schedule_change \<Rightarrow> string \<rightharpoonup> string" where
  "event_properties show app c =
     (let p = [PROP_APPLICATION_ID \<mapsto> show app, PROP_KEY \<mapsto> ch_logical_key c,
               PROP_ROLE \<mapsto> role_value (ch_role c)]
      in if ch_role c = ROLE_PREP then p(PROP_INTERVIEW_KEY \<mapsto> interview_event_key show app) else p)"

text \<open>
  The calendar once every write of a plan is made, as the provider's port documents them: an
  update moves its event and keeps its properties but for the write's key, a create adds an event
  with the change's properties. \<open>ident\<close> names a new event, \<open>wk\<close> is the key of a write.
\<close>

definition moved :: "(schedule_change \<Rightarrow> string) \<Rightarrow> schedule_change list \<Rightarrow> calendar_event \<Rightarrow> calendar_event" where
  "moved wk cs e =
     (case find_first (\<lambda>c. ch_op c = OP_UPDATE \<and> ch_event_id c = Some (ev_id e)) cs of
        None \<Rightarrow> e
      | Some c \<Rightarrow> e\<lparr>ev_title := ch_title c, ev_starts_at := ch_starts_at c, ev_ends_at := ch_ends_at c,
                   ev_properties := (ev_properties e)(PROP_IDEMPOTENCY_KEY \<mapsto> wk c)\<rparr>)"

definition created ::
  "(uuid \<Rightarrow> string) \<Rightarrow> (schedule_change \<Rightarrow> string) \<Rightarrow> (schedule_change \<Rightarrow> string) \<Rightarrow> uuid \<Rightarrow>
   schedule_change \<Rightarrow> calendar_event" where
  "created show ident wk app c =
     \<lparr>ev_id = ident c, ev_title = ch_title c, ev_starts_at = ch_starts_at c, ev_ends_at = ch_ends_at c,
      ev_properties = (event_properties show app c)(PROP_IDEMPOTENCY_KEY \<mapsto> wk c),
      ev_busy = True, ev_etag = None\<rparr>"

definition calendar_after ::
  "(uuid \<Rightarrow> string) \<Rightarrow> (schedule_change \<Rightarrow> string) \<Rightarrow> (schedule_change \<Rightarrow> string) \<Rightarrow>
   schedule_plan \<Rightarrow> calendar_event list \<Rightarrow> calendar_event list" where
  "calendar_after show ident wk p es =
     map (moved wk (pl_changes p)) es
     @ map (created show ident wk (pl_application_id p)) (filter (\<lambda>c. ch_op c = OP_CREATE) (pl_changes p))"

lemma moved_keeps [simp]:
  "ev_id (moved wk cs e) = ev_id e" "ev_busy (moved wk cs e) = ev_busy e"
  "is_own app (moved wk cs e) = is_own app e" "ev_logical_key (moved wk cs e) = ev_logical_key e"
  by (auto simp: moved_def is_own_def ev_application_id_def ev_logical_key_def prop_names split: option.splits)

lemma created_keeps [simp]:
  "ev_logical_key (created show ident wk app c) = Some (ch_logical_key c)"
  "ev_application_id (created show ident wk app c) = Some (show app)"
  "is_own (show app) (created show ident wk app c) \<longleftrightarrow> ch_logical_key c \<noteq> []"
  by (auto simp: created_def event_properties_def Let_def is_own_def ev_application_id_def
      ev_logical_key_def prop_names)

text \<open>The changes of a plan are of distinct keys, each made of the event under its key.\<close>

definition changes_of ::
  "(string \<rightharpoonup> calendar_event) \<Rightarrow> schedule_change list \<Rightarrow> bool" where
  "changes_of own cs \<longleftrightarrow> distinct (map ch_logical_key cs)
     \<and> (\<forall>c \<in> set cs. ch_logical_key c \<noteq> [] \<and> made_of own c)"

lemma changes_ofD:
  assumes "changes_of own cs"
  shows "c \<in> set cs \<Longrightarrow> made_of own c" and "c \<in> set cs \<Longrightarrow> ch_logical_key c \<noteq> []"
    and "c \<in> set cs \<Longrightarrow> d \<in> set cs \<Longrightarrow> ch_logical_key c = ch_logical_key d \<Longrightarrow> c = d"
  using assms by (auto simp: changes_of_def distinct_map dest: inj_onD)

lemma find_first_map: "find_first p (map f xs) = map_option f (find_first (\<lambda>x. p (f x)) xs)"
  by (induction xs) simp_all

lemma find_first_append:
  "find_first p (xs @ ys) = (case find_first p xs of Some x \<Rightarrow> Some x | None \<Rightarrow> find_first p ys)"
  by (induction xs) simp_all

lemma find_first_unique:
  assumes "x \<in> set xs" "p x" "\<And>y. y \<in> set xs \<Longrightarrow> p y \<Longrightarrow> y = x"
  shows "find_first p xs = Some x"
  using assms
proof (induction xs)
  case (Cons y ys)
  show ?case
  proof (cases "p y")
    case True
    with Cons.prems(3) [of y] show ?thesis by simp
  next
    case False
    then have "x \<in> set ys" using Cons.prems(1,2) by auto
    from Cons.IH [OF this Cons.prems(2)] Cons.prems(3) False show ?thesis by simp
  qed
qed simp

lemma own_event_Some:
  "own_event app es k = Some e \<Longrightarrow> e \<in> set es \<and> is_own app e \<and> ev_logical_key e = Some k"
  unfolding own_event_def by (rule find_first_Some)

lemma event_of_id:
  "distinct (map ev_id es) \<Longrightarrow> x \<in> set es \<Longrightarrow> e \<in> set es \<Longrightarrow> ev_id x = ev_id e \<Longrightarrow> x = e"
  by (auto simp: distinct_map dest: inj_onD)

text \<open>The update that names an event is the one of its key.\<close>

lemma update_names:
  assumes cs: "changes_of (own_event app es) cs" and ids: "distinct (map ev_id es)"
    and e: "e \<in> set es" and c: "c \<in> set cs" "ch_op c = OP_UPDATE" "ch_event_id c = Some (ev_id e)"
  shows "own_event app es (ch_logical_key c) = Some e"
proof -
  from made_ofD(4) [OF changes_ofD(1) [OF cs c(1)] c(2)] c(3) obtain y where
    y: "own_event app es (ch_logical_key c) = Some y" "ev_id y = ev_id e" by auto
  from own_event_Some [OF y(1)] have "y \<in> set es" by simp
  from event_of_id [OF ids this e y(2)] y(1) show ?thesis by simp
qed

text \<open>An event that is not one's own, or is not moved, stays as it is.\<close>

lemma not_moved:
  assumes cs: "changes_of (own_event app es) cs" and ids: "distinct (map ev_id es)" and e: "e \<in> set es"
    and no: "\<And>c. c \<in> set cs \<Longrightarrow> ch_op c = OP_UPDATE \<Longrightarrow> own_event app es (ch_logical_key c) \<noteq> Some e"
  shows "moved wk cs e = e"
proof -
  have "find_first (\<lambda>c. ch_op c = OP_UPDATE \<and> ch_event_id c = Some (ev_id e)) cs = None"
    unfolding find_first_None using update_names [OF cs ids e] no by blast
  then show ?thesis by (simp add: moved_def)
qed

lemma moved_to:
  assumes cs: "changes_of (own_event app es) cs" and ids: "distinct (map ev_id es)"
    and c: "c \<in> set cs" and e: "own_event app es (ch_logical_key c) = Some e"
  shows "ev_starts_at (moved wk cs e) = ch_starts_at c \<and> ev_ends_at (moved wk cs e) = ch_ends_at c"
proof -
  note o = own_event_Some [OF e]
  then have es: "e \<in> set es" by simp
  note made = changes_ofD(1) [OF cs c]
  have only: "d = c" if "d \<in> set cs" "own_event app es (ch_logical_key d) = Some e" for d
    using own_event_Some [OF that(2)] o by (intro changes_ofD(3) [OF cs that(1) c]) simp
  show ?thesis
  proof (cases "ch_op c = OP_UPDATE")
    case True
    have "ch_event_id c = Some (ev_id e)" using made_ofD(2) [OF made] e by simp
    with True have "find_first (\<lambda>c. ch_op c = OP_UPDATE \<and> ch_event_id c = Some (ev_id e)) cs = Some c"
      using update_names [OF cs ids es] only by (intro find_first_unique [OF c]) blast+
    then show ?thesis by (simp add: moved_def)
  next
    case False
    with made_ofD(1) [OF made] e have keep: "ch_op c = OP_KEEP" by (cases "ch_op c") auto
    have "moved wk cs e = e" using only False by (intro not_moved [OF cs ids es]) blast
    with made_ofD(3) [OF made keep e] show ?thesis by simp
  qed
qed

text \<open>What the calendar holds of the application afterwards, and that the rest is unchanged.\<close>

lemma own_event_after:
  assumes app: "app = show (pl_application_id p)"
    and cs: "changes_of (own_event app es) (pl_changes p)" and ids: "distinct (map ev_id es)"
  shows "c \<in> set (pl_changes p) \<Longrightarrow>
      \<exists>x. own_event app (calendar_after show ident wk p es) (ch_logical_key c) = Some x
        \<and> ev_starts_at x = ch_starts_at c \<and> ev_ends_at x = ch_ends_at c"
    and "k \<notin> ch_logical_key ` set (pl_changes p) \<Longrightarrow>
      own_event app (calendar_after show ident wk p es) k = own_event app es k"
    and "foreign_events app (calendar_after show ident wk p es) = foreign_events app es"
proof -
  let ?cs = "pl_changes p" and ?own = "own_event app es"
  let ?new = "filter (\<lambda>c. ch_op c = OP_CREATE) ?cs"
  have own: "own_event app (calendar_after show ident wk p es) k =
      (case ?own k of Some e \<Rightarrow> Some (moved wk ?cs e)
       | None \<Rightarrow> map_option (created show ident wk (pl_application_id p))
           (find_first (\<lambda>c. ch_logical_key c \<noteq> [] \<and> ch_logical_key c = k) ?new))" for k
    unfolding own_event_def calendar_after_def find_first_append find_first_map
    by (simp add: app split: option.splits)
  { assume c: "c \<in> set ?cs"
    show "\<exists>x. own_event app (calendar_after show ident wk p es) (ch_logical_key c) = Some x
        \<and> ev_starts_at x = ch_starts_at c \<and> ev_ends_at x = ch_ends_at c"
    proof (cases "?own (ch_logical_key c)")
      case (Some e)
      with moved_to [OF cs ids c Some] show ?thesis by (simp add: own)
    next
      case None
      then have new: "ch_op c = OP_CREATE" using made_ofD(1) [OF changes_ofD(1) [OF cs c]] by simp
      have "find_first (\<lambda>d. ch_logical_key d \<noteq> [] \<and> ch_logical_key d = ch_logical_key c) ?new = Some c"
        using c new changes_ofD(2) [OF cs c] changes_ofD(3) [OF cs _ c]
        by (intro find_first_unique) simp_all
      then show ?thesis by (simp add: own None created_def)
    qed }
  { assume k: "k \<notin> ch_logical_key ` set ?cs"
    show "own_event app (calendar_after show ident wk p es) k = ?own k"
    proof (cases "?own k")
      case (Some e)
      note e = own_event_Some [OF Some]
      have "moved wk ?cs e = e"
      proof (rule not_moved [OF cs ids])
        show "?own (ch_logical_key c) \<noteq> Some e" if "c \<in> set ?cs" for c
          using own_event_Some [of app es "ch_logical_key c" e] e k that by auto
      qed (use e in simp)
      then show ?thesis by (simp add: own Some)
    next
      case None
      have "find_first (\<lambda>c. ch_logical_key c \<noteq> [] \<and> ch_logical_key c = k) ?new = None"
        using k by (auto simp: find_first_None)
      then show ?thesis by (simp add: own None)
    qed }
  have "moved wk ?cs e = e" if "e \<in> set es" "\<not> is_own app e" for e
    using that own_event_Some by (intro not_moved [OF cs ids]) blast+
  then have "filter (\<lambda>e. \<not> is_own app e \<and> ev_busy e) (map (moved wk ?cs) es)
      = filter (\<lambda>e. \<not> is_own app e \<and> ev_busy e) es"
    by (induction es) auto
  moreover have "filter (\<lambda>e. \<not> is_own app e \<and> ev_busy e)
      (map (created show ident wk (pl_application_id p)) ?new) = []"
    using changes_ofD(2) [OF cs] by (auto simp: filter_empty_conv app)
  ultimately show "foreign_events app (calendar_after show ident wk p es) = foreign_events app es"
    by (simp only: foreign_events_def calendar_after_def filter_append append_Nil2)
qed

lemma plan_blocks_again:
  assumes "\<forall>spec \<in> set specs. spec_ok h spec"
  shows "plan_blocks show r now h own specs busy = ret (cs, fs) \<Longrightarrow>
    \<forall>c \<in> set cs. \<exists>x. own' (ch_logical_key c) = Some x
        \<and> ev_starts_at x = ch_starts_at c \<and> ev_ends_at x = ch_ends_at c \<Longrightarrow>
    \<forall>f \<in> set fs. own' (cf_logical_key f) = own (cf_logical_key f) \<Longrightarrow>
    \<exists>cs'. plan_blocks show r now h own' specs busy = ret (cs', fs) \<and> (\<forall>c \<in> set cs'. ch_op c = OP_KEEP)"
  using assms
proof (induction specs arbitrary: busy cs fs)
  case (Cons spec specs)
  let ?k = "prep_block_key show (ir_application_id r) (sp_slot spec)"
  have long: "\<not> (sp_working_hours_only spec \<and> sp_duration spec > wh_length h)"
    using Cons.prems(1) by (auto simp: Let_def)
  show ?case
  proof (cases "place_block r now h busy spec (own ?k)")
    case None
    with Cons.prems(1) long obtain fs' where l: "plan_blocks show r now h own specs busy = ret (cs, fs')"
      and fs: "fs = \<lparr>cf_kind = PREP_UNPLACEABLE, cf_logical_key = ?k, cf_event_id = map_option ev_id (own ?k)\<rparr> # fs'"
      by (auto simp: Let_def split: sum.splits)
    from Cons.prems(3) have same: "own' ?k = own ?k" by (simp add: fs)
    from Cons.IH [OF l Cons.prems(2)] Cons.prems(3,4) obtain cs' where
      "plan_blocks show r now h own' specs busy = ret (cs', fs')" "\<forall>c \<in> set cs'. ch_op c = OP_KEEP"
      by (auto simp: fs)
    then show ?thesis using None long by (auto simp: Let_def same fs)
  next
    case (Some slot)
    obtain s e where slot: "slot = (s, e)" by (cases slot)
    from Cons.prems(1) long Some slot obtain cs2 where
      l: "plan_blocks show r now h own specs (busy @ [(s, e)]) = ret (cs2, fs)"
      and cs: "cs = change ?k ROLE_PREP (sp_title spec) s e (own ?k) # cs2"
      by (auto simp: Let_def split: sum.splits)
    from Cons.prems(2) obtain x where x: "own' ?k = Some x" "ev_starts_at x = s" "ev_ends_at x = e"
      by (auto simp: cs)
    have "place_block r now h busy spec (Some x) = Some (s, e)"
      using place_block_again [OF _ long Some [unfolded slot] x(2,3)] Cons.prems(4) by simp
    moreover from Cons.IH [OF l] Cons.prems(2,3,4) obtain cs' where
      "plan_blocks show r now h own' specs (busy @ [(s, e)]) = ret (cs', fs)" "\<forall>c \<in> set cs'. ch_op c = OP_KEEP"
      by (auto simp: cs)
    ultimately show ?thesis using long x by (auto simp: Let_def)
  qed
qed simp

lemma keys_partition:
  assumes "distinct (map k specs)" and "set xs \<union> set ys = set (map k specs)"
    and "length xs + length ys = length specs"
  shows "distinct xs" and "set xs \<inter> set ys = {}"
proof -
  have "card (set xs \<union> set ys) = length specs"
    using assms(1,2) distinct_card [of "map k specs"] by simp
  moreover have "card (set xs \<union> set ys) + card (set xs \<inter> set ys) = card (set xs) + card (set ys)"
    using card_Un_Int [of "set xs" "set ys"] by simp
  ultimately have "card (set xs \<inter> set ys) = 0 \<and> card (set xs) = length xs"
    using assms(3) card_length [of xs] card_length [of ys] by linarith
  then show "distinct xs" and "set xs \<inter> set ys = {}" by (auto simp: card_distinct)
qed

text \<open>
  C15: Planning settles. Once the writes of a plan are made, planning the same interview again at
  the same moment, against the calendar they leave, asks for no write and reports the same
  conflicts, whatever was on the calendar before.
\<close>

theorem replanning_settles:
  assumes plan: "plan_interview_schedule show r es now specs hours = ret p"
    and ahead: "now < ir_starts_at r" and specs: "\<forall>spec \<in> set specs. spec_ok (in_force hours) spec"
    and ids: "distinct (map ev_id es)" and slots: "distinct (map sp_slot specs)"
  shows "\<exists>p'. plan_interview_schedule show r (calendar_after show ident wk p es) now specs hours = ret p'
    \<and> writes p' = [] \<and> pl_conflicts p' = pl_conflicts p"
proof -
  let ?app = "show (ir_application_id r)"
  let ?own = "own_event ?app es" and ?es = "calendar_after show ident wk p es"
  let ?busy = "bookings ?app es @ [(ir_starts_at r, ir_ends_at r)]"
  let ?ik = "interview_event_key show (ir_application_id r)"
  let ?key = "\<lambda>spec. prep_block_key show (ir_application_id r) (sp_slot spec)"
  obtain cs fs where b: "plan_blocks show r now (in_force hours) ?own specs ?busy = ret (cs, fs)"
    and cs: "pl_changes p = change ?ik ROLE_INTERVIEW (ir_title r) (ir_starts_at r) (ir_ends_at r) (?own ?ik) # cs"
    and fs: "pl_conflicts p = map (\<lambda>e. \<lparr>cf_kind = INTERVIEW_OVERLAP, cf_logical_key = ?ik, cf_event_id = Some (ev_id e)\<rparr>)
       (filter (\<lambda>e. overlaps (ir_starts_at r) (ir_ends_at r) (ev_starts_at e) (ev_ends_at e)) (foreign_events ?app es)) @ fs"
    by (rule plan_cases [OF plan ahead])
  have app: "?app = show (pl_application_id p)"
    using plan by (auto simp: plan_interview_schedule_def Let_def split: sum.splits if_splits)
  note ok = plan_blocks_ok [OF specs b]
  have dk: "distinct (map ?key specs)"
    using slots by (auto simp: distinct_map prep_block_key_def inj_on_def)
  from ok have "set (map ch_logical_key cs) \<union> set (map cf_logical_key fs) = set (map ?key specs)"
    "length (map ch_logical_key cs) + length (map cf_logical_key fs) = length specs" by simp_all
  note part = keys_partition [OF dk this]
  have ckeys: "ch_logical_key c \<in> set (map ?key specs)" if "c \<in> set cs" for c using ok that by auto
  have ik: "?ik \<notin> set (map ?key specs)" by (auto simp: interview_event_key_def prep_block_key_def)
  have changes: "changes_of ?own (pl_changes p)"
    unfolding changes_of_def cs using part(1) ckeys ik ok block_ok_made
    by (auto simp: interview_event_key_def intro: made_ofI)
  note after1 = own_event_after(1) [of ?app "show" p es _ ident wk, OF app changes ids]
  note after2 = own_event_after(2) [of ?app "show" p es _ ident wk, OF app changes ids]
  note after3 = own_event_after(3) [of ?app "show" p es ident wk, OF app changes ids]
  have c: "\<forall>c \<in> set cs. \<exists>x. own_event ?app ?es (ch_logical_key c) = Some x
      \<and> ev_starts_at x = ch_starts_at c \<and> ev_ends_at x = ch_ends_at c"
    using after1 by (simp add: cs)
  have "cf_logical_key f \<notin> ch_logical_key ` set (pl_changes p)" if "f \<in> set fs" for f
  proof -
    have "cf_logical_key f \<in> set (map ?key specs)" using ok that by auto
    then have "cf_logical_key f \<noteq> ?ik" using ik by metis
    moreover have "cf_logical_key f \<notin> ch_logical_key ` set cs" using part(2) that by auto
    ultimately show ?thesis by (simp add: cs)
  qed
  then have f: "\<forall>f \<in> set fs. own_event ?app ?es (cf_logical_key f) = ?own (cf_logical_key f)"
    using after2 by blast
  from plan_blocks_again [OF specs b c f] obtain cs' where
    cs': "plan_blocks show r now (in_force hours) (own_event ?app ?es) specs ?busy = ret (cs', fs)"
    "\<forall>c \<in> set cs'. ch_op c = OP_KEEP" by blast
  obtain x where x: "own_event ?app ?es ?ik = Some x" "ev_starts_at x = ir_starts_at r" "ev_ends_at x = ir_ends_at r"
    using after1 [of "hd (pl_changes p)"] by (auto simp: cs)
  have same: "bookings ?app ?es = bookings ?app es" by (simp add: bookings_def after3)
  from plan_of_blocks [OF ahead cs'(1) [folded same]] cs'(2) x show ?thesis
    by (auto simp: writes_def fs after3 filter_empty_conv)
qed

section \<open>Examples\<close>

definition sample_interview :: interview_request where
  "sample_interview = \<lparr>ir_application_id = 7, ir_starts_at = 223200, ir_duration = 3600,
     ir_title = ''Interview'', ir_source_message_id = None\<rparr>"

text \<open>Something else is booked from 16:00 to 20:00 on the day before.\<close>

definition sample_calendar :: "calendar_event list" where
  "sample_calendar = [\<lparr>ev_id = ''x'', ev_title = ''Flight'', ev_starts_at = 144000,
     ev_ends_at = 158400, ev_properties = Map.empty, ev_busy = True, ev_etag = None\<rparr>]"

lemma sample_specs: "\<forall>spec \<in> set DEFAULT_PREP_BLOCKS. spec_ok (in_force None) spec"
  by (simp add: DEFAULT_PREP_BLOCKS_def spec_ok_def in_force_def valid_hours_def DEFAULT_WORKING_HOURS_def)

lemma sample_ahead: "1000 < ir_starts_at sample_interview"
  by (simp add: sample_interview_def)

definition sample_plan :: schedule_plan where
  "sample_plan = projr (plan_interview_schedule (\<lambda>_. ''7'') sample_interview sample_calendar 1000
     DEFAULT_PREP_BLOCKS None)"

lemma sample_plan:
  "plan_interview_schedule (\<lambda>_. ''7'') sample_interview sample_calendar 1000 DEFAULT_PREP_BLOCKS None
    = ret sample_plan"
  "map (\<lambda>c. (ch_starts_at c, ch_ends_at c)) (pl_changes sample_plan)
    = [(223200, 226800), (138600, 144000), (220500, 222300)]"
  by code_simp+


lemma replanning_settles_witness:
  "\<exists>p'. plan_interview_schedule (\<lambda>_. ''7'') sample_interview
      (calendar_after (\<lambda>_. ''7'') ch_logical_key ch_logical_key sample_plan sample_calendar) 1000
      DEFAULT_PREP_BLOCKS None = ret p' \<and> writes p' = [] \<and> pl_conflicts p' = []"
proof -
  have "pl_conflicts sample_plan = []" by code_simp
  moreover have "distinct (map ev_id sample_calendar)" "distinct (map sp_slot DEFAULT_PREP_BLOCKS)"
    by (simp_all add: sample_calendar_def DEFAULT_PREP_BLOCKS_def)
  ultimately show ?thesis
    using replanning_settles [OF sample_plan(1) sample_ahead sample_specs, of ch_logical_key ch_logical_key]
    by simp
qed

end
