(* ===== verification/Calendar.thy ===== *)
theory Calendar
  imports Scheduling
begin

text \<open>
  From a plan to the calendar: the proposals the graph makes for a plan's writes and the durable
  reminder it schedules (\<open>_calendar_intent\<close> and \<open>JobSearchGraph._interview_reminder\<close> of
  \<open>personalos/graphs/job_search.py\<close>), and the executor and reconciler that write a calendar and
  look before they do (\<open>personalos/executor/calendar.py\<close>). The provider is the locale
  \<open>calendar_provider\<close>: what \<open>CalendarClient\<close> documents, with answers that may get lost; the
  in-memory calendar of \<open>tests/fixtures/job_search_fakes.py\<close> implements it. Property values in a
  payload are texts.
\<close>

section \<open>Proposals\<close>

text \<open>
  How values are rendered: \<open>str\<close> of an id, \<open>isoformat\<close> and its inverse, a range of times as a
  reviewer reads it, a moment to the minute, \<open>str\<close> of a payload value that is not a text.
\<close>

record calendar_texts =
  ct_show :: "uuid \<Rightarrow> string"
  ct_iso :: "datetime \<Rightarrow> string"
  ct_from_iso :: "string \<Rightarrow> datetime option"
  ct_when :: "datetime \<Rightarrow> datetime \<Rightarrow> string"
  ct_stamp :: "datetime \<Rightarrow> string"
  ct_str :: "pyval \<Rightarrow> string"

definition text_of :: "calendar_texts \<Rightarrow> pyval \<Rightarrow> string" where
  "text_of tx v = (case v of PStr s \<Rightarrow> s | _ \<Rightarrow> ct_str tx v)"

definition quoted :: "string \<Rightarrow> string" where
  "quoted s = CHR 0x27 # s @ [CHR 0x27]"

definition two_lines :: "string \<Rightarrow> string \<Rightarrow> string" where
  "two_lines a b = a @ CHR 0x0A # b"

definition event_properties_payload :: "(uuid \<Rightarrow> string) \<Rightarrow> uuid \<Rightarrow> schedule_change \<Rightarrow> pydict" where
  "event_properties_payload show app c =
     [(PROP_APPLICATION_ID, PStr (show app)), (PROP_KEY, PStr (ch_logical_key c)),
      (PROP_ROLE, PStr (role_value (ch_role c)))]
     @ (if ch_role c = ROLE_PREP then [(PROP_INTERVIEW_KEY, PStr (interview_event_key show app))] else [])"

definition calendar_intent ::
  "calendar_texts \<Rightarrow> uuid \<Rightarrow> schedule_plan \<Rightarrow> schedule_change \<Rightarrow> exn + action_intent" where
  "calendar_intent tx n p c =
     (let timing = ct_when tx (ch_starts_at c) (ch_ends_at c);
          payload = [(''application_id'', PStr (ct_show tx (pl_application_id p))),
                     (''logical_key'', PStr (ch_logical_key c)), (''role'', PStr (role_value (ch_role c))),
                     (''title'', PStr (ch_title c)), (''starts_at'', PStr (ct_iso tx (ch_starts_at c))),
                     (''ends_at'', PStr (ct_iso tx (ch_ends_at c))), (''subject'', PStr (ch_title c))];
          by_node = ''graph:job_search#plan_interview_schedule''
      in case ch_op c of
           OP_CREATE \<Rightarrow>
             ActionIntent_init n CREATE_CALENDAR_EVENT (''calendar: new event '' @ quoted (ch_title c))
               (''Add '' @ quoted (ch_title c) @ '' to the calendar, '' @ timing)
               (payload @ [(''properties'', PDict (event_properties_payload (ct_show tx) (pl_application_id p) c)),
                           (''body'', PStr (two_lines (ch_title c) timing))])
               (calendar_create_key (ct_stamp tx) c) by_node
         | _ \<Rightarrow>
             (case (ch_event_id c, ch_previous_starts_at c, ch_previous_ends_at c) of
                (Some e, Some s0, Some e0) \<Rightarrow>
                  ActionIntent_init n UPDATE_CALENDAR_EVENT
                    (''calendar: event '' @ e @ '' ('' @ quoted (ch_title c) @ '')'')
                    (''Move '' @ quoted (ch_title c) @ '' from '' @ ct_when tx s0 e0 @ '' to '' @ timing)
                    (payload @ [(''event_id'', PStr e), (''previous_starts_at'', PStr (ct_iso tx s0)),
                       (''previous_ends_at'', PStr (ct_iso tx e0)),
                       (''previous_body'', PStr (two_lines (ch_title c) (ct_when tx s0 e0))),
                       (''body'', PStr (two_lines (ch_title c) timing))])
                    (calendar_update_key (ct_stamp tx) c) by_node
              | _ \<Rightarrow> raise (PY ''AttributeError'' ''NoneType has no attribute isoformat'' None)))"

section \<open>The reminder\<close>

text \<open>\<open>thread\<close> and \<open>wid\<close> are what the run's config names; \<open>n\<close> is the id \<open>uuid4()\<close> draws.\<close>

definition interview_reminder ::
  "calendar_texts \<Rightarrow> uuid \<Rightarrow> schedule_plan \<Rightarrow> datetime \<Rightarrow> string option \<Rightarrow> uuid option \<Rightarrow>
   exn + pending_checkpoint option" where
  "interview_reminder tx n p now thread wid =
     (case (reminder_at p now, thread) of
        (Some t, Some th) \<Rightarrow>
          if th = [] then ret None
          else (case PendingCheckpoint_init
             \<lparr>pc_id = n, pc_application_id = pl_application_id p, pc_kind = INTERVIEW_PREP,
              pc_condition = (condition_for_kind INTERVIEW_PREP (pl_application_id p) (Some now))
                \<lparr>cc_params := [(''interview_starts_at'', PStr (ct_iso tx (pl_interview_starts_at p))),
                   (''prep_blocks'', PList (map (\<lambda>b. PDict
                      [(''logical_key'', PStr (ch_logical_key b)),
                       (''starts_at'', PStr (ct_iso tx (ch_starts_at b))),
                       (''ends_at'', PStr (ct_iso tx (ch_ends_at b)))]) (plan_prep_blocks p)))]\<rparr>,
              pc_reason = ''prepare for the interview at '' @ ct_iso tx (pl_interview_starts_at p),
              pc_thread_id = th, pc_workflow_id = wid, pc_created_at = now, pc_trigger_at = t,
              pc_expires_at = pl_interview_starts_at p, pc_status = CP_PENDING,
              pc_dedupe_key = interview_reminder_dedupe_key (ct_show tx) (ct_stamp tx)
                (pl_application_id p) (pl_interview_starts_at p),
              pc_closed_at = None, pc_closed_reason = None\<rparr> of
            Inl e \<Rightarrow> raise e | Inr c \<Rightarrow> ret (Some c))
      | _ \<Rightarrow> ret None)"

section \<open>The executor\<close>

record 'w calendar_client =
  cl_find :: "string \<Rightarrow> string \<Rightarrow> 'w \<Rightarrow> calendar_event list answer \<times> 'w"
  cl_get :: "string \<Rightarrow> 'w \<Rightarrow> calendar_event option answer \<times> 'w"
  cl_create :: "string \<Rightarrow> datetime \<Rightarrow> datetime \<Rightarrow> string \<Rightarrow> (string \<rightharpoonup> string) \<Rightarrow> 'w \<Rightarrow>
    calendar_event answer \<times> 'w"
  cl_update :: "string \<Rightarrow> string \<Rightarrow> datetime \<Rightarrow> datetime \<Rightarrow> (string \<rightharpoonup> string) \<Rightarrow> 'w \<Rightarrow>
    calendar_event answer \<times> 'w"

definition times :: "calendar_texts \<Rightarrow> action_intent \<Rightarrow> exn + (datetime \<times> datetime)" where
  "times tx i =
     (case (dict_get (ac_payload i) ''starts_at'', dict_get (ac_payload i) ''ends_at'') of
        (PStr s, PStr e) \<Rightarrow>
          (case (ct_from_iso tx s, ct_from_iso tx e) of
             (Some t, Some u) \<Rightarrow> ret (t, u)
           | _ \<Rightarrow> raise (contract_error ''calendar action does not carry a start and end time''))
      | _ \<Rightarrow> raise (contract_error ''calendar action does not carry a start and end time''))"

definition intent_event_id :: "calendar_texts \<Rightarrow> action_intent \<Rightarrow> exn + string" where
  "intent_event_id tx i =
     (let v = dict_get (ac_payload i) ''event_id''
      in if \<not> truthy v then raise (contract_error ''calendar update does not name the event it moves'')
         else ret (text_of tx v))"

definition receipt :: "action_intent \<Rightarrow> calendar_event \<Rightarrow> string \<Rightarrow> action_receipt" where
  "receipt i e detail =
     \<lparr>rc_action_id = ac_id i, rc_ok = True, rc_external_reference = Some (ev_id e), rc_detail = Some detail\<rparr>"

text \<open>\<open>_created_by\<close>: the first of the events that carry the intent's key.\<close>

definition created_by ::
  "'w calendar_client \<Rightarrow> action_intent \<Rightarrow> 'w \<Rightarrow> calendar_event option answer \<times> 'w" where
  "created_by cl i w =
     (case cl_find cl PROP_IDEMPOTENCY_KEY (ac_key i) w of
        (Answer found, w1) \<Rightarrow> (Answer (case found of [] \<Rightarrow> None | e # _ \<Rightarrow> Some e), w1)
      | (Error x, w1) \<Rightarrow> (Error x, w1)
      | (Killed, w1) \<Rightarrow> (Killed, w1))"

definition already_at :: "calendar_texts \<Rightarrow> calendar_event \<Rightarrow> action_intent \<Rightarrow> exn + bool" where
  "already_at tx e i =
     (case times tx i of Inl x \<Rightarrow> raise x | Inr tu \<Rightarrow> ret ((ev_starts_at e, ev_ends_at e) = tu))"

fun property_of :: "pyval \<Rightarrow> string option" where
  "property_of (PStr s) = Some s"
| "property_of _ = None"

definition properties_of :: "pyval \<Rightarrow> string \<rightharpoonup> string" where
  "properties_of v =
     (case v of PDict kvs \<Rightarrow> (\<lambda>k. Option.bind (map_of kvs k) property_of) | _ \<Rightarrow> Map.empty)"

definition text_or :: "calendar_texts \<Rightarrow> pyval \<Rightarrow> string \<Rightarrow> string" where
  "text_or tx v other = (if truthy v then text_of tx v else other)"

definition calendar_create ::
  "calendar_texts \<Rightarrow> 'w calendar_client \<Rightarrow> action_intent \<Rightarrow> 'w \<Rightarrow> action_receipt answer \<times> 'w" where
  "calendar_create tx cl i w =
     (case created_by cl i w of
        (Error x, w1) \<Rightarrow> (Error x, w1)
      | (Killed, w1) \<Rightarrow> (Killed, w1)
      | (Answer (Some e), w1) \<Rightarrow> (Answer (receipt i e ''already on the calendar; not created again''), w1)
      | (Answer None, w1) \<Rightarrow>
          (case times tx i of
             Inl x \<Rightarrow> (Error x, w1)
           | Inr (s, e) \<Rightarrow>
               (case cl_create cl (text_or tx (dict_get (ac_payload i) ''title'') (ac_summary i)) s e
                       (text_or tx (dict_get (ac_payload i) ''body'') [])
                       ((properties_of (dict_get (ac_payload i) ''properties''))
                          (PROP_IDEMPOTENCY_KEY \<mapsto> ac_key i)) w1 of
                  (Answer ev, w2) \<Rightarrow> (Answer (receipt i ev ''created''), w2)
                | (Error x, w2) \<Rightarrow> (Error x, w2)
                | (Killed, w2) \<Rightarrow> (Killed, w2))))"

definition calendar_update ::
  "calendar_texts \<Rightarrow> 'w calendar_client \<Rightarrow> action_intent \<Rightarrow> 'w \<Rightarrow> action_receipt answer \<times> 'w" where
  "calendar_update tx cl i w =
     (case intent_event_id tx i of
        Inl x \<Rightarrow> (Error x, w)
      | Inr n \<Rightarrow>
          (case cl_get cl n w of
             (Error x, w1) \<Rightarrow> (Error x, w1)
           | (Killed, w1) \<Rightarrow> (Killed, w1)
           | (Answer None, w1) \<Rightarrow>
               (Answer \<lparr>rc_action_id = ac_id i, rc_ok = False, rc_external_reference = None,
                  rc_detail = Some ''calendar event no longer exists; nothing was moved''\<rparr>, w1)
           | (Answer (Some current), w1) \<Rightarrow>
               (case times tx i of
                  Inl x \<Rightarrow> (Error x, w1)
                | Inr (s, e) \<Rightarrow>
                    if (ev_starts_at current, ev_ends_at current) = (s, e)
                    then (Answer (receipt i current ''already at the requested time; not updated again''), w1)
                    else (case cl_update cl n
                            (text_or tx (dict_get (ac_payload i) ''title'') (ev_title current)) s e
                            [PROP_IDEMPOTENCY_KEY \<mapsto> ac_key i] w1 of
                       (Answer ev, w2) \<Rightarrow> (Answer (receipt i ev ''moved''), w2)
                     | (Error x, w2) \<Rightarrow> (Error x, w2)
                     | (Killed, w2) \<Rightarrow> (Killed, w2)))))"

definition calendar_execute ::
  "calendar_texts \<Rightarrow> 'w calendar_client \<Rightarrow>
   (action_intent \<Rightarrow> approval_decision \<Rightarrow> 'w \<Rightarrow> action_receipt answer \<times> 'w) option \<Rightarrow>
   action_intent \<Rightarrow> approval_decision \<Rightarrow> 'w \<Rightarrow> action_receipt answer \<times> 'w" where
  "calendar_execute tx cl fallback i d w =
     (if ac_kind i = CREATE_CALENDAR_EVENT then calendar_create tx cl i w
      else if ac_kind i = UPDATE_CALENDAR_EVENT then calendar_update tx cl i w
      else case fallback of
        None \<Rightarrow> (Error (contract_error ''CalendarActionExecutor cannot execute this kind''), w)
      | Some f \<Rightarrow> f i d w)"

definition calendar_reconcile ::
  "calendar_texts \<Rightarrow> 'w calendar_client \<Rightarrow> action_intent \<Rightarrow> 'w \<Rightarrow> reconciliation answer \<times> 'w" where
  "calendar_reconcile tx cl i w =
     (let no = \<lparr>rn_outcome = NOT_APPLIED, rn_receipt = None\<rparr>
      in if ac_kind i = CREATE_CALENDAR_EVENT then
           (case created_by cl i w of
              (Error x, w1) \<Rightarrow> (Error x, w1)
            | (Killed, w1) \<Rightarrow> (Killed, w1)
            | (Answer None, w1) \<Rightarrow> (Answer no, w1)
            | (Answer (Some e), w1) \<Rightarrow>
                (Answer \<lparr>rn_outcome = APPLIED,
                   rn_receipt = Some (receipt i e ''found on the calendar; not created again'')\<rparr>, w1))
         else if ac_kind i = UPDATE_CALENDAR_EVENT then
           (case intent_event_id tx i of
              Inl x \<Rightarrow> (Error x, w)
            | Inr n \<Rightarrow>
                (case cl_get cl n w of
                   (Error x, w1) \<Rightarrow> (Error x, w1)
                 | (Killed, w1) \<Rightarrow> (Killed, w1)
                 | (Answer None, w1) \<Rightarrow> (Answer no, w1)
                 | (Answer (Some e), w1) \<Rightarrow>
                     (case already_at tx e i of
                        Inl x \<Rightarrow> (Error x, w1)
                      | Inr yes \<Rightarrow>
                          if yes then (Answer \<lparr>rn_outcome = APPLIED,
                            rn_receipt = Some (receipt i e ''found at the requested time; not updated again'')\<rparr>, w1)
                          else (Answer no, w1))))
         else (Answer \<lparr>rn_outcome = INDETERMINATE, rn_receipt = None\<rparr>, w))"

section \<open>The provider\<close>

definition carrying :: "action_intent \<Rightarrow> calendar_event list \<Rightarrow> calendar_event list" where
  "carrying i es = filter (\<lambda>e. ev_properties e PROP_IDEMPOTENCY_KEY = Some (ac_key i)) es"

text \<open>What an update may do to an event of the calendar.\<close>

definition updated ::
  "string \<Rightarrow> string \<Rightarrow> datetime \<Rightarrow> datetime \<Rightarrow> (string \<rightharpoonup> string) \<Rightarrow> calendar_event \<Rightarrow> calendar_event \<Rightarrow> bool" where
  "updated n t s e ps x y \<longleftrightarrow>
     (if ev_id x = n
      then ev_id y = n \<and> ev_title y = t \<and> ev_starts_at y = s \<and> ev_ends_at y = e
        \<and> ev_properties y = ev_properties x ++ ps \<and> ev_busy y = ev_busy x
      else y = x)"

text \<open>
  Reads answer what the calendar holds. A write lands or does not, whatever comes back; only a
  write that landed is answered, with the event as stored. \<open>good\<close> is what the provider keeps of
  its own state.
\<close>

locale calendar_provider =
  fixes cl :: "'w calendar_client" and cal :: "'w \<Rightarrow> calendar_event list" and good :: "'w \<Rightarrow> bool"
  assumes find: "good w \<Longrightarrow> cl_find cl n v w = (a, w') \<Longrightarrow>
      good w' \<and> cal w' = cal w \<and> (\<forall>fs. a = Answer fs \<longrightarrow> fs = filter (\<lambda>e. ev_properties e n = Some v) (cal w))"
    and get: "good w \<Longrightarrow> cl_get cl n w = (o', w') \<Longrightarrow>
      good w' \<and> cal w' = cal w \<and> (\<forall>x. o' = Answer x \<longrightarrow> x = find_first (\<lambda>e. ev_id e = n) (cal w))"
    and create: "good w \<Longrightarrow> cl_create cl t s e b ps w = (r, w') \<Longrightarrow>
      good w' \<and> (cal w' = cal w \<and> (\<forall>x. r \<noteq> Answer x)
        \<or> (\<exists>x. cal w' = cal w @ [x] \<and> ev_title x = t \<and> ev_starts_at x = s \<and> ev_ends_at x = e
             \<and> ev_properties x = ps \<and> (\<forall>y. r = Answer y \<longrightarrow> y = x)))"
    and update: "good w \<Longrightarrow> cl_update cl n t s e ps w = (r, w') \<Longrightarrow>
      good w' \<and> (cal w' = cal w \<and> (\<forall>x. r \<noteq> Answer x)
        \<or> list_all2 (updated n t s e ps) (cal w) (cal w') \<and> (\<forall>y. r = Answer y \<longrightarrow> ev_id y = n))"
begin

lemma created_by_is:
  assumes "good w" and "created_by cl i w = (a, w')"
  shows "good w' \<and> cal w' = cal w \<and> (\<forall>x. a = Answer x \<longrightarrow>
    x = (case carrying i (cal w) of [] \<Rightarrow> None | e # _ \<Rightarrow> Some e))"
proof -
  obtain b w1 where f: "cl_find cl PROP_IDEMPOTENCY_KEY (ac_key i) w = (b, w1)" by (rule prod.exhaust)
  from find [OF assms(1) f] assms(2) show ?thesis
    by (cases b) (auto simp: created_by_def f carrying_def)
qed

lemma create_looks_first:
  assumes g: "good w" and k: "ac_kind i = CREATE_CALENDAR_EVENT"
    and e: "calendar_execute tx cl fb i d w = (a, w')"
  shows "good w' \<and> (\<exists>new. cal w' = cal w @ new
    \<and> (carrying i (cal w) \<noteq> [] \<longrightarrow> new = []) \<and> length new \<le> 1
    \<and> (\<forall>x \<in> set new. ev_properties x PROP_IDEMPOTENCY_KEY = Some (ac_key i))
    \<and> (\<forall>r. a = Answer r \<longrightarrow> rc_ok r \<and> (\<exists>x xs. carrying i (cal w') = x # xs
          \<and> rc_external_reference r = Some (ev_id x))))"
proof -
  have c: "calendar_create tx cl i w = (a, w')" using e k by (simp add: calendar_execute_def)
  obtain b w1 where f: "created_by cl i w = (b, w1)" by (rule prod.exhaust)
  note fb = created_by_is [OF g f]
  show ?thesis
  proof (cases "b = Answer None")
    case False
    with c f fb show ?thesis
      by (auto simp: calendar_create_def receipt_def split: answer.splits option.splits list.splits)
  next
    case True
    then have none: "carrying i (cal w) = []" using fb by (auto split: list.splits)
    show ?thesis
    proof (cases "times tx i")
      case (Inl x)
      with c f fb True show ?thesis by (auto simp: calendar_create_def)
    next
      case (Inr tu)
      obtain s u where tu: "tu = (s, u)" by (cases tu)
      let ?ps = "(properties_of (dict_get (ac_payload i) ''properties''))(PROP_IDEMPOTENCY_KEY \<mapsto> ac_key i)"
      obtain r w2 where cr: "cl_create cl (text_or tx (dict_get (ac_payload i) ''title'') (ac_summary i)) s u
          (text_or tx (dict_get (ac_payload i) ''body'') []) ?ps w1 = (r, w2)" by (rule prod.exhaust)
      have "good w1" "cal w1 = cal w" using fb by auto
      with create [OF _ cr] have law: "good w2" "cal w2 = cal w \<and> (\<forall>x. r \<noteq> Answer x)
        \<or> (\<exists>x. cal w2 = cal w @ [x] \<and> ev_properties x = ?ps \<and> (\<forall>y. r = Answer y \<longrightarrow> y = x))" by auto
      from c have a: "w' = w2" "a = (case r of Answer ev \<Rightarrow> Answer (receipt i ev ''created'') | Error x \<Rightarrow> Error x | Killed \<Rightarrow> Killed)"
        by (auto simp: calendar_create_def f True Inr tu cr split: answer.splits)
      from law(2) show ?thesis
      proof
        assume "cal w2 = cal w \<and> (\<forall>x. r \<noteq> Answer x)"
        with law(1) show ?thesis unfolding a by (cases r) auto
      next
        assume "\<exists>x. cal w2 = cal w @ [x] \<and> ev_properties x = ?ps \<and> (\<forall>y. r = Answer y \<longrightarrow> y = x)"
        then obtain x where x: "cal w2 = cal w @ [x]" "ev_properties x = ?ps" "\<And>y. r = Answer y \<Longrightarrow> y = x"
          by blast
        have "carrying i (cal w2) = [x]" using none x by (simp add: carrying_def)
        with law(1) x none show ?thesis unfolding a by (cases r) (auto simp: receipt_def)
      qed
    qed
  qed
qed

lemma reconcile_says:
  assumes "good w" and "ac_kind i = CREATE_CALENDAR_EVENT" and "calendar_reconcile tx cl i w = (Answer r, w')"
  shows "cal w' = cal w \<and> rn_outcome r = (if carrying i (cal w) = [] then NOT_APPLIED else APPLIED)"
proof -
  obtain b w1 where f: "created_by cl i w = (b, w1)" by (rule prod.exhaust)
  from created_by_is [OF assms(1) f] assms(2,3) show ?thesis
    by (auto simp: calendar_reconcile_def f Let_def split: answer.splits option.splits list.splits)
qed

end

text \<open>The attempts at one action, whatever came back of each.\<close>

fun attempts ::
  "calendar_texts \<Rightarrow> 'w calendar_client \<Rightarrow> action_intent \<Rightarrow> approval_decision \<Rightarrow> nat \<Rightarrow> 'w \<Rightarrow>
   action_receipt answer list \<times> 'w" where
  "attempts tx cl i d 0 w = ([], w)"
| "attempts tx cl i d (Suc n) w =
     (case calendar_execute tx cl None i d w of
        (a, w1) \<Rightarrow> (case attempts tx cl i d n w1 of (rest, w2) \<Rightarrow> (a # rest, w2)))"

lemma attempts_ok:
  assumes p: "calendar_provider cl cal good" and k: "ac_kind i = CREATE_CALENDAR_EVENT"
  shows "good w \<Longrightarrow> attempts tx cl i d n w = (as, w') \<Longrightarrow>
    \<exists>new. cal w' = cal w @ new \<and> (carrying i (cal w) \<noteq> [] \<longrightarrow> new = []) \<and> length new \<le> 1
      \<and> (\<forall>x \<in> set new. ev_properties x PROP_IDEMPOTENCY_KEY = Some (ac_key i))
      \<and> (\<forall>r. Answer r \<in> set as \<longrightarrow> rc_ok r \<and> (\<exists>x xs. carrying i (cal w') = x # xs
          \<and> rc_external_reference r = Some (ev_id x)))"
proof (induction n arbitrary: w as)
  case (Suc n)
  obtain a w1 where e: "calendar_execute tx cl None i d w = (a, w1)" by (rule prod.exhaust)
  obtain rest w2 where l: "attempts tx cl i d n w1 = (rest, w2)" by (rule prod.exhaust)
  from Suc.prems(2) have as: "as = a # rest" "w' = w2" by (simp_all add: e l)
  from calendar_provider.create_looks_first [OF p Suc.prems(1) k e] obtain new1 where g: "good w1"
    and n1: "cal w1 = cal w @ new1" "carrying i (cal w) \<noteq> [] \<longrightarrow> new1 = []" "length new1 \<le> 1"
    "\<forall>x \<in> set new1. ev_properties x PROP_IDEMPOTENCY_KEY = Some (ac_key i)"
    "\<forall>r. a = Answer r \<longrightarrow> rc_ok r \<and> (\<exists>x xs. carrying i (cal w1) = x # xs \<and> rc_external_reference r = Some (ev_id x))"
    by blast
  from Suc.IH [OF g l [folded as(2)]] obtain new2 where
    n2: "cal w' = cal w1 @ new2" "carrying i (cal w1) \<noteq> [] \<longrightarrow> new2 = []" "length new2 \<le> 1"
    "\<forall>x \<in> set new2. ev_properties x PROP_IDEMPOTENCY_KEY = Some (ac_key i)"
    "\<forall>r. Answer r \<in> set rest \<longrightarrow> rc_ok r \<and> (\<exists>x xs. carrying i (cal w') = x # xs \<and> rc_external_reference r = Some (ev_id x))"
    by blast
  have c1: "carrying i (cal w1) = carrying i (cal w) @ new1"
    using n1(1,4) by (simp add: carrying_def filter_id_conv)
  have "carrying i (cal w) \<noteq> [] \<longrightarrow> new1 @ new2 = []" "length (new1 @ new2) \<le> 1"
    using n1(2,3) n2(2,3) c1 by (cases new1; auto)+
  moreover have "rc_ok r \<and> (\<exists>x xs. carrying i (cal w') = x # xs \<and> rc_external_reference r = Some (ev_id x))"
    if "Answer r \<in> set as" for r
  proof (cases "a = Answer r")
    case True
    with n1(5) have h: "rc_ok r" "\<exists>x xs. carrying i (cal w1) = x # xs \<and> rc_external_reference r = Some (ev_id x)"
      by auto
    with n2(2) have "new2 = []" by auto
    with h n2(1) show ?thesis by simp
  next
    case False
    with that as(1) n2(5) show ?thesis by auto
  qed
  ultimately show ?case using n1(1,4) n2(1,4) by (intro exI [of _ "new1 @ new2"]) auto
qed (auto intro: exI [of _ "[]"])

text \<open>
  C18: A retried insert makes one event. However often a create is attempted, and whichever of its
  responses are lost after the insert landed, the calendar gains at most one event, which carries
  the intent's key; nothing that was there changes; and every attempt that answers names that one
  event.
\<close>

theorem a_retried_create_makes_one_event:
  assumes "calendar_provider cl cal good" and "good w" and "ac_kind i = CREATE_CALENDAR_EVENT"
    and "carrying i (cal w) = []" and "attempts tx cl i d n w = (as, w')"
  shows "\<exists>new. cal w' = cal w @ new \<and> length new \<le> 1 \<and> carrying i (cal w') = new
    \<and> (\<forall>r. Answer r \<in> set as \<longrightarrow> rc_ok r \<and> new \<noteq> [] \<and> rc_external_reference r = Some (ev_id (hd new)))"
proof -
  from attempts_ok [OF assms(1,3,2,5)] obtain new where new: "cal w' = cal w @ new" "length new \<le> 1"
    "\<forall>x \<in> set new. ev_properties x PROP_IDEMPOTENCY_KEY = Some (ac_key i)"
    "\<forall>r. Answer r \<in> set as \<longrightarrow> rc_ok r \<and> (\<exists>x xs. carrying i (cal w') = x # xs
          \<and> rc_external_reference r = Some (ev_id x))" by blast
  have "carrying i (cal w') = new"
    using new(1,3) assms(4) by (simp add: carrying_def filter_id_conv)
  with new show ?thesis by (intro exI [of _ new]) fastforce
qed

section \<open>The in-memory calendar\<close>

text \<open>\<open>FakeCalendar\<close>; \<open>name\<close> is \<open>str\<close> on its counter, and an event id is a key of its dictionary.\<close>

record fake_calendar =
  fk_events :: "calendar_event list"
  fk_next :: nat
  fk_lose :: bool

definition fake_find :: "string \<Rightarrow> string \<Rightarrow> fake_calendar \<Rightarrow> calendar_event list answer \<times> fake_calendar" where
  "fake_find n v w = (Answer (filter (\<lambda>e. ev_properties e n = Some v) (fk_events w)), w)"

definition fake_get :: "string \<Rightarrow> fake_calendar \<Rightarrow> calendar_event option answer \<times> fake_calendar" where
  "fake_get n w = (Answer (find_first (\<lambda>e. ev_id e = n) (fk_events w)), w)"

definition put_event :: "calendar_event \<Rightarrow> calendar_event list \<Rightarrow> calendar_event list" where
  "put_event e es =
     (if ev_id e \<in> ev_id ` set es then map (\<lambda>x. if ev_id x = ev_id e then e else x) es else es @ [e])"

definition fake_create ::
  "(nat \<Rightarrow> string) \<Rightarrow> string \<Rightarrow> datetime \<Rightarrow> datetime \<Rightarrow> string \<Rightarrow> (string \<rightharpoonup> string) \<Rightarrow> fake_calendar \<Rightarrow>
   calendar_event answer \<times> fake_calendar" where
  "fake_create name t s e body ps w =
     (let ev = \<lparr>ev_id = ''evt-'' @ name (fk_next w), ev_title = t, ev_starts_at = s, ev_ends_at = e,
                ev_properties = ps, ev_busy = True, ev_etag = Some ''1''\<rparr>;
          w1 = w\<lparr>fk_next := Suc (fk_next w), fk_events := put_event ev (fk_events w)\<rparr>
      in if fk_lose w
         then (Error (PY ''LostResponse'' ''calendar insert timed out after it was applied'' None),
               w1\<lparr>fk_lose := False\<rparr>)
         else (Answer ev, w1))"

text \<open>\<open>bump\<close> counts an etag up.\<close>

definition fake_update ::
  "(string option \<Rightarrow> string) \<Rightarrow> string \<Rightarrow> string \<Rightarrow> datetime \<Rightarrow> datetime \<Rightarrow> (string \<rightharpoonup> string) \<Rightarrow>
   fake_calendar \<Rightarrow> calendar_event answer \<times> fake_calendar" where
  "fake_update bump n t s e ps w =
     (case find_first (\<lambda>x. ev_id x = n) (fk_events w) of
        None \<Rightarrow> (Error (PY ''KeyError'' n None), w)
      | Some x \<Rightarrow>
          let y = x\<lparr>ev_title := t, ev_starts_at := s, ev_ends_at := e,
                    ev_properties := ev_properties x ++ ps, ev_etag := Some (bump (ev_etag x))\<rparr>
          in (Answer y, w\<lparr>fk_events := put_event y (fk_events w)\<rparr>))"

definition fake_client ::
  "(nat \<Rightarrow> string) \<Rightarrow> (string option \<Rightarrow> string) \<Rightarrow> fake_calendar calendar_client" where
  "fake_client name bump =
     \<lparr>cl_find = fake_find, cl_get = fake_get, cl_create = fake_create name, cl_update = fake_update bump\<rparr>"

text \<open>Ids are distinct, and the counter's are still to come.\<close>

definition fake_good :: "(nat \<Rightarrow> string) \<Rightarrow> fake_calendar \<Rightarrow> bool" where
  "fake_good name w \<longleftrightarrow> inj name \<and> distinct (map ev_id (fk_events w))
     \<and> (\<forall>e \<in> set (fk_events w). \<forall>n \<ge> fk_next w. ev_id e \<noteq> ''evt-'' @ name n)"

lemma fake_update_lands:
  assumes g: "fake_good name w" and u: "fake_update bump n t s e ps w = (r, w')"
  shows "fake_good name w' \<and> (fk_events w' = fk_events w \<and> (\<forall>x. r \<noteq> Answer x)
    \<or> list_all2 (updated n t s e ps) (fk_events w) (fk_events w') \<and> (\<forall>y. r = Answer y \<longrightarrow> ev_id y = n))"
proof (cases "find_first (\<lambda>x. ev_id x = n) (fk_events w)")
  case None
  with u g show ?thesis by (auto simp: fake_update_def)
next
  case (Some x)
  let ?y = "x\<lparr>ev_title := t, ev_starts_at := s, ev_ends_at := e,
                    ev_properties := ev_properties x ++ ps, ev_etag := Some (bump (ev_etag x))\<rparr>"
  let ?f = "\<lambda>z. if ev_id z = n then ?y else z"
  from find_first_Some [OF Some] have x: "x \<in> set (fk_events w)" "ev_id x = n" by auto
  with u Some have w': "r = Answer ?y" "w' = w\<lparr>fk_events := map ?f (fk_events w)\<rparr>"
    by (auto simp: fake_update_def put_event_def Let_def)
  have d: "distinct (map ev_id (fk_events w))" using g by (simp add: fake_good_def)
  have ids: "ev_id (?f z) = ev_id z" for z using x by simp
  have m: "map ev_id (fk_events w') = map ev_id (fk_events w)" using w' x by simp
  have nx: "fk_next w' = fk_next w" by (simp add: w'(2))
  have s: "ev_id ` set (fk_events w') = ev_id ` set (fk_events w)"
    using arg_cong [OF m, of set] by simp
  have "ev_id z \<noteq> ''evt-'' @ name k" if z: "z \<in> set (fk_events w')" "k \<ge> fk_next w" for z k
  proof -
    from z(1) s obtain q where "q \<in> set (fk_events w)" "ev_id z = ev_id q" by blast
    with g z(2) show ?thesis unfolding fake_good_def by metis
  qed
  then have "fake_good name w'" using g m nx unfolding fake_good_def by simp
  moreover have "z = x" if "z \<in> set (fk_events w)" "ev_id z = n" for z
    using event_of_id [OF d that(1) x(1)] that(2) x(2) by simp
  then have "list_all2 (updated n t s e ps) (fk_events w) (fk_events w')"
    by (auto simp: w'(2) list_all2_conv_all_nth updated_def x(2) dest: nth_mem)
  ultimately show ?thesis using w' x by simp
qed

interpretation fake: calendar_provider "fake_client name bump" fk_events "fake_good name"
proof
  fix w n t s e ps r w'
  assume "fake_good name w" "cl_update (fake_client name bump) n t s e ps w = (r, w')"
  then show "fake_good name w' \<and> (fk_events w' = fk_events w \<and> (\<forall>x. r \<noteq> Answer x)
    \<or> list_all2 (updated n t s e ps) (fk_events w) (fk_events w') \<and> (\<forall>y. r = Answer y \<longrightarrow> ev_id y = n))"
    by (intro fake_update_lands) (simp_all add: fake_client_def)
next
  fix w t s e b ps r w'
  assume g: "fake_good name w" and "cl_create (fake_client name bump) t s e b ps w = (r, w')"
  then have c: "fake_create name t s e b ps w = (r, w')" by (simp add: fake_client_def)
  let ?x = "\<lparr>ev_id = ''evt-'' @ name (fk_next w), ev_title = t, ev_starts_at = s, ev_ends_at = e,
                ev_properties = ps, ev_busy = True, ev_etag = Some ''1''\<rparr>"
  have new: "ev_id ?x \<notin> ev_id ` set (fk_events w)" using g by (fastforce simp: fake_good_def)
  then have ev: "fk_events w' = fk_events w @ [?x]" "fk_next w' = Suc (fk_next w)" "\<And>y. r = Answer y \<Longrightarrow> y = ?x"
    using c by (auto simp: fake_create_def put_event_def Let_def split: if_splits)
  have "fake_good name w'"
    using g new unfolding fake_good_def ev by (auto dest: injD)
  with ev show "fake_good name w' \<and> (fk_events w' = fk_events w \<and> (\<forall>x. r \<noteq> Answer x)
      \<or> (\<exists>x. fk_events w' = fk_events w @ [x] \<and> ev_title x = t \<and> ev_starts_at x = s \<and> ev_ends_at x = e
           \<and> ev_properties x = ps \<and> (\<forall>y. r = Answer y \<longrightarrow> y = x)))"
    by (intro conjI disjI2 exI [of _ ?x]) simp_all
qed (auto simp: fake_client_def fake_find_def fake_get_def)

section \<open>A proposal says what is written\<close>

lemma properties_of_payload:
  "properties_of (PDict (event_properties_payload show app c)) = event_properties show app c"
  by (auto simp: properties_of_def event_properties_payload_def event_properties_def Let_def
      prop_names fun_eq_iff)

lemma ActionIntent_init_fields:
  "ActionIntent_init n k t su pay key by' = ret i \<Longrightarrow>
     ac_kind i = k \<and> ac_payload i = pay \<and> ac_summary i = su \<and> ac_id i = n"
  by (auto simp: ActionIntent_init_def split: if_splits sum.splits)

lemma create_intent_fields:
  assumes "calendar_intent tx n p c = ret i" and "ch_op c = OP_CREATE"
    and "\<forall>t \<in> {ch_starts_at c, ch_ends_at c}. ct_from_iso tx (ct_iso tx t) = Some t" and "ch_title c \<noteq> []"
  shows "ac_kind i = CREATE_CALENDAR_EVENT" and "times tx i = ret (ch_starts_at c, ch_ends_at c)"
    and "text_or tx (dict_get (ac_payload i) ''title'') (ac_summary i) = ch_title c"
    and "properties_of (dict_get (ac_payload i) ''properties'')
      = event_properties (ct_show tx) (pl_application_id p) c"
proof -
  from assms(1,2) have f: "ac_kind i = CREATE_CALENDAR_EVENT \<and> ac_payload i =
      [(''application_id'', PStr (ct_show tx (pl_application_id p))),
       (''logical_key'', PStr (ch_logical_key c)), (''role'', PStr (role_value (ch_role c))),
       (''title'', PStr (ch_title c)), (''starts_at'', PStr (ct_iso tx (ch_starts_at c))),
       (''ends_at'', PStr (ct_iso tx (ch_ends_at c))), (''subject'', PStr (ch_title c)),
       (''properties'', PDict (event_properties_payload (ct_show tx) (pl_application_id p) c)),
       (''body'', PStr (two_lines (ch_title c) (ct_when tx (ch_starts_at c) (ch_ends_at c))))]"
    by (auto simp: calendar_intent_def Let_def dest: ActionIntent_init_fields)
  then show "ac_kind i = CREATE_CALENDAR_EVENT" by simp
  from f assms(3) show "times tx i = ret (ch_starts_at c, ch_ends_at c)"
    by (simp add: times_def dict_get_def)
  from f assms(4) show "text_or tx (dict_get (ac_payload i) ''title'') (ac_summary i) = ch_title c"
    by (simp add: text_or_def text_of_def dict_get_def)
  from f show "properties_of (dict_get (ac_payload i) ''properties'')
      = event_properties (ct_show tx) (pl_application_id p) c"
    by (simp add: dict_get_def properties_of_payload)
qed

context calendar_provider
begin

lemma proposal_lands:
  assumes g: "good w" and none: "carrying i (cal w) = []"
    and f: "ac_kind i = CREATE_CALENDAR_EVENT" "times tx i = ret (s, u)"
    and e: "calendar_execute tx cl fb i d w = (Answer r, w')"
  shows "\<exists>x. cal w' = cal w @ [x] \<and> ev_title x = text_or tx (dict_get (ac_payload i) ''title'') (ac_summary i)
    \<and> ev_starts_at x = s \<and> ev_ends_at x = u \<and> ev_properties x =
      (properties_of (dict_get (ac_payload i) ''properties''))(PROP_IDEMPOTENCY_KEY \<mapsto> ac_key i)"
proof -
  have c: "calendar_create tx cl i w = (Answer r, w')" using e f by (simp add: calendar_execute_def)
  obtain b w1 where b: "created_by cl i w = (b, w1)" by (rule prod.exhaust)
  from created_by_is [OF g b] none have fb: "good w1" "cal w1 = cal w" "\<And>x. b = Answer x \<Longrightarrow> x = None" by auto
  obtain q w2 where cr: "cl_create cl (text_or tx (dict_get (ac_payload i) ''title'') (ac_summary i)) s u
      (text_or tx (dict_get (ac_payload i) ''body'') [])
      ((properties_of (dict_get (ac_payload i) ''properties''))(PROP_IDEMPOTENCY_KEY \<mapsto> ac_key i)) w1 = (q, w2)"
    by (rule prod.exhaust)
  from c fb(3) have "w' = w2" "\<exists>ev. q = Answer ev"
    by (auto simp: calendar_create_def b f cr split: answer.splits option.splits)
  with create [OF fb(1) cr] fb(2) show ?thesis by auto
qed

end

text \<open>
  C37: What was approved is what is written, and it is found again. Carrying out the proposal for
  a new event, where no earlier attempt left one, adds one event with the change's title and
  times, linked to the application under the change's key, so that the next plan takes it for
  its own.
\<close>

theorem a_proposed_event_is_found_again:
  assumes "calendar_provider cl cal good" and "good w"
    and "calendar_intent tx n p c = ret i" and "ch_op c = OP_CREATE"
    and "\<forall>t \<in> {ch_starts_at c, ch_ends_at c}. ct_from_iso tx (ct_iso tx t) = Some t"
    and "ch_title c \<noteq> []" and "ch_logical_key c \<noteq> []"
    and "carrying i (cal w) = []" and "calendar_execute tx cl fb i d w = (Answer r, w')"
  shows "\<exists>x. cal w' = cal w @ [x] \<and> ev_title x = ch_title c
    \<and> ev_starts_at x = ch_starts_at c \<and> ev_ends_at x = ch_ends_at c
    \<and> is_own (ct_show tx (pl_application_id p)) x \<and> ev_logical_key x = Some (ch_logical_key c)
    \<and> ev_role x = Some (ch_role c)"
proof -
  note f = create_intent_fields [OF assms(3-6)]
  from calendar_provider.proposal_lands [OF assms(1,2,8) f(1,2) assms(9)] obtain x where
    x: "cal w' = cal w @ [x]" "ev_title x = ch_title c" "ev_starts_at x = ch_starts_at c"
      "ev_ends_at x = ch_ends_at c" and p: "ev_properties x =
      (event_properties (ct_show tx) (pl_application_id p) c)(PROP_IDEMPOTENCY_KEY \<mapsto> ac_key i)"
    unfolding f(3,4) by blast
  have "is_own (ct_show tx (pl_application_id p)) x \<and> ev_logical_key x = Some (ch_logical_key c)"
    using p assms(7) by (simp add: is_own_def ev_application_id_def ev_logical_key_def
        event_properties_def Let_def prop_names)
  moreover have "ev_role x = Some (ch_role c)"
    by (cases "ch_role c") (simp_all add: ev_role_def p event_properties_def Let_def prop_names)
  ultimately show ?thesis using x by blast
qed

lemma strip_solid: "\<not> is_space x \<Longrightarrow> strip (x # xs) \<noteq> []"
  by (auto simp: strip_def)


section \<open>Examples\<close>

definition sample_texts :: calendar_texts where
  "sample_texts =
     \<lparr>ct_show = (\<lambda>_. ''7''), ct_iso = (\<lambda>t. if t = 223200 then ''s'' else ''e''),
      ct_from_iso = (\<lambda>s. Some (if s = ''s'' then 223200 else 226800)), ct_when = (\<lambda>_ _. ''then''),
      ct_stamp = (\<lambda>_. ''t''), ct_str = (\<lambda>_. [])\<rparr>"

definition sample_insert :: action_intent where
  "sample_insert = projr (calendar_intent sample_texts 3 sample_plan (hd (pl_changes sample_plan)))"

text \<open>The first response is lost after the insert landed; the second attempt names that event.\<close>

definition sample_fake :: fake_calendar where
  "sample_fake = \<lparr>fk_events = sample_calendar, fk_next = 1, fk_lose = True\<rparr>"

definition ones :: "nat \<Rightarrow> string" where
  "ones n = replicate n CHR ''1''"

lemma sample_fake_good: "fake_good ones sample_fake"
  by (auto simp: fake_good_def sample_fake_def sample_calendar_def ones_def inj_on_def
      dest: arg_cong [of _ _ length])

lemma sample_insert_kind: "ac_kind sample_insert = CREATE_CALENDAR_EVENT"
  by code_simp

lemma sample_not_there: "carrying sample_insert (fk_events sample_fake) = []"
  by (simp add: carrying_def sample_fake_def sample_calendar_def)

definition sample_client :: "fake_calendar calendar_client" where
  "sample_client = fake_client ones (\<lambda>_. ''2'')"

lemma sample_provider: "calendar_provider sample_client fk_events (fake_good ones)"
  unfolding sample_client_def by (rule fake.calendar_provider_axioms)

lemma a_retried_create_makes_one_event_witness:
  "\<forall>d. \<exists>as w'. attempts sample_texts sample_client sample_insert d 2 sample_fake = (as, w')
     \<and> length (fk_events w') = 2 \<and> length (carrying sample_insert (fk_events w')) \<le> 1"
proof
  fix d
  obtain as w' where a: "attempts sample_texts sample_client sample_insert d 2 sample_fake = (as, w')"
    by (rule prod.exhaust)
  have "length (fk_events (snd (attempts sample_texts sample_client sample_insert d 2 sample_fake))) = 2"
    by code_simp
  with a_retried_create_makes_one_event [OF sample_provider sample_fake_good sample_insert_kind sample_not_there a] a
  show "\<exists>as w'. attempts sample_texts sample_client sample_insert d 2 sample_fake = (as, w')
     \<and> length (fk_events w') = 2 \<and> length (carrying sample_insert (fk_events w')) \<le> 1" by auto
qed

lemma sample_change:
  "ch_op (hd (pl_changes sample_plan)) = OP_CREATE"
  "ch_title (hd (pl_changes sample_plan)) = ''Interview''"
  "ch_starts_at (hd (pl_changes sample_plan)) = 223200" "ch_ends_at (hd (pl_changes sample_plan)) = 226800"
  "ch_logical_key (hd (pl_changes sample_plan)) = ''interview:7''"
  by code_simp+

lemma a_proposed_event_is_found_again_witness:
  "\<forall>d. \<exists>x. fk_events (snd (calendar_execute sample_texts sample_client None sample_insert d
      (sample_fake\<lparr>fk_lose := False\<rparr>))) = sample_calendar @ [x] \<and> ev_logical_key x = Some ''interview:7''"
proof
  fix d
  let ?w = "sample_fake\<lparr>fk_lose := False\<rparr>"
  have g: "fake_good ones ?w" using sample_fake_good by (simp add: fake_good_def)
  have i: "calendar_intent sample_texts 3 sample_plan (hd (pl_changes sample_plan)) = ret sample_insert"
  proof -
    have "is_ret (calendar_intent sample_texts 3 sample_plan (hd (pl_changes sample_plan)))" by code_simp
    then show ?thesis unfolding sample_insert_def by (cases "calendar_intent sample_texts 3 sample_plan
      (hd (pl_changes sample_plan))") simp_all
  qed
  have n: "carrying sample_insert (fk_events ?w) = []" using sample_not_there by simp
  obtain a w' where e: "calendar_execute sample_texts sample_client None sample_insert d ?w = (a, w')"
    by (rule prod.exhaust)
  have "case fst (calendar_execute sample_texts sample_client None sample_insert d ?w) of
      Answer _ \<Rightarrow> True | _ \<Rightarrow> False" by code_simp
  with e obtain r where r: "a = Answer r" by (cases a) auto
  have iso: "\<forall>t \<in> {ch_starts_at (hd (pl_changes sample_plan)), ch_ends_at (hd (pl_changes sample_plan))}.
      ct_from_iso sample_texts (ct_iso sample_texts t) = Some t"
    by (simp add: sample_change sample_texts_def)
  from a_proposed_event_is_found_again [OF sample_provider g i sample_change(1) iso _ _ n e [unfolded r]] e
  show "\<exists>x. fk_events (snd (calendar_execute sample_texts sample_client None sample_insert d
      (sample_fake\<lparr>fk_lose := False\<rparr>))) = sample_calendar @ [x] \<and> ev_logical_key x = Some ''interview:7''"
    by (auto simp: sample_change sample_fake_def)
qed


end
