(* ===== verification/Correlation.thy ===== *)
theory Correlation
  imports Postings Checkpoints
begin

text \<open>
  Recruiter-side events (\<open>personalos/domain/recruiter_events.py\<close>): what a message is claimed to
  be and to commit anyone to, which application it is about, and what is done with it. Floats are
  rationals, rounded to even; a case-insensitive pattern is matched on the lowered text; \<open>show\<close>
  renders an id and \<open>sha\<close> is \<open>sha256(...).hexdigest()\<close>. Deadlines in free text and the texts of
  review reasons are left out.
\<close>

section \<open>Messages and what is read out of them\<close>

definition DEFAULT_CORRELATION_THRESHOLD :: rat where "DEFAULT_CORRELATION_THRESHOLD = 3 / 4"
definition CORRELATION_AMBIGUITY_MARGIN :: rat where "CORRELATION_AMBIGUITY_MARGIN = 1 / 10"
definition DEFAULT_MIN_CLASSIFICATION_CONFIDENCE :: rat where
  "DEFAULT_MIN_CLASSIFICATION_CONFIDENCE = 3 / 5"
definition MAX_COMMITMENTS_PER_MESSAGE :: nat where "MAX_COMMITMENTS_PER_MESSAGE = 10"
definition MAX_ACTION_CHARS :: nat where "MAX_ACTION_CHARS = 500"

record recruiter_message =
  rm_id :: string
  rm_received_at :: datetime
  rm_body :: string
  rm_subject :: "string option"
  rm_from_address :: "string option"
  rm_thread_id :: "string option"

datatype commitment_actor = USER | EXTERNAL_PERSON

record extracted_commitment =
  cm_actor :: commitment_actor
  cm_action :: string
  cm_due_at :: "datetime option"
  cm_condition :: "string option"
  cm_confidence :: rat

record commitment = extracted_commitment +
  cm_source_message_id :: string

definition ExtractedCommitment_init :: "extracted_commitment \<Rightarrow> exn + extracted_commitment" where
  "ExtractedCommitment_init c =
     (if length (cm_action c) > MAX_ACTION_CHARS \<or> strip (cm_action c) = []
         \<or> cm_confidence c < 0 \<or> cm_confidence c > 1
      then raise (validation_error ''ExtractedCommitment'')
      else ret (c\<lparr>cm_action := strip (cm_action c),
                  cm_condition := (case cm_condition c of
                     None \<Rightarrow> None | Some t \<Rightarrow> if strip t = [] then None else Some (strip t))\<rparr>))"

definition from_extracted :: "extracted_commitment \<Rightarrow> string \<Rightarrow> commitment" where
  "from_extracted c n =
     \<lparr>cm_actor = cm_actor c, cm_action = cm_action c, cm_due_at = cm_due_at c,
      cm_condition = cm_condition c, cm_confidence = cm_confidence c, cm_source_message_id = n\<rparr>"

record extraction =
  xt_classification :: event_classification
  xt_confidence :: rat
  xt_summary :: "string option"
  xt_requires_reply :: bool
  xt_commitments :: "extracted_commitment list"

definition Extraction_init :: "extraction \<Rightarrow> exn + extraction" where
  "Extraction_init x =
     (if xt_confidence x < 0 \<or> xt_confidence x > 1
         \<or> (case xt_summary x of None \<Rightarrow> False | Some t \<Rightarrow> length t > 500)
         \<or> length (xt_commitments x) > MAX_COMMITMENTS_PER_MESSAGE
      then raise (validation_error ''RecruiterEventExtraction'') else ret x)"

datatype extraction_source = FROM_MODEL | FROM_FALLBACK

record extraction_outcome =
  xo_extraction :: extraction
  xo_source :: extraction_source
  xo_invalid_attempts :: nat

fun IMPLIED_STATUS :: "event_classification \<Rightarrow> application_status option" where
  "IMPLIED_STATUS RECRUITER_RESPONSE = Some RESPONSE"
| "IMPLIED_STATUS INTERVIEW_INVITE = Some INTERVIEWING"
| "IMPLIED_STATUS EC_REJECTION = Some REJECTED"
| "IMPLIED_STATUS EC_OFFER = Some OFFER"
| "IMPLIED_STATUS ACTION_REQUIRED = Some RESPONSE"
| "IMPLIED_STATUS GENERAL_UPDATE = None"
| "IMPLIED_STATUS UNRELATED = None"

section \<open>Correlation\<close>

record application_candidate =
  ca_application_id :: uuid
  ca_company :: string
  ca_title :: string
  ca_status :: application_status
  ca_reference :: "string option"
  ca_thread_ids :: "string list"
  ca_contact_addresses :: "string list"

datatype correlation_signal =
  REVIEWER_CONFIRMED | THREAD | REFERENCE | KNOWN_SENDER | SENDER_DOMAIN | COMPANY_NAME | TITLE

text \<open>The table has no weight for a reviewer's answer, which is never combined.\<close>

fun SIGNAL_WEIGHTS :: "correlation_signal \<Rightarrow> rat option" where
  "SIGNAL_WEIGHTS REVIEWER_CONFIRMED = None"
| "SIGNAL_WEIGHTS THREAD = Some (95 / 100)"
| "SIGNAL_WEIGHTS REFERENCE = Some (9 / 10)"
| "SIGNAL_WEIGHTS KNOWN_SENDER = Some (6 / 10)"
| "SIGNAL_WEIGHTS SENDER_DOMAIN = Some (5 / 10)"
| "SIGNAL_WEIGHTS COMPANY_NAME = Some (35 / 100)"
| "SIGNAL_WEIGHTS TITLE = Some (3 / 10)"

definition MIN_REFERENCE_CHARS :: nat where "MIN_REFERENCE_CHARS = 5"

datatype correlation_outcome = MATCHED | NEEDS_REVIEW | UNMATCHED

record correlation_candidate =
  cn_application_id :: uuid
  cn_confidence :: rat
  cn_signals :: "correlation_signal list"

record application_correlation =
  co_outcome :: correlation_outcome
  co_application_id :: "uuid option"
  co_confidence :: rat
  co_signals :: "correlation_signal list"
  co_threshold :: rat
  co_candidates :: "correlation_candidate list"

definition ApplicationCorrelation_init :: "application_correlation \<Rightarrow> exn + application_correlation" where
  "ApplicationCorrelation_init c =
     (if co_confidence c < 0 \<or> co_confidence c > 1
         \<or> (co_outcome c = MATCHED) \<noteq> (co_application_id c \<noteq> None)
      then raise (validation_error ''a correlation names an application if, and only if, it matched one'')
      else ret c)"

text \<open>
  Whether a phrase occurs in a text with no \<open>p\<close>-character right before or after it; \<open>free\<close> says
  that none precedes the text.
\<close>

fun occurs :: "(char \<Rightarrow> bool) \<Rightarrow> bool \<Rightarrow> string \<Rightarrow> string \<Rightarrow> bool" where
  "occurs p free phrase [] = False"
| "occurs p free phrase (c # s) =
     (free \<and> take (length phrase) (c # s) = phrase
        \<and> (case drop (length phrase) (c # s) of [] \<Rightarrow> True | d # _ \<Rightarrow> \<not> p d)
      \<or> occurs p (\<not> p c) phrase s)"

definition contains_phrase :: "string \<Rightarrow> string \<Rightarrow> bool" where
  "contains_phrase haystack phrase \<longleftrightarrow>
     phrase \<noteq> [] \<and> occurs (\<lambda>_. False) True ('' '' @ phrase @ '' '') ('' '' @ haystack @ '' '')"

definition sender_domain_labels :: "string \<Rightarrow> string set" where
  "sender_domain_labels address =
     (if CHR ''@'' \<notin> set address then {}
      else set (runs (\<lambda>c. c \<noteq> CHR ''.'') (lower (rev (takeWhile (\<lambda>c. c \<noteq> CHR ''@'') (rev address))))))"

definition is_alnum :: "char \<Rightarrow> bool" where
  "is_alnum c \<longleftrightarrow> is_word c \<and> c \<noteq> CHR ''_''"

definition or_empty :: "string option \<Rightarrow> string" where
  "or_empty t = (case t of None \<Rightarrow> [] | Some s \<Rightarrow> s)"

definition signals_for ::
  "recruiter_message \<Rightarrow> application_candidate \<Rightarrow> string \<Rightarrow> correlation_signal list" where
  "signals_for m c text' =
     (let reference = strip (or_empty (ca_reference c));
          sender = lower (strip (or_empty (rm_from_address m)));
          company = canonical_company (ca_company c)
      in (if or_empty (rm_thread_id m) \<noteq> [] \<and> or_empty (rm_thread_id m) \<in> set (ca_thread_ids c)
          then [THREAD] else [])
       @ (if length reference \<ge> MIN_REFERENCE_CHARS
             \<and> occurs is_alnum True (lower reference) (lower (or_empty (rm_subject m) @ CHR 0x0A # rm_body m))
          then [REFERENCE] else [])
       @ (if sender \<noteq> [] \<and> sender \<in> lower ` set (ca_contact_addresses c) then [KNOWN_SENDER] else [])
       @ (if company \<noteq> [] \<and> filter (\<lambda>x. x \<noteq> CHR '' '') company \<in> sender_domain_labels sender
          then [SENDER_DOMAIN] else [])
       @ (if contains_phrase text' company then [COMPANY_NAME] else [])
       @ (if contains_phrase text' (canonical_text (ca_title c)) then [TITLE] else []))"

definition round_even :: "rat \<Rightarrow> int" where
  "round_even x =
     (let n = \<lfloor>x\<rfloor>; d = x - of_int n
      in if d < 1 / 2 \<or> d = 1 / 2 \<and> even n then n else n + 1)"

definition round4 :: "rat \<Rightarrow> rat" where
  "round4 x = of_int (round_even (x * 10000)) / 10000"

text \<open>A signal without a weight is a \<open>KeyError\<close>; none is combined here.\<close>

definition miss :: "correlation_signal list \<Rightarrow> rat" where
  "miss ss = foldl (\<lambda>m s. m * (1 - (case SIGNAL_WEIGHTS s of Some w \<Rightarrow> w | None \<Rightarrow> 0))) 1 ss"

definition combined :: "correlation_signal list \<Rightarrow> rat" where
  "combined ss = round4 (1 - miss ss)"

definition score_all ::
  "recruiter_message \<Rightarrow> application_candidate list \<Rightarrow> correlation_candidate list" where
  "score_all m cs =
     (let text' = canonical_text (or_empty (rm_subject m) @ '' '' @ rm_body m)
      in map (\<lambda>c. \<lparr>cn_application_id = ca_application_id c, cn_confidence = combined (signals_for m c text'),
                   cn_signals = signals_for m c text'\<rparr>)
           (filter (\<lambda>c. signals_for m c text' \<noteq> []) cs))"

definition correlate_application ::
  "(uuid \<Rightarrow> string) \<Rightarrow> recruiter_message \<Rightarrow> application_candidate list \<Rightarrow> rat \<Rightarrow> uuid option \<Rightarrow>
   exn + application_correlation" where
  "correlate_application show m cs threshold confirmed =
     (case confirmed of
        Some n \<Rightarrow>
          if n \<notin> set (map ca_application_id cs)
          then raise (contract_error ''the confirmed application is not one of this user's applications'')
          else ApplicationCorrelation_init
            \<lparr>co_outcome = MATCHED, co_application_id = Some n, co_confidence = 1,
             co_signals = [REVIEWER_CONFIRMED], co_threshold = threshold, co_candidates = []\<rparr>
      | None \<Rightarrow>
          (case sort_key (\<lambda>c. (- cn_confidence c, show (cn_application_id c))) (score_all m cs) of
             [] \<Rightarrow> ApplicationCorrelation_init
               \<lparr>co_outcome = UNMATCHED, co_application_id = None, co_confidence = 0, co_signals = [],
                co_threshold = threshold, co_candidates = []\<rparr>
           | best # rest \<Rightarrow>
               let runner_up = (case rest of [] \<Rightarrow> 0 | r # _ \<Rightarrow> cn_confidence r)
               in if cn_confidence best \<ge> threshold
                     \<and> cn_confidence best - runner_up \<ge> CORRELATION_AMBIGUITY_MARGIN
                  then ApplicationCorrelation_init
                    \<lparr>co_outcome = MATCHED, co_application_id = Some (cn_application_id best),
                     co_confidence = cn_confidence best, co_signals = cn_signals best,
                     co_threshold = threshold, co_candidates = []\<rparr>
                  else ApplicationCorrelation_init
                    \<lparr>co_outcome = NEEDS_REVIEW, co_application_id = None, co_confidence = cn_confidence best,
                     co_signals = cn_signals best, co_threshold = threshold,
                     co_candidates = take 3 (best # rest)\<rparr>))"

section \<open>The event and its triage\<close>

definition MAX_READABLE_MESSAGE_ID :: nat where "MAX_READABLE_MESSAGE_ID = 200"

definition communication_dedupe_key :: "(string \<Rightarrow> string) \<Rightarrow> string \<Rightarrow> exn + string" where
  "communication_dedupe_key sha n =
     (let message_id = strip n
      in if message_id = [] then raise (contract_error ''a message with no provider id cannot be deduplicated'')
         else if length message_id > MAX_READABLE_MESSAGE_ID then ret (''message:sha256:'' @ sha message_id)
         else ret (''message:'' @ message_id))"

record recruiter_event =
  re_message :: recruiter_message
  re_classification :: event_classification
  re_confidence :: rat
  re_summary :: "string option"
  re_requires_reply :: bool
  re_commitments :: "commitment list"
  re_source :: extraction_source
  re_correlation :: application_correlation

definition build_event ::
  "recruiter_message \<Rightarrow> extraction_outcome \<Rightarrow> application_correlation \<Rightarrow> recruiter_event" where
  "build_event m o' c =
     (let x = xo_extraction o' in
      \<lparr>re_message = m, re_classification = xt_classification x, re_confidence = xt_confidence x,
       re_summary = xt_summary x, re_requires_reply = xt_requires_reply x,
       re_commitments = map (\<lambda>k. from_extracted k (rm_id m)) (xt_commitments x),
       re_source = xo_source o', re_correlation = c\<rparr>)"

definition event_dedupe_key :: "(string \<Rightarrow> string) \<Rightarrow> recruiter_event \<Rightarrow> exn + string" where
  "event_dedupe_key sha ev = communication_dedupe_key sha (rm_id (re_message ev))"

datatype triage_action = RECORD | REVIEW | IGNORE

datatype review_reason =
    UnrelatedButMatched
  | LowConfidence rat rat
  | WeakOrAmbiguous rat rat
  | NoApplication
  | RefusedMove application_status application_status

record triage_decision =
  tr_action :: triage_action
  tr_transition :: "application_status option"
  tr_reason :: "review_reason option"

definition triage :: "recruiter_event \<Rightarrow> rat \<Rightarrow> triage_decision" where
  "triage ev floor' =
     (let unrelated = (re_classification ev = UNRELATED); c = re_correlation ev
      in if co_outcome c = MATCHED then
           (if unrelated \<and> REVIEWER_CONFIRMED \<notin> set (co_signals c)
            then \<lparr>tr_action = REVIEW, tr_transition = None, tr_reason = Some UnrelatedButMatched\<rparr>
            else if re_confidence ev < floor'
            then \<lparr>tr_action = RECORD, tr_transition = None,
                  tr_reason = Some (LowConfidence (re_confidence ev) floor')\<rparr>
            else \<lparr>tr_action = RECORD, tr_transition = IMPLIED_STATUS (re_classification ev), tr_reason = None\<rparr>)
         else if unrelated then \<lparr>tr_action = IGNORE, tr_transition = None, tr_reason = None\<rparr>
         else if co_outcome c = NEEDS_REVIEW
         then \<lparr>tr_action = REVIEW, tr_transition = None,
               tr_reason = Some (WeakOrAmbiguous (co_confidence c) (co_threshold c))\<rparr>
         else if re_classification ev = GENERAL_UPDATE
         then \<lparr>tr_action = IGNORE, tr_transition = None, tr_reason = None\<rparr>
         else \<lparr>tr_action = REVIEW, tr_transition = None, tr_reason = Some NoApplication\<rparr>)"

section \<open>What a correlation rests on\<close>

definition message_text :: "recruiter_message \<Rightarrow> string" where
  "message_text m = canonical_text (or_empty (rm_subject m) @ '' '' @ rm_body m)"

text \<open>How much speaks for a candidate.\<close>

definition support :: "recruiter_message \<Rightarrow> application_candidate \<Rightarrow> rat" where
  "support m c = combined (signals_for m c (message_text m))"

definition as_scored :: "recruiter_message \<Rightarrow> application_candidate \<Rightarrow> correlation_candidate" where
  "as_scored m c = \<lparr>cn_application_id = ca_application_id c, cn_confidence = support m c,
     cn_signals = signals_for m c (message_text m)\<rparr>"

lemma score_all_eq:
  "score_all m cs = map (as_scored m) (filter (\<lambda>c. signals_for m c (message_text m) \<noteq> []) cs)"
  by (simp add: score_all_def Let_def message_text_def as_scored_def support_def)

lemma miss_bounds: "0 \<le> miss ss \<and> miss ss \<le> 1"
proof -
  have "0 \<le> m \<and> m \<le> 1 \<Longrightarrow>
      0 \<le> foldl (\<lambda>m s. m * (1 - (case SIGNAL_WEIGHTS s of Some w \<Rightarrow> w | None \<Rightarrow> 0))) m ss
    \<and> foldl (\<lambda>m s. m * (1 - (case SIGNAL_WEIGHTS s of Some w \<Rightarrow> w | None \<Rightarrow> 0))) m ss \<le> 1" for m :: rat
  proof (induction ss arbitrary: m)
    case (Cons s ss)
    have "0 \<le> m * (1 - (case SIGNAL_WEIGHTS s of Some w \<Rightarrow> w | None \<Rightarrow> 0))
        \<and> m * (1 - (case SIGNAL_WEIGHTS s of Some w \<Rightarrow> w | None \<Rightarrow> 0)) \<le> 1"
      using Cons.prems by (cases s) auto
    from Cons.IH [OF this] show ?case by simp
  qed simp
  from this [of 1] show ?thesis by (simp add: miss_def)
qed

lemma round_even_le: "x \<le> of_int k \<Longrightarrow> round_even x \<le> k"
proof -
  assume x: "x \<le> of_int k"
  show ?thesis
  proof (cases "\<lfloor>x\<rfloor> = k")
    case True
    then have "x = of_int \<lfloor>x\<rfloor>" using x of_int_floor_le [of x] by simp
    then show ?thesis using True by (simp add: round_even_def Let_def)
  next
    case False
    then have "\<lfloor>x\<rfloor> < k" using floor_mono [OF x] by simp
    then show ?thesis by (simp add: round_even_def Let_def)
  qed
qed

lemma round_even_ge: "of_int k \<le> x \<Longrightarrow> k \<le> round_even x"
  using floor_mono [of "of_int k" x] by (simp add: round_even_def Let_def)

lemma combined_bounds: "0 \<le> combined ss" "combined ss \<le> 1"
  using miss_bounds [of ss] round_even_ge [of 0 "(1 - miss ss) * 10000"]
    round_even_le [of "(1 - miss ss) * 10000" 10000]
  by (auto simp: combined_def round4_def)

lemma support_bounds: "0 \<le> support m c" "support m c \<le> 1"
  by (simp_all add: support_def combined_bounds)

lemma support_none: "signals_for m c (message_text m) = [] \<Longrightarrow> support m c = 0"
  by (simp add: support_def combined_def miss_def round4_def round_even_def)

abbreviation order_key :: "(uuid \<Rightarrow> string) \<Rightarrow> correlation_candidate \<Rightarrow> rat \<times> string" where
  "order_key show c \<equiv> (- cn_confidence c, show (cn_application_id c))"

text \<open>The unconfirmed case, by the best candidate and the one after it.\<close>

lemma correlation_cases:
  assumes "correlate_application show m cs threshold None = ret r"
  obtains (nobody) "score_all m cs = []" "co_outcome r = UNMATCHED" "co_application_id r = None"
  | (some) best rest where "sort_key (order_key show) (score_all m cs) = best # rest"
      "co_confidence r = cn_confidence best"
      "co_outcome r = (if cn_confidence best \<ge> threshold \<and> cn_confidence best
          - (case rest of [] \<Rightarrow> 0 | q # _ \<Rightarrow> cn_confidence q) \<ge> CORRELATION_AMBIGUITY_MARGIN
        then MATCHED else NEEDS_REVIEW)"
      "co_application_id r = (if co_outcome r = MATCHED then Some (cn_application_id best) else None)"
      "co_candidates r = (if co_outcome r = MATCHED then [] else take 3 (best # rest))"
proof (cases "sort_key (order_key show) (score_all m cs)")
  case Nil
  then have "score_all m cs = []" using set_sort [of "order_key show" "score_all m cs"] by simp
  with assms show ?thesis
    by (intro nobody) (auto simp: correlate_application_def ApplicationCorrelation_init_def split: if_splits)
next
  case (Cons best rest)
  with assms show ?thesis
    by (intro some [OF Cons])
      (auto simp: correlate_application_def ApplicationCorrelation_init_def Let_def split: if_splits)
qed


text \<open>
  C40: The order in which the applications are read does not matter: with distinct ids that are
  rendered apart, any other order of the same applications gives the same correlation, the
  candidates for the reviewer included.
\<close>

theorem correlation_ignores_order:
  assumes "mset cs' = mset cs" and "distinct (map ca_application_id cs)" and "inj show"
  shows "correlate_application show m cs' threshold confirmed = correlate_application show m cs threshold confirmed"
proof -
  have set: "set cs' = set cs" using assms(1) by (metis set_mset_mset)
  have ms: "mset (score_all m cs') = mset (score_all m cs)"
    using assms(1) by (simp add: score_all_eq mset_filter)
  have "inj_on (order_key show) (set (score_all m cs))"
  proof (rule inj_onI)
    fix x y assume "x \<in> set (score_all m cs)" "y \<in> set (score_all m cs)" and e: "order_key show x = order_key show y"
    then obtain c d where cd: "c \<in> set cs" "x = as_scored m c" "d \<in> set cs" "y = as_scored m d"
      by (auto simp: score_all_eq)
    with e assms(3) have "ca_application_id c = ca_application_id d" by (simp add: as_scored_def inj_eq)
    with cd assms(2) have "c = d" by (auto simp: distinct_map dest: inj_onD)
    with cd show "x = y" by simp
  qed
  then have "sort_key (order_key show) (score_all m cs') = sort_key (order_key show) (score_all m cs)"
    by (intro sort_key_inj_key_eq) (simp_all add: ms mset_eq_setD [OF ms])
  then show ?thesis
    by (cases confirmed) (simp_all add: correlate_application_def set)
qed

lemma words_alone: "set ss \<subseteq> {COMPANY_NAME, TITLE} \<Longrightarrow> distinct ss \<Longrightarrow> combined ss < 3 / 4"
proof -
  assume s: "set ss \<subseteq> {COMPANY_NAME, TITLE}" "distinct ss"
  then have "ss \<in> {[], [COMPANY_NAME], [TITLE], [COMPANY_NAME, TITLE], [TITLE, COMPANY_NAME]}"
    by (cases ss; cases "tl ss"; cases "tl (tl ss)") auto
  moreover have "\<forall>t \<in> set [[], [COMPANY_NAME], [TITLE], [COMPANY_NAME, TITLE], [TITLE, COMPANY_NAME]]. combined t < 3 / 4"
    by code_simp
  ultimately show ?thesis by auto
qed

lemma signals_distinct: "distinct (signals_for m c t)"
  by (simp add: signals_for_def Let_def)

text \<open>
  Words alone never tie a message to an application. At the shipped threshold or above, an
  application named without a person's word is one whose thread, requisition id, known contact
  or sender domain the message carries, not one it merely talks about.
\<close>

theorem words_alone_never_match:
  assumes "correlate_application show m cs threshold None = ret r"
    and "DEFAULT_CORRELATION_THRESHOLD \<le> threshold" and "co_application_id r = Some n"
  shows "\<exists>c \<in> set cs. ca_application_id c = n
    \<and> set (signals_for m c (message_text m)) \<inter> {THREAD, REFERENCE, KNOWN_SENDER, SENDER_DOMAIN} \<noteq> {}"
  using assms(1)
proof (cases rule: correlation_cases)
  case nobody
  with assms(3) show ?thesis by simp
next
  case (some best rest)
  have "best \<in> set (score_all m cs)" using arg_cong [OF some(1), of set] by (metis list.set_intros(1) set_sort)
  then obtain c where c: "c \<in> set cs" "best = as_scored m c" by (auto simp: score_all_eq)
  have n: "ca_application_id c = n" "threshold \<le> support m c"
    using some(3,4) assms(3) by (auto simp: c(2) as_scored_def split: if_splits)
  let ?s = "signals_for m c (message_text m)"
  have "set ?s \<subseteq> {THREAD, REFERENCE, KNOWN_SENDER, SENDER_DOMAIN, COMPANY_NAME, TITLE}"
    by (auto simp: signals_for_def Let_def)
  moreover have "\<not> set ?s \<subseteq> {COMPANY_NAME, TITLE}"
    using words_alone [OF _ signals_distinct, of m c "message_text m"] n(2) assms(2)
    by (auto simp: support_def DEFAULT_CORRELATION_THRESHOLD_def)
  ultimately show ?thesis using c(1) n(1) by blast
qed

text \<open>A reviewer's answer names one of the user's applications.\<close>

lemma confirmed_is_on_file:
  "correlate_application show m cs threshold (Some n) = ret r \<Longrightarrow>
     n \<in> ca_application_id ` set cs \<and> co_outcome r = MATCHED \<and> co_application_id r = Some n"
  by (auto simp: correlate_application_def ApplicationCorrelation_init_def split: if_splits)


section \<open>Examples\<close>

definition sample_message :: recruiter_message where
  "sample_message = \<lparr>rm_id = ''m1'', rm_received_at = 10, rm_body = ''Your application at Acme'',
     rm_subject = Some ''Go developer'', rm_from_address = Some ''jo@acme.com'', rm_thread_id = Some ''t1''\<rparr>"

definition sample_candidate :: "uuid \<Rightarrow> string list \<Rightarrow> application_candidate" where
  "sample_candidate n threads = \<lparr>ca_application_id = n, ca_company = ''Acme Inc'', ca_title = ''Go developer'',
     ca_status = APPLIED, ca_reference = None, ca_thread_ids = threads, ca_contact_addresses = []\<rparr>"

lemma sample_supports:
  "support sample_message (sample_candidate 7 [''t1'']) = 9886 / 10000"
  "support sample_message (sample_candidate 8 []) = 7725 / 10000"
  by code_simp+

definition unary :: "uuid \<Rightarrow> string" where
  "unary n = replicate n CHR ''1''"

lemma sample_correlation:
  "correlate_application unary sample_message [sample_candidate 8 [], sample_candidate 7 [''t1'']]
     DEFAULT_CORRELATION_THRESHOLD None
   = ret \<lparr>co_outcome = MATCHED, co_application_id = Some 7, co_confidence = 9886 / 10000,
          co_signals = [THREAD, SENDER_DOMAIN, COMPANY_NAME, TITLE],
          co_threshold = DEFAULT_CORRELATION_THRESHOLD, co_candidates = []\<rparr>"
  by code_simp


lemma correlation_ignores_order_witness:
  "correlate_application unary sample_message [sample_candidate 7 [''t1''], sample_candidate 8 []]
      DEFAULT_CORRELATION_THRESHOLD None
   = correlate_application unary sample_message [sample_candidate 8 [], sample_candidate 7 [''t1'']]
      DEFAULT_CORRELATION_THRESHOLD None"
proof (rule correlation_ignores_order)
  show "inj unary" by (rule injI) (metis length_replicate unary_def)
qed (simp_all add: sample_candidate_def)

lemma words_alone_never_match_witness:
  "set (signals_for sample_message (sample_candidate 7 [''t1'']) (message_text sample_message))
     \<inter> {THREAD, REFERENCE, KNOWN_SENDER, SENDER_DOMAIN} \<noteq> {}"
  using words_alone_never_match [OF sample_correlation order_refl, of 7]
  by (auto simp: sample_candidate_def)

end
