(* ===== verification/Spec2Isabelle.thy ===== *)
theory Spec2Isabelle
  imports Prelude Taxonomy Intents Rules Engine Retry Idempotency Approvals Transport Outbox Inbox
    Leases Ledger ToolExecutor Lifecycle Board Workflows Dispatcher Drain StoredErrors
    Failures Postings Matching Discovery Checkpoints Scheduling Calendar Correlation
begin

text \<open>
  Verification of PersonalOS, a job-search assistant (Python, \<open>src/personalos\<close> and \<open>src/apps\<close>)
  whose language models propose actions and whose deterministic core decides which of them happen,
  once, and under whose approval. The development models that core.

  \<^bold>\<open>How the parts interact.\<close> A search (\<open>graphs/job_search.py\<close>) turns a profile into postings, scores
  them against the candidate's record and shortlists the best. What leaves the system is an action
  intent that a person approves; the executor consults the policy engine, claims the action in the
  execution ledger, calls the provider, and retries only what it may. Changes of an application go
  through one guarded lifecycle. Facts become events in a transactional outbox; a dispatcher
  delivers them to the router, which queues workflow commands, and to consumers that apply each
  event once. A worker carries the commands out under a lease, so that one process at a time runs a
  workflow's graph; a stopped graph waits for an answer. Failures are stored, classified, and
  offered to a person for a bounded retry. Waits for the future are rows in a table that monitors
  sweep. Recruiter mail is tied to an application and triaged, and an interview is planned around
  what the calendar holds.

  \<^bold>\<open>Theories and sources\<close> (paths under \<open>src/personalos\<close> unless they start with \<open>apps\<close>):

  \<^item> \<open>Prelude\<close>: identifiers, time, Python values, results that may be an exception, and the
    collections \<open>op_defs\<close>, \<open>inv_defs\<close> and \<open>frame\<close> the component proofs use.
  \<^item> \<open>Taxonomy\<close>: \<open>domain/errors.py\<close>, the exception classes and what each says about retrying.
  \<^item> \<open>Intents\<close>, \<open>Rules\<close>, \<open>Engine\<close>: \<open>policy/\<close> and \<open>domain/context.py\<close>. The verdict of a rule chain is
    the strictest opinion; the engine's verdict is the stricter of the rules' and the class's;
    untrusted writes always reach a person. The decision log is the locale \<open>decision_log_port\<close>.
  \<^item> \<open>Retry\<close>: \<open>domain/retry_policy.py\<close>, \<open>executor/retry.py\<close>. Budgets and backoff are bounded.
  \<^item> \<open>Idempotency\<close>: \<open>persistence/idempotency.py\<close>. One handler run per key, for both stores of the
    locale \<open>operation_store\<close>, whatever the races.
  \<^item> \<open>Approvals\<close>: the approval contracts of \<open>domain/job_search.py\<close> and the graph's approval nodes. The
    gate opens exactly for an approved, unexpired, unchanged action.
  \<^item> \<open>Transport\<close>, \<open>Outbox\<close>, \<open>Inbox\<close>: \<open>domain/events.py\<close>, \<open>domain/event_transport.py\<close>,
    \<open>events/memory.py\<close>, \<open>persistence/event_outbox.py\<close>, \<open>persistence/event_inbox.py\<close>. The locale
    \<open>event_transport\<close> has the in-memory and the SQL transport as interpretations; leases exclude,
    deliveries are bounded, and a consumer's effects and its receipt commit together.
  \<^item> \<open>Leases\<close>: \<open>persistence/leases.py\<close>, workers as a step relation with one live worker as invariant.
  \<^item> \<open>Ledger\<close>, \<open>ToolExecutor\<close>: \<open>persistence/execution_ledger.py\<close>, \<open>executor/tool_executor.py\<close>. An
    action executes at most once across crashes at any await, is authorized before every call, and
    an accepted one is replayed from its receipt.
  \<^item> \<open>Lifecycle\<close>, \<open>Board\<close>: \<open>persistence/application_lifecycle.py\<close>, \<open>domain/applications.py\<close>,
    \<open>apps/worker/stall_monitor.py\<close>. The event log explains every status; a requested change follows
    its external effect.
  \<^item> \<open>Workflows\<close>, \<open>Dispatcher\<close>, \<open>Drain\<close>: \<open>domain/workflow.py\<close>, \<open>persistence/workflow_commands.py\<close>,
    \<open>persistence/event_correlation.py\<close>, \<open>apps/api/routes/workflows.py\<close>, \<open>apps/worker/\<close>
    (\<open>workflow_commands.py\<close>, \<open>workflow_runner.py\<close>, \<open>event_routing.py\<close>, \<open>outbox_dispatcher.py\<close>). One
    answer per stop, graphs run under a lease, one command per event and workflow, and the drain
    loop ends.
  \<^item> \<open>StoredErrors\<close>, \<open>Failures\<close>: \<open>domain/failures.py\<close>, \<open>persistence/workflow_failures.py\<close>,
    \<open>persistence/event_failures.py\<close>, \<open>apps/api/routes/failures.py\<close>. What an error says survives its
    \<open>repr\<close>; a person's retries are bounded and an answer is never retried.
  \<^item> \<open>Postings\<close>, \<open>Matching\<close>, \<open>Discovery\<close>: the posting and match values of \<open>domain/job_search.py\<close>,
    \<open>retrieval/job_matching.py\<close>, and the nodes from \<open>load_search_profile\<close> to \<open>shortlist\<close>. What a search
    recommends is in the profile's bounds, grounded in evidence, and ranked without regard to the
    order of arrival.
  \<^item> \<open>Checkpoints\<close>: \<open>domain/checkpoints.py\<close>, \<open>persistence/pending_checkpoints.py\<close>,
    \<open>persistence/checkpoint_conditions.py\<close>, \<open>apps/worker/checkpoint_monitor.py\<close>. One wait per key, at
    most one run per wait however many monitors sweep, and a report that tells the truth.
  \<^item> \<open>Scheduling\<close>, \<open>Calendar\<close>: \<open>domain/interview_scheduling.py\<close>, \<open>executor/calendar.py\<close>, and the graph's
    calendar proposals and reminder. The slot search is optimal, a plan is sound, planning again
    after the writes asks for nothing, and a retried insert makes one event. The provider is the
    locale \<open>calendar_provider\<close>, interpreted on the in-memory calendar of the fixtures.
  \<^item> \<open>Correlation\<close>: \<open>domain/recruiter_events.py\<close>. A message is tied to an application only when it
    points at that one alone, by more than words, and moves it only when its meaning is clear.

  \<^bold>\<open>Conventions.\<close> A class is a record with an \<open>_init\<close> function for its validators, an enum a
  datatype, an exception a value of \<open>exn\<close> in the left of a sum. State is passed explicitly. What
  other processes commit between a read and a write is an argument of the operation (\<open>race\<close>,
  \<open>others\<close>), so a theorem about it holds for every interleaving; whole systems of processes are
  moves folded over a shared state. Ports of the program (graphs, providers, models, clocks,
  renderings, hashes) are parameters; what is assumed of one is a hypothesis or a locale. Times
  and floats are rationals, texts are ASCII.

  \<^bold>\<open>Bounds and fuel.\<close> \<open>CLAIM_RACE_RETRIES\<close> bounds the races one claim may lose and \<open>PARK_LIMIT\<close>
  the malformed rows it may put aside, both the code's own constants; the retry loops end by a measure on the budget left; the drain loop ends by \<open>left_over\<close>, the
  deliveries the outbox still allows; \<open>slot_loop\<close> takes the code's 500 steps, which
  \<open>the_latest_free_slot\<close> shows to suffice for any calendar with fewer bookings, each step passing one
  of them; sweeps and searches have the code's limits (\<open>DEFAULT_SWEEP_LIMIT\<close>,
  \<open>MAX_POSTINGS_PER_RUN\<close>, \<open>MAX_SHORTLIST_SIZE\<close>).

  \<^bold>\<open>Not modelled.\<close> Log lines, spans and the texts of messages to people; views and read-only
  queries; the LangGraph library and its checkpoint format, of which the status of a run is a
  parameter; calls to language models and their prompts; regular expressions over free text
  (deadlines, redaction); HTTP and MCP adapters; the composition root and the command line; the
  recorded recruiter events, artifacts, credentials and the tool gateway, which are left for later.
  An endpoint's own reads see one state.

  \<^bold>\<open>What modelling showed.\<close> Lemmas that state a behaviour the documentation denies or the code
  cannot want: \<open>Leases.takeover_misses_renewal\<close>, \<open>Rules.adding_an_allow_rule_loosens\<close>,
  \<open>Retry.capped_backoff_not_monotone\<close>, \<open>Lifecycle.stale_resume_moves_back\<close>,
  \<open>Workflows.an_old_answer_reaches_a_new_question\<close>,
  \<open>Drain.an_event_answers_the_run_it_started\<close>, \<open>Postings.a_skills_string_becomes_letters\<close>,
  \<open>Checkpoints.moving_back_loses_the_reminder\<close>, \<open>Checkpoints.a_closed_key_is_never_armed_again\<close>,
  \<open>Checkpoints.one_unanswered_condition_stops_the_sweep\<close>.
\<close>

end
